(* ===== verification/Zst_Prelude.thy ===== *)
theory Zst_Prelude
  imports Main "HOL-Library.Word" "HOL-Library.Sublist"
begin

text \<open>
  Shared vocabulary of the development: the fixed-width integer types of the C sources
  (\<open>stdint.h\<close>), the result codes of \<open>include/zst_types.h\<close>, the way HOL values stand for C
  strings in fixed-size character arrays, and the generic facts about lists, maps and words
  that the component theories share.  Facts that only unfold the arithmetic of C are kept in
  the collection \<open>zst_word\<close>.
\<close>

unbundle bit_operations_syntax

named_theorems zst_word \<open>facts on fixed-width words used across the components\<close>

type_synonym u8 = "8 word"
type_synonym u16 = "16 word"
type_synonym u32 = "32 word"
type_synonym u64 = "64 word"
type_synonym addr = nat
type_synonym zst_time = u64

section \<open>Result codes\<close>

datatype zst_result =
    ZST_OK | ZST_ERROR | ZST_TIMEOUT | ZST_AGAIN | ZST_EOF
  | ZST_ERROR_INVALID_ARGUMENT | ZST_ERROR_NOT_IMPLEMENTED

fun zst_result_code :: "zst_result \<Rightarrow> int" where
  "zst_result_code ZST_OK = 0"
| "zst_result_code ZST_ERROR = -1"
| "zst_result_code ZST_TIMEOUT = -2"
| "zst_result_code ZST_AGAIN = -3"
| "zst_result_code ZST_EOF = -4"
| "zst_result_code ZST_ERROR_INVALID_ARGUMENT = -5"
| "zst_result_code ZST_ERROR_NOT_IMPLEMENTED = -6"

section \<open>C strings in character arrays\<close>

text \<open>
  A C string is a HOL string without the terminating NUL.  \<open>c_strncpy n s\<close> is what a
  zero-initialised array of \<open>n + 1\<close> bytes holds, read as a C string, after
  \<open>strncpy(array, s, n)\<close>: at most \<open>n\<close> characters of \<open>s\<close>.
\<close>

definition c_strncpy :: "nat \<Rightarrow> string \<Rightarrow> string" where
  "c_strncpy n s = take n s"

lemma c_strncpy_length [simp]: "length (c_strncpy n s) \<le> n"
  by (simp add: c_strncpy_def)

lemma c_strncpy_id [simp]: "length s \<le> n \<Longrightarrow> c_strncpy n s = s"
  by (simp add: c_strncpy_def)

lemma c_strncpy_idem [simp]: "c_strncpy n (c_strncpy n s) = c_strncpy n s"
  by (simp add: c_strncpy_def)

lemma c_strncpy_Nil_iff [simp]: "0 < n \<Longrightarrow> c_strncpy n s = [] \<longleftrightarrow> s = []"
  by (simp add: c_strncpy_def)

section \<open>Lists\<close>

lemma find_SomeD: "find P xs = Some x \<Longrightarrow> x \<in> set xs \<and> P x"
  by (induction xs) (auto split: if_splits)

lemma find_None_all: "find P xs = None \<longleftrightarrow> (\<forall>x \<in> set xs. \<not> P x)"
  by (induction xs) auto

lemma prod_collapse3: "x = (fst x, fst (snd x), snd (snd x))"
  by simp

section \<open>Words\<close>

lemma unat_u8_lt [simp]: "unat (x :: u8) < 256"
  using unsigned_less [of x, where ?'a = nat] by simp

lemma unat_u16_lt [simp]: "unat (x :: u16) < 65536"
  using unsigned_less [of x, where ?'a = nat] by simp

lemma unat_of_nat_small [zst_word]:
  "n < 2 ^ LENGTH('a) \<Longrightarrow> unat (of_nat n :: 'a::len word) = n"
  by (simp add: unat_of_nat take_bit_nat_eq_self)

lemma word_of_nat_eq_iff_small [zst_word]:
  assumes "m < 2 ^ LENGTH('a)" and "n < 2 ^ LENGTH('a)"
  shows "(of_nat m :: 'a::len word) = of_nat n \<longleftrightarrow> m = n"
  using assms by (metis unat_of_nat_small)

text \<open>The masking \<open>x & (2\<^sup>k - 1)\<close> of the ring indices is the remainder modulo \<open>2\<^sup>k\<close>.\<close>

lemma unat_and_mask [zst_word]: "unat (x AND mask k) = unat x mod 2 ^ k"
  for x :: "'a::len word"
  by (simp flip: take_bit_eq_mask take_bit_eq_mod unsigned_take_bit_eq)

lemma unat_exp [zst_word]:
  assumes "n < LENGTH('a)"
  shows "unat (2 ^ n :: 'a::len word) = 2 ^ n"
proof -
  have "(2::nat) ^ n < 2 ^ LENGTH('a)" using assms by (rule power_strict_increasing) simp
  then show ?thesis using unat_of_nat_small [of "2 ^ n", where ?'a = 'a] by simp
qed

text \<open>A value in the signed range survives the way through a word read as two's complement.\<close>

lemma sint_of_int_small [zst_word]:
  assumes "- (2 ^ (LENGTH('a) - 1)) \<le> i" and "i < 2 ^ (LENGTH('a) - 1)"
  shows "sint (of_int i :: 'a::len word) = i"
  using assms by (simp add: sint_sbintrunc' signed_take_bit_int_eq_self)

lemma sint_of_nat_small [zst_word]:
  assumes "n < 2 ^ (LENGTH('a) - 1)"
  shows "sint (of_nat n :: 'a::len word) = int n"
proof -
  have "int n < 2 ^ (LENGTH('a) - 1)" using assms by (metis of_nat_less_iff of_nat_numeral of_nat_power)
  then have "sint (of_int (int n) :: 'a word) = int n"
    by (intro sint_of_int_small) (auto intro: order_trans [of _ 0])
  then show ?thesis by simp
qed

lemma sint_small [zst_word]:
  "unat x < 2 ^ (LENGTH('a) - 1) \<Longrightarrow> sint x = int (unat x)" for x :: "'a::len word"
  using sint_of_nat_small [of "unat x", where ?'a = 'a] by simp

lemma sint_minus_of_nat [zst_word]:
  assumes "n \<le> 2 ^ (LENGTH('a) - 1)"
  shows "sint (- of_nat n :: 'a::len word) = - int n"
proof -
  have "int n \<le> 2 ^ (LENGTH('a) - 1)" using assms by (metis of_nat_le_iff of_nat_numeral of_nat_power)
  then have "sint (of_int (- int n) :: 'a word) = - int n"
    by (intro sint_of_int_small) (auto intro: order_le_less_trans [of _ 0])
  then show ?thesis by simp
qed

lemma mod_add_inj:
  assumes "i < n" "j < n" "(a + i) mod n = (a + j) mod (n :: nat)"
  shows "i = j"
proof -
  have *: "i = j" if "i \<le> j" "j < n" "(a + j) mod n = (a + i) mod n" for i j
  proof -
    have "n dvd (a + j) - (a + i)" using that mod_eq_dvd_iff_nat [of "a + i" "a + j" n] by simp
    moreover have "j - i < n" using that by simp
    ultimately have "j - i = 0" using nat_dvd_not_less [of "j - i" n] by fastforce
    then show ?thesis using that by simp
  qed
  show ?thesis using * [of i j] * [of j i] assms by (cases "i \<le> j") auto
qed

end
