(* ===== verification/Zst_Buffer.thy ===== *)
theory Zst_Buffer
  imports Zst_Prelude
begin

text \<open>
  The C heap as the buffer code sees it, the CPU allocator of \<open>src/zst_allocator.c\<close> and the
  creation and reference counting of buffers (\<open>src/zst_buffer.c\<close>, \<open>include/zst_buffer.h\<close>).
  Releasing a buffer needs the pool it may belong to, so \<open>zst_buffer_unref\<close> follows in theory
  \<open>Zst_Buffer_Pool\<close>.

  A pointer is an address option with \<open>None\<close> for \<open>NULL\<close>.  The heap maps the address of every live
  block to its typed contents, so a leak is an address that stays in the heap, and a use of freed
  memory is a lookup that finds nothing.  Whether the n-th allocation of a run succeeds is an
  arbitrary function of the world: every out-of-memory branch of the code is a branch of the model,
  and the theorems hold for every pattern of failures.  Function pointers are names of the functions
  the code stores.
\<close>

section \<open>Heap cells\<close>

text \<open>
  \<open>struct zst_allocator\<close>: only its vtable decides what it does.  A zeroed allocator has no
  functions (\<open>Backend_None\<close>), \<open>zst_allocator_cpu_create\<close> installs the malloc based ones.
\<close>

datatype allocator_backend = Backend_None | Backend_CPU

record zst_allocator =
  a_refcount :: int
  a_backend :: allocator_backend

datatype zst_memory_type =
  ZST_MEMORY_CPU | ZST_MEMORY_DMABUF | ZST_MEMORY_CUDA | ZST_MEMORY_VULKAN | ZST_MEMORY_ONEAPI

datatype release_fn = Zst_buffer_alloc_release | User_release nat

record zst_memory =
  mem_type :: zst_memory_type
  mem_data :: "addr option"
  mem_size :: u64
  mem_priv :: "addr option"
  mem_release :: "release_fn option"

record zst_buffer =
  refcount :: int
  btype :: u32
  flags :: u32
  pts :: zst_time
  dts :: zst_time
  duration :: zst_time
  memory :: zst_memory
  payload :: "addr option"
  metadata :: "addr option"
  pool :: "addr option"
  destroy :: "nat option"

text \<open>\<open>zst_buffer_alloc_ctx_t\<close>, the private context of allocator backed memory.\<close>

record alloc_ctx =
  ctx_fd :: int
  ctx_allocator :: "addr option"
  ctx_ptr :: "addr option"

datatype watermark_level = ZST_POOL_WATERMARK_LOW | ZST_POOL_WATERMARK_HIGH

record pool_config =
  min_buffers :: nat
  max_buffers :: nat
  buffer_size :: u64
  buffer_type :: u32
  low_watermark :: nat
  high_watermark :: nat
  watermark_cb :: "nat option"

text \<open>
  \<open>struct zst_buffer_pool\<close>.  The entries \<open>buffers[0 .. count - 1]\<close> of the pointer array are the list
  \<open>idle\<close> (last entry first: it is used as a stack), so \<open>count\<close> is the length of \<open>idle\<close>; \<open>capacity\<close> is
  the number of pointers the array has room for and \<open>array\<close> the address of its block.
\<close>

record zst_buffer_pool =
  p_allocator :: "addr option"
  config :: pool_config
  array :: addr
  capacity :: nat
  idle :: "addr list"
  total_allocated :: nat
  generation :: u64
  active :: bool

datatype cell =
    Buffer zst_buffer
  | AllocCtx alloc_ctx
  | Allocator zst_allocator
  | Data u64
  | PtrArray nat
  | Pool zst_buffer_pool

datatype obs =
    Obs_release nat "addr option"
  | Obs_destroy nat addr
  | Obs_watermark nat addr watermark_level

record world =
  malloc_ok :: "nat \<Rightarrow> bool"
  attempts :: nat
  heap :: "addr \<rightharpoonup> cell"
  trace :: "obs list"

section \<open>The C allocation functions\<close>

text \<open>
  \<open>malloc\<close>, \<open>calloc\<close> and \<open>aligned_alloc\<close>: the block gets an address no earlier block had, so an
  address is never reused within a run.
\<close>

definition malloc :: "cell \<Rightarrow> world \<Rightarrow> addr option \<times> world" where
  "malloc c w =
     (let a = attempts w; w1 = w\<lparr>attempts := Suc a\<rparr>
      in if malloc_ok w a then (Some a, w1\<lparr>heap := (heap w)(a \<mapsto> c)\<rparr>) else (None, w1))"

definition free_addr :: "addr \<Rightarrow> world \<Rightarrow> world" where
  "free_addr a w = w\<lparr>heap := (heap w)(a := None)\<rparr>"

definition observe :: "obs \<Rightarrow> world \<Rightarrow> world" where
  "observe e w = w\<lparr>trace := trace w @ [e]\<rparr>"

definition get_buffer :: "world \<Rightarrow> addr \<Rightarrow> zst_buffer option" where
  "get_buffer w a = (case heap w a of Some (Buffer b) \<Rightarrow> Some b | _ \<Rightarrow> None)"

definition put_buffer :: "addr \<Rightarrow> zst_buffer \<Rightarrow> world \<Rightarrow> world" where
  "put_buffer a b w = w\<lparr>heap := (heap w)(a \<mapsto> Buffer b)\<rparr>"

definition fresh_heap :: "world \<Rightarrow> bool" where
  "fresh_heap w \<longleftrightarrow> (\<forall>a \<in> dom (heap w). a < attempts w)"

section \<open>Allocators\<close>

definition zst_allocator_ref :: "addr option \<Rightarrow> world \<Rightarrow> addr option \<times> world" where
  "zst_allocator_ref al w =
     (case al of None \<Rightarrow> (None, w)
      | Some a \<Rightarrow> (case heap w a of
            Some (Allocator r) \<Rightarrow>
              (Some a, w\<lparr>heap := (heap w)(a \<mapsto> Allocator (r\<lparr>a_refcount := a_refcount r + 1\<rparr>))\<rparr>)
          | _ \<Rightarrow> (Some a, w)))"

text \<open>\<open>cpu_destroy\<close> does nothing, so dropping the last reference only frees the structure.\<close>

definition zst_allocator_unref :: "addr option \<Rightarrow> world \<Rightarrow> world" where
  "zst_allocator_unref al w =
     (case al of None \<Rightarrow> w
      | Some a \<Rightarrow> (case heap w a of
            Some (Allocator r) \<Rightarrow>
              (let n = a_refcount r - 1
               in if n > 0 then w\<lparr>heap := (heap w)(a \<mapsto> Allocator (r\<lparr>a_refcount := n\<rparr>))\<rparr>
                  else free_addr a w)
          | _ \<Rightarrow> w))"

definition zst_allocator_alloc :: "addr option \<Rightarrow> u64 \<Rightarrow> world \<Rightarrow> addr option \<times> world" where
  "zst_allocator_alloc al sz w =
     (case al of None \<Rightarrow> (None, w)
      | Some a \<Rightarrow> (case heap w a of
            Some (Allocator r) \<Rightarrow>
              (case a_backend r of Backend_None \<Rightarrow> (None, w) | Backend_CPU \<Rightarrow> malloc (Data sz) w)
          | _ \<Rightarrow> (None, w)))"

definition zst_allocator_free :: "addr option \<Rightarrow> addr option \<Rightarrow> world \<Rightarrow> world" where
  "zst_allocator_free al p w =
     (case (al, p) of
        (Some a, Some d) \<Rightarrow> (case heap w a of
            Some (Allocator r) \<Rightarrow>
              (case a_backend r of Backend_None \<Rightarrow> w | Backend_CPU \<Rightarrow> free_addr d w)
          | _ \<Rightarrow> w)
      | _ \<Rightarrow> w)"

definition zst_allocator_cpu_create :: "world \<Rightarrow> addr option \<times> world" where
  "zst_allocator_cpu_create w = malloc (Allocator \<lparr>a_refcount = 1, a_backend = Backend_CPU\<rparr>) w"

section \<open>Buffers\<close>

definition zero_memory :: zst_memory where
  "zero_memory = \<lparr>mem_type = ZST_MEMORY_CPU, mem_data = None, mem_size = 0, mem_priv = None,
     mem_release = None\<rparr>"

definition zero_buffer :: "u32 \<Rightarrow> zst_buffer" where
  "zero_buffer ty = \<lparr>refcount = 1, btype = ty, flags = 0, pts = 0, dts = 0, duration = 0,
     memory = zero_memory, payload = None, metadata = None, pool = None, destroy = None\<rparr>"

definition zst_buffer_create :: "u32 \<Rightarrow> world \<Rightarrow> addr option \<times> world" where
  "zst_buffer_create ty w = malloc (Buffer (zero_buffer ty)) w"

text \<open>
  \<open>zst_allocator_dmabuf_get_fd\<close> answers -1 for every allocator whose functions are not the DMABUF
  ones, which is the case for both backends of the model; the test of the code on it is kept.
\<close>

definition dmabuf_get_fd :: "addr option \<Rightarrow> addr option \<Rightarrow> int" where
  "dmabuf_get_fd al p = -1"

definition zst_buffer_create_with_allocator ::
    "u32 \<Rightarrow> addr option \<Rightarrow> u64 \<Rightarrow> world \<Rightarrow> addr option \<times> world" where
  "zst_buffer_create_with_allocator ty al sz w =
     (case zst_buffer_create ty w of
        (None, w1) \<Rightarrow> (None, w1)
      | (Some b, w1) \<Rightarrow>
          if al \<noteq> None \<and> sz > 0 then
            (case zst_allocator_alloc al sz w1 of
               (None, w2) \<Rightarrow> (None, free_addr b w2)
             | (Some d, w2) \<Rightarrow>
                 (case malloc (AllocCtx \<lparr>ctx_fd = 0, ctx_allocator = None, ctx_ptr = None\<rparr>) w2 of
                    (None, w3) \<Rightarrow> (None, free_addr b (zst_allocator_free al (Some d) w3))
                  | (Some c, w3) \<Rightarrow>
                      (let (al', w4) = zst_allocator_ref al w3;
                           fd = dmabuf_get_fd al (Some d);
                           ctx = \<lparr>ctx_fd = fd, ctx_allocator = al', ctx_ptr = Some d\<rparr>;
                           w5 = w4\<lparr>heap := (heap w4)(c \<mapsto> AllocCtx ctx)\<rparr>;
                           m = \<lparr>mem_type = (if fd \<ge> 0 then ZST_MEMORY_DMABUF else ZST_MEMORY_CPU),
                                mem_data = Some d, mem_size = sz, mem_priv = Some c,
                                mem_release = Some Zst_buffer_alloc_release\<rparr>
                       in (Some b, put_buffer b ((zero_buffer ty)\<lparr>memory := m\<rparr>) w5))))
          else (Some b, w1))"

definition zst_buffer_ref :: "addr option \<Rightarrow> world \<Rightarrow> addr option \<times> world" where
  "zst_buffer_ref p w =
     (case p of None \<Rightarrow> (None, w)
      | Some a \<Rightarrow> (case get_buffer w a of
            Some b \<Rightarrow> (Some a, put_buffer a (b\<lparr>refcount := refcount b + 1\<rparr>) w)
          | None \<Rightarrow> (Some a, w)))"

text \<open>The release function of allocator backed memory.\<close>

definition zst_buffer_alloc_release :: "addr option \<Rightarrow> world \<Rightarrow> world" where
  "zst_buffer_alloc_release priv w =
     (case priv of None \<Rightarrow> w
      | Some c \<Rightarrow> (case heap w c of
            Some (AllocCtx ctx) \<Rightarrow>
              free_addr c
                (if ctx_allocator ctx \<noteq> None \<and> ctx_ptr ctx \<noteq> None
                 then zst_allocator_unref (ctx_allocator ctx)
                        (zst_allocator_free (ctx_allocator ctx) (ctx_ptr ctx) w)
                 else w)
          | _ \<Rightarrow> w))"

definition call_release :: "release_fn \<Rightarrow> addr option \<Rightarrow> world \<Rightarrow> world" where
  "call_release f priv w =
     (case f of Zst_buffer_alloc_release \<Rightarrow> zst_buffer_alloc_release priv w
      | User_release n \<Rightarrow> observe (Obs_release n priv) w)"

section \<open>Facts on the heap\<close>

lemmas heap_defs = malloc_def free_addr_def observe_def put_buffer_def get_buffer_def Let_def

lemmas allocator_defs = zst_allocator_ref_def zst_allocator_unref_def zst_allocator_alloc_def
  zst_allocator_free_def zst_allocator_cpu_create_def

lemma malloc_Some:
  "malloc c w = (Some a, w') \<Longrightarrow>
     a = attempts w \<and> heap w' = (heap w)(a \<mapsto> c) \<and> attempts w' = Suc a \<and>
     malloc_ok w' = malloc_ok w \<and> trace w' = trace w"
  by (auto simp: heap_defs split: if_splits)

lemma malloc_None:
  "malloc c w = (None, w') \<Longrightarrow>
     heap w' = heap w \<and> attempts w' = Suc (attempts w) \<and> malloc_ok w' = malloc_ok w \<and>
     trace w' = trace w"
  by (auto simp: heap_defs split: if_splits)

lemma fresh_heap_None: "fresh_heap w \<Longrightarrow> attempts w \<le> a \<Longrightarrow> heap w a = None"
  by (force simp: fresh_heap_def dom_def)

lemma get_buffer_heap: "get_buffer w a = Some b \<longleftrightarrow> heap w a = Some (Buffer b)"
  by (auto simp: get_buffer_def split: option.splits cell.splits)

lemma get_put_buffer [simp]:
  "get_buffer (put_buffer a b w) c = (if c = a then Some b else get_buffer w c)"
  by (simp add: heap_defs)

lemma put_buffer_simps [simp]:
  "heap (put_buffer a b w) = (heap w)(a \<mapsto> Buffer b)"
  "attempts (put_buffer a b w) = attempts w"
  "malloc_ok (put_buffer a b w) = malloc_ok w"
  "trace (put_buffer a b w) = trace w"
  by (simp_all add: put_buffer_def)

lemma free_addr_simps [simp]:
  "heap (free_addr a w) = (heap w)(a := None)"
  "attempts (free_addr a w) = attempts w"
  "malloc_ok (free_addr a w) = malloc_ok w"
  "trace (free_addr a w) = trace w"
  by (simp_all add: free_addr_def)

lemma observe_simps [simp]:
  "heap (observe e w) = heap w"
  "attempts (observe e w) = attempts w"
  "malloc_ok (observe e w) = malloc_ok w"
  "trace (observe e w) = trace w @ [e]"
  by (simp_all add: observe_def)

section \<open>Structures and the memory they point to\<close>

text \<open>
  Buffers, pools and pointer arrays are the structures the library itself owns; allocators, their
  contexts and the data blocks hang off them.  \<open>structs w\<close> is the part of the heap the pool code
  works on.  \<open>heap_ok\<close> says that addresses are handed out in order and that what a context points
  to is no structure, which keeps the release of one buffer away from all others.
\<close>

fun is_struct :: "cell \<Rightarrow> bool" where
  "is_struct (Buffer b) = True"
| "is_struct (PtrArray n) = True"
| "is_struct (Pool p) = True"
| "is_struct (AllocCtx c) = False"
| "is_struct (Allocator a) = False"
| "is_struct (Data n) = False"

definition structs :: "world \<Rightarrow> addr \<Rightarrow> cell option" where
  "structs w a = (case heap w a of Some c \<Rightarrow> if is_struct c then Some c else None | None \<Rightarrow> None)"

definition plain_ptr :: "world \<Rightarrow> addr option \<Rightarrow> bool" where
  "plain_ptr w p \<longleftrightarrow> (\<forall>a. p = Some a \<longrightarrow> a < attempts w \<and> structs w a = None)"

definition heap_ok :: "world \<Rightarrow> bool" where
  "heap_ok w \<longleftrightarrow> fresh_heap w \<and>
     (\<forall>c ctx. heap w c = Some (AllocCtx ctx) \<longrightarrow>
        plain_ptr w (ctx_ptr ctx) \<and> plain_ptr w (ctx_allocator ctx))"

lemma structs_Buffer: "structs w a = Some (Buffer b) \<longleftrightarrow> heap w a = Some (Buffer b)"
  by (auto simp: structs_def split: option.splits if_splits)

lemma structs_Pool: "structs w a = Some (Pool p) \<longleftrightarrow> heap w a = Some (Pool p)"
  by (auto simp: structs_def split: option.splits if_splits)

lemma structs_PtrArray: "structs w a = Some (PtrArray n) \<longleftrightarrow> heap w a = Some (PtrArray n)"
  by (auto simp: structs_def split: option.splits if_splits)

lemma structs_update:
  "structs (w\<lparr>heap := (heap w')(a \<mapsto> c)\<rparr>) =
     (structs w')(a := if is_struct c then Some c else None)"
  by (auto simp: structs_def fun_eq_iff)

lemma structs_put_buffer [simp]: "structs (put_buffer a b w) = (structs w)(a \<mapsto> Buffer b)"
  by (simp add: put_buffer_def structs_update)

lemma structs_free_addr [simp]: "structs (free_addr a w) = (structs w)(a := None)"
  by (auto simp: free_addr_def structs_def fun_eq_iff)

lemma structs_observe [simp]: "structs (observe e w) = structs w"
  by (auto simp: observe_def structs_def fun_eq_iff)

lemma heap_eq_structs: "heap w' = heap w \<Longrightarrow> structs w' = structs w"
  by (auto simp: structs_def fun_eq_iff)

lemma structs_attempts: "heap_ok w \<Longrightarrow> attempts w \<le> a \<Longrightarrow> structs w a = None"
  by (simp add: heap_ok_def structs_def fresh_heap_None)

lemma structs_less: "heap_ok w \<Longrightarrow> structs w a = Some c \<Longrightarrow> a < attempts w"
  using structs_attempts [of w a] by force

lemma plain_ptr_None [simp]: "plain_ptr w None"
  by (simp add: plain_ptr_def)

lemma heap_okI:
  assumes "fresh_heap w'"
    and "\<And>c ctx. heap w' c = Some (AllocCtx ctx) \<Longrightarrow>
           plain_ptr w' (ctx_ptr ctx) \<and> plain_ptr w' (ctx_allocator ctx)"
  shows "heap_ok w'"
  using assms by (simp add: heap_ok_def)

text \<open>Removing cells and updating structures in place keep \<open>heap_ok\<close>.\<close>

lemma heap_ok_free_addr [simp, intro]: "heap_ok w \<Longrightarrow> heap_ok (free_addr a w)"
  by (auto simp: heap_ok_def fresh_heap_def plain_ptr_def split: if_splits)

lemma heap_ok_observe [simp]: "heap_ok (observe e w) = heap_ok w"
  by (simp add: heap_ok_def fresh_heap_def plain_ptr_def)

lemma heap_ok_update:
  assumes "heap_ok w" and "a < attempts w" and "structs w a \<noteq> None \<or> \<not> is_struct c"
    and "\<And>ctx. c = AllocCtx ctx \<Longrightarrow> plain_ptr w (ctx_ptr ctx) \<and> plain_ptr w (ctx_allocator ctx)"
  shows "heap_ok (w\<lparr>heap := (heap w)(a \<mapsto> c)\<rparr>)"
  using assms
  by (auto simp: heap_ok_def fresh_heap_def plain_ptr_def structs_update split: if_splits)

lemma heap_ok_put_buffer [simp]:
  "heap_ok w \<Longrightarrow> structs w a \<noteq> None \<Longrightarrow> heap_ok (put_buffer a b w)"
  unfolding put_buffer_def by (rule heap_ok_update) (auto dest: structs_less)

lemma heap_ok_malloc:
  assumes "malloc c w = (r, w')" and "heap_ok w"
    and "\<And>ctx. c = AllocCtx ctx \<Longrightarrow> ctx_ptr ctx = None \<and> ctx_allocator ctx = None"
  shows "heap_ok w'"
proof (rule heap_okI)
  show "fresh_heap w'"
    using assms(1,2)
    by (auto simp: malloc_def Let_def heap_ok_def fresh_heap_def less_Suc_eq split: if_splits)
next
  fix a ctx assume a: "heap w' a = Some (AllocCtx ctx)"
  have keep: "plain_ptr w' p" if "plain_ptr w p" for p
    using that assms(1,2) structs_attempts [of w "attempts w"]
    by (auto simp: malloc_def Let_def plain_ptr_def structs_def less_Suc_eq split: if_splits)
  have "heap w a = Some (AllocCtx ctx) \<or> c = AllocCtx ctx"
    using a assms(1) by (auto simp: malloc_def Let_def split: if_splits)
  then have "plain_ptr w (ctx_ptr ctx) \<and> plain_ptr w (ctx_allocator ctx)"
    using assms(2,3) by (auto simp: heap_ok_def)
  then show "plain_ptr w' (ctx_ptr ctx) \<and> plain_ptr w' (ctx_allocator ctx)"
    by (simp add: keep)
qed

lemma structs_malloc:
  assumes "malloc c w = (r, w')"
  shows "structs w' = (case r of None \<Rightarrow> structs w
           | Some a \<Rightarrow> (structs w)(a := if is_struct c then Some c else None))"
  using assms by (auto simp: malloc_def Let_def structs_def fun_eq_iff split: if_splits)

section \<open>Allocator calls leave the structures alone\<close>

lemma plain_ptr_cong:
  "structs w' = structs w \<Longrightarrow> attempts w' = attempts w \<Longrightarrow> plain_ptr w' p = plain_ptr w p"
  by (simp add: plain_ptr_def)

lemma allocator_update_frame:
  assumes "heap w a = Some (Allocator r)"
  shows "structs (w\<lparr>heap := (heap w)(a \<mapsto> Allocator r')\<rparr>) = structs w"
    and "heap_ok w \<Longrightarrow> heap_ok (w\<lparr>heap := (heap w)(a \<mapsto> Allocator r')\<rparr>)"
    and "structs w a = None"
proof -
  show "structs (w\<lparr>heap := (heap w)(a \<mapsto> Allocator r')\<rparr>) = structs w"
    using assms by (auto simp: structs_def fun_eq_iff)
  show "structs w a = None"
    using assms by (simp add: structs_def)
  show "heap_ok (w\<lparr>heap := (heap w)(a \<mapsto> Allocator r')\<rparr>)" if ok: "heap_ok w"
  proof (rule heap_ok_update [OF ok])
    show "a < attempts w" using ok assms by (auto simp: heap_ok_def fresh_heap_def dom_def)
  qed simp_all
qed

lemma allocator_ref_frame:
  assumes "zst_allocator_ref al w = (r, w')"
  shows "structs w' = structs w" and "attempts w' = attempts w" and "heap_ok w \<Longrightarrow> heap_ok w'"
    and "r = al"
  using assms
  by (auto simp: zst_allocator_ref_def allocator_update_frame
      split: option.splits cell.splits if_splits)

lemma allocator_unref_frame:
  "structs (zst_allocator_unref al w) = structs w"
  "attempts (zst_allocator_unref al w) = attempts w"
  "heap_ok w \<Longrightarrow> heap_ok (zst_allocator_unref al w)"
  by (auto simp: zst_allocator_unref_def allocator_update_frame Let_def fun_upd_idem_iff
      split: option.splits cell.splits)

lemma allocator_free_frame:
  assumes "plain_ptr w p"
  shows "structs (zst_allocator_free al p w) = structs w"
    and "attempts (zst_allocator_free al p w) = attempts w"
    and "heap_ok w \<Longrightarrow> heap_ok (zst_allocator_free al p w)"
  using assms
  by (auto simp: zst_allocator_free_def plain_ptr_def fun_eq_iff
      split: option.splits cell.splits allocator_backend.splits)

lemma call_release_frame:
  assumes "heap_ok w"
  shows "structs (call_release f priv w) = structs w"
    and "attempts (call_release f priv w) = attempts w"
    and "heap_ok (call_release f priv w)"
proof -
  have plain: "plain_ptr w (ctx_ptr ctx)" if "heap w c = Some (AllocCtx ctx)" for c ctx
    using that assms by (simp add: heap_ok_def)
  have ctx: "structs w c = None" if "heap w c = Some (AllocCtx ctx)" for c ctx
    using that by (simp add: structs_def)
  show "structs (call_release f priv w) = structs w"
    "attempts (call_release f priv w) = attempts w" "heap_ok (call_release f priv w)"
    using assms
    by (auto simp: call_release_def zst_buffer_alloc_release_def fun_eq_iff allocator_unref_frame
        allocator_free_frame plain ctx split: release_fn.splits option.splits cell.splits)
qed

text \<open>
  What \<open>zst_buffer_create_with_allocator\<close> does to the structures: on success one new buffer at a
  fresh address, on failure nothing (the partial allocations are undone).
\<close>

lemma allocator_alloc_frame:
  assumes "zst_allocator_alloc al sz w = (r, w')" and "heap_ok w"
  shows "structs w' = structs w" and "heap_ok w'" and "attempts w \<le> attempts w'"
    and "r = Some d \<Longrightarrow> plain_ptr w' (Some d) \<and> attempts w \<le> d" and "plain_ptr w p \<Longrightarrow> plain_ptr w' p"
proof -
  have m: "structs w1 = structs w \<and> heap_ok w1 \<and> attempts w \<le> attempts w1 \<and>
      (\<forall>d. r1 = Some d \<longrightarrow> d = attempts w \<and> plain_ptr w1 (Some d)) \<and>
      (plain_ptr w p \<longrightarrow> plain_ptr w1 p)"
    if "malloc (Data n) w = (r1, w1)" for n r1 w1 p
    using that structs_malloc [OF that] heap_ok_malloc [OF that assms(2)] structs_attempts [OF assms(2)]
    by (auto simp: malloc_def Let_def plain_ptr_def fun_eq_iff less_Suc_eq split: if_splits)
  have "w' = w \<and> r = None \<or> malloc (Data sz) w = (r, w')"
    using assms(1) by (auto simp: zst_allocator_alloc_def
        split: option.splits cell.splits allocator_backend.splits)
  with assms(2) m show "structs w' = structs w" "heap_ok w'" "attempts w \<le> attempts w'"
    "r = Some d \<Longrightarrow> plain_ptr w' (Some d) \<and> attempts w \<le> d" "plain_ptr w p \<Longrightarrow> plain_ptr w' p"
    by (metis (no_types, lifting) order_refl option.distinct(1))+
qed

lemma buffer_create_simple_frame:
  assumes "zst_buffer_create ty w = (r, w')" and "heap_ok w"
  shows "heap_ok w'" and "attempts w' = Suc (attempts w)"
    and "r = None \<Longrightarrow> structs w' = structs w"
    and "r = Some b \<Longrightarrow> b = attempts w \<and> structs w' = (structs w)(b \<mapsto> Buffer (zero_buffer ty))"
  using heap_ok_malloc [OF assms(1) [unfolded zst_buffer_create_def] assms(2)]
    structs_malloc [OF assms(1) [unfolded zst_buffer_create_def]] assms(1)
  by (auto simp: zst_buffer_create_def malloc_def Let_def split: if_splits)

lemma buffer_create_memory_step:
  assumes w2: "heap_ok w2" "plain_ptr w2 (Some d)" "plain_ptr w2 al" "structs w2 b = Some (Buffer b0)"
    and c: "malloc (AllocCtx \<lparr>ctx_fd = 0, ctx_allocator = None, ctx_ptr = None\<rparr>) w2 = (Some c, w3)"
    and ref: "zst_allocator_ref al w3 = (al', w4)"
    and w5: "w5 = w4\<lparr>heap := (heap w4)(c \<mapsto> AllocCtx \<lparr>ctx_fd = fd, ctx_allocator = al', ctx_ptr = Some d\<rparr>)\<rparr>"
  shows "heap_ok (put_buffer b buf w5)" and "structs (put_buffer b buf w5) = (structs w2)(b \<mapsto> Buffer buf)"
    and "attempts w2 \<le> attempts w5"
proof -
  note m = malloc_Some [OF c] structs_malloc [OF c, simplified]
  have ok3: "heap_ok w3" by (rule heap_ok_malloc [OF c w2(1)]) auto
  have s3: "structs w3 = structs w2"
    using m structs_attempts [OF w2(1)] by (auto simp: fun_eq_iff)
  have pp: "plain_ptr w4 p" if "plain_ptr w2 p" for p
    using that m s3 allocator_ref_frame [OF ref] by (auto simp: plain_ptr_def)
  have s4: "structs w4 = structs w2" and ok4: "heap_ok w4" and a4: "attempts w4 = Suc (attempts w2)"
    using allocator_ref_frame [OF ref] s3 ok3 m by auto
  have c4: "structs w4 c = None" "c < attempts w4"
    using m a4 s4 structs_attempts [OF w2(1)] by auto
  have ok5: "heap_ok w5"
    unfolding w5 using allocator_ref_frame(4) [OF ref] pp w2(2,3)
    by (intro heap_ok_update [OF ok4]) (auto simp: c4)
  have s5: "structs w5 = structs w2"
    using c4 s4 by (auto simp: w5 structs_update fun_eq_iff)
  have "structs w5 b \<noteq> None" unfolding s5 w2(4) by simp
  with ok5 show "heap_ok (put_buffer b buf w5)" by (rule heap_ok_put_buffer)
  show "structs (put_buffer b buf w5) = (structs w2)(b \<mapsto> Buffer buf)" using s5 by simp
  show "attempts w2 \<le> attempts w5" using a4 by (simp add: w5)
qed

definition created_buffer ::
    "u32 \<Rightarrow> world \<Rightarrow> addr option \<Rightarrow> world \<Rightarrow> bool" where
  "created_buffer ty w r w' \<longleftrightarrow> heap_ok w' \<and> attempts w < attempts w' \<and>
    (case r of None \<Rightarrow> structs w' = structs w
     | Some b \<Rightarrow> b = attempts w \<and>
         (\<exists>m. structs w' = (structs w)(b \<mapsto> Buffer ((zero_buffer ty)\<lparr>memory := m\<rparr>))))"

lemma buffer_create_alloc_frame:
  assumes call: "zst_buffer_create_with_allocator ty al sz w = (r, w')"
    and ok: "heap_ok w" and al: "plain_ptr w al"
    and c1: "zst_buffer_create ty w = (Some b, w1)" and wanted: "al \<noteq> None \<and> sz > 0"
  shows "created_buffer ty w r w'"
proof -
  note f1 = buffer_create_simple_frame [OF c1 ok]
  note b = f1(4) [OF refl]
  obtain r2 w2 where c2: "zst_allocator_alloc al sz w1 = (r2, w2)" by fastforce
  note f2 = allocator_alloc_frame [OF c2 f1(1)]
  have al1: "plain_ptr w1 al" using al b f1(2) by (auto simp: plain_ptr_def)
  obtain r3 w3 where c3: "malloc (AllocCtx \<lparr>ctx_fd = 0, ctx_allocator = None, ctx_ptr = None\<rparr>) w2
    = (r3, w3)" by fastforce
  consider (no_data) "r2 = None" | (no_ctx) d where "r2 = Some d" "r3 = None"
    | (both) d c where "r2 = Some d" "r3 = Some c" by fastforce
  then show ?thesis
  proof cases
    case no_data
    then have "r = None" "w' = free_addr b w2"
      using c1 c2 call wanted by (auto simp: zst_buffer_create_with_allocator_def)
    with f1(1,2) f2(1-3) b structs_attempts [OF ok] show ?thesis by (auto simp: fun_eq_iff created_buffer_def)
  next
    case (no_ctx d)
    have w': "r = None" "w' = free_addr b (zst_allocator_free al (Some d) w3)"
      using c1 c2 c3 call wanted no_ctx by (auto simp: zst_buffer_create_with_allocator_def)
    have "plain_ptr w3 (Some d)" "heap_ok w3" "structs w3 = structs w2" "attempts w2 < attempts w3"
      using f2(2,4) no_ctx c3 malloc_None [of _ w2 w3] structs_malloc [OF c3]
        heap_ok_malloc [OF c3 f2(2)]
      by (auto simp: plain_ptr_def)
    with w' f1(1,2) f2(1-3) b structs_attempts [OF ok] show ?thesis
      by (auto simp: allocator_free_frame fun_eq_iff created_buffer_def)
  next
    case (both d c)
    obtain al' w4 where c4: "zst_allocator_ref al w3 = (al', w4)" by fastforce
    define w5 where "w5 = w4\<lparr>heap := (heap w4)(c \<mapsto> AllocCtx \<lparr>ctx_fd = -1, ctx_allocator = al',
      ctx_ptr = Some d\<rparr>)\<rparr>"
    define m where "m = \<lparr>mem_type = ZST_MEMORY_CPU, mem_data = Some d, mem_size = sz,
       mem_priv = Some c, mem_release = Some Zst_buffer_alloc_release\<rparr>"
    have w': "r = Some b" "w' = put_buffer b ((zero_buffer ty)\<lparr>memory := m\<rparr>) w5"
      using c1 c2 c3 c4 call wanted both
      by (auto simp: zst_buffer_create_with_allocator_def dmabuf_get_fd_def m_def w5_def)
    have d2: "plain_ptr w2 (Some d)" using f2(4) both by simp
    have b2: "structs w2 b = Some (Buffer (zero_buffer ty))" using f2(1) b by simp
    note s = buffer_create_memory_step [OF f2(2) d2 f2(5) [OF al1] b2 c3 [unfolded both] c4 w5_def]
    from s f1(1,2) f2(1-3) b w' show ?thesis by (auto simp: fun_eq_iff created_buffer_def)
  qed
qed

lemma buffer_create_frame:
  assumes call: "zst_buffer_create_with_allocator ty al sz w = (r, w')"
    and ok: "heap_ok w" and al: "plain_ptr w al"
  shows "created_buffer ty w r w'"
proof -
  obtain r1 w1 where c1: "zst_buffer_create ty w = (r1, w1)" by fastforce
  note f1 = buffer_create_simple_frame [OF c1 ok]
  consider (none) "r1 = None" | (plain) b where "r1 = Some b" "\<not> (al \<noteq> None \<and> sz > 0)"
    | (alloc) b where "r1 = Some b" "al \<noteq> None \<and> sz > 0" by blast
  then show ?thesis
  proof cases
    case none
    with c1 call f1 show ?thesis
      by (auto simp: zst_buffer_create_with_allocator_def created_buffer_def)
  next
    case (plain b)
    have "(zero_buffer ty)\<lparr>memory := zero_memory\<rparr> = zero_buffer ty" by (simp add: zero_buffer_def)
    moreover have "r = Some b" "w' = w1"
      using c1 call plain by (auto simp: zst_buffer_create_with_allocator_def)
    ultimately show ?thesis
      using f1(1,2) f1(4) [OF plain(1)]
      by (auto simp: created_buffer_def intro!: exI [of _ zero_memory])
  next
    case (alloc b)
    show ?thesis by (rule buffer_create_alloc_frame [OF call ok al c1 [unfolded alloc(1)] alloc(2)])
  qed
qed

end
