(* ===== verification/Zst_Buffer_Pool.thy ===== *)
theory Zst_Buffer_Pool
  imports Zst_Buffer
begin

text \<open>
  The buffer pool of \<open>src/zst_buffer_pool.c\<close> and \<open>zst_buffer_unref\<close> of \<open>src/zst_buffer.c\<close>, which
  recycles a pooled buffer through it.  Every operation runs under the pool's mutex, so it is one
  function of the world; the only point where an operation lets other threads in is the condition
  wait of \<open>zst_buffer_pool_acquire\<close>, whose wake-ups are an argument of the model.
\<close>

section \<open>Operations\<close>

definition get_pool :: "world \<Rightarrow> addr \<Rightarrow> zst_buffer_pool option" where
  "get_pool w a = (case heap w a of Some (Pool p) \<Rightarrow> Some p | _ \<Rightarrow> None)"

definition put_pool :: "addr \<Rightarrow> zst_buffer_pool \<Rightarrow> world \<Rightarrow> world" where
  "put_pool a p w = w\<lparr>heap := (heap w)(a \<mapsto> Pool p)\<rparr>"

text \<open>The normalisation of the limits that \<open>create\<close> and \<open>set_config\<close> both do.\<close>

definition normalize_config :: "pool_config \<Rightarrow> pool_config" where
  "normalize_config c =
     (let c1 = (if max_buffers c = 0 then c\<lparr>max_buffers := 32\<rparr> else c)
      in if min_buffers c1 > max_buffers c1 then c1\<lparr>min_buffers := max_buffers c1\<rparr> else c1)"

text \<open>A new buffer made with the pool's allocator and configuration.\<close>

definition pool_make_buffer :: "zst_buffer_pool \<Rightarrow> world \<Rightarrow> addr option \<times> world" where
  "pool_make_buffer p w =
     zst_buffer_create_with_allocator (buffer_type (config p)) (p_allocator p) (buffer_size (config p)) w"

text \<open>\<open>buf->pool = pool; pool->buffers[pool->count++] = buf; pool->total_allocated++\<close>\<close>

definition pool_store_new :: "addr \<Rightarrow> addr \<Rightarrow> world \<Rightarrow> world" where
  "pool_store_new pa b w =
     (case (get_pool w pa, get_buffer w b) of
        (Some p, Some buf) \<Rightarrow>
          put_pool pa (p\<lparr>idle := b # idle p, total_allocated := Suc (total_allocated p)\<rparr>)
            (put_buffer b (buf\<lparr>pool := Some pa\<rparr>) w)
      | _ \<Rightarrow> w)"

text \<open>
  The three allocation loops: \<open>create\<close> goes on after a failed allocation, \<open>prefill\<close> stops and
  \<open>set_config\<close> returns an error (the result is whether all allocations succeeded).  The first
  argument is the number of iterations the loop condition allows.
\<close>

fun pool_prealloc :: "nat \<Rightarrow> addr \<Rightarrow> world \<Rightarrow> world" where
  "pool_prealloc 0 pa w = w"
| "pool_prealloc (Suc n) pa w =
     (case get_pool w pa of None \<Rightarrow> w
      | Some p \<Rightarrow> (case pool_make_buffer p w of
            (Some b, w1) \<Rightarrow> pool_prealloc n pa (pool_store_new pa b w1)
          | (None, w1) \<Rightarrow> pool_prealloc n pa w1))"

fun pool_grow :: "nat \<Rightarrow> addr \<Rightarrow> world \<Rightarrow> bool \<times> world" where
  "pool_grow 0 pa w = (True, w)"
| "pool_grow (Suc n) pa w =
     (case get_pool w pa of None \<Rightarrow> (False, w)
      | Some p \<Rightarrow> (case pool_make_buffer p w of
            (Some b, w1) \<Rightarrow> pool_grow n pa (pool_store_new pa b w1)
          | (None, w1) \<Rightarrow> (False, w1)))"

definition zst_buffer_pool_create ::
    "addr option \<Rightarrow> pool_config option \<Rightarrow> world \<Rightarrow> addr option \<times> world" where
  "zst_buffer_pool_create al cfg w =
     (case cfg of None \<Rightarrow> (None, w)
      | Some c0 \<Rightarrow>
          (let c = normalize_config c0;
               zero = \<lparr>p_allocator = None, config = c0, array = 0, capacity = 0, idle = [],
                       total_allocated = 0, generation = 0, active = False\<rparr>
           in case malloc (Pool zero) w of
                (None, w1) \<Rightarrow> (None, w1)
              | (Some pa, w1) \<Rightarrow>
                  (let (al', w2) = (if al \<noteq> None then zst_allocator_ref al w1
                                    else zst_allocator_cpu_create w1)
                   in case malloc (PtrArray (max_buffers c)) w2 of
                        (None, w3) \<Rightarrow> (None, free_addr pa (zst_allocator_unref al' w3))
                      | (Some arr, w3) \<Rightarrow>
                          (Some pa,
                           pool_prealloc (min_buffers c) pa
                             (put_pool pa (zero\<lparr>p_allocator := al', config := c, array := arr,
                                capacity := max_buffers c, generation := 1, active := True\<rparr>) w3)))))"

text \<open>Taking a buffer out of the pool's hands and freeing it, shared by four operations.\<close>

definition discard_buffer :: "addr \<Rightarrow> world \<Rightarrow> world" where
  "discard_buffer b w =
     (case get_buffer w b of None \<Rightarrow> w
      | Some buf \<Rightarrow>
          (let w1 = put_buffer b (buf\<lparr>pool := None\<rparr>) w;
               m = memory buf;
               w2 = (case mem_release m of
                       Some f \<Rightarrow> if mem_priv m \<noteq> None then call_release f (mem_priv m) w1 else w1
                     | None \<Rightarrow> w1);
               w3 = (case destroy buf of Some d \<Rightarrow> observe (Obs_destroy d b) w2 | None \<Rightarrow> w2)
           in free_addr b w3))"

definition pool_free :: "addr \<Rightarrow> zst_buffer_pool \<Rightarrow> world \<Rightarrow> world" where
  "pool_free pa p w = free_addr pa (zst_allocator_unref (p_allocator p) (free_addr (array p) w))"

definition fire_watermark :: "addr \<Rightarrow> pool_config \<Rightarrow> watermark_level \<Rightarrow> bool \<Rightarrow> world \<Rightarrow> world" where
  "fire_watermark pa c lvl hit w =
     (case watermark_cb c of
        Some cb \<Rightarrow> if hit then observe (Obs_watermark cb pa lvl) w else w
      | None \<Rightarrow> w)"

datatype 'a call = Done zst_result 'a | Blocked

text \<open>
  The wake-ups of the condition variable: what the other threads did to the world while this thread
  waited, and whether the wait returned an error (a timeout).  A call whose wake-ups run out is
  blocked.
\<close>

type_synonym wakeup = "(world \<Rightarrow> world) \<times> bool"

fun zst_buffer_pool_acquire ::
    "addr option \<Rightarrow> int \<Rightarrow> bool \<Rightarrow> wakeup list \<Rightarrow> world \<Rightarrow> addr option call \<times> world" where
  "zst_buffer_pool_acquire None t nonblock env w = (Done ZST_ERROR None, w)"
| "zst_buffer_pool_acquire (Some pa) t nonblock env w =
     (case get_pool w pa of None \<Rightarrow> (Done ZST_ERROR None, w)
      | Some p \<Rightarrow>
          if active p \<and> idle p = [] then
            (case (if total_allocated p < max_buffers (config p) then pool_make_buffer p w
                   else (None, w)) of
               (Some b, w1) \<Rightarrow>
                 (Done ZST_OK (Some b),
                  put_pool pa (p\<lparr>total_allocated := Suc (total_allocated p)\<rparr>)
                    (case get_buffer w1 b of
                       Some buf \<Rightarrow> put_buffer b (buf\<lparr>pool := Some pa\<rparr>) w1 | None \<Rightarrow> w1))
             | (None, w1) \<Rightarrow>
                 if nonblock then (Done ZST_TIMEOUT None, w1)
                 else if t = 0 then (Done ZST_TIMEOUT None, w1)
                 else (case env of [] \<Rightarrow> (Blocked, w1)
                       | (step, err) # env' \<Rightarrow>
                           if t > 0 \<and> err then (Done ZST_TIMEOUT None, step w1)
                           else zst_buffer_pool_acquire (Some pa) t nonblock env' (step w1)))
          else if \<not> active p then (Done ZST_ERROR None, w)
          else (case get_buffer w (hd (idle p)) of
                  None \<Rightarrow> (Done ZST_ERROR None, w)
                | Some buf \<Rightarrow>
                    (let b = hd (idle p);
                         p1 = p\<lparr>idle := tl (idle p)\<rparr>;
                         buf1 = buf\<lparr>memory := (memory buf)\<lparr>mem_size := buffer_size (config p)\<rparr>,
                                    refcount := 1\<rparr>;
                         w1 = put_pool pa p1 (put_buffer b buf1 w)
                     in (Done ZST_OK (Some b),
                         fire_watermark pa (config p) ZST_POOL_WATERMARK_LOW
                           (length (idle p1) = low_watermark (config p)) w1))))"

definition zst_buffer_pool_release :: "addr option \<Rightarrow> addr option \<Rightarrow> world \<Rightarrow> world" where
  "zst_buffer_pool_release po bo w =
     (case (po, bo) of
        (Some pa, Some b) \<Rightarrow>
          (case (get_pool w pa, get_buffer w b) of
             (Some p, Some buf) \<Rightarrow>
               (let buf1 = buf\<lparr>pts := 0, dts := 0, duration := 0, flags := 0\<rparr>;
                    w1 = put_buffer b buf1 w
                in if active p \<and> length (idle p) < max_buffers (config p) then
                     (let p1 = p\<lparr>idle := b # idle p\<rparr>
                      in fire_watermark pa (config p) ZST_POOL_WATERMARK_HIGH
                           (length (idle p1) = high_watermark (config p)) (put_pool pa p1 w1))
                   else
                     (let w2 = discard_buffer b w1;
                          p1 = p\<lparr>total_allocated := total_allocated p - 1\<rparr>;
                          w3 = put_pool pa p1 w2
                      in if \<not> active p1 \<and> total_allocated p1 = 0 then pool_free pa p1 w3 else w3))
           | _ \<Rightarrow> w)
      | _ \<Rightarrow> w)"

text \<open>Popping the top idle buffer and discarding it: the loop body of \<open>set_config\<close> and \<open>drain\<close>.\<close>

definition pool_discard_top :: "addr \<Rightarrow> world \<Rightarrow> world" where
  "pool_discard_top pa w =
     (case get_pool w pa of None \<Rightarrow> w
      | Some p \<Rightarrow> (case idle p of [] \<Rightarrow> w
          | b # bs \<Rightarrow>
              put_pool pa (p\<lparr>idle := bs, total_allocated := total_allocated p - 1\<rparr>)
                (discard_buffer b w)))"

fun pool_discard_n :: "nat \<Rightarrow> addr \<Rightarrow> world \<Rightarrow> world" where
  "pool_discard_n 0 pa w = w"
| "pool_discard_n (Suc n) pa w = pool_discard_n n pa (pool_discard_top pa w)"

definition zst_buffer_pool_destroy :: "addr option \<Rightarrow> world \<Rightarrow> world" where
  "zst_buffer_pool_destroy po w =
     (case po of None \<Rightarrow> w
      | Some pa \<Rightarrow> (case get_pool w pa of None \<Rightarrow> w
          | Some p \<Rightarrow>
              (let w1 = fold discard_buffer (rev (idle p)) w;
                   p1 = p\<lparr>active := False, idle := [],
                          total_allocated := total_allocated p - length (idle p)\<rparr>;
                   w2 = put_pool pa p1 w1
               in if total_allocated p1 = 0 then pool_free pa p1 w2 else w2)))"

text \<open>
  The second part of \<open>set_config\<close>, after the surplus idle buffers are gone: resize the array when
  the maximum changed, store the configuration, and allocate up to the new minimum.
\<close>

definition pool_apply_config :: "addr \<Rightarrow> pool_config \<Rightarrow> world \<Rightarrow> zst_result \<times> world" where
  "pool_apply_config pa c w1 =
     (case get_pool w1 pa of None \<Rightarrow> (ZST_ERROR, w1)
      | Some p1 \<Rightarrow>
          (case (if max_buffers c \<noteq> max_buffers (config p1)
                 then malloc (PtrArray (max_buffers c)) w1
                 else (Some (array p1), w1)) of
             (None, w2) \<Rightarrow> (ZST_ERROR, w2)
           | (Some arr, w2) \<Rightarrow>
               (let w3 = (if max_buffers c \<noteq> max_buffers (config p1)
                          then free_addr (array p1) w2 else w2);
                    p2 = p1\<lparr>array := arr, capacity := max_buffers c, config := c,
                            generation := generation p1 + 1\<rparr>;
                    n = (if active p2 then min_buffers c - total_allocated p2 else 0);
                    (ok, w5) = pool_grow n pa (put_pool pa p2 w3)
                in (if ok then ZST_OK else ZST_ERROR, w5))))"

definition zst_buffer_pool_set_config ::
    "addr option \<Rightarrow> pool_config option \<Rightarrow> world \<Rightarrow> zst_result \<times> world" where
  "zst_buffer_pool_set_config po cfg w =
     (case (po, cfg) of
        (Some pa, Some c0) \<Rightarrow>
          (case get_pool w pa of None \<Rightarrow> (ZST_ERROR, w)
           | Some p \<Rightarrow>
               (let c = normalize_config c0
                in pool_apply_config pa c
                     (pool_discard_n (length (idle p) - max_buffers c) pa w)))
      | _ \<Rightarrow> (ZST_ERROR, w))"

definition zst_buffer_pool_prefill :: "addr option \<Rightarrow> world \<Rightarrow> world" where
  "zst_buffer_pool_prefill po w =
     (case po of None \<Rightarrow> w
      | Some pa \<Rightarrow> (case get_pool w pa of None \<Rightarrow> w
          | Some p \<Rightarrow>
              if \<not> active p then w
              else snd (pool_grow (max_buffers (config p) - total_allocated p) pa w)))"

text \<open>The loop of \<open>drain\<close> stops at an empty idle list or when \<open>min_buffers\<close> buffers are left.\<close>

definition zst_buffer_pool_drain :: "addr option \<Rightarrow> world \<Rightarrow> world" where
  "zst_buffer_pool_drain po w =
     (case po of None \<Rightarrow> w
      | Some pa \<Rightarrow> (case get_pool w pa of None \<Rightarrow> w
          | Some p \<Rightarrow>
              if \<not> active p then w
              else pool_discard_n
                     (min (length (idle p)) (total_allocated p - min_buffers (config p))) pa w))"

definition zst_buffer_pool_get_config :: "addr option \<Rightarrow> world \<Rightarrow> pool_config" where
  "zst_buffer_pool_get_config po w =
     (case Option.bind po (get_pool w) of
        None \<Rightarrow> \<lparr>min_buffers = 0, max_buffers = 0, buffer_size = 0, buffer_type = 0,
                 low_watermark = 0, high_watermark = 0, watermark_cb = None\<rparr>
      | Some p \<Rightarrow> config p)"

definition zst_buffer_pool_get_generation :: "addr option \<Rightarrow> world \<Rightarrow> u64" where
  "zst_buffer_pool_get_generation po w =
     (case Option.bind po (get_pool w) of None \<Rightarrow> 0 | Some p \<Rightarrow> generation p)"

definition zst_buffer_create_with_pool :: "addr option \<Rightarrow> world \<Rightarrow> addr option \<times> world" where
  "zst_buffer_create_with_pool po w =
     (case po of None \<Rightarrow> (None, w)
      | Some pa \<Rightarrow> (case zst_buffer_pool_acquire (Some pa) 0 False [] w of
            (Done ZST_OK b, w1) \<Rightarrow> (b, w1)
          | (_, w1) \<Rightarrow> (None, w1)))"

definition zst_buffer_unref :: "addr option \<Rightarrow> world \<Rightarrow> world" where
  "zst_buffer_unref p w =
     (case p of None \<Rightarrow> w
      | Some a \<Rightarrow> (case get_buffer w a of None \<Rightarrow> w
          | Some b \<Rightarrow>
              (let w1 = put_buffer a (b\<lparr>refcount := refcount b - 1\<rparr>) w
               in if refcount b = 1 then
                    (if pool b \<noteq> None then zst_buffer_pool_release (pool b) (Some a) w1
                     else
                       (let m = memory b;
                            w2 = (case mem_release m of
                                    Some f \<Rightarrow> if mem_data m \<noteq> None
                                              then call_release f (mem_priv m) w1 else w1
                                  | None \<Rightarrow> w1);
                            w3 = (case destroy b of Some d \<Rightarrow> observe (Obs_destroy d a) w2
                                  | None \<Rightarrow> w2)
                        in free_addr a w3))
                  else w1)))"

section \<open>The pool invariant\<close>

text \<open>
  \<open>pool_ok pa p out w\<close>: the pool \<open>p\<close> at address \<open>pa\<close> accounts for exactly its idle buffers and the
  buffers \<open>out\<close> it has handed out; the idle buffers fit the pointer array, whose size is the
  configured maximum; every one of these buffers is a live buffer that points back to the pool.
\<close>

definition pool_buffer :: "world \<Rightarrow> addr \<Rightarrow> addr \<Rightarrow> bool" where
  "pool_buffer w pa b \<longleftrightarrow> (\<exists>buf. structs w b = Some (Buffer buf) \<and> pool buf = Some pa)"

definition pool_ok :: "addr \<Rightarrow> zst_buffer_pool \<Rightarrow> addr set \<Rightarrow> world \<Rightarrow> bool" where
  "pool_ok pa p out w \<longleftrightarrow>
     finite out \<and> distinct (idle p) \<and> set (idle p) \<inter> out = {} \<and>
     total_allocated p = length (idle p) + card out \<and>
     length (idle p) \<le> capacity p \<and> capacity p = max_buffers (config p) \<and>
     min_buffers (config p) \<le> max_buffers (config p) \<and>
     structs w (array p) = Some (PtrArray (capacity p)) \<and> plain_ptr w (p_allocator p) \<and>
     (\<forall>b \<in> set (idle p) \<union> out. pool_buffer w pa b)"

definition pool_inv :: "addr \<Rightarrow> addr set \<Rightarrow> world \<Rightarrow> bool" where
  "pool_inv pa out w \<longleftrightarrow> heap_ok w \<and> (\<exists>p. structs w pa = Some (Pool p) \<and> pool_ok pa p out w)"

lemma get_pool_structs: "get_pool w a = Some p \<longleftrightarrow> structs w a = Some (Pool p)"
  by (auto simp: get_pool_def structs_Pool split: option.splits cell.splits)

lemma get_buffer_structs: "get_buffer w a = Some b \<longleftrightarrow> structs w a = Some (Buffer b)"
  by (simp add: get_buffer_heap structs_Buffer)

lemma get_from_structs [simp]:
  "structs w a = Some (Pool p) \<Longrightarrow> get_pool w a = Some p"
  "structs w a = Some (Buffer b) \<Longrightarrow> get_buffer w a = Some b"
  by (simp_all add: get_pool_structs get_buffer_structs)

lemma structs_put_pool [simp]: "structs (put_pool a p w) = (structs w)(a \<mapsto> Pool p)"
  by (simp add: put_pool_def structs_update)

lemma put_pool_simps [simp]:
  "attempts (put_pool a p w) = attempts w" "trace (put_pool a p w) = trace w"
  by (simp_all add: put_pool_def)

lemma heap_ok_put_pool [simp]:
  "heap_ok w \<Longrightarrow> structs w a \<noteq> None \<Longrightarrow> heap_ok (put_pool a p w)"
  unfolding put_pool_def by (rule heap_ok_update) (auto dest: structs_less)

lemma fire_watermark_frame [simp]:
  "structs (fire_watermark pa c l hit w) = structs w"
  "attempts (fire_watermark pa c l hit w) = attempts w"
  "heap_ok (fire_watermark pa c l hit w) = heap_ok w"
  by (simp_all add: fire_watermark_def split: option.splits)

lemma pool_inv_fire_watermark [simp]:
  "pool_inv pa' out (fire_watermark pa c l hit w) = pool_inv pa' out w"
  by (simp add: pool_inv_def pool_ok_def pool_buffer_def plain_ptr_def)

lemma normalize_config_limits:
  "min_buffers (normalize_config c) \<le> max_buffers (normalize_config c)"
  "0 < max_buffers (normalize_config c)"
  by (auto simp: normalize_config_def Let_def)

text \<open>Discarding a buffer removes exactly that structure.\<close>

lemma discard_buffer_frame:
  assumes "heap_ok w" and "structs w b = Some (Buffer buf)"
  shows "structs (discard_buffer b w) = (structs w)(b := None)"
    and "attempts (discard_buffer b w) = attempts w" and "heap_ok (discard_buffer b w)"
proof -
  have gb: "get_buffer w b = Some buf" using assms(2) by (simp only: get_buffer_structs)
  have ok1: "heap_ok (put_buffer b (buf\<lparr>pool := None\<rparr>) w)"
    using assms by (intro heap_ok_put_buffer) (simp_all only:, simp)
  note rel = call_release_frame [OF ok1]
  show "structs (discard_buffer b w) = (structs w)(b := None)"
    "attempts (discard_buffer b w) = attempts w" "heap_ok (discard_buffer b w)"
    using rel ok1 by (auto simp: discard_buffer_def gb Let_def fun_eq_iff split: option.splits)
qed

lemma pool_ok_plainD: "pool_ok pa p out w \<Longrightarrow> plain_ptr w (p_allocator p)"
  by (simp add: pool_ok_def)

lemma pool_ok_bufferD:
  "pool_ok pa p out w \<Longrightarrow> b \<in> set (idle p) \<or> b \<in> out \<Longrightarrow>
   \<exists>buf. structs w b = Some (Buffer buf) \<and> pool buf = Some pa"
  unfolding pool_ok_def pool_buffer_def by blast

lemma pool_ok_disjoint:
  assumes "pool_ok pa p out w" and "structs w pa = Some (Pool p)"
  shows "pa \<notin> set (idle p)" "pa \<notin> out" "array p \<notin> set (idle p)" "array p \<notin> out" "array p \<noteq> pa"
  using assms pool_ok_bufferD [OF assms(1)] by (fastforce simp: pool_ok_def)+

text \<open>The next two lemmas carry all operations that add or remove a buffer.\<close>

lemma pool_inv_add_idle:
  assumes inv: "heap_ok w" "structs w pa = Some (Pool p)" "pool_ok pa p out w"
    and mk: "pool_make_buffer p w = (Some b, w1)" and room: "length (idle p) < capacity p"
  shows "pool_inv pa out (pool_store_new pa b w1)"
    and "get_pool (pool_store_new pa b w1) pa =
           Some (p\<lparr>idle := b # idle p, total_allocated := Suc (total_allocated p)\<rparr>)"
proof -
  have "created_buffer (buffer_type (config p)) w (Some b) w1"
    using buffer_create_frame [OF mk [unfolded pool_make_buffer_def] inv(1) pool_ok_plainD [OF inv(3)]] .
  then obtain m where b: "b = attempts w" and ok1: "heap_ok w1" and at: "attempts w < attempts w1"
    and s1: "structs w1 = (structs w)(b \<mapsto> Buffer ((zero_buffer (buffer_type (config p)))\<lparr>memory := m\<rparr>))"
    by (auto simp: created_buffer_def)
  have old: "a < attempts w" if "structs w a = Some c" for a c
    using structs_less [OF inv(1) that] .
  have pa1: "structs w1 pa = Some (Pool p)" using old [OF inv(2)] inv(2) s1 b by simp
  have new: "b \<notin> set (idle p) \<union> out" using inv(3) old b by (fastforce simp: pool_ok_def pool_buffer_def)
  have store: "pool_store_new pa b w1 =
      put_pool pa (p\<lparr>idle := b # idle p, total_allocated := Suc (total_allocated p)\<rparr>)
        (put_buffer b ((zero_buffer (buffer_type (config p)))\<lparr>memory := m, pool := Some pa\<rparr>) w1)"
    using pa1 s1 by (simp add: pool_store_new_def)
  show "get_pool (pool_store_new pa b w1) pa =
      Some (p\<lparr>idle := b # idle p, total_allocated := Suc (total_allocated p)\<rparr>)"
    by (simp add: store)
  have "pa \<noteq> b" "array p \<noteq> b" "array p \<noteq> pa"
    using old [of pa] old [of "array p"] inv(2,3) b by (auto simp: pool_ok_def)
  with pool_ok_disjoint [OF inv(3,2)] inv(3) b new room ok1 s1 at pa1 inv(2) show "pool_inv pa out (pool_store_new pa b w1)"
    unfolding store by (auto simp: pool_inv_def pool_ok_def pool_buffer_def plain_ptr_def)
qed

lemma pool_make_buffer_failed:
  assumes "pool_make_buffer p w = (None, w1)" "heap_ok w" "pool_ok pa p out w"
  shows "heap_ok w1" and "structs w1 = structs w" and "attempts w < attempts w1"
    and "pool_ok pa p out w1"
proof -
  have "created_buffer (buffer_type (config p)) w None w1"
    using buffer_create_frame [OF assms(1) [unfolded pool_make_buffer_def] assms(2)
        pool_ok_plainD [OF assms(3)]] .
  then show "heap_ok w1" "structs w1 = structs w" "attempts w < attempts w1" "pool_ok pa p out w1"
    using assms(3) by (auto simp: created_buffer_def pool_ok_def pool_buffer_def plain_ptr_def)
qed

lemma pool_inv_get: "pool_inv pa out w \<Longrightarrow> \<exists>p. get_pool w pa = Some p \<and> pool_ok pa p out w \<and>
    structs w pa = Some (Pool p) \<and> heap_ok w"
  by (auto simp: pool_inv_def)

lemma pool_grow_inv:
  "pool_inv pa out w \<Longrightarrow> get_pool w pa = Some p \<Longrightarrow>
   n \<le> max_buffers (config p) - total_allocated p \<Longrightarrow> pool_grow n pa w = (ok, w') \<Longrightarrow>
   pool_inv pa out w'"
proof (induction n arbitrary: w p)
  case 0
  then show ?case by simp
next
  case (Suc n)
  have inv: "heap_ok w" "structs w pa = Some (Pool p)" "pool_ok pa p out w"
    using pool_inv_get [OF Suc.prems(1)] Suc.prems(2) by auto
  obtain r w1 where mk: "pool_make_buffer p w = (r, w1)" by fastforce
  show ?case
  proof (cases r)
    case None
    with mk Suc.prems pool_make_buffer_failed [OF mk [unfolded None] inv(1,3)] inv(2) show ?thesis
      by (auto simp: pool_inv_def)
  next
    case (Some b)
    have room: "length (idle p) < capacity p"
      using inv(3) Suc.prems(3) by (auto simp: pool_ok_def)
    note add = pool_inv_add_idle [OF inv mk [unfolded Some] room]
    show ?thesis
      by (rule Suc.IH [OF add]) (use Suc.prems mk Some in auto)
  qed
qed

lemma pool_prealloc_inv:
  "pool_inv pa out w \<Longrightarrow> get_pool w pa = Some p \<Longrightarrow>
   n \<le> max_buffers (config p) - total_allocated p \<Longrightarrow> pool_inv pa out (pool_prealloc n pa w)"
proof (induction n arbitrary: w p)
  case 0
  then show ?case by simp
next
  case (Suc n)
  have inv: "heap_ok w" "structs w pa = Some (Pool p)" "pool_ok pa p out w"
    using pool_inv_get [OF Suc.prems(1)] Suc.prems(2) by auto
  obtain r w1 where mk: "pool_make_buffer p w = (r, w1)" by fastforce
  show ?case
  proof (cases r)
    case None
    note f = pool_make_buffer_failed [OF mk [unfolded None] inv(1,3)]
    have "pool_inv pa out w1" "get_pool w1 pa = Some p" using f inv(2) by (auto simp: pool_inv_def)
    then have "pool_inv pa out (pool_prealloc n pa w1)"
      by (rule Suc.IH) (use Suc.prems in auto)
    with mk None Suc.prems show ?thesis by simp
  next
    case (Some b)
    have room: "length (idle p) < capacity p"
      using inv(3) Suc.prems(3) by (auto simp: pool_ok_def)
    note add = pool_inv_add_idle [OF inv mk [unfolded Some] room]
    have "pool_inv pa out (pool_prealloc n pa (pool_store_new pa b w1))"
      by (rule Suc.IH [OF add]) (use Suc.prems in auto)
    with mk Some Suc.prems show ?thesis by simp
  qed
qed

lemma pool_discard_top_inv:
  assumes "pool_inv pa out w" and "get_pool w pa = Some p" and "idle p = b # bs"
  shows "pool_inv pa out (pool_discard_top pa w)"
    and "get_pool (pool_discard_top pa w) pa =
           Some (p\<lparr>idle := bs, total_allocated := total_allocated p - 1\<rparr>)"
proof -
  have inv: "heap_ok w" "structs w pa = Some (Pool p)" "pool_ok pa p out w"
    using pool_inv_get [OF assms(1)] assms(2) by auto
  obtain buf where buf: "structs w b = Some (Buffer buf)"
    using inv(3) assms(3) by (auto simp: pool_ok_def pool_buffer_def)
  note d = discard_buffer_frame [OF inv(1) buf]
  have eq: "pool_discard_top pa w =
      put_pool pa (p\<lparr>idle := bs, total_allocated := total_allocated p - 1\<rparr>) (discard_buffer b w)"
    using assms(2,3) by (simp add: pool_discard_top_def)
  show "get_pool (pool_discard_top pa w) pa =
      Some (p\<lparr>idle := bs, total_allocated := total_allocated p - 1\<rparr>)"
    by (simp add: eq)
  have "b \<noteq> pa" "b \<noteq> array p" "pa \<noteq> array p" using buf inv(2,3) by (auto simp: pool_ok_def)
  with pool_ok_disjoint [OF inv(3,2)] d inv assms(3) buf
  show "pool_inv pa out (pool_discard_top pa w)"
    by (auto simp: eq pool_inv_def pool_ok_def pool_buffer_def plain_ptr_def)
qed

lemma pool_discard_n_inv:
  "pool_inv pa out w \<Longrightarrow> get_pool w pa = Some p \<Longrightarrow> n \<le> length (idle p) \<Longrightarrow>
   pool_inv pa out (pool_discard_n n pa w) \<and>
   get_pool (pool_discard_n n pa w) pa =
     Some (p\<lparr>idle := drop n (idle p), total_allocated := total_allocated p - n\<rparr>)"
proof (induction n arbitrary: w p)
  case 0
  then show ?case by simp
next
  case (Suc n)
  then obtain b bs where i: "idle p = b # bs" by (cases "idle p") auto
  note t = pool_discard_top_inv [OF Suc.prems(1,2) i]
  show ?case using Suc.IH [OF t] Suc.prems(3) i by simp
qed

section \<open>Every operation keeps the invariant\<close>

lemma pool_inv_take_new:
  assumes inv: "heap_ok w" "structs w pa = Some (Pool p)" "pool_ok pa p out w"
    and mk: "pool_make_buffer p w = (Some b, w1)"
  shows "b \<notin> out"
    and "pool_inv pa (insert b out)
      (put_pool pa (p\<lparr>total_allocated := Suc (total_allocated p)\<rparr>)
        (case get_buffer w1 b of Some buf \<Rightarrow> put_buffer b (buf\<lparr>pool := Some pa\<rparr>) w1 | None \<Rightarrow> w1))"
proof -
  have "created_buffer (buffer_type (config p)) w (Some b) w1"
    using buffer_create_frame [OF mk [unfolded pool_make_buffer_def] inv(1) pool_ok_plainD [OF inv(3)]] .
  then obtain m where b: "b = attempts w" and ok1: "heap_ok w1" and at: "attempts w < attempts w1"
    and s1: "structs w1 = (structs w)(b \<mapsto> Buffer ((zero_buffer (buffer_type (config p)))\<lparr>memory := m\<rparr>))"
    by (auto simp: created_buffer_def)
  have none: "structs w b = None" using structs_attempts [OF inv(1)] b by simp
  have new: "b \<notin> set (idle p)" "b \<notin> out" "b \<noteq> pa" "b \<noteq> array p"
    using none inv(2,3) pool_ok_bufferD [OF inv(3), of b] by (auto simp: pool_ok_def)
  show "b \<notin> out" by (rule new)
  show "pool_inv pa (insert b out)
      (put_pool pa (p\<lparr>total_allocated := Suc (total_allocated p)\<rparr>)
        (case get_buffer w1 b of Some buf \<Rightarrow> put_buffer b (buf\<lparr>pool := Some pa\<rparr>) w1 | None \<Rightarrow> w1))"
    using pool_ok_disjoint [OF inv(3,2)] inv ok1 s1 at new b
    by (auto simp: pool_inv_def pool_ok_def pool_buffer_def plain_ptr_def)
qed

lemma pool_inv_take_idle:
  assumes inv: "heap_ok w" "structs w pa = Some (Pool p)" "pool_ok pa p out w"
    and i: "idle p = b # bs" and buf: "get_buffer w b = Some buf" and pool: "pool buf1 = pool buf"
  shows "b \<notin> out"
    and "pool_inv pa (insert b out) (put_pool pa (p\<lparr>idle := bs\<rparr>) (put_buffer b buf1 w))"
proof -
  have "pool_buffer w pa b" using inv(3) i by (auto simp: pool_ok_def)
  then have "pool buf1 = Some pa" using buf pool by (auto simp: pool_buffer_def)
  then show "b \<notin> out"
    "pool_inv pa (insert b out) (put_pool pa (p\<lparr>idle := bs\<rparr>) (put_buffer b buf1 w))"
    using pool_ok_disjoint [OF inv(3,2)] inv i buf
    by (auto simp: pool_inv_def pool_ok_def pool_buffer_def plain_ptr_def get_buffer_structs)
qed

definition acquired :: "addr \<Rightarrow> addr set \<Rightarrow> addr option call \<Rightarrow> world \<Rightarrow> bool" where
  "acquired pa out r w' \<longleftrightarrow>
     (case r of Done ZST_OK (Some b) \<Rightarrow> b \<notin> out \<and> pool_inv pa (insert b out) w'
      | Done ZST_OK None \<Rightarrow> False
      | _ \<Rightarrow> pool_inv pa out w')"

text \<open>Where nothing is idle and nothing can be made, the pool keeps its buffers.\<close>

lemma acquire_unavailable:
  assumes "heap_ok w" "structs w pa = Some (Pool p)" "pool_ok pa p out w"
    and "(if total_allocated p < max_buffers (config p) then pool_make_buffer p w else (None, w)) = (None, w1)"
  shows "pool_inv pa out w1"
  using assms pool_make_buffer_failed [of p w w1 pa out]
  by (auto simp: pool_inv_def split: if_splits)

text \<open>A call either returns at once or waits with the pool unchanged.\<close>

lemma acquire_cases:
  assumes "pool_inv pa out w"
  obtains (returns) r w' where "acquired pa out r w'"
      "\<And>env. zst_buffer_pool_acquire (Some pa) t nb env w = (r, w')"
  | (waits) w1 where "pool_inv pa out w1"
      "\<And>env. zst_buffer_pool_acquire (Some pa) t nb env w =
         (case env of [] \<Rightarrow> (Blocked, w1)
          | (step, err) # env' \<Rightarrow>
              if t > 0 \<and> err then (Done ZST_TIMEOUT None, step w1)
              else zst_buffer_pool_acquire (Some pa) t nb env' (step w1))"
proof -
  obtain p where inv: "heap_ok w" "structs w pa = Some (Pool p)" "pool_ok pa p out w"
    using assms by (auto simp: pool_inv_def)
  consider (empty) "active p" "idle p = []" | (off) "\<not> active p"
    | (some) b bs where "active p" "idle p = b # bs" by (cases "idle p") auto
  then show thesis
  proof cases
    case empty
    obtain r0 w1 where mk: "(if total_allocated p < max_buffers (config p)
        then pool_make_buffer p w else (None, w)) = (r0, w1)" by fastforce
    show thesis
    proof (cases r0)
      case None
      note un = acquire_unavailable [OF inv mk [unfolded None]]
      show thesis
      proof (cases "nb \<or> t = 0")
        case True
        show thesis
          by (rule returns [of "Done ZST_TIMEOUT None" w1]) (use True un inv mk None empty in \<open>auto simp: acquired_def\<close>)
      next
        case False
        show thesis
          by (rule waits [OF un]) (use False inv mk None empty in \<open>auto split: list.splits\<close>)
      qed
    next
      case (Some b)
      then have "pool_make_buffer p w = (Some b, w1)" using mk by (auto split: if_splits)
      note new = pool_inv_take_new [OF inv this]
      show thesis
        by (rule returns [of "Done ZST_OK (Some b)"]) (use new inv mk Some empty in \<open>auto simp: acquired_def\<close>)
    qed
  next
    case off
    show thesis
      by (rule returns [of "Done ZST_ERROR None" w]) (use assms off inv in \<open>auto simp: acquired_def\<close>)
  next
    case (some b bs)
    then obtain buf where buf: "get_buffer w b = Some buf"
      using pool_ok_bufferD [OF inv(3), of b] by (auto simp: get_buffer_structs)
    note take = pool_inv_take_idle [OF inv some(2) buf]
    show thesis
      by (rule returns [of "Done ZST_OK (Some b)"]) (use take some inv buf in \<open>auto simp: acquired_def Let_def\<close>)
  qed
qed

lemma acquire_now:
  assumes "pool_inv pa out w" and "zst_buffer_pool_acquire (Some pa) t nb [] w = (r, w')"
  shows "acquired pa out r w'"
  using assms(1)
proof (cases rule: acquire_cases [of pa out w t nb])
  case (returns r0 w0)
  then show ?thesis using returns(2) [of "[]"] assms(2) by simp
next
  case (waits w1)
  then show ?thesis using waits(2) [of "[]"] assms(2) by (simp add: acquired_def)
qed

text \<open>
  \<open>keeps_books\<close>: what other threads do at each wake-up turns the buffers that are out from one given
  set into the next, and the books of the pool stay right.
\<close>

fun keeps_books :: "addr \<Rightarrow> addr set \<Rightarrow> (wakeup \<times> addr set) list \<Rightarrow> bool" where
  "keeps_books pa out [] = True"
| "keeps_books pa out (((step, err), out1) # others) =
     ((\<forall>w. pool_inv pa out w \<longrightarrow> pool_inv pa out1 (step w)) \<and> keeps_books pa out1 others)"

lemma zst_buffer_pool_acquire_inv:
  assumes "pool_inv pa out w" and "zst_buffer_pool_acquire (Some pa) t nb (map fst others) w = (r, w')"
    and "keeps_books pa out others"
  shows "\<exists>k \<le> length others. acquired pa (last (out # map snd (take k others))) r w'"
  using assms
proof (induction others arbitrary: w out)
  case Nil
  then show ?case using acquire_now by simp
next
  case (Cons e others)
  obtain step err out1 where e: "e = ((step, err), out1)" by (metis prod.exhaust)
  from Cons.prems(1) show ?case
  proof (cases rule: acquire_cases [of pa out w t nb])
    case (returns r0 w0)
    with Cons.prems(2) show ?thesis by (intro exI [of _ 0]) simp
  next
    case (waits w1)
    have out1: "pool_inv pa out1 (step w1)" and keep: "keeps_books pa out1 others"
      using Cons.prems(3) waits(1) e by auto
    show ?thesis
    proof (cases "t > 0 \<and> err")
      case True
      with waits(2) [of "map fst (e # others)"] Cons.prems(2) e out1 show ?thesis
        by (intro exI [of _ 1]) (auto simp: acquired_def)
    next
      case False
      with waits(2) [of "map fst (e # others)"] Cons.prems(2) e
      have "zst_buffer_pool_acquire (Some pa) t nb (map fst others) (step w1) = (r, w')" by auto
      from Cons.IH [OF out1 this keep] obtain k where
        "k \<le> length others" "acquired pa (last (out1 # map snd (take k others))) r w'" by blast
      then show ?thesis by (intro exI [of _ "Suc k"]) (simp add: e)
    qed
  qed
qed

lemma zst_buffer_pool_release_inv:
  assumes "pool_inv pa out w" and "b \<in> out" and "get_pool w pa = Some p"
    and "active p \<or> total_allocated p > 1"
  shows "pool_inv pa (out - {b}) (zst_buffer_pool_release (Some pa) (Some b) w)"
proof -
  have inv: "heap_ok w" "structs w pa = Some (Pool p)" "pool_ok pa p out w"
    using pool_inv_get [OF assms(1)] assms(3) by auto
  obtain buf where buf: "structs w b = Some (Buffer buf)" "pool buf = Some pa"
    using pool_ok_bufferD [OF inv(3), of b] assms(2) by auto
  define w1 where "w1 = put_buffer b (buf\<lparr>pts := 0, dts := 0, duration := 0, flags := 0\<rparr>) w"
  have w1: "heap_ok w1" "structs w1 = (structs w)(b \<mapsto> Buffer (buf\<lparr>pts := 0, dts := 0, duration := 0,
      flags := 0\<rparr>))" "attempts w1 = attempts w"
    using inv(1) buf by (auto simp: w1_def)
  have ne: "b \<noteq> pa" "b \<noteq> array p" "b \<notin> set (idle p)" "array p \<noteq> pa" "pa \<notin> set (idle p)" "pa \<notin> out"
    using pool_ok_disjoint [OF inv(3,2)] assms(2) inv(3) by (auto simp: pool_ok_def)
  have card: "card out = Suc (card (out - {b}))"
    using inv(3) assms(2) card_Suc_Diff1 [of out b] by (simp add: pool_ok_def)
  show ?thesis
  proof (cases "active p \<and> length (idle p) < max_buffers (config p)")
    case True
    have eq: "zst_buffer_pool_release (Some pa) (Some b) w =
        fire_watermark pa (config p) ZST_POOL_WATERMARK_HIGH
          (Suc (length (idle p)) = high_watermark (config p)) (put_pool pa (p\<lparr>idle := b # idle p\<rparr>) w1)"
      using True inv(2) buf by (simp add: zst_buffer_pool_release_def Let_def w1_def)
    have "pool_inv pa (out - {b}) (put_pool pa (p\<lparr>idle := b # idle p\<rparr>) w1)"
      using True w1 inv ne buf card
      by (auto simp: pool_inv_def pool_ok_def pool_buffer_def plain_ptr_def)
    then show ?thesis by (simp add: eq)
  next
    case False
    have b1: "structs w1 b = Some (Buffer (buf\<lparr>pts := 0, dts := 0, duration := 0, flags := 0\<rparr>))"
      by (simp add: w1)
    note d = discard_buffer_frame [OF w1(1) b1]
    have eq: "zst_buffer_pool_release (Some pa) (Some b) w =
        put_pool pa (p\<lparr>total_allocated := total_allocated p - 1\<rparr>) (discard_buffer b w1)"
      using False inv(2) buf assms(4) by (auto simp: zst_buffer_pool_release_def Let_def w1_def)
    show ?thesis
      unfolding eq using w1 d inv ne card
      by (auto simp: pool_inv_def pool_ok_def pool_buffer_def plain_ptr_def)
  qed
qed

lemma zst_buffer_pool_prefill_inv:
  "pool_inv pa out w \<Longrightarrow> pool_inv pa out (zst_buffer_pool_prefill (Some pa) w)"
  using pool_inv_get [of pa out w] pool_grow_inv [of pa out w]
  by (auto simp: zst_buffer_pool_prefill_def split: option.splits prod.splits)
     (metis le_refl prod.collapse)

lemma zst_buffer_pool_drain_inv:
  assumes "pool_inv pa out w"
  shows "pool_inv pa out (zst_buffer_pool_drain (Some pa) w)"
proof -
  obtain p where p: "get_pool w pa = Some p" using pool_inv_get [OF assms] by auto
  show ?thesis
    using assms pool_discard_n_inv [OF assms p] by (simp add: zst_buffer_pool_drain_def p)
qed

text \<open>
  The middle part of \<open>set_config\<close>: once the surplus idle buffers are gone, the array is replaced and
  the new configuration stored.
\<close>

lemma pool_inv_replace_array:
  assumes inv: "heap_ok w" "structs w pa = Some (Pool p)" "pool_ok pa p out w"
    and arr: "(if max_buffers c \<noteq> max_buffers (config p) then malloc (PtrArray (max_buffers c)) w
               else (Some (array p), w)) = (Some arr, w2)"
    and c: "length (idle p) \<le> max_buffers c" "min_buffers c \<le> max_buffers c"
    and w3: "w3 = (if max_buffers c \<noteq> max_buffers (config p) then free_addr (array p) w2 else w2)"
  shows "pool_inv pa out (put_pool pa (p\<lparr>array := arr, capacity := max_buffers c, config := c,
     generation := g\<rparr>) w3)"
proof (cases "max_buffers c = max_buffers (config p)")
  case True
  with inv arr w3 c pool_ok_disjoint [OF inv(3,2)] show ?thesis
    by (auto simp: pool_inv_def pool_ok_def pool_buffer_def plain_ptr_def)
next
  case False
  with arr have m: "malloc (PtrArray (max_buffers c)) w = (Some arr, w2)" by simp
  have none: "structs w arr = None"
    using malloc_Some [OF m] structs_attempts [OF inv(1)] by simp
  have w2: "heap_ok w2" "structs w2 = (structs w)(arr \<mapsto> PtrArray (max_buffers c))"
      "attempts w \<le> attempts w2" "arr < attempts w2" "arr = attempts w"
    using malloc_Some [OF m] structs_malloc [OF m] heap_ok_malloc [OF m inv(1)] by auto
  have ne: "arr \<noteq> pa" "arr \<noteq> array p" "\<And>b. b \<in> set (idle p) \<or> b \<in> out \<Longrightarrow> b \<noteq> arr"
    using none inv(2,3) pool_ok_bufferD [OF inv(3), of arr] by (auto simp: pool_ok_def)
  show ?thesis
    using False inv w2 w3 c ne pool_ok_disjoint [OF inv(3,2)]
    by (auto simp: pool_inv_def pool_ok_def pool_buffer_def plain_ptr_def)
qed

lemma pool_apply_config_inv:
  assumes inv: "heap_ok w" "structs w pa = Some (Pool p)" "pool_ok pa p out w"
    and lim: "length (idle p) \<le> max_buffers c" "min_buffers c \<le> max_buffers c"
    and call: "pool_apply_config pa c w = (r, w')"
  shows "pool_inv pa out w'"
proof -
  obtain ra w2 where arr: "(if max_buffers c \<noteq> max_buffers (config p)
      then malloc (PtrArray (max_buffers c)) w else (Some (array p), w)) = (ra, w2)" by fastforce
  show ?thesis
  proof (cases ra)
    case None
    then have m: "malloc (PtrArray (max_buffers c)) w = (None, w2)" using arr by (auto split: if_splits)
    have "w' = w2" using call inv(2) arr None by (simp add: pool_apply_config_def)
    with malloc_None [OF m] structs_malloc [OF m] heap_ok_malloc [OF m inv(1)] inv show ?thesis
      by (auto simp: pool_inv_def pool_ok_def pool_buffer_def plain_ptr_def)
  next
    case (Some a)
    define w3 where "w3 = (if max_buffers c \<noteq> max_buffers (config p) then free_addr (array p) w2 else w2)"
    define p2 where "p2 = p\<lparr>array := a, capacity := max_buffers c, config := c,
       generation := generation p + 1\<rparr>"
    define n where "n = (if active p2 then min_buffers c - total_allocated p2 else 0)"
    have w4: "pool_inv pa out (put_pool pa p2 w3)"
      unfolding p2_def by (rule pool_inv_replace_array [OF inv arr [unfolded Some] lim w3_def])
    obtain ok w5 where g: "pool_grow n pa (put_pool pa p2 w3) = (ok, w5)" by fastforce
    have "w' = w5"
      using call inv(2) arr Some g
      by (simp add: pool_apply_config_def Let_def w3_def p2_def n_def cong: if_cong
          split: prod.splits)
    moreover have "pool_inv pa out w5"
      by (rule pool_grow_inv [OF w4 _ _ g, of p2]) (use lim in \<open>auto simp: n_def p2_def\<close>)
    ultimately show ?thesis by simp
  qed
qed

lemma zst_buffer_pool_set_config_inv:
  assumes "pool_inv pa out w" and "zst_buffer_pool_set_config (Some pa) (Some c0) w = (r, w')"
  shows "pool_inv pa out w'"
proof -
  obtain p where p: "get_pool w pa = Some p" using pool_inv_get [OF assms(1)] by auto
  define n where "n = length (idle p) - max_buffers (normalize_config c0)"
  have n: "n \<le> length (idle p)" by (simp add: n_def)
  note d = pool_discard_n_inv [OF assms(1) p n]
  let ?p1 = "p\<lparr>idle := drop n (idle p), total_allocated := total_allocated p - n\<rparr>"
  have inv: "heap_ok (pool_discard_n n pa w)" "structs (pool_discard_n n pa w) pa = Some (Pool ?p1)"
      "pool_ok pa ?p1 out (pool_discard_n n pa w)"
    using d pool_inv_get [OF conjunct1 [OF d]] by auto
  show ?thesis
    by (rule pool_apply_config_inv [OF inv])
       (use normalize_config_limits [of c0] assms(2) p in
         \<open>auto simp: zst_buffer_pool_set_config_def Let_def n_def\<close>)
qed

lemma pool_allocator_frame:
  assumes "(if al \<noteq> None then zst_allocator_ref al w1 else zst_allocator_cpu_create w1) = (al', w2)"
    and "heap_ok w1" and "plain_ptr w1 al"
  shows "heap_ok w2" "structs w2 = structs w1" "plain_ptr w2 al'" "attempts w1 \<le> attempts w2"
proof -
  have "heap_ok w2 \<and> structs w2 = structs w1 \<and> plain_ptr w2 al' \<and> attempts w1 \<le> attempts w2"
  proof (cases "al = None")
    case True
    then have m2: "malloc (Allocator \<lparr>a_refcount = 1, a_backend = Backend_CPU\<rparr>) w1 = (al', w2)"
      using assms(1) by (simp add: zst_allocator_cpu_create_def)
    then show ?thesis
      using structs_malloc [OF m2] heap_ok_malloc [OF m2 assms(2)] structs_attempts [OF assms(2)]
      by (auto simp: malloc_def Let_def plain_ptr_def fun_eq_iff split: if_splits)
  next
    case False
    with assms allocator_ref_frame [of al w1 al' w2] show ?thesis by (auto simp: plain_ptr_def)
  qed
  then show "heap_ok w2" "structs w2 = structs w1" "plain_ptr w2 al'" "attempts w1 \<le> attempts w2"
    by auto
qed

text \<open>A fresh pool: nothing is handed out and the accounting starts right.\<close>

lemma zst_buffer_pool_create_inv:
  assumes ok: "heap_ok w" and al: "plain_ptr w al"
    and call: "zst_buffer_pool_create al (Some c0) w = (Some pa, w')"
  shows "pool_inv pa {} w'"
proof -
  define c where "c = normalize_config c0"
  define zero where "zero = \<lparr>p_allocator = None, config = c0, array = 0, capacity = 0, idle = [],
     total_allocated = 0, generation = 0, active = False\<rparr>"
  obtain r1 w1 where m1: "malloc (Pool zero) w = (r1, w1)" by fastforce
  obtain al' w2 where a2: "(if al \<noteq> None then zst_allocator_ref al w1
      else zst_allocator_cpu_create w1) = (al', w2)" by fastforce
  obtain r3 w3 where m3: "malloc (PtrArray (max_buffers c)) w2 = (r3, w3)" by fastforce
  have r: "r1 = Some pa" and "\<exists>arr. r3 = Some arr"
    using call m1 a2 m3
    by (auto simp: zst_buffer_pool_create_def Let_def c_def [symmetric] zero_def [symmetric]
        split: option.splits)
  then obtain arr where r3: "r3 = Some arr" by blast
  define p where "p = zero\<lparr>p_allocator := al', config := c, array := arr, capacity := max_buffers c,
      generation := 1, active := True\<rparr>"
  have w': "w' = pool_prealloc (min_buffers c) pa (put_pool pa p w3)"
    using call m1 a2 m3 r r3
    by (simp add: zst_buffer_pool_create_def Let_def c_def [symmetric] zero_def [symmetric] p_def)
  have pa: "pa = attempts w" "structs w1 pa = Some (Pool zero)" "heap_ok w1" "attempts w1 = Suc pa"
      "structs w1 = (structs w)(pa \<mapsto> Pool zero)"
    using m1 r malloc_Some [of "Pool zero" w pa w1] structs_malloc [OF m1] heap_ok_malloc [OF m1 ok] by auto
  have al1: "plain_ptr w1 al" using al pa by (auto simp: plain_ptr_def)
  note w2 = pool_allocator_frame [OF a2 pa(3) al1]
  have arr: "arr = attempts w2" "structs w3 = (structs w2)(arr \<mapsto> PtrArray (max_buffers c))"
      "heap_ok w3" "attempts w3 = Suc arr"
    using m3 r3 malloc_Some [of "PtrArray (max_buffers c)" w2 arr w3] structs_malloc [OF m3]
      heap_ok_malloc [OF m3 w2(1)] by auto
  have "pool_inv pa {} (put_pool pa p w3)"
    using arr w2 pa normalize_config_limits [of c0]
    by (auto simp: pool_inv_def pool_ok_def p_def zero_def c_def plain_ptr_def)
  then show ?thesis
    unfolding w' by (rule pool_prealloc_inv [of _ _ _ p])
      (use normalize_config_limits [of c0] in \<open>auto simp: p_def zero_def c_def\<close>)
qed

section \<open>The pool as a source of exclusively owned buffers\<close>

text \<open>
  What the users of a pool rely on: a buffer that is handed out is handed out to nobody else until
  it is given back.  \<open>take_many\<close> is a client that takes several buffers in a row, as the sources
  that keep frames in flight do.
\<close>

primrec take_many :: "('w \<Rightarrow> 'b option \<times> 'w) \<Rightarrow> nat \<Rightarrow> 'w \<Rightarrow> 'b list \<times> 'w" where
  "take_many tk 0 w = ([], w)"
| "take_many tk (Suc n) w =
     (case tk w of (None, w1) \<Rightarrow> ([], w1)
      | (Some b, w1) \<Rightarrow> (let (bs, w2) = take_many tk n w1 in (b # bs, w2)))"

locale buffer_source =
  fixes owned :: "'b set \<Rightarrow> 'w \<Rightarrow> bool"
    and tk :: "'w \<Rightarrow> 'b option \<times> 'w"
    and give :: "'b \<Rightarrow> 'w \<Rightarrow> 'w"
  assumes take_some: "owned out w \<Longrightarrow> tk w = (Some b, w') \<Longrightarrow> b \<notin> out \<and> owned (insert b out) w'"
    and take_none: "owned out w \<Longrightarrow> tk w = (None, w') \<Longrightarrow> owned out w'"
    and give_back: "owned out w \<Longrightarrow> b \<in> out \<Longrightarrow> owned (out - {b}) (give b w)"
begin

lemma take_many_exclusive:
  "owned out w \<Longrightarrow> take_many tk n w = (bs, w') \<Longrightarrow>
     distinct bs \<and> set bs \<inter> out = {} \<and> owned (out \<union> set bs) w'"
proof (induction n arbitrary: out w bs w')
  case 0
  then show ?case by simp
next
  case (Suc n)
  obtain r w1 where t: "tk w = (r, w1)" by fastforce
  show ?case
  proof (cases r)
    case None
    with Suc.prems t take_none [OF Suc.prems(1), of w1] show ?thesis by simp
  next
    case (Some b)
    note b = take_some [OF Suc.prems(1) t [unfolded Some]]
    obtain bs1 w2 where m: "take_many tk n w1 = (bs1, w2)" by fastforce
    from Suc.IH [OF conjunct2 [OF b] m] Suc.prems t Some m b show ?thesis by auto
  qed
qed

lemma give_all_back:
  "owned out w \<Longrightarrow> distinct bs \<Longrightarrow> set bs \<subseteq> out \<Longrightarrow> owned (out - set bs) (fold give bs w)"
proof (induction bs arbitrary: out w)
  case Nil
  then show ?case by simp
next
  case (Cons b bs)
  then have "owned (out - {b}) (give b w)" using give_back by simp
  then have "owned (out - {b} - set bs) (fold give bs (give b w))"
    by (rule Cons.IH) (use Cons.prems in auto)
  moreover have "out - set (b # bs) = out - {b} - set bs" by auto
  ultimately show ?case by simp
qed

end

definition pool_live :: "addr \<Rightarrow> addr set \<Rightarrow> world \<Rightarrow> bool" where
  "pool_live pa out w \<longleftrightarrow> pool_inv pa out w \<and> (\<exists>p. get_pool w pa = Some p \<and> active p)"

text \<open>Making a buffer, recycling one and the watermark callbacks leave the pool switched on.\<close>

lemma make_buffer_keeps_pool:
  assumes "pool_make_buffer p w = (r, w1)" and "heap_ok w" and "plain_ptr w (p_allocator p)"
    and "structs w pa = Some (Pool q)"
  shows "structs w1 pa = Some (Pool q)" and "r \<noteq> Some pa"
proof -
  have "created_buffer (buffer_type (config p)) w r w1"
    by (rule buffer_create_frame [OF assms(1) [unfolded pool_make_buffer_def] assms(2,3)])
  then show "structs w1 pa = Some (Pool q)" "r \<noteq> Some pa"
    using assms(4) structs_less [OF assms(2,4)] by (auto simp: created_buffer_def split: option.splits)
qed

lemma acquire_keeps_active:
  assumes "pool_live pa out w" and "zst_buffer_pool_acquire (Some pa) t nb [] w = (r, w')"
  shows "\<exists>p. get_pool w' pa = Some p \<and> active p"
proof -
  obtain p where p: "heap_ok w" "structs w pa = Some (Pool p)" "pool_ok pa p out w" "active p"
    using assms(1) by (auto simp: pool_live_def pool_inv_def)
  note keep = make_buffer_keeps_pool [OF _ p(1) pool_ok_plainD [OF p(3)] p(2)]
  show ?thesis
    using assms(2) p keep
    by (auto simp: Let_def get_pool_structs split: if_splits prod.splits option.splits)
qed

lemma release_keeps_active:
  assumes "pool_live pa out w" and "b \<in> out"
  shows "\<exists>p. get_pool (zst_buffer_pool_release (Some pa) (Some b) w) pa = Some p \<and> active p"
proof -
  obtain p where p: "heap_ok w" "structs w pa = Some (Pool p)" "pool_ok pa p out w" "active p"
    using assms(1) by (auto simp: pool_live_def pool_inv_def)
  obtain buf where "structs w b = Some (Buffer buf)"
    using pool_ok_bufferD [OF p(3), of b] assms(2) by auto
  with p show ?thesis by (auto simp: zst_buffer_pool_release_def Let_def get_pool_structs)
qed

lemma create_with_pool_call:
  assumes "zst_buffer_create_with_pool (Some pa) w = (r, w')" and "pool_inv pa out w"
  obtains c where "zst_buffer_pool_acquire (Some pa) 0 False [] w = (c, w')" "acquired pa out c w'"
    "r = (case c of Done ZST_OK b \<Rightarrow> b | _ \<Rightarrow> None)"
proof -
  obtain c w1 where acq: "zst_buffer_pool_acquire (Some pa) 0 False [] w = (c, w1)" by fastforce
  have eq: "w1 = w'" "r = (case c of Done ZST_OK b \<Rightarrow> b | _ \<Rightarrow> None)"
    using assms(1) acq
    by (auto simp: zst_buffer_create_with_pool_def simp del: zst_buffer_pool_acquire.simps
        split: call.splits zst_result.splits)
  show thesis
    by (rule that [OF acq [unfolded eq(1)] acquire_now [OF assms(2) acq, unfolded eq(1)] eq(2)])
qed

interpretation zst_pool: buffer_source
  "pool_live pa" "zst_buffer_create_with_pool (Some pa)"
  "\<lambda>b. zst_buffer_pool_release (Some pa) (Some b)" for pa
proof
  fix out w b w'
  assume live: "pool_live pa out w" and call: "zst_buffer_create_with_pool (Some pa) w = (Some b, w')"
  from live have "pool_inv pa out w" by (simp add: pool_live_def)
  with call obtain c where acq: "zst_buffer_pool_acquire (Some pa) 0 False [] w = (c, w')"
      "acquired pa out c w'" and "Some b = (case c of Done ZST_OK b \<Rightarrow> b | _ \<Rightarrow> None)"
    by (rule create_with_pool_call)
  then have "c = Done ZST_OK (Some b)" by (auto split: call.splits zst_result.splits)
  with acq acquire_keeps_active [OF live acq(1)] show "b \<notin> out \<and> pool_live pa (insert b out) w'"
    by (simp add: acquired_def pool_live_def)
next
  fix out w w'
  assume live: "pool_live pa out w" and call: "zst_buffer_create_with_pool (Some pa) w = (None, w')"
  from live have "pool_inv pa out w" by (simp add: pool_live_def)
  with call obtain c where acq: "zst_buffer_pool_acquire (Some pa) 0 False [] w = (c, w')"
      "acquired pa out c w'" and "None = (case c of Done ZST_OK b \<Rightarrow> b | _ \<Rightarrow> None)"
    by (rule create_with_pool_call)
  then have "pool_inv pa out w'"
    by (auto simp: acquired_def split: call.splits zst_result.splits option.splits)
  with acquire_keeps_active [OF live acq(1)] show "pool_live pa out w'" by (simp add: pool_live_def)
next
  fix out w b
  assume "pool_live pa out w" and "b \<in> out"
  then show "pool_live pa (out - {b}) (zst_buffer_pool_release (Some pa) (Some b) w)"
    using zst_buffer_pool_release_inv release_keeps_active by (fastforce simp: pool_live_def)
qed

section \<open>Properties\<close>

definition demo_world :: world where
  "demo_world = \<lparr>malloc_ok = (\<lambda>_. True), attempts = 0, heap = Map.empty, trace = []\<rparr>"

definition demo_config :: pool_config where
  "demo_config = \<lparr>min_buffers = 1, max_buffers = 2, buffer_size = 16, buffer_type = 0,
     low_watermark = 0, high_watermark = 2, watermark_cb = None\<rparr>"

lemmas pool_eval = zst_buffer_pool_create_def normalize_config_def zst_buffer_create_with_allocator_def
  zst_buffer_create_def zero_buffer_def zero_memory_def pool_make_buffer_def pool_store_new_def
  dmabuf_get_fd_def allocator_defs heap_defs get_pool_def put_pool_def demo_world_def demo_config_def

lemma demo_world_ok: "heap_ok demo_world" "plain_ptr demo_world None"
  by (simp_all add: heap_ok_def fresh_heap_def demo_world_def)

lemma demo_pool:
  "fst (zst_buffer_pool_create None (Some demo_config) demo_world) = Some 0"
  by (simp add: pool_eval)

text \<open>
  C1: creating a buffer with an allocator and dropping its only reference leaves the heap exactly as
  it was (no block leaks and the allocator's reference count is restored), and a creation that runs
  out of memory leaves no block behind either.
\<close>

theorem buffer_create_unref_no_leak:
  assumes "fresh_heap w" and "heap w a = Some (Allocator r)" and "a_backend r = Backend_CPU"
    and "a_refcount r > 0"
    and "zst_buffer_create_with_allocator ty (Some a) sz w = (res, w')"
  shows "heap (zst_buffer_unref res w') = heap w"
proof -
  have a: "a < attempts w" using assms(1,2) by (auto simp: fresh_heap_def dom_def)
  have fresh: "heap w (attempts w) = None" "heap w (Suc (attempts w)) = None"
      "heap w (Suc (Suc (attempts w))) = None"
    using fresh_heap_None [OF assms(1)] by auto
  show ?thesis
    using assms(2-5) a fresh
    by (auto simp: zst_buffer_create_with_allocator_def zst_buffer_create_def zst_buffer_unref_def
        zero_buffer_def zero_memory_def dmabuf_get_fd_def allocator_defs heap_defs call_release_def
        zst_buffer_alloc_release_def fun_eq_iff split: if_splits)
qed

theorem buffer_create_unref_no_leak_witness:
  "heap (zst_buffer_unref (Some 1)
      (snd (zst_buffer_create_with_allocator 0 (Some 0) 16 (snd (zst_allocator_cpu_create demo_world)))))
   = heap (snd (zst_allocator_cpu_create demo_world))"
  by (rule buffer_create_unref_no_leak [where a = 0 and r = "\<lparr>a_refcount = 1, a_backend = Backend_CPU\<rparr>"
        and ty = 0 and sz = 16])
     (auto simp: pool_eval fresh_heap_def)

text \<open>
  C2: buffers taken from a pool one after the other are pairwise different and differ from every
  buffer the pool has handed out before, and the pool's books balance afterwards.
\<close>

theorem pool_buffers_exclusive:
  assumes "pool_live pa out w"
    and "take_many (zst_buffer_create_with_pool (Some pa)) n w = (bs, w')"
  shows "distinct bs \<and> set bs \<inter> out = {} \<and> pool_live pa (out \<union> set bs) w'"
  using assms by (rule zst_pool.take_many_exclusive)

lemma demo_pool_live:
  "pool_live 0 {} (snd (zst_buffer_pool_create None (Some demo_config) demo_world))"
proof -
  have "zst_buffer_pool_create None (Some demo_config) demo_world =
      (Some 0, snd (zst_buffer_pool_create None (Some demo_config) demo_world))"
    using demo_pool by (metis prod.collapse)
  from zst_buffer_pool_create_inv [OF demo_world_ok this] show ?thesis
    by (simp add: pool_live_def) (simp add: pool_eval)
qed

theorem pool_buffers_exclusive_witness:
  "\<exists>bs w'. take_many (zst_buffer_create_with_pool (Some 0)) 2
        (snd (zst_buffer_pool_create None (Some demo_config) demo_world)) = (bs, w')
     \<and> distinct bs \<and> set bs \<inter> {} = {} \<and> pool_live 0 ({} \<union> set bs) w'"
  using pool_buffers_exclusive [OF demo_pool_live] by (metis prod.collapse)

text \<open>
  C3: \<open>zst_buffer_pool_acquire\<close> may wait, and other threads may take and give back buffers at every wake-up; the sets of
  buffers that are out after each wake-up are given, and the books are right for them.  Then a successful call returns a buffer that is not
  out at that time (with no wait: not among \<open>out\<close>), never \<open>NULL\<close>, and the books are right with this buffer out as well; on a
  timeout, an error or while still blocked they are right for the buffers the others left out.
\<close>

theorem pool_acquire_accounting:
  assumes "pool_inv pa out w" and "zst_buffer_pool_acquire (Some pa) t nb (map fst others) w = (r, w')"
    and "keeps_books pa out others"
  shows "\<exists>k out'. k \<le> length others \<and> out' = last (out # map snd (take k others)) \<and>
    (case r of Done ZST_OK (Some b) \<Rightarrow> b \<notin> out' \<and> pool_inv pa (insert b out') w'
     | Done ZST_OK None \<Rightarrow> False | _ \<Rightarrow> pool_inv pa out' w')"
  using zst_buffer_pool_acquire_inv [OF assms] by (simp add: acquired_def)

definition demo_both :: "addr list \<times> world" where
  "demo_both = take_many (zst_buffer_create_with_pool (Some 0)) 2
     (snd (zst_buffer_pool_create None (Some demo_config) demo_world))"

lemma take_two: "take_many f 2 w = (case f w of (None, w1) \<Rightarrow> ([], w1) | (Some b, w1) \<Rightarrow> (case f w1 of (None, w2) \<Rightarrow> ([b], w2) | (Some c, w2) \<Rightarrow> ([b, c], w2)))"
  by (simp add: numeral_2_eq_2 split: prod.splits option.splits)

lemma demo_both_eval: "fst demo_both = [3, 6]"
  by (simp add: demo_both_def pool_eval zst_buffer_create_with_pool_def fire_watermark_def take_two)

lemma demo_both_inv: "pool_inv 0 {3, 6} (snd demo_both)"
  using zst_pool.take_many_exclusive [OF demo_pool_live, of 2 "fst demo_both" "snd demo_both"] demo_both_eval
  by (simp add: demo_both_def pool_live_def)

lemma demo_release_books: "pool_inv 0 {3, 6} w \<Longrightarrow> pool_inv 0 {6} (zst_buffer_pool_release (Some 0) (Some 3) w)"
proof -
  assume inv: "pool_inv 0 {3, 6} w"
  then obtain p where p: "get_pool w 0 = Some p" "total_allocated p > 1"
    by (auto simp: pool_inv_def pool_ok_def get_pool_structs)
  have "{3, 6} - {3} = {6 :: addr}" by auto
  then show ?thesis using zst_buffer_pool_release_inv [OF inv _ p(1), of 3] p(2) by simp
qed

lemma demo_both_world:
  "\<exists>p buf. get_pool (snd demo_both) 0 = Some p \<and> idle p = [] \<and> active p \<and> total_allocated p = 2 \<and> max_buffers (config p) = 2 \<and>
     watermark_cb (config p) = None \<and> get_buffer (snd demo_both) 3 = Some buf"
  by (simp add: demo_both_def pool_eval zst_buffer_create_with_pool_def fire_watermark_def take_two get_buffer_def)

lemma demo_acquire_after_release:
  "fst (zst_buffer_pool_acquire (Some 0) (- 1) False [(zst_buffer_pool_release (Some 0) (Some 3), False)] (snd demo_both)) = Done ZST_OK (Some 3)"
proof -
  obtain p buf where p: "structs (snd demo_both) 0 = Some (Pool p)" "idle p = []" "active p" "total_allocated p = 2" "max_buffers (config p) = 2"
    "watermark_cb (config p) = None" "structs (snd demo_both) 3 = Some (Buffer buf)"
    using demo_both_world by (auto simp: get_pool_structs get_buffer_structs)
  define w1 where "w1 = zst_buffer_pool_release (Some 0) (Some 3) (snd demo_both)"
  have "structs w1 0 = Some (Pool (p\<lparr>idle := [3]\<rparr>))" "\<exists>b. structs w1 3 = Some (Buffer b)"
    using p by (auto simp: w1_def zst_buffer_pool_release_def Let_def get_from_structs)
  then show ?thesis using p by (auto simp: Let_def simp flip: w1_def)
qed

theorem pool_acquire_accounting_witness:
  "\<exists>k out'. k \<le> 1 \<and> out' = last ({3, 6} # map snd (take k [((zst_buffer_pool_release (Some 0) (Some 3), False), {6})])) \<and>
    3 \<notin> out' \<and> pool_inv 0 (insert 3 out') (snd (zst_buffer_pool_acquire (Some 0) (- 1) False
      [(zst_buffer_pool_release (Some 0) (Some 3), False)] (snd demo_both)))"
proof -
  let ?env = "[((zst_buffer_pool_release (Some 0) (Some 3), False), {6 :: addr})]"
  have call: "zst_buffer_pool_acquire (Some 0) (- 1) False (map fst ?env) (snd demo_both) =
      (Done ZST_OK (Some 3), snd (zst_buffer_pool_acquire (Some 0) (- 1) False (map fst ?env) (snd demo_both)))"
    using demo_acquire_after_release by (intro prod_eqI) (simp_all del: zst_buffer_pool_acquire.simps)
  have "keeps_books 0 {3, 6} ?env" using demo_release_books by simp
  from pool_acquire_accounting [OF demo_both_inv call this] show ?thesis by (simp del: zst_buffer_pool_acquire.simps)
qed

text \<open>
  C4: dropping the last reference of a pooled buffer recycles it instead of freeing it: it becomes
  the first idle buffer with timestamps and flags cleared, and the next acquire returns this very
  buffer with one reference and the configured size.
\<close>

theorem pool_unref_recycles:
  assumes "pool_live pa out w" and "b \<in> out" and "get_buffer w b = Some buf" and "refcount buf = 1"
    and "get_pool w pa = Some p" and "length (idle p) < max_buffers (config p)"
  shows "get_pool (zst_buffer_unref (Some b) w) pa = Some (p\<lparr>idle := b # idle p\<rparr>) \<and>
    (\<exists>w'. zst_buffer_pool_acquire (Some pa) t nb env (zst_buffer_unref (Some b) w) =
        (Done ZST_OK (Some b), w') \<and>
      get_buffer w' b = Some (buf\<lparr>refcount := 1, pts := 0, dts := 0, duration := 0, flags := 0,
         memory := (memory buf)\<lparr>mem_size := buffer_size (config p)\<rparr>\<rparr>))"
proof -
  have p: "structs w pa = Some (Pool p)" "pool_ok pa p out w" "active p"
    using assms(1,5) by (auto simp: pool_live_def pool_inv_def)
  have buf: "structs w b = Some (Buffer buf)" using assms(3) by (simp add: get_buffer_structs)
  have pool: "pool buf = Some pa" and ne: "b \<noteq> pa"
    using pool_ok_bufferD [OF p(2), of b] pool_ok_disjoint [OF p(2,1)] assms(2) buf by auto
  define w1 where "w1 = zst_buffer_unref (Some b) w"
  have s: "structs w1 pa = Some (Pool (p\<lparr>idle := b # idle p\<rparr>))"
    "structs w1 b = Some (Buffer (buf\<lparr>refcount := 0, pts := 0, dts := 0, duration := 0, flags := 0\<rparr>))"
    using assms(4,6) p buf pool ne
    by (auto simp: w1_def zst_buffer_unref_def zst_buffer_pool_release_def Let_def get_from_structs)
  have "get_buffer (fire_watermark pa c l hit x) b = get_buffer x b" for c l hit x
    by (simp add: fire_watermark_def get_buffer_def split: option.splits)
  moreover have "get_buffer (put_pool pa q x) b = get_buffer x b" for q x
    using ne by (simp add: put_pool_def get_buffer_def)
  ultimately show ?thesis
    unfolding w1_def [symmetric] using s p by (simp add: Let_def)
qed

definition demo_taken :: world where
  "demo_taken = snd (zst_buffer_create_with_pool (Some 0)
     (snd (zst_buffer_pool_create None (Some demo_config) demo_world)))"

lemma demo_taken_live: "pool_live 0 {3} demo_taken"
proof -
  have "zst_buffer_create_with_pool (Some 0)
      (snd (zst_buffer_pool_create None (Some demo_config) demo_world)) = (Some 3, demo_taken)"
    by (simp add: demo_taken_def zst_buffer_create_with_pool_def pool_eval fire_watermark_def)
  from zst_pool.take_some [OF demo_pool_live this] show ?thesis by simp
qed

theorem pool_unref_recycles_witness:
  "\<exists>w'. zst_buffer_pool_acquire (Some 0) 0 False [] (zst_buffer_unref (Some 3) demo_taken) =
     (Done ZST_OK (Some 3), w')"
proof -
  obtain buf p where "get_buffer demo_taken 3 = Some buf" "refcount buf = 1"
      "get_pool demo_taken 0 = Some p" "length (idle p) < max_buffers (config p)"
    by (simp add: demo_taken_def zst_buffer_create_with_pool_def pool_eval fire_watermark_def)
  from pool_unref_recycles [OF demo_taken_live insertI1 this, of 0 False "[]"] show ?thesis by blast
qed

text \<open>
  After \<open>zst_buffer_pool_set_config\<close> raises \<open>buffer_size\<close>, an idle buffer that was allocated
  under the old configuration is handed out with the new, larger size written into its memory
  descriptor although its data block still has the old size: here a buffer of 32 announced bytes on
  a block of 16.
\<close>

lemma pool_resize_announces_too_much:
  "let w1 = snd (zst_buffer_pool_create None (Some demo_config) demo_world);
       (r, w2) = zst_buffer_pool_set_config (Some 0) (Some (demo_config\<lparr>buffer_size := 32\<rparr>)) w1;
       (c, w3) = zst_buffer_pool_acquire (Some 0) 0 False [] w2
   in r = ZST_OK \<and> c = Done ZST_OK (Some 3) \<and>
      (\<exists>buf d. get_buffer w3 3 = Some buf \<and> mem_size (memory buf) = 32 \<and>
         mem_data (memory buf) = Some d \<and> heap w3 d = Some (Data 16))"
  by (simp add: zst_buffer_pool_set_config_def pool_apply_config_def pool_eval fire_watermark_def)

end
