(* ===== verification/Zst_Fifo.thy ===== *)
theory Zst_Fifo
  imports Zst_Prelude
begin

text \<open>
  The contract of the library's first-in first-out channels: the ring queue between two elements
  (\<open>src/zst_queue.c\<close>) and the event list of the bus (\<open>src/zst_bus.c\<close>).  A provider shows the two
  non-blocking operations and their effect on the list of contents; what a client may conclude
  about whole runs is proved here once.
\<close>

datatype 'a fifo_op = Put 'a | Get

text \<open>A run of operations: the items that were accepted and the items that came out.\<close>

fun fifo_run :: "('a \<Rightarrow> 's \<Rightarrow> bool \<times> 's) \<Rightarrow> ('s \<Rightarrow> 'a option \<times> 's) \<Rightarrow> 'a fifo_op list \<Rightarrow> 's
    \<Rightarrow> 'a list \<times> 'a list \<times> 's" where
  "fifo_run put get [] s = ([], [], s)"
| "fifo_run put get (Put x # ops) s =
     (case put x s of (ok, s1) \<Rightarrow>
        (case fifo_run put get ops s1 of (acc, out, s2) \<Rightarrow> (if ok then x # acc else acc, out, s2)))"
| "fifo_run put get (Get # ops) s =
     (case get s of (r, s1) \<Rightarrow>
        (case fifo_run put get ops s1 of (acc, out, s2) \<Rightarrow>
           (acc, (case r of None \<Rightarrow> out | Some x \<Rightarrow> x # out), s2)))"

text \<open>Emptying a channel: get until nothing comes, at most \<open>n\<close> times.\<close>

primrec fifo_drain :: "('s \<Rightarrow> 'a option \<times> 's) \<Rightarrow> nat \<Rightarrow> 's \<Rightarrow> 'a list \<times> 's" where
  "fifo_drain get 0 s = ([], s)"
| "fifo_drain get (Suc n) s =
     (case get s of (None, s1) \<Rightarrow> ([], s1)
      | (Some x, s1) \<Rightarrow> (case fifo_drain get n s1 of (xs, s2) \<Rightarrow> (x # xs, s2)))"

locale fifo =
  fixes inv :: "'s \<Rightarrow> bool"
    and contents :: "'s \<Rightarrow> 'a list"
    and put :: "'a \<Rightarrow> 's \<Rightarrow> bool \<times> 's"
    and get :: "'s \<Rightarrow> 'a option \<times> 's"
  assumes put_accepted:
      "inv s \<Longrightarrow> put x s = (True, s') \<Longrightarrow> inv s' \<and> contents s' = contents s @ [x]"
    and put_refused:
      "inv s \<Longrightarrow> put x s = (False, s') \<Longrightarrow> inv s' \<and> contents s' = contents s"
    and get_item:
      "inv s \<Longrightarrow> get s = (Some x, s') \<Longrightarrow> inv s' \<and> contents s = x # contents s'"
    and get_empty:
      "inv s \<Longrightarrow> get s = (None, s') \<Longrightarrow> inv s' \<and> contents s = [] \<and> contents s' = []"
begin

text \<open>Nothing is lost, duplicated or reordered, whatever the order of the operations.\<close>

lemma fifo_run_order:
  "inv s \<Longrightarrow> fifo_run put get ops s = (acc, out, s') \<Longrightarrow>
     inv s' \<and> contents s @ acc = out @ contents s'"
proof (induction ops arbitrary: s acc out s')
  case Nil
  then show ?case by simp
next
  case (Cons op ops)
  show ?case
  proof (cases op)
    case (Put x)
    obtain ok s1 where p: "put x s = (ok, s1)" by fastforce
    obtain acc2 out2 s2 where r: "fifo_run put get ops s1 = (acc2, out2, s2)"
      by (metis prod_cases3)
    have "inv s1 \<and> contents s1 = (if ok then contents s @ [x] else contents s)"
      using p put_accepted [OF Cons.prems(1)] put_refused [OF Cons.prems(1)] by (cases ok) auto
    with Cons.IH [of s1, OF _ r] Cons.prems(2) Put p r show ?thesis by (auto split: if_splits)
  next
    case Get
    obtain r0 s1 where g: "get s = (r0, s1)" by fastforce
    obtain acc2 out2 s2 where r: "fifo_run put get ops s1 = (acc2, out2, s2)"
      by (metis prod_cases3)
    have "inv s1 \<and> contents s = (case r0 of None \<Rightarrow> contents s1 | Some x \<Rightarrow> x # contents s1)"
      using g get_item [OF Cons.prems(1)] get_empty [OF Cons.prems(1)] by (cases r0) auto
    with Cons.IH [of s1, OF _ r] Cons.prems(2) Get g r show ?thesis by (auto split: option.splits)
  qed
qed

lemma fifo_drain_all:
  "inv s \<Longrightarrow> length (contents s) < n \<Longrightarrow>
     \<exists>s'. fifo_drain get n s = (contents s, s') \<and> inv s' \<and> contents s' = []"
proof (induction n arbitrary: s)
  case 0
  then show ?case by simp
next
  case (Suc n)
  obtain r s1 where g: "get s = (r, s1)" by fastforce
  show ?case
  proof (cases r)
    case None
    with g get_empty [OF Suc.prems(1)] show ?thesis by simp
  next
    case (Some x)
    with g get_item [OF Suc.prems(1)] have 1: "inv s1" "contents s = x # contents s1" by auto
    with Suc.prems(2) have "length (contents s1) < n" by simp
    from Suc.IH [OF 1(1) this] 1 g Some show ?thesis by auto
  qed
qed

end

end
