(* ===== verification/Zst_Queue.thy ===== *)
theory Zst_Queue
  imports Zst_Buffer_Pool Zst_Fifo
begin

text \<open>
  The bounded ring queue of \<open>src/zst_queue.c\<close>, one call at a time: what each operation does between
  two points where other threads may run, which for a lone caller are its condition waits.  Indices
  and sequence numbers are 64-bit words and wrap; the signed differences of the code are read as
  two's complement.  The interleaving of the single atomic accesses of several threads inside one
  operation is not modelled here.

  The counters of waiting threads and the condition signals only decide which sleeping thread is
  woken; a wake-up is an argument of the model, so they have no counterpart in the state.
\<close>

section \<open>State\<close>

datatype queue_mode = ZST_QUEUE_SYNC | ZST_QUEUE_ASYNC

record queue_config =
  qc_mode :: queue_mode
  qc_max_buffers :: u32
  qc_max_bytes :: u64
  qc_max_duration :: u64

record queue_slot =
  s_buf :: "addr option"
  s_seq :: u64
  s_pts :: u64
  s_duration :: u64

record zst_queue =
  q_cfg :: queue_config
  q_capacity :: u32
  has_extra_limits :: bool
  ring :: "queue_slot list"
  q_head :: u64
  q_tail :: u64
  approx_bytes :: u64

definition ring_index :: "zst_queue \<Rightarrow> u64 \<Rightarrow> nat" where
  "ring_index q idx = unat (idx AND ucast (q_capacity q - 1))"

abbreviation slot :: "zst_queue \<Rightarrow> u64 \<Rightarrow> queue_slot" where
  "slot q idx \<equiv> ring q ! ring_index q idx"

section \<open>Operations\<close>

definition next_power_of_two :: "u32 \<Rightarrow> u32" where
  "next_power_of_two v0 =
     (let v = v0 - 1;
          v = v OR drop_bit 1 v;
          v = v OR drop_bit 2 v;
          v = v OR drop_bit 4 v;
          v = v OR drop_bit 8 v;
          v = v OR drop_bit 16 v;
          v = v + 1
      in if v < 2 then 2 else v)"

text \<open>The two booleans are whether the allocations of the queue and of its ring succeed.\<close>

definition zst_queue_create :: "queue_config option \<Rightarrow> bool \<Rightarrow> bool \<Rightarrow> zst_queue option" where
  "zst_queue_create cfg q_ok ring_ok =
     (if \<not> q_ok then None
      else
        (let c = (case cfg of Some c \<Rightarrow> c
                  | None \<Rightarrow> \<lparr>qc_mode = ZST_QUEUE_SYNC, qc_max_buffers = 16, qc_max_bytes = 0,
                            qc_max_duration = 0\<rparr>);
             cap = next_power_of_two (if qc_max_buffers c > 0 then qc_max_buffers c else 16)
         in if \<not> ring_ok then None
            else Some \<lparr>q_cfg = c, q_capacity = cap,
                   has_extra_limits = (qc_max_bytes c > 0 \<or> qc_max_duration c > 0 \<or>
                      qc_max_buffers c > 0 \<and> qc_max_buffers c < cap),
                   ring = map (\<lambda>i. \<lparr>s_buf = None, s_seq = of_nat i, s_pts = 0, s_duration = 0\<rparr>)
                            [0..<unat cap],
                   q_head = 0, q_tail = 0, approx_bytes = 0\<rparr>))"

definition zst_queue_size :: "zst_queue \<Rightarrow> u32" where
  "zst_queue_size q =
     (let size = sint (q_tail q - q_head q) in if size < 0 then 0 else of_int size)"

text \<open>
  The three loops of \<open>zst_queue_get_duration\<close>: the first fully written slot from the head (with the
  index where the search stopped), the last one from the tail, and the sum over the written slots.
  The first argument counts the iterations the loop condition allows.
\<close>

fun duration_head :: "nat \<Rightarrow> zst_queue \<Rightarrow> u64 \<Rightarrow> u64 \<times> u64 option" where
  "duration_head 0 q i = (i, None)"
| "duration_head (Suc n) q i =
     (if s_seq (slot q i) = i + 1 then (i, Some (s_pts (slot q i))) else duration_head n q (i + 1))"

fun duration_tail :: "nat \<Rightarrow> zst_queue \<Rightarrow> u64 \<Rightarrow> u64 option" where
  "duration_tail 0 q i = None"
| "duration_tail (Suc n) q i =
     (if s_seq (slot q i) = i + 1 then Some (s_pts (slot q i))
      else if i = 0 then None else duration_tail n q (i - 1))"

fun duration_sum :: "nat \<Rightarrow> zst_queue \<Rightarrow> u64 \<Rightarrow> u64 \<Rightarrow> u64" where
  "duration_sum 0 q i acc = acc"
| "duration_sum (Suc n) q i acc =
     duration_sum n q (i + 1) (if s_seq (slot q i) = i + 1 then acc + s_duration (slot q i) else acc)"

definition zst_queue_get_duration :: "zst_queue \<Rightarrow> zst_time" where
  "zst_queue_get_duration q =
     (let hd' = q_head q; tl' = q_tail q
      in if tl' \<le> hd' then 0
         else
           (let (first_idx, head_pts) = duration_head (unat tl' - unat hd') q hd';
                tail_pts = duration_tail (unat tl' - unat first_idx) q (tl' - 1)
            in case (head_pts, tail_pts) of
                 (Some h, Some t) \<Rightarrow>
                   if t \<ge> h \<and> h \<noteq> 0 then t - h else duration_sum (unat tl' - unat hd') q hd' 0
               | _ \<Rightarrow> duration_sum (unat tl' - unat hd') q hd' 0))"

definition zst_queue_is_full :: "zst_queue \<Rightarrow> bool" where
  "zst_queue_is_full q \<longleftrightarrow>
     qc_max_buffers (q_cfg q) > 0 \<and> zst_queue_size q \<ge> qc_max_buffers (q_cfg q) \<or>
     qc_max_bytes (q_cfg q) > 0 \<and> approx_bytes q \<ge> qc_max_bytes (q_cfg q) \<or>
     qc_max_duration (q_cfg q) > 0 \<and> zst_queue_get_duration q \<ge> qc_max_duration (q_cfg q)"

text \<open>
  The queue and the heap its buffers live in.  A wake-up of a waiting thread is what the other
  threads did in the meantime and whether the timed wait ran into its deadline.
\<close>

type_synonym qstate = "zst_queue \<times> world"
type_synonym qwakeup = "(qstate \<Rightarrow> qstate) \<times> bool"

abbreviation has_deadline :: "u32 \<Rightarrow> bool" where
  "has_deadline timeout_ms \<equiv> timeout_ms \<noteq> - 1 \<and> timeout_ms > 0"

text \<open>What \<open>push\<close> does once it has claimed the tail position \<open>pos\<close>.\<close>

definition queue_store :: "u64 \<Rightarrow> addr \<Rightarrow> qstate \<Rightarrow> qstate" where
  "queue_store pos a = (\<lambda>(q, w).
     (case get_buffer w a of None \<Rightarrow> (q, w)
      | Some b \<Rightarrow>
          (q\<lparr>ring := (ring q)[ring_index q pos :=
                \<lparr>s_buf = Some a, s_seq = pos + 1, s_pts = pts b, s_duration = duration b\<rparr>],
             q_tail := pos + 1, approx_bytes := approx_bytes q + mem_size (memory b)\<rparr>,
           snd (zst_buffer_ref (Some a) w))))"

text \<open>
  A push of a dangling pointer (no live buffer at the address) is undefined in C; the model answers
  with an error and changes nothing.
\<close>

fun zst_queue_push :: "addr option \<Rightarrow> u32 \<Rightarrow> qwakeup list \<Rightarrow> qstate \<Rightarrow> unit call \<times> qstate" where
  "zst_queue_push None timeout_ms env s = (Done ZST_ERROR (), s)"
| "zst_queue_push (Some a) timeout_ms env (q, w) =
     (if get_buffer w a = None then (Done ZST_ERROR (), (q, w))
      else
        (let pos = q_tail q; diff = sint (s_seq (slot q pos) - pos)
         in if diff = 0 \<and> \<not> (has_extra_limits q \<and> zst_queue_is_full q)
            then (Done ZST_OK (), queue_store pos a (q, w))
            else if diff > 0 then (Blocked, (q, w))
            else if qc_mode (q_cfg q) = ZST_QUEUE_ASYNC then (Done ZST_ERROR (), (q, w))
            else if timeout_ms = 0 then (Done ZST_TIMEOUT (), (q, w))
            else (case env of [] \<Rightarrow> (Blocked, (q, w))
                  | (step, timed_out) # env' \<Rightarrow>
                      if has_deadline timeout_ms \<and> timed_out then (Done ZST_TIMEOUT (), step (q, w))
                      else zst_queue_push (Some a) timeout_ms env' (step (q, w)))))"

text \<open>What \<open>pop\<close> does once it has claimed the head position \<open>pos\<close>.\<close>

definition queue_fetch :: "u64 \<Rightarrow> qstate \<Rightarrow> addr option \<times> qstate" where
  "queue_fetch pos = (\<lambda>(q, w).
     (let buf = s_buf (slot q pos)
      in (buf,
          q\<lparr>ring := (ring q)[ring_index q pos :=
               \<lparr>s_buf = None, s_seq = pos + ucast (q_capacity q), s_pts = 0, s_duration = 0\<rparr>],
            q_head := pos + 1,
            approx_bytes := (case Option.bind buf (get_buffer w) of
                None \<Rightarrow> approx_bytes q | Some b \<Rightarrow> approx_bytes q - mem_size (memory b))\<rparr>, w)))"

fun zst_queue_pop :: "u32 \<Rightarrow> qwakeup list \<Rightarrow> qstate \<Rightarrow> addr option call \<times> qstate" where
  "zst_queue_pop timeout_ms env (q, w) =
     (let pos = q_head q; diff = sint (s_seq (slot q pos) - (pos + 1))
      in if diff = 0 then (case queue_fetch pos (q, w) of (buf, s) \<Rightarrow> (Done ZST_OK buf, s))
         else if diff > 0 then (Blocked, (q, w))
         else if timeout_ms = 0 then (Done ZST_TIMEOUT None, (q, w))
         else (case env of [] \<Rightarrow> (Blocked, (q, w))
               | (step, timed_out) # env' \<Rightarrow>
                   if has_deadline timeout_ms \<and> timed_out then (Done ZST_TIMEOUT None, step (q, w))
                   else zst_queue_pop timeout_ms env' (step (q, w))))"

text \<open>
  \<open>zst_queue_flush\<close> pops until nothing is left.  The fuel is one more than the number of slots; the
  theorem \<open>queue_flush_empties\<close> below shows that it never runs out.
\<close>

fun flush_loop :: "nat \<Rightarrow> qstate \<Rightarrow> qstate option" where
  "flush_loop 0 s = None"
| "flush_loop (Suc n) s =
     (case zst_queue_pop 0 [] s of
        (Done ZST_OK buf, (q, w)) \<Rightarrow> flush_loop n (q, zst_buffer_unref buf w)
      | (_, s') \<Rightarrow> Some s')"

definition zst_queue_flush :: "qstate \<Rightarrow> qstate option" where
  "zst_queue_flush s = flush_loop (Suc (length (ring (fst s)))) s"

text \<open>Destroying a queue flushes it; what remains is the heap.\<close>

definition zst_queue_destroy :: "qstate \<Rightarrow> world option" where
  "zst_queue_destroy s = map_option snd (zst_queue_flush s)"

section \<open>The capacity is a power of two\<close>

text \<open>
  The bit trick of \<open>next_power_of_two\<close>: or-ing a word with its right shifts copies the highest set bit
  into all lower positions.  \<open>smeared m w x\<close> says that \<open>x\<close> has bit \<open>n\<close> when \<open>w\<close> has one of the \<open>m\<close>
  bits from \<open>n\<close> on.
\<close>

definition smeared :: "nat \<Rightarrow> 'a::len word \<Rightarrow> 'a word \<Rightarrow> bool" where
  "smeared m w x \<longleftrightarrow> (\<forall>n. bit x n \<longleftrightarrow> (\<exists>j < m. bit w (n + j)))"

lemma smeared_double:
  assumes "smeared m w x"
  shows "smeared (m + m) w (x OR drop_bit m x)"
proof -
  have "(\<exists>j < m + m. P j) \<longleftrightarrow> (\<exists>j < m. P j) \<or> (\<exists>j < m. P (m + j))" for P
  proof
    assume "\<exists>j < m + m. P j"
    then obtain j where j: "j < m + m" "P j" by blast
    show "(\<exists>j < m. P j) \<or> (\<exists>j < m. P (m + j))"
    proof (cases "j < m")
      case True
      with j show ?thesis by blast
    next
      case False
      with j have "j - m < m" "P (m + (j - m))" by auto
      then show ?thesis by blast
    qed
  next
    assume "(\<exists>j < m. P j) \<or> (\<exists>j < m. P (m + j))"
    then obtain j where "j < m" "P j \<or> P (m + j)" by blast
    then show "\<exists>j < m + m. P j"
      by (cases "P j") (auto intro: exI [of _ j] exI [of _ "m + j"])
  qed
  then show ?thesis
    using assms by (simp add: smeared_def bit_or_iff bit_drop_bit_eq ac_simps)
qed

lemma smeared_mask:
  fixes w :: "'a::len word"
  assumes "smeared m w x" and "LENGTH('a) \<le> m" and "bit w h" and "\<And>i. bit w i \<Longrightarrow> i \<le> h"
  shows "x = mask (Suc h)"
proof (rule bit_eqI)
  fix n assume "possible_bit TYPE('a word) n"
  then have n: "n < LENGTH('a)" by (simp add: possible_bit_word)
  have h: "h < LENGTH('a)" using assms(3) by (rule bit_imp_le_length)
  have "bit x n \<longleftrightarrow> n \<le> h"
  proof
    assume "bit x n"
    then obtain j where "bit w (n + j)" using assms(1) by (auto simp: smeared_def)
    then show "n \<le> h" using assms(4) by fastforce
  next
    assume "n \<le> h"
    then have "bit w (n + (h - n))" "h - n < m" using assms(2,3) h by auto
    then show "bit x n" using assms(1) unfolding smeared_def by blast
  qed
  then show "bit x n = bit (mask (Suc h) :: 'a word) n" using n by (auto simp: bit_mask_iff)
qed

lemma highest_bit:
  fixes w :: "'a::len word"
  assumes "w \<noteq> 0"
  obtains h where "bit w h" "\<And>i. bit w i \<Longrightarrow> i \<le> h" "2 ^ h \<le> unat w" "unat w < 2 ^ Suc h"
proof -
  let ?B = "{i. bit w i}"
  have fin: "finite ?B" by (rule finite_subset [of _ "{..<LENGTH('a)}"]) (auto dest: bit_imp_le_length)
  have ne: "?B \<noteq> {}" using assms bit_eqI [of w 0] by auto
  define h where "h = Max ?B"
  have h: "bit w h" using Max_in [OF fin ne] by (simp add: h_def)
  have top: "i \<le> h" if "bit w i" for i using Max_ge [OF fin, of i] that by (simp add: h_def)
  have "take_bit (Suc h) w = w"
    by (rule bit_eqI) (auto simp: bit_take_bit_iff dest: top)
  then have "unat w = take_bit (Suc h) (unat w)" by (metis unsigned_take_bit_eq)
  then have lt: "unat w < 2 ^ Suc h" by (metis take_bit_nat_less_exp)
  have "bit (unat w) h" using h by (simp add: bit_unsigned_iff bit_imp_le_length)
  then have "odd (unat w div 2 ^ h)" by (simp add: bit_iff_odd)
  then have "2 ^ h \<le> unat w" by (metis div_less even_zero not_le)
  with h top lt that show thesis by blast
qed

lemma next_power_of_two_bounds:
  assumes "1 \<le> unat v" and "unat v \<le> 2 ^ 31"
  obtains k where "1 \<le> k" "k \<le> 31" "next_power_of_two v = 2 ^ k" "unat v \<le> 2 ^ k" "k = 1 \<or> 2 ^ k < 2 * unat v"
proof (cases "v = 1")
  case True
  then show thesis by (intro that [of 1]) (auto simp: next_power_of_two_def)
next
  case False
  define w where "w = v - 1"
  have uw: "unat w = unat v - 1" using assms(1) using unat_minus_one [of v] by (force simp: w_def)
  have "w \<noteq> 0" using False by (simp add: w_def)
  then obtain h where h: "bit w h" "\<And>i. bit w i \<Longrightarrow> i \<le> h" "2 ^ h \<le> unat w" "unat w < 2 ^ Suc h"
    by (rule highest_bit) blast
  let ?x1 = "w OR drop_bit 1 w" let ?x2 = "?x1 OR drop_bit 2 ?x1" let ?x3 = "?x2 OR drop_bit 4 ?x2"
  let ?x4 = "?x3 OR drop_bit 8 ?x3" let ?x5 = "?x4 OR drop_bit 16 ?x4"
  have "smeared 1 w w" by (simp add: smeared_def)
  from smeared_double [OF this] have "smeared 2 w ?x1" by (simp add: numeral_2_eq_2)
  from smeared_double [OF this] have "smeared 4 w ?x2" by simp
  from smeared_double [OF this] have "smeared 8 w ?x3" by simp
  from smeared_double [OF this] have "smeared 16 w ?x4" by simp
  from smeared_double [OF this] have "smeared 32 w ?x5" by simp
  then have x5: "?x5 = mask (Suc h)" by (rule smeared_mask) (use h in auto)
  have hb: "h \<le> 30"
  proof (rule ccontr)
    assume "\<not> h \<le> 30"
    then have "(2::nat) ^ 31 \<le> 2 ^ h" by (intro power_increasing) auto
    with h(3) uw assms show False by simp
  qed
  have e: "mask (Suc h) + 1 = (2 ^ Suc h :: u32)" by (simp add: mask_eq_exp_minus_1)
  have big: "\<not> (2 ^ Suc h :: u32) < 2"
    using hb unat_exp [of "Suc h", where ?'a = 32] one_le_power [of "2::nat" h]
    by (simp only: word_less_nat_alt) simp
  have "next_power_of_two v = 2 ^ Suc h"
    using x5 e big by (simp add: next_power_of_two_def Let_def w_def [symmetric])
  then show thesis
    by (rule that [of "Suc h", rotated 2]) (use hb h uw assms in auto)
qed

section \<open>Ring positions\<close>

definition ring_ok :: "nat \<Rightarrow> zst_queue \<Rightarrow> bool" where
  "ring_ok k q \<longleftrightarrow> 1 \<le> k \<and> k \<le> 31 \<and> q_capacity q = 2 ^ k \<and> length (ring q) = 2 ^ k"

lemma unat_add_of_nat_mod:
  assumes "k \<le> 64"
  shows "unat (x + of_nat i :: u64) mod 2 ^ k = (unat x + i) mod 2 ^ k"
proof -
  have "(2::nat) ^ k dvd 2 ^ 64" using assms by (rule le_imp_power_dvd)
  then show ?thesis
    by (simp add: unat_word_ariths unat_of_nat take_bit_eq_mod mod_mod_cancel mod_add_right_eq)
qed

lemma ring_index_mod:
  assumes "ring_ok k q"
  shows "ring_index q x = unat x mod 2 ^ k"
proof -
  have "(ucast (q_capacity q - 1) :: u64) = mask k"
    using assms
    by (auto simp: ring_ok_def mask_eq_exp_minus_1 [symmetric] bit_unsigned_iff bit_mask_iff
        intro!: bit_eqI)
  then show ?thesis by (simp add: ring_index_def unat_and_mask)
qed

lemma ring_index_add: "ring_ok k q \<Longrightarrow> ring_index q (x + of_nat i) = (unat x + i) mod 2 ^ k"
  by (simp add: ring_index_mod unat_add_of_nat_mod) (simp add: unat_add_of_nat_mod ring_ok_def)

lemma ring_index_lt: "ring_ok k q \<Longrightarrow> ring_index q x < length (ring q)"
  by (simp add: ring_index_mod) (simp add: ring_ok_def)

lemma ring_index_inj:
  assumes "ring_ok k q" and "i < 2 ^ k" and "j < 2 ^ k"
    and "ring_index q (x + of_nat i) = ring_index q (x + of_nat j)"
  shows "i = j"
  using assms mod_add_inj [of i "2 ^ k" j "unat x"] by (simp add: ring_index_add)

section \<open>The queue invariant and its contents\<close>

text \<open>
  Between two calls the positions from head to tail are written (their sequence number is one ahead)
  and hold a buffer, and the rest of the ring, read on from the tail, is free (sequence number equal
  to the position), whatever the absolute value of the indices.  The number of buffers never exceeds
  the configured maximum.
\<close>

definition queue_len :: "zst_queue \<Rightarrow> nat" where
  "queue_len q = unat (q_tail q - q_head q)"

definition contents :: "zst_queue \<Rightarrow> addr list" where
  "contents q = map (\<lambda>i. the (s_buf (slot q (q_head q + of_nat i)))) [0..<queue_len q]"

definition queue_ok :: "nat \<Rightarrow> zst_queue \<Rightarrow> bool" where
  "queue_ok k q \<longleftrightarrow> ring_ok k q \<and> queue_len q \<le> 2 ^ k \<and>
     (\<forall>i < queue_len q. s_seq (slot q (q_head q + of_nat i)) = q_head q + of_nat i + 1 \<and>
        s_buf (slot q (q_head q + of_nat i)) \<noteq> None) \<and>
     (\<forall>i < 2 ^ k. queue_len q \<le> i \<longrightarrow> s_seq (slot q (q_head q + of_nat i)) = q_head q + of_nat i) \<and>
     (qc_max_buffers (q_cfg q) > 0 \<longrightarrow> queue_len q \<le> unat (qc_max_buffers (q_cfg q))) \<and>
     (\<not> has_extra_limits q \<longrightarrow> qc_max_buffers (q_cfg q) = 0 \<or> 2 ^ k \<le> unat (qc_max_buffers (q_cfg q)))"

lemma length_contents [simp]: "length (contents q) = queue_len q"
  by (simp add: contents_def)

lemma ring_index_cong: "q_capacity q' = q_capacity q \<Longrightarrow> ring_index q' = ring_index q"
  by (simp add: ring_index_def fun_eq_iff)

lemma queue_tail: "q_tail q = q_head q + of_nat (queue_len q)"
  by (simp add: queue_len_def)

lemma ring_ok_max: "ring_ok k q \<Longrightarrow> (2 :: nat) ^ k \<le> 2 ^ 31"
  by (rule power_increasing) (auto simp: ring_ok_def)

lemma ring_ok_small: "ring_ok k q \<Longrightarrow> n \<le> 2 ^ k \<Longrightarrow> n < (2 :: nat) ^ 63"
proof -
  assume "ring_ok k q" "n \<le> 2 ^ k"
  moreover from this have "(2::nat) ^ k \<le> 2 ^ 31" by (intro power_increasing) (auto simp: ring_ok_def)
  ultimately show ?thesis by simp
qed

lemma zst_queue_size_len:
  assumes "queue_ok k q"
  shows "unat (zst_queue_size q) = queue_len q"
proof -
  have k: "ring_ok k q" "queue_len q \<le> 2 ^ k" using assms by (auto simp: queue_ok_def)
  have "(2::nat) ^ k \<le> 2 ^ 31" using k(1) by (intro power_increasing) (auto simp: ring_ok_def)
  with k have le: "queue_len q \<le> 2 ^ 31" by simp
  have "sint (q_tail q - q_head q) = int (queue_len q)"
    using ring_ok_small [OF k] by (simp add: queue_len_def sint_small)
  with le show ?thesis by (simp add: zst_queue_size_def Let_def unat_of_nat_small)
qed

text \<open>What writing one slot of the ring does to reading the others.\<close>

lemma slot_update:
  assumes "ring_ok k q" and "q_capacity q' = q_capacity q" and "ring q' = (ring q)[ring_index q pos := v]"
  shows "slot q' x = (if ring_index q x = ring_index q pos then v else slot q x)"
  using assms ring_index_lt [OF assms(1), of pos]
  by (simp add: ring_index_cong [OF assms(2)] nth_list_update)

lemma slot_update_of_nat:
  assumes "ring_ok k q" and "q_capacity q' = q_capacity q"
    and "ring q' = (ring q)[ring_index q (x + of_nat j) := v]" and "i < 2 ^ k" and "j < 2 ^ k"
  shows "slot q' (x + of_nat i) = (if i = j then v else slot q (x + of_nat i))"
  using slot_update [OF assms(1-3)] ring_index_inj [OF assms(1) assms(4,5), of x] by auto

lemma ring_index_period: "ring_ok k q \<Longrightarrow> ring_index q (x + of_nat (2 ^ k)) = ring_index q x"
  using ring_index_add [of k q x "2 ^ k"] by (simp add: ring_index_mod)

lemma tail_slot_free:
  assumes "queue_ok k q" and "queue_len q < 2 ^ k"
  shows "s_seq (slot q (q_tail q)) = q_tail q"
  using assms by (simp add: queue_tail) (simp add: queue_ok_def)

lemma tail_slot_full:
  assumes "queue_ok k q" and "\<not> queue_len q < 2 ^ k"
  shows "sint (s_seq (slot q (q_tail q)) - q_tail q) < 0"
proof -
  have r: "ring_ok k q" and len: "queue_len q = 2 ^ k" using assms by (auto simp: queue_ok_def)
  have k: "1 \<le> k" "(2::nat) ^ k \<le> 2 ^ 31"
    using r ring_ok_max [OF r] by (auto simp: ring_ok_def)
  then have k2: "2 \<le> (2::nat) ^ k" using power_increasing [of 1 k "2::nat"] by simp
  have "slot q (q_tail q) = slot q (q_head q + of_nat 0)"
    using ring_index_period [OF r, of "q_head q"] by (simp add: queue_tail len)
  moreover have "s_seq (slot q (q_head q + of_nat 0)) = q_head q + of_nat 0 + 1"
    using assms(1) len k2 unfolding queue_ok_def by (metis zero_less_numeral zero_less_power)
  ultimately have "s_seq (slot q (q_tail q)) - q_tail q = - of_nat (2 ^ k - 1)"
    using k2 by (simp add: queue_tail len of_nat_diff)
  moreover have "sint (- of_nat (2 ^ k - 1) :: u64) = - int (2 ^ k - 1)"
    by (rule sint_minus_of_nat) (use k(2) in simp)
  moreover have "- int (2 ^ k - 1) < 0" using k2 by linarith
  ultimately show ?thesis by metis
qed

lemma head_slot_written:
  assumes "queue_ok k q" and "0 < queue_len q"
  shows "s_seq (slot q (q_head q)) = q_head q + 1" and "s_buf (slot q (q_head q)) = Some (hd (contents q))"
  using assms unfolding queue_ok_def contents_def
  by (auto simp: hd_map dest!: spec [of _ 0])

lemma head_slot_empty:
  assumes "queue_ok k q" and "queue_len q = 0"
  shows "sint (s_seq (slot q (q_head q)) - (q_head q + 1)) < 0"
proof -
  have "s_seq (slot q (q_head q + of_nat 0)) = q_head q + of_nat 0"
    using assms unfolding queue_ok_def by (metis le0 zero_less_numeral zero_less_power)
  then show ?thesis by simp
qed

text \<open>A push is accepted exactly when the ring has a free slot and no configured limit is reached.\<close>

definition queue_room :: "zst_queue \<Rightarrow> bool" where
  "queue_room q \<longleftrightarrow> queue_len q < length (ring q) \<and> \<not> (has_extra_limits q \<and> zst_queue_is_full q)"

lemma queue_ok_ringD: "queue_ok k q \<Longrightarrow> ring_ok k q \<and> length (ring q) = 2 ^ k"
  by (simp add: queue_ok_def ring_ok_def)

lemma queue_store_contents:
  assumes ok: "queue_ok k q" and room: "queue_room q" and b: "get_buffer w a = Some b"
    and st: "queue_store (q_tail q) a (q, w) = (q', w')"
  shows "queue_ok k q'" and "contents q' = contents q @ [a]"
proof -
  note r = queue_ok_ringD [OF ok]
  let ?n = "queue_len q"
  have n: "?n < 2 ^ k" using room r by (simp add: queue_room_def)
  let ?v = "\<lparr>s_buf = Some a, s_seq = q_tail q + 1, s_pts = pts b, s_duration = duration b\<rparr>"
  have q': "q' = q\<lparr>ring := (ring q)[ring_index q (q_head q + of_nat ?n) := ?v], q_tail := q_tail q + 1,
      approx_bytes := approx_bytes q + mem_size (memory b)\<rparr>"
    using st b by (simp add: queue_store_def queue_tail)
  have fields: "q_capacity q' = q_capacity q" "q_head q' = q_head q"
    "ring q' = (ring q)[ring_index q (q_head q + of_nat ?n) := ?v]" "q_cfg q' = q_cfg q"
    "has_extra_limits q' = has_extra_limits q" by (simp_all add: q')
  have sl: "slot q' (q_head q + of_nat i) = (if i = ?n then ?v else slot q (q_head q + of_nat i))"
    if "i < 2 ^ k" for i
    using slot_update_of_nat [OF r [THEN conjunct1] fields(1,3) that n] .
  have "q_tail q' - q_head q' = of_nat (Suc ?n)" by (simp add: q' queue_tail [of q])
  moreover have "Suc ?n < 2 ^ 64" using ring_ok_small [OF r [THEN conjunct1], of "Suc ?n"] n by simp
  ultimately have len: "queue_len q' = Suc ?n"
    unfolding queue_len_def [of q'] by (simp only:) (rule unat_of_nat_small, simp)
  have rk: "ring_ok k q'" using r by (simp add: ring_ok_def fields)
  have max: "Suc ?n \<le> unat (qc_max_buffers (q_cfg q))" if "qc_max_buffers (q_cfg q) > 0"
  proof (cases "has_extra_limits q")
    case True
    then have "\<not> zst_queue_size q \<ge> qc_max_buffers (q_cfg q)"
      using room that by (simp add: queue_room_def zst_queue_is_full_def)
    then show ?thesis using zst_queue_size_len [OF ok] by (simp add: word_le_nat_alt)
  next
    case False
    then show ?thesis using ok n that by (auto simp: queue_ok_def)
  qed
  show "queue_ok k q'"
    unfolding queue_ok_def len fields(2)
    using ok rk n max sl by (auto simp: queue_ok_def fields(4,5) less_Suc_eq queue_tail)
  have "map (\<lambda>i. the (s_buf (slot q' (q_head q + of_nat i)))) [0..<?n] = contents q"
    unfolding contents_def using sl n by (intro map_cong) auto
  then show "contents q' = contents q @ [a]"
    unfolding contents_def [of q'] len fields(2) using sl [OF n] by simp
qed

lemma queue_fetch_contents:
  assumes ok: "queue_ok k q" and ne: "0 < queue_len q" and f: "queue_fetch (q_head q) (q, w) = (r, (q', w'))"
  shows "queue_ok k q'" and "r = Some (hd (contents q))" and "contents q = hd (contents q) # contents q'" and "w' = w"
proof -
  note rr = queue_ok_ringD [OF ok]
  let ?n = "queue_len q" and ?h = "q_head q"
  have n: "?n \<le> 2 ^ k" using ok by (simp add: queue_ok_def)
  let ?v = "\<lparr>s_buf = None, s_seq = ?h + ucast (q_capacity q), s_pts = 0, s_duration = 0\<rparr>"
  have fields: "q_capacity q' = q_capacity q" "q_head q' = ?h + 1" "q_tail q' = q_tail q"
    "ring q' = (ring q)[ring_index q (?h + of_nat 0) := ?v]" "q_cfg q' = q_cfg q"
    "has_extra_limits q' = has_extra_limits q" and w': "w' = w" and r: "r = s_buf (slot q ?h)"
    using f by (auto simp: queue_fetch_def Let_def)
  have cap: "ucast (q_capacity q) = (of_nat (2 ^ k) :: u64)"
  proof -
    have "unat (q_capacity q) = 2 ^ k" using rr unat_exp [of k, where ?'a = 32] by (simp add: ring_ok_def)
    then show ?thesis by (metis of_nat_unat)
  qed
  have sl: "slot q' (?h + of_nat i) = (if i = 0 then ?v else slot q (?h + of_nat i))"
    if "i < 2 ^ k" for i
    using slot_update_of_nat [OF rr [THEN conjunct1] fields(1,4) that] by simp
  have sl1: "slot q' (q_head q' + of_nat i) = (if Suc i = 2 ^ k then ?v else slot q (?h + of_nat (Suc i)))"
    if "i < 2 ^ k" for i
  proof (cases "Suc i = 2 ^ k")
    case True
    have "ring_index q' (?h + of_nat (2 ^ k)) = ring_index q' (?h + of_nat 0)"
      using ring_index_period [OF rr [THEN conjunct1], of ?h] by (simp add: ring_index_cong [OF fields(1)])
    moreover have "q_head q' + of_nat i = ?h + of_nat (2 ^ k)"
      unfolding fields(2) True [symmetric] by simp
    ultimately show ?thesis using sl [of 0] True by simp
  next
    case False
    then show ?thesis using that sl [of "Suc i"] by (simp add: fields(2) add.assoc)
  qed
  have "q_tail q' - q_head q' = of_nat (?n - 1)"
    using ne by (simp add: fields(2,3) queue_tail [of q] of_nat_diff)
  moreover have "?n - 1 < 2 ^ 64" using ring_ok_small [OF rr [THEN conjunct1] n] by simp
  ultimately have len: "queue_len q' = ?n - 1"
    unfolding queue_len_def [of q'] by (simp only:) (rule unat_of_nat_small, simp)
  have rk: "ring_ok k q'" using rr by (simp add: ring_ok_def fields)
  have fr: "s_seq (slot q' (q_head q' + of_nat i)) = q_head q' + of_nat i"
    if i: "i < 2 ^ k" "?n - 1 \<le> i" for i
  proof (cases "Suc i = 2 ^ k")
    case True
    then have "of_nat (2 ^ k) = (1 + of_nat i :: u64)" by (metis of_nat_Suc)
    with sl1 [OF i(1)] True show ?thesis by (simp add: cap fields(2) del: of_nat_power)
  next
    case False
    have "s_seq (slot q (?h + of_nat (Suc i))) = ?h + of_nat (Suc i)"
    proof -
      have "Suc i < 2 ^ k" "?n \<le> Suc i" using i False by auto
      then show ?thesis using ok unfolding queue_ok_def by blast
    qed
    with sl1 [OF i(1)] False show ?thesis by (simp add: fields(2) add.assoc)
  qed
  have wr: "s_seq (slot q' (q_head q' + of_nat i)) = q_head q' + of_nat i + 1 \<and>
      s_buf (slot q' (q_head q' + of_nat i)) \<noteq> None" if i: "i < ?n - 1" for i
  proof -
    have i1: "Suc i < ?n" using i by simp
    then have "s_seq (slot q (?h + of_nat (Suc i))) = ?h + of_nat (Suc i) + 1 \<and>
       s_buf (slot q (?h + of_nat (Suc i))) \<noteq> None"
      using ok unfolding queue_ok_def by blast
    with sl1 [of i] i1 n show ?thesis by (simp add: fields(2) add.assoc)
  qed
  show "queue_ok k q'"
    unfolding queue_ok_def len using rk n fr wr ok by (auto simp: queue_ok_def fields(5,6))
  show "r = Some (hd (contents q))" using r head_slot_written [OF ok ne] by simp
  have "[0..<?n] = 0 # map Suc [0..<?n - 1]"
    using ne by (simp add: map_Suc_upt upt_conv_Cons)
  moreover have "map (\<lambda>i. the (s_buf (slot q (?h + of_nat (Suc i))))) [0..<?n - 1] = contents q'"
    unfolding contents_def len using sl1 n by (intro map_cong) auto
  ultimately show "contents q = hd (contents q) # contents q'"
    unfolding contents_def [of q] by (simp add: o_def)
  show "w' = w" by (rule w')
qed

section \<open>What each call does\<close>

lemma push_room:
  assumes "queue_ok k q" and "queue_room q" and "get_buffer w a \<noteq> None"
  shows "zst_queue_push (Some a) timeout_ms env (q, w) = (Done ZST_OK (), queue_store (q_tail q) a (q, w))"
  using assms tail_slot_free [OF assms(1)] queue_ok_ringD [OF assms(1)]
  by (auto simp: Let_def queue_room_def)

lemma push_no_room:
  assumes "queue_ok k q" and "\<not> queue_room q" and "get_buffer w a \<noteq> None"
  shows "zst_queue_push (Some a) timeout_ms env (q, w) =
    (if qc_mode (q_cfg q) = ZST_QUEUE_ASYNC then (Done ZST_ERROR (), (q, w))
     else if timeout_ms = 0 then (Done ZST_TIMEOUT (), (q, w))
     else (case env of [] \<Rightarrow> (Blocked, (q, w))
           | (step, timed_out) # env' \<Rightarrow>
               if has_deadline timeout_ms \<and> timed_out then (Done ZST_TIMEOUT (), step (q, w))
               else zst_queue_push (Some a) timeout_ms env' (step (q, w))))"
proof (cases "queue_len q < 2 ^ k")
  case True
  then have "has_extra_limits q \<and> zst_queue_is_full q"
    using assms(2) queue_ok_ringD [OF assms(1)] by (simp add: queue_room_def)
  then show ?thesis
    using assms(3) tail_slot_free [OF assms(1) True]
    by (subst zst_queue_push.simps) (auto simp add: Let_def)
next
  case False
  then show ?thesis
    using assms(3) tail_slot_full [OF assms(1) False]
    by (subst zst_queue_push.simps) (auto simp: Let_def)
qed

lemma pop_some:
  assumes "queue_ok k q" and "0 < queue_len q"
  obtains q' where "zst_queue_pop timeout_ms env (q, w) = (Done ZST_OK (Some (hd (contents q))), (q', w))"
    and "queue_fetch (q_head q) (q, w) = (Some (hd (contents q)), (q', w))"
    and "queue_ok k q'" and "contents q = hd (contents q) # contents q'"
proof -
  obtain r q' w' where f: "queue_fetch (q_head q) (q, w) = (r, (q', w'))" by (metis prod_cases3)
  note c = queue_fetch_contents [OF assms f]
  have "zst_queue_pop timeout_ms env (q, w) = (Done ZST_OK r, (q', w'))"
    using head_slot_written(1) [OF assms] f by (simp add: Let_def)
  with c f that show thesis by simp
qed

lemma pop_none:
  assumes "queue_ok k q" and "queue_len q = 0"
  shows "zst_queue_pop timeout_ms env (q, w) =
    (if timeout_ms = 0 then (Done ZST_TIMEOUT None, (q, w))
     else (case env of [] \<Rightarrow> (Blocked, (q, w))
           | (step, timed_out) # env' \<Rightarrow>
               if has_deadline timeout_ms \<and> timed_out then (Done ZST_TIMEOUT None, step (q, w))
               else zst_queue_pop timeout_ms env' (step (q, w))))"
  using head_slot_empty [OF assms]
  by (subst zst_queue_pop.simps) (simp add: Let_def less_imp_neq not_less_iff_gr_or_eq)

lemma queue_create_ok:
  assumes "zst_queue_create cfg q_ok r_ok = Some q"
    and "case cfg of Some c \<Rightarrow> unat (qc_max_buffers c) \<le> 2 ^ 31 | None \<Rightarrow> True"
  obtains k where "queue_ok k q" "contents q = []" "approx_bytes q = 0"
proof -
  define c where "c = (case cfg of Some c \<Rightarrow> c
     | None \<Rightarrow> \<lparr>qc_mode = ZST_QUEUE_SYNC, qc_max_buffers = 16, qc_max_bytes = 0, qc_max_duration = 0\<rparr>)"
  define m where "m = (if qc_max_buffers c > 0 then qc_max_buffers c else 16)"
  have pos: "1 \<le> unat x" if "0 < x" for x :: u32 using that by (simp add: word_less_nat_alt)
  have "1 \<le> unat m" by (cases "qc_max_buffers c > 0") (use pos in \<open>auto simp: m_def\<close>)
  moreover have "unat m \<le> 2 ^ 31" using assms(2) by (auto simp: m_def c_def split: option.splits)
  ultimately obtain k where k: "1 \<le> k" "k \<le> 31" "next_power_of_two m = 2 ^ k" "unat m \<le> 2 ^ k"
    by (rule next_power_of_two_bounds) blast
  have u: "unat (2 ^ k :: u32) = 2 ^ k" using unat_exp [of k, where ?'a = 32] k by simp
  have q: "q = \<lparr>q_cfg = c, q_capacity = 2 ^ k, has_extra_limits = (qc_max_bytes c > 0 \<or> qc_max_duration c > 0 \<or>
                      qc_max_buffers c > 0 \<and> qc_max_buffers c < 2 ^ k),
      ring = map (\<lambda>i. \<lparr>s_buf = None, s_seq = of_nat i, s_pts = 0, s_duration = 0\<rparr>) [0..<2 ^ k],
      q_head = 0, q_tail = 0, approx_bytes = 0\<rparr>"
    using assms(1) k(3) u unfolding zst_queue_create_def c_def [symmetric] Let_def m_def [symmetric]
    by (auto split: if_splits)
  have r: "ring_ok k q" using k by (simp add: ring_ok_def q)
  have len: "queue_len q = 0" by (simp add: queue_len_def q)
  have "s_seq (slot q (of_nat i)) = of_nat i" if "i < 2 ^ k" for i
  proof -
    have "ring_index q (0 + of_nat i) = i" using ring_index_add [OF r, of 0 i] that by simp
    then show ?thesis using that by (simp add: q)
  qed
  then have "queue_ok k q"
    using r len u by (auto simp: queue_ok_def q not_less) (auto simp: word_le_nat_alt)
  with len that show thesis by (simp add: q contents_def)
qed

section \<open>The queue as a FIFO channel\<close>

definition queue_put :: "addr \<Rightarrow> qstate \<Rightarrow> bool \<times> qstate" where
  "queue_put a s = (case zst_queue_push (Some a) 0 [] s of (r, s') \<Rightarrow> (r = Done ZST_OK (), s'))"

definition queue_get :: "qstate \<Rightarrow> addr option \<times> qstate" where
  "queue_get s = (case zst_queue_pop 0 [] s of (Done ZST_OK r, s') \<Rightarrow> (r, s') | (_, s') \<Rightarrow> (None, s'))"

definition queue_inv :: "queue_config \<Rightarrow> qstate \<Rightarrow> bool" where
  "queue_inv c s \<longleftrightarrow> (\<exists>k. queue_ok k (fst s)) \<and> q_cfg (fst s) = c"

lemma queue_put_cfg: "queue_put a s = (ok, s') \<Longrightarrow> q_cfg (fst s') = q_cfg (fst s)"
  by (cases s) (auto simp: queue_put_def queue_store_def Let_def split: if_splits option.splits)

lemma queue_get_cfg: "queue_get s = (r, s') \<Longrightarrow> q_cfg (fst s') = q_cfg (fst s)"
  by (cases s) (auto simp: queue_get_def queue_fetch_def Let_def split: if_splits)

lemma queue_put_cases:
  assumes "queue_ok k q" and "queue_put a (q, w) = (ok, (q', w'))"
  shows "queue_ok k q' \<and> contents q' = (if ok then contents q @ [a] else contents q)"
proof (cases "get_buffer w a")
  case None
  with assms show ?thesis by (auto simp: queue_put_def)
next
  case (Some b)
  show ?thesis
  proof (cases "queue_room q")
    case True
    with push_room [OF assms(1) True, of w a 0 "[]"] Some assms(2)
    have "ok" "queue_store (q_tail q) a (q, w) = (q', w')" by (auto simp: queue_put_def)
    with queue_store_contents [OF assms(1) True Some] show ?thesis by simp
  next
    case False
    with push_no_room [OF assms(1) False, of w a 0 "[]"] Some assms show ?thesis
      by (auto simp: queue_put_def split: if_splits)
  qed
qed

lemma queue_get_cases:
  assumes "queue_ok k q" and "queue_get (q, w) = (r, (q', w'))"
  shows "queue_ok k q' \<and> (case r of None \<Rightarrow> contents q = [] \<and> contents q' = []
     | Some x \<Rightarrow> contents q = x # contents q') \<and> w' = w"
proof (cases "queue_len q = 0")
  case True
  with pop_none [OF assms(1) True, of 0 "[]"] assms show ?thesis by (auto simp: queue_get_def contents_def)
next
  case False
  then obtain q1 where "zst_queue_pop 0 [] (q, w) = (Done ZST_OK (Some (hd (contents q))), (q1, w))"
    and q1: "queue_ok k q1" "contents q = hd (contents q) # contents q1"
    using pop_some [OF assms(1), of 0 "[]" w] by auto
  then have "r = Some (hd (contents q))" "q' = q1" "w' = w"
    using assms(2) by (auto simp: queue_get_def simp del: zst_queue_pop.simps)
  with q1 show ?thesis by simp
qed

interpretation zst_queue: fifo "queue_inv c" "\<lambda>s. contents (fst s)" queue_put queue_get for c
proof unfold_locales
  fix s s' :: qstate and x
  show "queue_inv c s' \<and> contents (fst s') = contents (fst s) @ [x]"
    if "queue_inv c s" "queue_put x s = (True, s')"
    using that queue_put_cases [of _ "fst s" x "snd s" True "fst s'" "snd s'"] by (auto simp: queue_inv_def queue_put_cfg queue_get_cfg)
  show "queue_inv c s' \<and> contents (fst s') = contents (fst s)"
    if "queue_inv c s" "queue_put x s = (False, s')"
    using that queue_put_cases [of _ "fst s" x "snd s" False "fst s'" "snd s'"] by (auto simp: queue_inv_def queue_put_cfg queue_get_cfg)
  show "queue_inv c s' \<and> contents (fst s) = x # contents (fst s')"
    if "queue_inv c s" "queue_get s = (Some x, s')"
    using that queue_get_cases [of _ "fst s" "snd s" "Some x" "fst s'" "snd s'"] by (auto simp: queue_inv_def queue_put_cfg queue_get_cfg)
  show "queue_inv c s' \<and> contents (fst s) = [] \<and> contents (fst s') = []"
    if "queue_inv c s" "queue_get s = (None, s')"
    using that queue_get_cases [of _ "fst s" "snd s" None "fst s'" "snd s'"] by (auto simp: queue_inv_def queue_put_cfg queue_get_cfg)
qed

section \<open>Flushing\<close>

lemma flush_loop_contents:
  assumes "queue_ok k q" and "queue_len q < n"
  shows "\<exists>q'. flush_loop n (q, w) = Some (q', fold (\<lambda>a. zst_buffer_unref (Some a)) (contents q) w) \<and>
     queue_ok k q' \<and> contents q' = []"
  using assms
proof (induction n arbitrary: q w)
  case 0
  then show ?case by simp
next
  case (Suc n)
  show ?case
  proof (cases "queue_len q = 0")
    case True
    then have "contents q = []" by (simp add: contents_def)
    with pop_none [OF Suc.prems(1) True, of 0 "[]" w] Suc.prems(1) show ?thesis
      by (simp del: zst_queue_pop.simps)
  next
    case False
    then obtain q1 where p: "zst_queue_pop 0 [] (q, w) = (Done ZST_OK (Some (hd (contents q))), (q1, w))"
      and q1: "queue_ok k q1" "contents q = hd (contents q) # contents q1"
      using pop_some [OF Suc.prems(1), of 0 "[]" w] by auto
    from q1(2) have "queue_len q = Suc (queue_len q1)" by (metis length_Cons length_contents)
    with Suc.prems(2) have "queue_len q1 < n" by simp
    note IH = Suc.IH [OF q1(1) this, of "zst_buffer_unref (Some (hd (contents q))) w"]
    have "fold (\<lambda>a. zst_buffer_unref (Some a)) (contents q) w =
        fold (\<lambda>a. zst_buffer_unref (Some a)) (contents q1) (zst_buffer_unref (Some (hd (contents q))) w)"
      by (subst (1) q1(2)) (simp only: fold_simps)
    with IH p show ?thesis by (auto simp del: zst_queue_pop.simps)
  qed
qed

section \<open>Byte accounting\<close>

text \<open>
  \<open>approx_bytes\<close> counts the bytes of the queued buffers, as long as nobody else resizes or frees them
  (the queue holds a reference on each).
\<close>

definition buffer_bytes :: "world \<Rightarrow> addr \<Rightarrow> u64" where
  "buffer_bytes w a = (case get_buffer w a of None \<Rightarrow> 0 | Some b \<Rightarrow> mem_size (memory b))"

definition bytes_ok :: "qstate \<Rightarrow> bool" where
  "bytes_ok s \<longleftrightarrow> (\<forall>a \<in> set (contents (fst s)). get_buffer (snd s) a \<noteq> None) \<and>
     approx_bytes (fst s) = sum_list (map (buffer_bytes (snd s)) (contents (fst s)))"

lemma buffer_ref_bytes:
  assumes "zst_buffer_ref p w = (r, w')"
  shows "buffer_bytes w' = buffer_bytes w" and "get_buffer w' a = None \<longleftrightarrow> get_buffer w a = None"
  using assms
  by (auto simp: zst_buffer_ref_def buffer_bytes_def get_buffer_def put_buffer_def fun_eq_iff
      split: option.splits cell.splits if_splits)

lemma queue_store_bytes:
  assumes "queue_ok k q" and "queue_room q" and "bytes_ok (q, w)" and b: "get_buffer w a = Some b"
  shows "bytes_ok (queue_store (q_tail q) a (q, w))"
proof -
  obtain q' w' where st: "queue_store (q_tail q) a (q, w) = (q', w')" by fastforce
  then have w': "w' = snd (zst_buffer_ref (Some a) w)"
    and ab: "approx_bytes q' = approx_bytes q + mem_size (memory b)"
    using b by (auto simp: queue_store_def)
  have "buffer_bytes w' = buffer_bytes w" "\<And>x. get_buffer w' x = None \<longleftrightarrow> get_buffer w x = None"
    using buffer_ref_bytes [of "Some a" w] w' by (metis prod.collapse)+
  with queue_store_contents [OF assms(1,2) b st] ab assms(3) b show ?thesis
    by (simp add: st bytes_ok_def) (simp add: buffer_bytes_def)
qed

lemma queue_fetch_bytes:
  assumes "queue_ok k q" and "0 < queue_len q" and "bytes_ok (q, w)"
  shows "bytes_ok (snd (queue_fetch (q_head q) (q, w)))"
proof -
  obtain r q' w' where f: "queue_fetch (q_head q) (q, w) = (r, (q', w'))" by (metis prod_cases3)
  note c = queue_fetch_contents [OF assms(1,2) f]
  let ?x = "hd (contents q)"
  have live: "get_buffer w ?x \<noteq> None" and tl: "\<forall>a \<in> set (contents q'). get_buffer w a \<noteq> None"
    using assms(3) c(3) unfolding bytes_ok_def fst_conv snd_conv by (metis list.set_intros)+
  have "approx_bytes q' = approx_bytes q - buffer_bytes w ?x"
    using f head_slot_written(2) [OF assms(1,2)] live
    by (auto simp: queue_fetch_def Let_def buffer_bytes_def split: option.splits)
  moreover have "approx_bytes q = buffer_bytes w ?x + sum_list (map (buffer_bytes w) (contents q'))"
    using assms(3) c(3) unfolding bytes_ok_def fst_conv snd_conv by (metis list.simps(9) sum_list.Cons)
  ultimately show ?thesis using tl c(4) by (simp add: f bytes_ok_def)
qed

lemma push_keeps_ok:
  assumes "\<And>s. queue_ok k (fst s) \<Longrightarrow> bytes_ok s \<Longrightarrow> get_buffer (snd s) a \<noteq> None \<Longrightarrow> \<forall>e \<in> set env. queue_ok k (fst (fst e s)) \<and> bytes_ok (fst e s) \<and>
      get_buffer (snd (fst e s)) a \<noteq> None"
    and "queue_ok k (fst s)" and "bytes_ok s" and "get_buffer (snd s) a \<noteq> None"
    and "zst_queue_push (Some a) timeout_ms env s = (r, s')"
  shows "queue_ok k (fst s') \<and> bytes_ok s' \<and>
    (r = Done ZST_OK () \<longrightarrow> (\<exists>xs. contents (fst s') = xs @ [a]))"
  using assms
proof (induction env arbitrary: s)
  case Nil
  obtain q w where s: "s = (q, w)" by fastforce
  obtain b where b: "get_buffer w a = Some b" using Nil.prems s by auto
  show ?case
  proof (cases "queue_room q")
    case True
    have "queue_store (q_tail q) a (q, w) = s'"
      using push_room [of k q w a timeout_ms "[]"] True Nil.prems s by simp
    then show ?thesis
      using queue_store_contents [of k q w a b "fst s'" "snd s'"] queue_store_bytes [of k q w a b] True
        Nil.prems b s by auto
  next
    case False
    then show ?thesis
      using push_no_room [of k q w a timeout_ms "[]"] Nil.prems s by (auto split: if_splits)
  qed
next
  case (Cons e env)
  obtain q w where s: "s = (q, w)" by fastforce
  obtain b where b: "get_buffer w a = Some b" using Cons.prems s by auto
  show ?case
  proof (cases "queue_room q")
    case True
    have "queue_store (q_tail q) a (q, w) = s'"
      using push_room [of k q w a timeout_ms "e # env"] True Cons.prems s by simp
    then show ?thesis
      using queue_store_contents [of k q w a b "fst s'" "snd s'"] queue_store_bytes [of k q w a b] True
        Cons.prems b s by auto
  next
    case False
    obtain step t where e: "e = (step, t)" by fastforce
    have st: "queue_ok k (fst (step s)) \<and> bytes_ok (step s) \<and> get_buffer (snd (step s)) a \<noteq> None"
      using Cons.prems(1) [of s] Cons.prems(2-4) e by simp
    have "r \<noteq> Done ZST_OK () \<and> s' \<in> {s, step s} \<or> zst_queue_push (Some a) timeout_ms env (step s) = (r, s')"
      using push_no_room [of k q w a timeout_ms "e # env"] False Cons.prems(2,4,5) s e
      by (auto split: if_splits simp del: zst_queue_push.simps)
    then show ?thesis
      using Cons.IH [of "step s"] Cons.prems(1-3) st by auto
  qed
qed

lemma queue_run_bytes:
  "queue_ok k (fst s) \<Longrightarrow> bytes_ok s \<Longrightarrow> fifo_run queue_put queue_get ops s = (acc, out, s') \<Longrightarrow>
     queue_ok k (fst s') \<and> bytes_ok s'"
proof (induction ops arbitrary: s acc out s')
  case Nil
  then show ?case by simp
next
  case (Cons op ops)
  obtain q w where s: "s = (q, w)" by fastforce
  have q: "queue_ok k q" "bytes_ok (q, w)" using Cons.prems s by auto
  have put: "queue_ok k (fst s1) \<and> bytes_ok s1" if "snd (queue_put a s) = s1" for a s1
  proof (cases "get_buffer w a = None \<or> \<not> queue_room q")
    case True
    then have "s1 = s"
      using that push_no_room [OF q(1), of w a 0 "[]"] s by (auto simp: queue_put_def split: if_splits)
    then show ?thesis using Cons.prems by simp
  next
    case False
    then obtain b where b: "get_buffer w a = Some b" and room: "queue_room q" by auto
    have "s1 = queue_store (q_tail q) a (q, w)"
      using that push_room [OF q(1) room, of w a 0 "[]"] b s by (simp add: queue_put_def)
    then show ?thesis
      using queue_store_bytes [OF q(1) room q(2) b] queue_store_contents(1) [OF q(1) room b, of "fst s1" "snd s1"]
      by simp
  qed
  have get: "queue_ok k (fst s1) \<and> bytes_ok s1" if "snd (queue_get s) = s1" for s1
  proof (cases "queue_len q = 0")
    case True
    then have "s1 = s" using that pop_none [OF q(1) True, of 0 "[]"] s by (simp add: queue_get_def)
    then show ?thesis using Cons.prems by simp
  next
    case False
    then obtain q1 where p: "zst_queue_pop 0 [] (q, w) = (Done ZST_OK (Some (hd (contents q))), (q1, w))"
      "queue_fetch (q_head q) (q, w) = (Some (hd (contents q)), (q1, w))" "queue_ok k q1"
      using pop_some [OF q(1), of 0 "[]" w] by auto
    then have "s1 = (q1, w)" using that s by (simp add: queue_get_def del: zst_queue_pop.simps)
    then show ?thesis using p queue_fetch_bytes [OF q(1) _ q(2)] False by simp
  qed
  show ?case
  proof (cases op)
    case (Put a)
    obtain acc' out' where "fifo_run queue_put queue_get ops (snd (queue_put a s)) = (acc', out', s')"
      using Cons.prems(3) Put by (auto split: prod.splits)
    with Cons.IH put show ?thesis by blast
  next
    case Get
    obtain acc' out' where "fifo_run queue_put queue_get ops (snd (queue_get s)) = (acc', out', s')"
      using Cons.prems(3) Get by (auto split: prod.splits)
    with Cons.IH get show ?thesis by blast
  qed
qed

section \<open>Properties\<close>

text \<open>The ring capacity computed for a requested number of buffers between 1 and 2^31 is the
  smallest power of two that is at least that number and at least 2.\<close>

lemma queue_ring_capacity:
  assumes "1 \<le> unat v" and "unat v \<le> 2 ^ 31"
  shows "\<exists>k. 1 \<le> k \<and> k \<le> 31 \<and> unat (next_power_of_two v) = 2 ^ k \<and> unat v \<le> 2 ^ k \<and>
    (k = 1 \<or> 2 ^ (k - 1) < unat v)"
proof -
  obtain k where k: "1 \<le> k" "k \<le> 31" "next_power_of_two v = 2 ^ k" "unat v \<le> 2 ^ k" "k = 1 \<or> 2 ^ k < 2 * unat v"
    using assms by (rule next_power_of_two_bounds)
  have "(2::nat) ^ k = 2 * 2 ^ (k - 1)" using k(1) by (cases k) auto
  with k(5) have "k = 1 \<or> 2 ^ (k - 1) < unat v" by simp
  then show ?thesis using k unat_exp [of k, where ?'a = 32] by (intro exI [of _ k]) simp
qed

text \<open>Above 2^31 the rounding wraps and the ring gets two slots only.\<close>

lemma next_power_of_two_wraps: "next_power_of_two 2147483649 = 2"
  by code_simp

text \<open>C5: on a freshly created queue, whatever the order of non-blocking pushes and pops, the accepted
  buffers come out in the order they went in, none lost, duplicated or invented, and the queue never
  holds more than the configured maximum.\<close>

theorem queue_run_fifo:
  assumes "zst_queue_create (Some c) True True = Some q" and "unat (qc_max_buffers c) \<le> 2 ^ 31"
    and "fifo_run queue_put queue_get ops (q, w) = (acc, out, (q', w'))"
  shows "acc = out @ contents q' \<and>
    (qc_max_buffers c > 0 \<longrightarrow> length (contents q') \<le> unat (qc_max_buffers c))"
proof -
  obtain k where k: "queue_ok k q" "contents q = []"
    using assms(1,2) by (auto elim: queue_create_ok)
  have "q_cfg q = c" using assms(1) by (auto simp: zst_queue_create_def Let_def)
  then have inv: "queue_inv c (q, w)" using k by (auto simp: queue_inv_def)
  note run = zst_queue.fifo_run_order [OF inv assms(3)]
  then show ?thesis using k by (auto simp: queue_inv_def queue_ok_def)
qed

definition demo_queue_config :: queue_config where
  "demo_queue_config = \<lparr>qc_mode = ZST_QUEUE_ASYNC, qc_max_buffers = 3, qc_max_bytes = 0, qc_max_duration = 0\<rparr>"

definition demo_queue :: zst_queue where
  "demo_queue = the (zst_queue_create (Some demo_queue_config) True True)"

lemma demo_queue_create:
  "zst_queue_create (Some demo_queue_config) True True = Some demo_queue"
  "unat (qc_max_buffers demo_queue_config) \<le> 2 ^ 31"
  by (simp_all add: demo_queue_def zst_queue_create_def Let_def demo_queue_config_def)

text \<open>A heap with three live buffers of 16 bytes, and the queue with the first two of them.\<close>

definition demo_buffer :: zst_buffer where
  "demo_buffer = (zero_buffer 0)\<lparr>memory := zero_memory\<lparr>mem_size := 16\<rparr>\<rparr>"

definition demo_buffers :: world where
  "demo_buffers = demo_world\<lparr>attempts := 3, heap := [0 \<mapsto> Buffer demo_buffer, 1 \<mapsto> Buffer demo_buffer,
     2 \<mapsto> Buffer demo_buffer]\<rparr>"

definition demo_qstate :: qstate where
  "demo_qstate = snd (snd (fifo_run queue_put queue_get [Put 0, Put 1] (demo_queue, demo_buffers)))"

lemma demo_qstate_ok: "\<exists>k. queue_ok k (fst demo_qstate) \<and> bytes_ok demo_qstate"
proof -
  obtain k where k: "queue_ok k demo_queue" "contents demo_queue = []" "approx_bytes demo_queue = 0"
    using queue_create_ok [OF demo_queue_create(1)] demo_queue_create(2) by auto
  obtain acc out where "fifo_run queue_put queue_get [Put 0, Put 1] (demo_queue, demo_buffers) = (acc, out, demo_qstate)"
    unfolding demo_qstate_def by (metis prod.collapse)
  from queue_run_bytes [OF _ _ this] k show ?thesis by (auto simp: bytes_ok_def)
qed

theorem queue_run_fifo_witness:
  "\<exists>acc out q' w'. fifo_run queue_put queue_get [Put 0, Put 1, Get, Put 2, Put 0, Put 1, Get] (demo_queue, demo_buffers)
      = (acc, out, (q', w')) \<and> acc = out @ contents q'"
proof -
  obtain acc out q' w' where "fifo_run queue_put queue_get [Put 0, Put 1, Get, Put 2, Put 0, Put 1, Get]
      (demo_queue, demo_buffers) = (acc, out, (q', w'))" by (metis prod_cases4)
  with queue_run_fifo [OF demo_queue_create this] show ?thesis by blast
qed

text \<open>C6: a push with timeout 0 of a live buffer is accepted exactly when the ring has a free slot and no
  configured limit on buffers, bytes or duration is reached; otherwise nothing changes and the answer
  is an error (asynchronous queue) or a timeout (synchronous queue).  When accepted, the buffer is the
  last of the contents and the invariant holds again.\<close>

theorem queue_push_accepts_iff_room:
  assumes "queue_ok k q" and "get_buffer w a = Some b"
  shows "case zst_queue_push (Some a) 0 env (q, w) of (r, (q', w')) \<Rightarrow>
     if queue_len q < length (ring q) \<and> \<not> (has_extra_limits q \<and> zst_queue_is_full q)
     then r = Done ZST_OK () \<and> queue_ok k q' \<and> contents q' = contents q @ [a]
     else (q', w') = (q, w) \<and>
       r = Done (if qc_mode (q_cfg q) = ZST_QUEUE_ASYNC then ZST_ERROR else ZST_TIMEOUT) ()"
proof (cases "queue_room q")
  case True
  obtain q' w' where "queue_store (q_tail q) a (q, w) = (q', w')" by fastforce
  with push_room [OF assms(1) True, of w a 0 env] queue_store_contents [OF assms(1) True assms(2)] assms(2) True
  show ?thesis by (simp add: queue_room_def)
next
  case False
  with push_no_room [OF assms(1) False, of w a 0 env] assms(2) show ?thesis
    by (auto simp: queue_room_def simp del: zst_queue_push.simps)
qed

theorem queue_push_accepts_iff_room_witness:
  "\<exists>k. queue_ok k demo_queue \<and> (case zst_queue_push (Some 0) 0 [] (demo_queue, demo_buffers) of (r, (q', w')) \<Rightarrow>
      r = Done ZST_OK () \<and> contents q' = contents demo_queue @ [0])"
proof -
  obtain k where k: "queue_ok k demo_queue" "contents demo_queue = []"
    using queue_create_ok [OF demo_queue_create(1)] demo_queue_create(2) by auto
  have "get_buffer demo_buffers 0 = Some demo_buffer" by (simp add: get_buffer_def demo_buffers_def)
  note p = queue_push_accepts_iff_room [OF k(1) this, of "[]"]
  have len: "queue_len demo_queue = 0" using k(2) by (metis length_contents list.size(3))
  have "\<not> zst_queue_is_full demo_queue"
    using zst_queue_size_len [OF k(1)] len
    by (simp add: zst_queue_is_full_def demo_queue_def zst_queue_create_def demo_queue_config_def Let_def
        word_le_nat_alt)
  then show ?thesis
    using p k(1) len queue_ok_ringD [OF k(1)]
    by (auto split: prod.splits simp del: zst_queue_push.simps)
qed

text \<open>A push that has to wait, while other threads do anything that keeps the queue consistent and
  the buffer alive, never breaks the queue: on return the invariant and the byte count hold, and when
  it answers OK the buffer is the last one of the queue.\<close>

lemma queue_push_wait_safe:
  assumes "\<And>s e. e \<in> set env \<Longrightarrow> queue_ok k (fst s) \<Longrightarrow> bytes_ok s \<Longrightarrow> get_buffer (snd s) a \<noteq> None \<Longrightarrow>
      queue_ok k (fst (fst e s)) \<and> bytes_ok (fst e s) \<and> get_buffer (snd (fst e s)) a \<noteq> None"
    and "queue_ok k (fst s)" and "bytes_ok s" and "get_buffer (snd s) a \<noteq> None"
    and "zst_queue_push (Some a) timeout_ms env s = (r, s')"
  shows "queue_ok k (fst s') \<and> bytes_ok s' \<and>
    (r = Done ZST_OK () \<longrightarrow> (\<exists>xs. contents (fst s') = xs @ [a]))"
  using push_keeps_ok [OF _ assms(2-5)] assms(1) by blast

text \<open>C7: \<open>approx_bytes\<close> is exactly the number of bytes (modulo 2^64) of the queued buffers after any
  sequence of non-blocking pushes and pops that starts from a consistent queue.\<close>

theorem queue_bytes_accounting:
  assumes "queue_ok k q" and "bytes_ok (q, w)"
    and "fifo_run queue_put queue_get ops (q, w) = (acc, out, (q', w'))"
  shows "approx_bytes q' = sum_list (map (buffer_bytes w') (contents q'))"
  using queue_run_bytes [OF _ _ assms(3)] assms(1,2) by (simp add: bytes_ok_def)

theorem queue_bytes_accounting_witness:
  "case fifo_run queue_put queue_get [Put 2, Get] demo_qstate of (acc, out, (q', w')) \<Rightarrow>
     approx_bytes q' = sum_list (map (buffer_bytes w') (contents q'))"
proof -
  obtain k where "queue_ok k (fst demo_qstate)" "bytes_ok demo_qstate" using demo_qstate_ok by blast
  with queue_bytes_accounting [of k "fst demo_qstate" "snd demo_qstate" "[Put 2, Get]"] show ?thesis
    by (auto split: prod.splits)
qed

text \<open>C8: flushing always ends, within one iteration more than the number of queued buffers; it leaves an
  empty consistent queue and drops exactly one reference per queued buffer, in queue order.\<close>

theorem queue_flush_empties:
  assumes "queue_ok k q"
  shows "\<exists>q'. zst_queue_flush (q, w) = Some (q', fold (\<lambda>a. zst_buffer_unref (Some a)) (contents q) w) \<and>
     queue_ok k q' \<and> contents q' = []"
proof -
  have "queue_len q < Suc (length (ring q))"
    using assms queue_ok_ringD [OF assms] by (simp add: queue_ok_def)
  from flush_loop_contents [OF assms this] show ?thesis by (simp add: zst_queue_flush_def)
qed

theorem queue_flush_empties_witness:
  "\<exists>q'. zst_queue_flush demo_qstate = Some (q', fold (\<lambda>a. zst_buffer_unref (Some a)) (contents (fst demo_qstate))
      (snd demo_qstate)) \<and> contents q' = []"
proof -
  obtain k where "queue_ok k (fst demo_qstate)" using demo_qstate_ok by blast
  from queue_flush_empties [OF this, of "snd demo_qstate"] show ?thesis by auto
qed

end
