(* ===== verification/Zst_Caps.thy ===== *)
theory Zst_Caps
  imports Complex_Main Zst_Prelude
begin

text \<open>
  Capabilities of \<open>src/zst_caps.c\<close> and \<open>include/zst_caps.h\<close>: media descriptions made of structures with
  typed key/value sfields, their intersection and fixation, on which format negotiation between two
  pads rests.

  A linked list of structures and the field array of a structure are lists; the array's allocated
  length is kept beside it.  Each allocation consults the next entry of an allocation script: none
  left or \<open>None\<close> is success, \<open>Some g\<close> is failure, with \<open>g\<close> the indeterminate word the code leaves
  behind where it leaves one.  Operations return the rest of the script.  C \<open>int\<close> values are only
  compared and stored, so they are HOL integers; \<open>double\<close> values are only compared, so they are \<open>fp\<close>
  below, which keeps NaN apart and identifies the two zeros, as the comparison does.  Freeing blocks
  has no effect on these values, so the \<open>free\<close> calls have no counterpart.
\<close>

section \<open>Data\<close>

datatype fp = Fp_nan | Fp_inf bool | Fp_num rat

definition fp_eq :: "fp \<Rightarrow> fp \<Rightarrow> bool" where
  "fp_eq x y \<longleftrightarrow> x \<noteq> Fp_nan \<and> x = y"

abbreviation fp_zero :: fp where "fp_zero \<equiv> Fp_num 0"

type_synonym alloc_script = "u64 option list"

fun alloc :: "alloc_script \<Rightarrow> u64 option \<times> alloc_script" where
  "alloc [] = (None, [])"
| "alloc (r # m) = (r, m)"

datatype caps_type = ZST_CAPS_VIDEO | ZST_CAPS_AUDIO | ZST_CAPS_ANY

datatype caps_value =
    ZST_CAPS_FIELD_INT int
  | ZST_CAPS_FIELD_UINT u32
  | ZST_CAPS_FIELD_DOUBLE fp
  | ZST_CAPS_FIELD_STRING "string option"
  | ZST_CAPS_FIELD_FRACTION int int
  | ZST_CAPS_FIELD_BUFFER "u8 list option" u64

record caps_field =
  key :: string
  val :: caps_value

record caps_video =
  width :: int
  height :: int
  framerate :: fp
  pixel_format :: string

record caps_audio =
  channels :: int
  sample_rate :: int
  format :: string

record caps_struct =
  media_type :: string
  ctype :: caps_type
  sfields :: "caps_field list"
  fields_capacity :: nat
  video :: caps_video
  audio :: caps_audio

type_synonym zst_caps = "caps_struct list"

definition zero_struct :: caps_struct where
  "zero_struct = \<lparr>media_type = [], ctype = ZST_CAPS_VIDEO, sfields = [], fields_capacity = 0,
     video = \<lparr>width = 0, height = 0, framerate = fp_zero, pixel_format = []\<rparr>,
     audio = \<lparr>channels = 0, sample_rate = 0, format = []\<rparr>\<rparr>"

section \<open>Fields\<close>

definition caps_is_raw_video_struct :: "caps_struct \<Rightarrow> bool" where
  "caps_is_raw_video_struct s \<longleftrightarrow> ctype s = ZST_CAPS_VIDEO \<and> media_type s = ''video/x-raw''"

definition caps_is_raw_audio_struct :: "caps_struct \<Rightarrow> bool" where
  "caps_is_raw_audio_struct s \<longleftrightarrow> ctype s = ZST_CAPS_AUDIO \<and> media_type s = ''audio/x-raw''"

definition caps_is_raw_legacy_field :: "caps_struct \<Rightarrow> string \<Rightarrow> bool" where
  "caps_is_raw_legacy_field s k =
     (if caps_is_raw_video_struct s then k \<in> {''width'', ''height'', ''framerate'', ''pixel-format''}
      else if caps_is_raw_audio_struct s then k \<in> {''channels'', ''sample-rate'', ''format''}
      else False)"

text \<open>The field a key finds first, by its index in the array.\<close>

fun field_index :: "string \<Rightarrow> caps_field list \<Rightarrow> nat option" where
  "field_index k [] = None"
| "field_index k (f # fs) = (if key f = k then Some 0 else map_option Suc (field_index k fs))"

definition caps_struct_find_field :: "caps_struct \<Rightarrow> string \<Rightarrow> caps_field option" where
  "caps_struct_find_field s k = map_option (\<lambda>i. sfields s ! i) (field_index k (sfields s))"

text \<open>The result, the destination field after the call, and the rest of the script.\<close>

definition caps_field_copy :: "caps_field \<Rightarrow> alloc_script \<Rightarrow> zst_result \<times> caps_field \<times> alloc_script" where
  "caps_field_copy src m =
     (let k = c_strncpy 63 (key src)
      in case val src of
           ZST_CAPS_FIELD_STRING (Some s) \<Rightarrow>
             (case alloc m of (r, m1) \<Rightarrow>
                (ZST_OK, \<lparr>key = k, val = ZST_CAPS_FIELD_STRING (if r = None then Some s else None)\<rparr>, m1))
         | ZST_CAPS_FIELD_BUFFER d n \<Rightarrow>
             (case d of
                Some bs \<Rightarrow>
                  if n > 0 then
                    (case alloc m of
                       (None, m1) \<Rightarrow>
                         (ZST_OK, \<lparr>key = k, val = ZST_CAPS_FIELD_BUFFER (Some (take (unat n) bs)) n\<rparr>, m1)
                     | (Some g, m1) \<Rightarrow> (ZST_ERROR, \<lparr>key = k, val = ZST_CAPS_FIELD_BUFFER None g\<rparr>, m1))
                  else (ZST_OK, \<lparr>key = k, val = ZST_CAPS_FIELD_BUFFER None 0\<rparr>, m)
              | None \<Rightarrow> (ZST_OK, \<lparr>key = k, val = ZST_CAPS_FIELD_BUFFER None 0\<rparr>, m))
         | v \<Rightarrow> (ZST_OK, \<lparr>key = k, val = v\<rparr>, m))"

definition caps_struct_set_field ::
    "caps_field \<Rightarrow> caps_struct \<Rightarrow> alloc_script \<Rightarrow> zst_result \<times> caps_struct \<times> alloc_script" where
  "caps_struct_set_field f s m =
     (case field_index (key f) (sfields s) of
        Some i \<Rightarrow>
          (case caps_field_copy f m of (r, g, m1) \<Rightarrow> (r, s\<lparr>sfields := (sfields s)[i := g]\<rparr>, m1))
      | None \<Rightarrow>
          (case (if length (sfields s) \<ge> fields_capacity s
                 then (case alloc m of
                         (None, m1) \<Rightarrow>
                           (True, s\<lparr>fields_capacity := (if fields_capacity s = 0 then 4 else fields_capacity s * 2)\<rparr>, m1)
                       | (Some _, m1) \<Rightarrow> (False, s, m1))
                 else (True, s, m)) of
             (False, s1, m1) \<Rightarrow> (ZST_ERROR, s1, m1)
           | (True, s1, m1) \<Rightarrow>
               (case caps_field_copy f m1 of
                  (ZST_OK, g, m2) \<Rightarrow> (ZST_OK, s1\<lparr>sfields := sfields s1 @ [g]\<rparr>, m2)
                | (_, g, m2) \<Rightarrow> (ZST_ERROR, s1, m2))))"

text \<open>A call of \<open>caps_struct_set_field\<close> whose result the code ignores.\<close>

definition put_field :: "string \<Rightarrow> caps_value \<Rightarrow> caps_struct \<times> alloc_script \<Rightarrow> caps_struct \<times> alloc_script" where
  "put_field k v = (\<lambda>(s, m). snd (caps_struct_set_field \<lparr>key = k, val = v\<rparr> s m))"

section \<open>Building structures\<close>

definition zst_caps_struct_create_video ::
    "string option \<Rightarrow> int \<Rightarrow> int \<Rightarrow> fp \<Rightarrow> string option \<Rightarrow> alloc_script \<Rightarrow> caps_struct option \<times> alloc_script" where
  "zst_caps_struct_create_video mt w h fr fmt m =
     (case alloc m of
        (Some _, m1) \<Rightarrow> (None, m1)
      | (None, m1) \<Rightarrow>
          (let s = zero_struct
                 \<lparr>media_type := (case mt of None \<Rightarrow> [] | Some t \<Rightarrow> c_strncpy 63 t),
                  ctype := ZST_CAPS_VIDEO,
                  video := \<lparr>width = w, height = h, framerate = fr,
                            pixel_format = (case fmt of None \<Rightarrow> [] | Some p \<Rightarrow> c_strncpy 31 p)\<rparr>\<rparr>;
               is_raw = (media_type s = ''video/x-raw'');
               st = (s, m1);
               st = (if is_raw \<or> w \<noteq> 0 then put_field ''width'' (ZST_CAPS_FIELD_INT w) st else st);
               st = (if is_raw \<or> h \<noteq> 0 then put_field ''height'' (ZST_CAPS_FIELD_INT h) st else st);
               st = (if is_raw \<or> \<not> fp_eq fr fp_zero then put_field ''framerate'' (ZST_CAPS_FIELD_DOUBLE fr) st
                     else st);
               st = (if is_raw \<and> fmt \<noteq> None then put_field ''pixel-format'' (ZST_CAPS_FIELD_STRING fmt) st
                     else st)
           in (Some (fst st), snd st)))"

definition zst_caps_struct_create_audio ::
    "string option \<Rightarrow> int \<Rightarrow> int \<Rightarrow> string option \<Rightarrow> alloc_script \<Rightarrow> caps_struct option \<times> alloc_script" where
  "zst_caps_struct_create_audio mt ch rate fmt m =
     (case alloc m of
        (Some _, m1) \<Rightarrow> (None, m1)
      | (None, m1) \<Rightarrow>
          (let s = zero_struct
                 \<lparr>media_type := (case mt of None \<Rightarrow> [] | Some t \<Rightarrow> c_strncpy 63 t),
                  ctype := ZST_CAPS_AUDIO,
                  audio := \<lparr>channels = ch, sample_rate = rate,
                            format = (case fmt of None \<Rightarrow> [] | Some p \<Rightarrow> c_strncpy 31 p)\<rparr>\<rparr>;
               is_raw = (media_type s = ''audio/x-raw'');
               st = (s, m1);
               st = (if is_raw \<or> ch \<noteq> 0 then put_field ''channels'' (ZST_CAPS_FIELD_INT ch) st else st);
               st = (if is_raw \<or> rate \<noteq> 0 then put_field ''sample-rate'' (ZST_CAPS_FIELD_INT rate) st else st);
               st = (if is_raw \<and> fmt \<noteq> None then put_field ''format'' (ZST_CAPS_FIELD_STRING fmt) st else st)
           in (Some (fst st), snd st)))"

fun copy_fields :: "caps_field list \<Rightarrow> alloc_script \<Rightarrow> caps_field list option \<times> alloc_script" where
  "copy_fields [] m = (Some [], m)"
| "copy_fields (f # fs) m =
     (case caps_field_copy f m of
        (ZST_OK, g, m1) \<Rightarrow> (case copy_fields fs m1 of (r, m2) \<Rightarrow> (map_option (Cons g) r, m2))
      | (_, g, m1) \<Rightarrow> (None, m1))"

definition zst_caps_struct_copy :: "caps_struct \<Rightarrow> alloc_script \<Rightarrow> caps_struct option \<times> alloc_script" where
  "zst_caps_struct_copy s m =
     (case alloc m of
        (Some _, m1) \<Rightarrow> (None, m1)
      | (None, m1) \<Rightarrow>
          if sfields s \<noteq> [] then
            (case alloc m1 of
               (Some _, m2) \<Rightarrow> (None, m2)
             | (None, m2) \<Rightarrow>
                 (case copy_fields (sfields s) m2 of
                    (None, m3) \<Rightarrow> (None, m3)
                  | (Some fs, m3) \<Rightarrow>
                      (Some (s\<lparr>sfields := fs, fields_capacity := length (sfields s)\<rparr>), m3)))
          else (Some (s\<lparr>sfields := [], fields_capacity := 0\<rparr>), m1))"

definition zst_caps_create :: "alloc_script \<Rightarrow> zst_caps option \<times> alloc_script" where
  "zst_caps_create m = (case alloc m of (None, m1) \<Rightarrow> (Some [], m1) | (Some _, m1) \<Rightarrow> (None, m1))"

fun copy_structs :: "caps_struct list \<Rightarrow> alloc_script \<Rightarrow> caps_struct list option \<times> alloc_script" where
  "copy_structs [] m = (Some [], m)"
| "copy_structs (s # ss) m =
     (case zst_caps_struct_copy s m of
        (None, m1) \<Rightarrow> (None, m1)
      | (Some t, m1) \<Rightarrow> (case copy_structs ss m1 of (r, m2) \<Rightarrow> (map_option (Cons t) r, m2)))"

definition zst_caps_copy :: "zst_caps option \<Rightarrow> alloc_script \<Rightarrow> zst_caps option \<times> alloc_script" where
  "zst_caps_copy c m =
     (case c of None \<Rightarrow> (None, m)
      | Some ss \<Rightarrow>
          (case zst_caps_create m of
             (None, m1) \<Rightarrow> (None, m1)
           | (Some _, m1) \<Rightarrow> copy_structs ss m1))"

definition zst_caps_append :: "zst_caps option \<Rightarrow> caps_struct option \<Rightarrow> zst_result \<times> zst_caps option" where
  "zst_caps_append c s =
     (case (c, s) of (Some ss, Some t) \<Rightarrow> (ZST_OK, Some (ss @ [t])) | _ \<Rightarrow> (ZST_ERROR, c))"

section \<open>Intersection\<close>

definition caps_field_equal :: "caps_value \<Rightarrow> caps_value \<Rightarrow> bool" where
  "caps_field_equal v1 v2 =
     (case (v1, v2) of
        (ZST_CAPS_FIELD_INT a, ZST_CAPS_FIELD_INT b) \<Rightarrow> a = b
      | (ZST_CAPS_FIELD_UINT a, ZST_CAPS_FIELD_UINT b) \<Rightarrow> a = b
      | (ZST_CAPS_FIELD_DOUBLE a, ZST_CAPS_FIELD_DOUBLE b) \<Rightarrow> fp_eq a b
      | (ZST_CAPS_FIELD_STRING a, ZST_CAPS_FIELD_STRING b) \<Rightarrow> a = b
      | (ZST_CAPS_FIELD_FRACTION a b, ZST_CAPS_FIELD_FRACTION c d) \<Rightarrow> a = c \<and> b = d
      | (ZST_CAPS_FIELD_BUFFER a n, ZST_CAPS_FIELD_BUFFER b k) \<Rightarrow>
          if n \<noteq> k then False
          else if n = 0 then True
          else (case (a, b) of (Some x, Some y) \<Rightarrow> take (unat n) x = take (unat n) y
                | _ \<Rightarrow> a = None \<and> b = None)
      | _ \<Rightarrow> False)"

text \<open>
  The meet of two attributes of which \<open>wild\<close> tells the wildcards: \<open>None\<close> is the conflict that makes
  the code return NULL.
\<close>

definition meet_attr :: "('a \<Rightarrow> bool) \<Rightarrow> ('a \<Rightarrow> 'a \<Rightarrow> bool) \<Rightarrow> 'a \<Rightarrow> 'a \<Rightarrow> 'a option" where
  "meet_attr wild eq a b =
     (if \<not> wild a \<and> \<not> wild b then (if \<not> eq a b then None else Some a)
      else Some (if \<not> wild a then a else b))"

fun intersect_fields1 ::
    "caps_struct \<Rightarrow> caps_struct \<Rightarrow> caps_field list \<Rightarrow> caps_struct \<Rightarrow> alloc_script \<Rightarrow> caps_struct option \<times> alloc_script" where
  "intersect_fields1 s1 s2 [] res m = (Some res, m)"
| "intersect_fields1 s1 s2 (f1 # fs) res m =
     (if caps_is_raw_legacy_field s1 (key f1) then intersect_fields1 s1 s2 fs res m
      else if (case caps_struct_find_field s2 (key f1) of
                 Some f2 \<Rightarrow> \<not> caps_field_equal (val f1) (val f2) | None \<Rightarrow> False)
      then (None, m)
      else (case caps_struct_set_field f1 res m of
              (ZST_OK, res1, m1) \<Rightarrow> intersect_fields1 s1 s2 fs res1 m1
            | (_, _, m1) \<Rightarrow> (None, m1)))"

fun intersect_fields2 ::
    "caps_struct \<Rightarrow> caps_struct \<Rightarrow> caps_field list \<Rightarrow> caps_struct \<Rightarrow> alloc_script \<Rightarrow> caps_struct option \<times> alloc_script" where
  "intersect_fields2 s1 s2 [] res m = (Some res, m)"
| "intersect_fields2 s1 s2 (f2 # fs) res m =
     (if caps_is_raw_legacy_field s2 (key f2) then intersect_fields2 s1 s2 fs res m
      else if caps_struct_find_field s1 (key f2) \<noteq> None then intersect_fields2 s1 s2 fs res m
      else (case caps_struct_set_field f2 res m of
              (ZST_OK, res1, m1) \<Rightarrow> intersect_fields2 s1 s2 fs res1 m1
            | (_, _, m1) \<Rightarrow> (None, m1)))"

definition struct_base ::
    "caps_struct \<Rightarrow> caps_struct \<Rightarrow> alloc_script \<Rightarrow> caps_struct option \<times> alloc_script" where
  "struct_base s1 s2 m =
     (if caps_is_raw_video_struct s1 then
        (case (meet_attr (\<lambda>x. x = 0) (=) (width (video s1)) (width (video s2)),
               meet_attr (\<lambda>x. x = 0) (=) (height (video s1)) (height (video s2)),
               meet_attr (\<lambda>x. fp_eq x fp_zero) fp_eq (framerate (video s1)) (framerate (video s2)),
               meet_attr (\<lambda>x. x = []) (=) (pixel_format (video s1)) (pixel_format (video s2))) of
           (Some w, Some h, Some fr, Some fmt) \<Rightarrow>
             zst_caps_struct_create_video (Some (media_type s1)) w h fr (Some (c_strncpy 31 fmt)) m
         | _ \<Rightarrow> (None, m))
      else if caps_is_raw_audio_struct s1 then
        (case (meet_attr (\<lambda>x. x = 0) (=) (channels (audio s1)) (channels (audio s2)),
               meet_attr (\<lambda>x. x = 0) (=) (sample_rate (audio s1)) (sample_rate (audio s2)),
               meet_attr (\<lambda>x. x = []) (=) (format (audio s1)) (format (audio s2))) of
           (Some ch, Some rate, Some fmt) \<Rightarrow>
             zst_caps_struct_create_audio (Some (media_type s1)) ch rate (Some (c_strncpy 31 fmt)) m
         | _ \<Rightarrow> (None, m))
      else zst_caps_struct_copy s1 m)"

definition zst_caps_struct_intersect ::
    "caps_struct \<Rightarrow> caps_struct \<Rightarrow> alloc_script \<Rightarrow> caps_struct option \<times> alloc_script" where
  "zst_caps_struct_intersect s1 s2 m =
     (if media_type s1 \<noteq> media_type s2 then (None, m)
      else if ctype s1 \<noteq> ctype s2 then (None, m)
      else (case struct_base s1 s2 m of
              (None, m1) \<Rightarrow> (None, m1)
            | (Some res, m1) \<Rightarrow>
                (case intersect_fields1 s1 s2 (sfields s1) res m1 of
                   (None, m2) \<Rightarrow> (None, m2)
                 | (Some res1, m2) \<Rightarrow> intersect_fields2 s1 s2 (sfields s2) res1 m2)))"

text \<open>The two nested loops run over all pairs, the first operand outermost.\<close>

fun intersect_pairs :: "(caps_struct \<times> caps_struct) list \<Rightarrow> zst_caps \<Rightarrow> alloc_script \<Rightarrow> zst_caps \<times> alloc_script" where
  "intersect_pairs [] res m = (res, m)"
| "intersect_pairs ((s1, s2) # ps) res m =
     (case zst_caps_struct_intersect s1 s2 m of
        (None, m1) \<Rightarrow> intersect_pairs ps res m1
      | (Some t, m1) \<Rightarrow> intersect_pairs ps (res @ [t]) m1)"

definition zst_caps_intersect ::
    "zst_caps option \<Rightarrow> zst_caps option \<Rightarrow> alloc_script \<Rightarrow> zst_caps option \<times> alloc_script" where
  "zst_caps_intersect c1 c2 m =
     (case (c1, c2) of
        (Some ss1, Some ss2) \<Rightarrow>
          (case zst_caps_create m of
             (None, m1) \<Rightarrow> (None, m1)
           | (Some r, m1) \<Rightarrow>
               (case intersect_pairs (List.product ss1 ss2) r m1 of (r', m2) \<Rightarrow> (Some r', m2)))
      | _ \<Rightarrow> (None, m))"

section \<open>Setters and getters\<close>

text \<open>
  The setters work on the first structure; \<open>set_first\<close> applies an update of the structure's own
  attributes and then stores the field.
\<close>

definition set_first ::
    "(caps_struct \<Rightarrow> caps_struct) \<Rightarrow> string \<Rightarrow> caps_value \<Rightarrow> zst_caps option \<Rightarrow> alloc_script
      \<Rightarrow> zst_result \<times> zst_caps option \<times> alloc_script" where
  "set_first upd k v c m =
     (case c of
        Some (s # ss) \<Rightarrow>
          (case caps_struct_set_field \<lparr>key = c_strncpy 63 k, val = v\<rparr> (upd s) m of
             (r, s1, m1) \<Rightarrow> (r, Some (s1 # ss), m1))
      | _ \<Rightarrow> (ZST_ERROR, c, m))"

text \<open>The typed attributes the setters keep in step with the fields of the same name.\<close>

definition mirror_int :: "string \<Rightarrow> int \<Rightarrow> caps_struct \<Rightarrow> caps_struct" where
  "mirror_int k v s =
     (if ctype s = ZST_CAPS_VIDEO then
        (if k = ''width'' then s\<lparr>video := (video s)\<lparr>width := v\<rparr>\<rparr>
         else if k = ''height'' then s\<lparr>video := (video s)\<lparr>height := v\<rparr>\<rparr> else s)
      else if ctype s = ZST_CAPS_AUDIO then
        (if k = ''channels'' then s\<lparr>audio := (audio s)\<lparr>channels := v\<rparr>\<rparr>
         else if k = ''sample-rate'' \<or> k = ''sample_rate'' then s\<lparr>audio := (audio s)\<lparr>sample_rate := v\<rparr>\<rparr>
         else s)
      else s)"

definition mirror_double :: "string \<Rightarrow> fp \<Rightarrow> caps_struct \<Rightarrow> caps_struct" where
  "mirror_double k v s =
     (if ctype s = ZST_CAPS_VIDEO \<and> k = ''framerate'' then s\<lparr>video := (video s)\<lparr>framerate := v\<rparr>\<rparr> else s)"

definition mirror_string :: "string \<Rightarrow> string option \<Rightarrow> caps_struct \<Rightarrow> caps_struct" where
  "mirror_string k v s =
     (let t = c_strncpy 31 (case v of None \<Rightarrow> [] | Some t \<Rightarrow> t)
      in if ctype s = ZST_CAPS_VIDEO then
           (if k = ''pixel-format'' \<or> k = ''pixel_format'' then s\<lparr>video := (video s)\<lparr>pixel_format := t\<rparr>\<rparr> else s)
         else if ctype s = ZST_CAPS_AUDIO then
           (if k = ''format'' then s\<lparr>audio := (audio s)\<lparr>format := t\<rparr>\<rparr> else s)
         else s)"

definition zst_caps_set_int ::
    "string \<Rightarrow> int \<Rightarrow> zst_caps option \<Rightarrow> alloc_script \<Rightarrow> zst_result \<times> zst_caps option \<times> alloc_script" where
  "zst_caps_set_int k v = set_first (mirror_int k v) k (ZST_CAPS_FIELD_INT v)"

definition zst_caps_set_uint ::
    "string \<Rightarrow> u32 \<Rightarrow> zst_caps option \<Rightarrow> alloc_script \<Rightarrow> zst_result \<times> zst_caps option \<times> alloc_script" where
  "zst_caps_set_uint k v = set_first id k (ZST_CAPS_FIELD_UINT v)"

definition zst_caps_set_double ::
    "string \<Rightarrow> fp \<Rightarrow> zst_caps option \<Rightarrow> alloc_script \<Rightarrow> zst_result \<times> zst_caps option \<times> alloc_script" where
  "zst_caps_set_double k v = set_first (mirror_double k v) k (ZST_CAPS_FIELD_DOUBLE v)"

definition zst_caps_set_string ::
    "string \<Rightarrow> string option \<Rightarrow> zst_caps option \<Rightarrow> alloc_script
      \<Rightarrow> zst_result \<times> zst_caps option \<times> alloc_script" where
  "zst_caps_set_string k v = set_first (mirror_string k v) k (ZST_CAPS_FIELD_STRING v)"

definition zst_caps_set_fraction ::
    "string \<Rightarrow> int \<Rightarrow> int \<Rightarrow> zst_caps option \<Rightarrow> alloc_script \<Rightarrow> zst_result \<times> zst_caps option \<times> alloc_script" where
  "zst_caps_set_fraction k num denom = set_first id k (ZST_CAPS_FIELD_FRACTION num denom)"

definition zst_caps_set_buffer ::
    "string \<Rightarrow> u8 list option \<Rightarrow> u64 \<Rightarrow> zst_caps option \<Rightarrow> alloc_script
      \<Rightarrow> zst_result \<times> zst_caps option \<times> alloc_script" where
  "zst_caps_set_buffer k data sz = set_first id k (ZST_CAPS_FIELD_BUFFER data sz)"

definition first_field :: "zst_caps option \<Rightarrow> string \<Rightarrow> caps_value option" where
  "first_field c k = (case c of Some (s # _) \<Rightarrow> map_option val (caps_struct_find_field s k) | _ \<Rightarrow> None)"

definition zst_caps_get_int :: "zst_caps option \<Rightarrow> string \<Rightarrow> int option" where
  "zst_caps_get_int c k = (case first_field c k of Some (ZST_CAPS_FIELD_INT v) \<Rightarrow> Some v | _ \<Rightarrow> None)"

definition zst_caps_get_uint :: "zst_caps option \<Rightarrow> string \<Rightarrow> u32 option" where
  "zst_caps_get_uint c k = (case first_field c k of Some (ZST_CAPS_FIELD_UINT v) \<Rightarrow> Some v | _ \<Rightarrow> None)"

definition zst_caps_get_double :: "zst_caps option \<Rightarrow> string \<Rightarrow> fp option" where
  "zst_caps_get_double c k = (case first_field c k of Some (ZST_CAPS_FIELD_DOUBLE v) \<Rightarrow> Some v | _ \<Rightarrow> None)"

definition zst_caps_get_string :: "zst_caps option \<Rightarrow> string \<Rightarrow> string option option" where
  "zst_caps_get_string c k = (case first_field c k of Some (ZST_CAPS_FIELD_STRING v) \<Rightarrow> Some v | _ \<Rightarrow> None)"

definition zst_caps_get_fraction :: "zst_caps option \<Rightarrow> string \<Rightarrow> (int \<times> int) option" where
  "zst_caps_get_fraction c k =
     (case first_field c k of Some (ZST_CAPS_FIELD_FRACTION n d) \<Rightarrow> Some (n, d) | _ \<Rightarrow> None)"

definition zst_caps_get_buffer :: "zst_caps option \<Rightarrow> string \<Rightarrow> (u8 list option \<times> u64) option" where
  "zst_caps_get_buffer c k =
     (case first_field c k of Some (ZST_CAPS_FIELD_BUFFER b n) \<Rightarrow> Some (b, n) | _ \<Rightarrow> None)"

section \<open>Fixation\<close>

definition zst_caps_struct_is_fixed :: "caps_struct \<Rightarrow> bool" where
  "zst_caps_struct_is_fixed s =
     (case ctype s of
        ZST_CAPS_VIDEO \<Rightarrow>
          if \<not> caps_is_raw_video_struct s then media_type s \<noteq> []
          else width (video s) \<noteq> 0 \<and> height (video s) \<noteq> 0 \<and> \<not> fp_eq (framerate (video s)) fp_zero \<and>
               pixel_format (video s) \<noteq> []
      | ZST_CAPS_AUDIO \<Rightarrow>
          if \<not> caps_is_raw_audio_struct s then media_type s \<noteq> []
          else channels (audio s) \<noteq> 0 \<and> sample_rate (audio s) \<noteq> 0 \<and> format (audio s) \<noteq> []
      | ZST_CAPS_ANY \<Rightarrow> media_type s \<noteq> [])"

definition zst_caps_is_fixed :: "zst_caps option \<Rightarrow> bool" where
  "zst_caps_is_fixed c = (case c of Some [s] \<Rightarrow> zst_caps_struct_is_fixed s | _ \<Rightarrow> False)"

definition zst_caps_fixate :: "zst_caps option \<Rightarrow> alloc_script \<Rightarrow> zst_result \<times> zst_caps option \<times> alloc_script" where
  "zst_caps_fixate c m =
     (case c of
        Some (first # _) \<Rightarrow>
          if caps_is_raw_video_struct first then
            (let v = video first;
                 v = (if width v = 0 then v\<lparr>width := 640\<rparr> else v);
                 v = (if height v = 0 then v\<lparr>height := 480\<rparr> else v);
                 v = (if fp_eq (framerate v) fp_zero then v\<lparr>framerate := Fp_num 30\<rparr> else v);
                 v = (if pixel_format v = [] then v\<lparr>pixel_format := ''YUV420P''\<rparr> else v);
                 (_, c, m) = zst_caps_set_int ''width'' (width v) (Some [first\<lparr>video := v\<rparr>]) m;
                 (_, c, m) = zst_caps_set_int ''height'' (height v) c m;
                 (_, c, m) = zst_caps_set_double ''framerate'' (framerate v) c m;
                 (_, c, m) = zst_caps_set_string ''pixel-format'' (Some (pixel_format v)) c m
             in (ZST_OK, c, m))
          else if caps_is_raw_audio_struct first then
            (let a = audio first;
                 a = (if channels a = 0 then a\<lparr>channels := 2\<rparr> else a);
                 a = (if sample_rate a = 0 then a\<lparr>sample_rate := 44100\<rparr> else a);
                 a = (if format a = [] then a\<lparr>format := ''S16LE''\<rparr> else a);
                 (_, c, m) = zst_caps_set_int ''channels'' (channels a) (Some [first\<lparr>audio := a\<rparr>]) m;
                 (_, c, m) = zst_caps_set_int ''sample-rate'' (sample_rate a) c m;
                 (_, c, m) = zst_caps_set_string ''format'' (Some (format a)) c m
             in (ZST_OK, c, m))
          else (ZST_OK, Some [first], m)
      | _ \<Rightarrow> (ZST_ERROR, c, m))"

definition zst_caps_new_simple :: "string option \<Rightarrow> alloc_script \<Rightarrow> zst_caps option \<times> alloc_script" where
  "zst_caps_new_simple mt m =
     (case zst_caps_create m of
        (None, m1) \<Rightarrow> (None, m1)
      | (Some c, m1) \<Rightarrow>
          (case alloc m1 of
             (Some _, m2) \<Rightarrow> (None, m2)
           | (None, m2) \<Rightarrow>
               (let s = zero_struct
                      \<lparr>media_type := (case mt of None \<Rightarrow> [] | Some t \<Rightarrow> c_strncpy 63 t),
                       ctype := (case mt of None \<Rightarrow> ZST_CAPS_ANY
                                 | Some t \<Rightarrow> if take 6 t = ''video/'' then ZST_CAPS_VIDEO
                                            else if take 6 t = ''audio/'' then ZST_CAPS_AUDIO
                                            else ZST_CAPS_ANY)\<rparr>
                in (snd (zst_caps_append (Some c) (Some s)), m2))))"

section \<open>Field lookup\<close>

lemma field_index_SomeD:
  "field_index k fs = Some i \<Longrightarrow> i < length fs \<and> key (fs ! i) = k"
  by (induction k fs arbitrary: i rule: field_index.induct) (auto split: if_splits)

lemma field_index_None: "field_index k fs = None \<longleftrightarrow> k \<notin> key ` set fs"
  by (induction k fs rule: field_index.induct) auto

lemma field_index_update:
  "field_index k fs = Some i \<Longrightarrow> key g = k \<Longrightarrow> field_index k' (fs[i := g]) = field_index k' fs"
  by (induction k fs arbitrary: i rule: field_index.induct) (auto split: if_splits)

lemma field_index_append:
  "field_index k (fs @ gs) =
    (case field_index k fs of Some i \<Rightarrow> Some i | None \<Rightarrow> map_option (\<lambda>j. length fs + j) (field_index k gs))"
proof (induction k fs rule: field_index.induct)
  case (1 k)
  show ?case by (cases "field_index k gs") auto
next
  case (2 k f fs)
  then show ?case by (cases "field_index k gs") (auto split: option.splits)
qed

definition lookup :: "caps_struct \<Rightarrow> string \<Rightarrow> caps_value option" where
  "lookup s k = map_option val (caps_struct_find_field s k)"

lemma lookup_cong: "sfields s = sfields t \<Longrightarrow> lookup s = lookup t"
  by (simp add: lookup_def caps_struct_find_field_def fun_eq_iff)

lemma lookup_update:
  assumes "field_index k (sfields s) = Some i" and "key g = k"
  shows "lookup (s\<lparr>sfields := (sfields s)[i := g]\<rparr>) k' = (if k' = k then Some (val g) else lookup s k')"
proof -
  have i: "i < length (sfields s)" using field_index_SomeD [OF assms(1)] by simp
  have "j \<noteq> i" if "field_index k' (sfields s) = Some j" "k' \<noteq> k" for j
    using field_index_SomeD [OF that(1)] field_index_SomeD [OF assms(1)] that(2) by auto
  then show ?thesis
    using assms i
    by (cases "field_index k' (sfields s)")
      (auto simp: lookup_def caps_struct_find_field_def field_index_update)
qed

lemma lookup_append:
  assumes "field_index (key g) (sfields s) = None"
  shows "lookup (s\<lparr>sfields := sfields s @ [g]\<rparr>) k' = (if k' = key g then Some (val g) else lookup s k')"
  using assms field_index_SomeD [of k' "sfields s"]
  by (auto simp: lookup_def caps_struct_find_field_def field_index_append nth_append split: option.splits)

section \<open>Allocation and storing\<close>

text \<open>\<open>plenty\<close>: every allocation of the script succeeds.\<close>

definition plenty :: "alloc_script \<Rightarrow> bool" where
  "plenty m \<longleftrightarrow> (\<forall>x \<in> set m. x = None)"

lemma plenty_Nil [simp]: "plenty []"
  by (simp add: plenty_def)

lemma plenty_alloc:
  assumes "plenty m"
  obtains m1 where "alloc m = (None, m1)" "plenty m1"
  using assms by (cases m) (auto simp: plenty_def)

text \<open>The value a successful copy stores: an empty buffer loses its pointer.\<close>

definition stored :: "caps_value \<Rightarrow> caps_value" where
  "stored v = (case v of
     ZST_CAPS_FIELD_BUFFER (Some bs) n \<Rightarrow>
       if n > 0 then ZST_CAPS_FIELD_BUFFER (Some (take (unat n) bs)) n else ZST_CAPS_FIELD_BUFFER None 0
   | ZST_CAPS_FIELD_BUFFER None n \<Rightarrow> ZST_CAPS_FIELD_BUFFER None 0
   | _ \<Rightarrow> v)"

lemma caps_field_copy_key: "caps_field_copy f m = (r, g, m') \<Longrightarrow> key g = c_strncpy 63 (key f)"
  by (auto simp: caps_field_copy_def Let_def split: caps_value.splits option.splits prod.splits if_splits)

lemma caps_field_copy_plenty:
  assumes "plenty m"
  obtains m' where "caps_field_copy f m = (ZST_OK, \<lparr>key = c_strncpy 63 (key f), val = stored (val f)\<rparr>, m')"
    and "plenty m'"
proof -
  obtain m1 where "alloc m = (None, m1)" "plenty m1" using assms by (rule plenty_alloc)
  with assms have "\<exists>m'. caps_field_copy f m = (ZST_OK, \<lparr>key = c_strncpy 63 (key f), val = stored (val f)\<rparr>, m') \<and> plenty m'"
    by (cases "val f") (auto simp: caps_field_copy_def stored_def Let_def split: option.splits)
  with that show thesis by blast
qed

definition struct_ok :: "caps_struct \<Rightarrow> bool" where
  "struct_ok s \<longleftrightarrow> length (media_type s) \<le> 63 \<and> length (pixel_format (video s)) \<le> 31 \<and>
     length (format (audio s)) \<le> 31 \<and> (\<forall>f \<in> set (sfields s). length (key f) \<le> 63) \<and>
     distinct (map key (sfields s)) \<and> length (sfields s) \<le> fields_capacity s"

text \<open>Storing a field touches the field array only, whatever the outcome.\<close>

lemma set_field_frame:
  assumes "caps_struct_set_field f s m = (r, s', m')"
  shows "media_type s' = media_type s" and "ctype s' = ctype s" and "video s' = video s"
    and "audio s' = audio s"
  using assms
  by (auto simp: caps_struct_set_field_def split: option.splits prod.splits if_splits bool.splits zst_result.splits)

definition grown_capacity :: "caps_struct \<Rightarrow> nat" where
  "grown_capacity s = (if length (sfields s) \<ge> fields_capacity s
     then (if fields_capacity s = 0 then 4 else fields_capacity s * 2) else fields_capacity s)"

lemma set_field_new:
  assumes "caps_struct_set_field f s m = (r, s', m')" and "field_index (key f) (sfields s) = None"
  shows "s' = s \<or> s' = s\<lparr>fields_capacity := grown_capacity s\<rparr> \<or>
    (\<exists>g. key g = c_strncpy 63 (key f) \<and>
       s' = s\<lparr>fields_capacity := grown_capacity s, sfields := sfields s @ [g]\<rparr>)"
proof -
  let ?room = "if length (sfields s) \<ge> fields_capacity s
     then (case alloc m of
             (None, m1) \<Rightarrow> (True, s\<lparr>fields_capacity := (if fields_capacity s = 0 then 4 else fields_capacity s * 2)\<rparr>, m1)
           | (Some _, m1) \<Rightarrow> (False, s, m1))
     else (True, s, m)"
  obtain b s1 m1 where room: "?room = (b, s1, m1)" by (rule prod_cases3)
  then have s1: "s1 = (if b then s\<lparr>fields_capacity := grown_capacity s\<rparr> else s)"
    by (auto simp: grown_capacity_def split: if_splits prod.splits option.splits)
  obtain r1 g m2 where copy: "caps_field_copy f m1 = (r1, g, m2)" by (metis prod_cases3)
  have "s' = s1 \<or> b \<and> s' = s1\<lparr>sfields := sfields s1 @ [g]\<rparr>"
    using assms room copy unfolding caps_struct_set_field_def
    by (cases b; cases r1) auto
  with s1 caps_field_copy_key [OF copy] show ?thesis by (auto split: if_splits)
qed

lemma distinct_update_same:
  "map key xs ! i = key g \<Longrightarrow> i < length xs \<Longrightarrow> map key (xs[i := g]) = map key xs"
  by (simp add: map_update list_update_same_conv)

lemma set_field_ok:
  assumes "caps_struct_set_field f s m = (r, s', m')" and "struct_ok s" and "length (key f) \<le> 63"
  shows "struct_ok s'"
proof (cases "field_index (key f) (sfields s)")
  case (Some i)
  obtain g where g: "caps_field_copy f m = (r, g, m')" "s' = s\<lparr>sfields := (sfields s)[i := g]\<rparr>"
    using assms(1) Some by (auto simp: caps_struct_set_field_def split: prod.splits)
  have k: "key g = key f" using caps_field_copy_key [OF g(1)] assms(3) by simp
  have i: "i < length (sfields s)" "key (sfields s ! i) = key f" using field_index_SomeD [OF Some] by auto
  have "map key (sfields s') = map key (sfields s)"
    using i k g(2) distinct_update_same [of "sfields s" i g] by simp
  moreover have "\<forall>h \<in> set (sfields s'). length (key h) \<le> 63"
    using assms(2,3) k g(2) set_update_subset_insert [of "sfields s" i g] by (auto simp: struct_ok_def)
  ultimately show ?thesis using assms(2) g(2) by (simp add: struct_ok_def)
next
  case None
  have room: "length (sfields s) < grown_capacity s"
    using assms(2) by (auto simp: grown_capacity_def struct_ok_def)
  have "key f \<notin> key ` set (sfields s)" using None by (simp add: field_index_None)
  with room set_field_new [OF assms(1) None] assms(2,3) show ?thesis by (auto simp: struct_ok_def)
qed

lemma set_field_other:
  assumes "caps_struct_set_field f s m = (r, s', m')" and "k \<noteq> key f" and "length (key f) \<le> 63"
  shows "lookup s' k = lookup s k"
proof (cases "field_index (key f) (sfields s)")
  case (Some i)
  obtain g where g: "caps_field_copy f m = (r, g, m')" "s' = s\<lparr>sfields := (sfields s)[i := g]\<rparr>"
    using assms(1) Some by (auto simp: caps_struct_set_field_def split: prod.splits)
  then show ?thesis
    using lookup_update [OF Some, of g] caps_field_copy_key [OF g(1)] assms(2,3) by simp
next
  case None
  have "sfields s' = sfields s \<or> (\<exists>g. key g = c_strncpy 63 (key f) \<and> sfields s' = sfields s @ [g])"
    using set_field_new [OF assms(1) None] by auto
  then show ?thesis
  proof
    assume "sfields s' = sfields s"
    then have "lookup s' = lookup s" by (rule lookup_cong)
    then show ?thesis by simp
  next
    assume "\<exists>g. key g = c_strncpy 63 (key f) \<and> sfields s' = sfields s @ [g]"
    then obtain g where g: "key g = key f" "sfields s' = sfields s @ [g]" using assms(3) by auto
    then have "lookup s' = lookup (s\<lparr>sfields := sfields s @ [g]\<rparr>)" by (intro lookup_cong) simp
    then show ?thesis using lookup_append [of g s k] g None assms(2) by simp
  qed
qed

lemma set_field_plenty:
  assumes "plenty m" and "length (key f) \<le> 63"
  obtains s' m' where "caps_struct_set_field f s m = (ZST_OK, s', m')" and "plenty m'"
    and "lookup s' (key f) = Some (stored (val f))"
proof (cases "field_index (key f) (sfields s)")
  case (Some i)
  obtain m1 where m1: "caps_field_copy f m = (ZST_OK, \<lparr>key = key f, val = stored (val f)\<rparr>, m1)" "plenty m1"
    using caps_field_copy_plenty [OF assms(1), of f] assms(2) by auto
  then show thesis
    by (intro that [of "s\<lparr>sfields := (sfields s)[i := \<lparr>key = key f, val = stored (val f)\<rparr>]\<rparr>" m1])
      (simp_all add: caps_struct_set_field_def Some lookup_update [OF Some])
next
  case None
  obtain m0 where m0: "alloc m = (None, m0)" "plenty m0" using assms(1) by (rule plenty_alloc)
  define cap where "cap = (if length (sfields s) \<ge> fields_capacity s then
      (if fields_capacity s = 0 then 4 else fields_capacity s * 2) else fields_capacity s)"
  define m2 where "m2 = (if length (sfields s) \<ge> fields_capacity s then m0 else m)"
  have "plenty m2" using m0 assms(1) by (simp add: m2_def)
  then obtain m1 where m1: "caps_field_copy f m2 = (ZST_OK, \<lparr>key = key f, val = stored (val f)\<rparr>, m1)" "plenty m1"
    using caps_field_copy_plenty [of m2 f] assms(2) by auto
  let ?t = "s\<lparr>fields_capacity := cap\<rparr>" and ?g = "\<lparr>key = key f, val = stored (val f)\<rparr>"
  have "caps_struct_set_field f s m = (ZST_OK, ?t\<lparr>sfields := sfields ?t @ [?g]\<rparr>, m1)"
    using m0 m1(1) None by (auto simp: caps_struct_set_field_def cap_def m2_def)
  moreover have "lookup (?t\<lparr>sfields := sfields ?t @ [?g]\<rparr>) (key f) = Some (stored (val f))"
    using lookup_append [of ?g ?t] None by simp
  ultimately show thesis using that m1(2) by blast
qed

section \<open>Structures as key/value stores\<close>

text \<open>
  The contract of the field array: the last value stored under a key is the one found, and other keys
  are not disturbed.  \<open>good\<close> collects the provider's well-formedness and the availability of memory;
  \<open>norm\<close> is what the provider keeps of a value.
\<close>

locale field_store =
  fixes good :: "'s \<Rightarrow> bool"
    and valid :: "'k \<Rightarrow> bool"
    and put :: "'k \<Rightarrow> 'v \<Rightarrow> 's \<Rightarrow> 's"
    and find_val :: "'s \<Rightarrow> 'k \<Rightarrow> 'v option"
    and norm :: "'v \<Rightarrow> 'v"
  assumes put_good: "good s \<Longrightarrow> valid k \<Longrightarrow> good (put k v s)"
    and find_put_same: "good s \<Longrightarrow> valid k \<Longrightarrow> find_val (put k v s) k = Some (norm v)"
    and find_put_other: "good s \<Longrightarrow> valid k \<Longrightarrow> k' \<noteq> k \<Longrightarrow> find_val (put k v s) k' = find_val s k'"
begin

definition put_all :: "('k \<times> 'v) list \<Rightarrow> 's \<Rightarrow> 's" where
  "put_all kvs s = fold (\<lambda>(k, v). put k v) kvs s"

lemma put_all_good: "good s \<Longrightarrow> list_all (valid \<circ> fst) kvs \<Longrightarrow> good (put_all kvs s)"
  by (induction kvs arbitrary: s) (auto simp: put_all_def put_good)

lemma find_put_all:
  "good s \<Longrightarrow> list_all (valid \<circ> fst) kvs \<Longrightarrow>
    find_val (put_all kvs s) k = (case map_of (rev kvs) k of Some v \<Rightarrow> Some (norm v) | None \<Rightarrow> find_val s k)"
proof (induction kvs arbitrary: s)
  case Nil
  then show ?case by (simp add: put_all_def)
next
  case (Cons kv kvs)
  obtain k0 v0 where kv: "kv = (k0, v0)" by fastforce
  have "good (put k0 v0 s)" using Cons.prems kv by (simp add: put_good)
  note IH = Cons.IH [OF this]
  have "find_val (put_all (kv # kvs) s) k = find_val (put_all kvs (put k0 v0 s)) k"
    by (simp add: put_all_def kv)
  moreover have "find_val (put k0 v0 s) k = (if k = k0 then Some (norm v0) else find_val s k)"
    using Cons.prems kv find_put_same find_put_other by auto
  ultimately show ?case using IH Cons.prems kv by (auto simp: map_add_def split: option.splits)
qed

end

lemma put_field_good:
  assumes "struct_ok (fst st) \<and> plenty (snd st)" and "length k \<le> 63"
  shows "struct_ok (fst (put_field k v st)) \<and> plenty (snd (put_field k v st))"
    and "lookup (fst (put_field k v st)) k = Some (stored v)"
proof -
  obtain s m where st: "st = (s, m)" by fastforce
  obtain s' m' where c: "caps_struct_set_field \<lparr>key = k, val = v\<rparr> s m = (ZST_OK, s', m')" "plenty m'"
      "lookup s' k = Some (stored v)"
    using set_field_plenty [of m "\<lparr>key = k, val = v\<rparr>" s] assms st by auto
  then show "struct_ok (fst (put_field k v st)) \<and> plenty (snd (put_field k v st))"
    "lookup (fst (put_field k v st)) k = Some (stored v)"
    using set_field_ok [OF c(1)] assms st by (auto simp: put_field_def)
qed

lemma put_field_other:
  "length k \<le> 63 \<Longrightarrow> k' \<noteq> k \<Longrightarrow> lookup (fst (put_field k v st)) k' = lookup (fst st) k'"
  using set_field_other [of "\<lparr>key = k, val = v\<rparr>" "fst st" "snd st", OF prod_collapse3]
  by (simp add: put_field_def split_beta)

lemma put_field_frame [simp]:
  "media_type (fst (put_field k v st)) = media_type (fst st)"
  "ctype (fst (put_field k v st)) = ctype (fst st)"
  "video (fst (put_field k v st)) = video (fst st)"
  "audio (fst (put_field k v st)) = audio (fst st)"
  using set_field_frame [of "\<lparr>key = k, val = v\<rparr>" "fst st" "snd st", OF prod_collapse3]
  by (simp_all add: put_field_def split_beta)

interpretation caps_fields: field_store "\<lambda>st. struct_ok (fst st) \<and> plenty (snd st)" "\<lambda>k. length k \<le> 63"
  put_field "\<lambda>st. lookup (fst st)" stored
  by unfold_locales (auto simp: put_field_good put_field_other)

lemma lookup_map_of: "lookup s = map_of (map (\<lambda>f. (key f, val f)) (sfields s))"
proof
  fix k
  have "map_option (\<lambda>i. val (fs ! i)) (field_index k fs) = map_of (map (\<lambda>f. (key f, val f)) fs) k" for fs
    by (induction fs) (auto simp: option.map_comp o_def)
  then show "lookup s k = map_of (map (\<lambda>f. (key f, val f)) (sfields s)) k"
    by (simp add: lookup_def caps_struct_find_field_def option.map_comp o_def)
qed

abbreviation kvs :: "caps_field list \<Rightarrow> (string \<times> caps_value) list" where
  "kvs fs \<equiv> map (\<lambda>f. (key f, val f)) fs"

section \<open>Copies\<close>

lemma copy_fields_plenty:
  "plenty m \<Longrightarrow> \<exists>m'. copy_fields fs m =
     (Some (map (\<lambda>f. \<lparr>key = c_strncpy 63 (key f), val = stored (val f)\<rparr>) fs), m') \<and> plenty m'"
proof (induction fs arbitrary: m)
  case Nil
  then show ?case by simp
next
  case (Cons f fs)
  obtain m1 where m1: "caps_field_copy f m = (ZST_OK, \<lparr>key = c_strncpy 63 (key f), val = stored (val f)\<rparr>, m1)"
    "plenty m1" using caps_field_copy_plenty [OF Cons.prems] by blast
  from Cons.IH [OF m1(2)] m1(1) show ?case by auto
qed

lemma map_of_stored:
  "map_of (map (\<lambda>x. (key x, stored (val x))) fs) k = map_option stored (map_of (kvs fs) k)"
  by (induction fs) auto

lemma struct_copy_plenty:
  assumes "plenty m" and "struct_ok s"
  obtains t m' where "zst_caps_struct_copy s m = (Some t, m')" and "plenty m'" and "struct_ok t"
    and "\<And>k. lookup t k = map_option stored (lookup s k)" and "media_type t = media_type s" and "ctype t = ctype s"
    and "video t = video s" and "audio t = audio s"
proof -
  obtain m1 where m1: "alloc m = (None, m1)" "plenty m1" using assms(1) by (rule plenty_alloc)
  obtain m2 where m2: "alloc m1 = (None, m2)" "plenty m2" using m1(2) by (rule plenty_alloc)
  let ?fs = "map (\<lambda>f. \<lparr>key = c_strncpy 63 (key f), val = stored (val f)\<rparr>) (sfields s)"
  have fs: "?fs = map (\<lambda>f. \<lparr>key = key f, val = stored (val f)\<rparr>) (sfields s)"
    using assms(2) by (auto simp: struct_ok_def)
  obtain m3 where m3: "copy_fields (sfields s) m2 = (Some ?fs, m3)" "plenty m3"
    using copy_fields_plenty [OF m2(2)] by blast
  let ?t = "s\<lparr>sfields := ?fs, fields_capacity := length (sfields s)\<rparr>"
  have "zst_caps_struct_copy s m = (Some ?t, if sfields s = [] then m1 else m3)"
    using m1 m2 m3 by (auto simp: zst_caps_struct_copy_def)
  moreover have "struct_ok ?t" using assms(2) unfolding fs by (auto simp: struct_ok_def o_def)
  moreover have "lookup ?t k = map_option stored (lookup s k)" for k
    unfolding fs lookup_map_of by (simp add: o_def map_of_stored)
  ultimately show thesis using m1 m3 by (intro that [of ?t "if sfields s = [] then m1 else m3"]) auto
qed

text \<open>What a copy made with memory available holds.\<close>

definition copied :: "caps_struct \<Rightarrow> caps_struct" where
  "copied s = s\<lparr>sfields := map (\<lambda>f. \<lparr>key = c_strncpy 63 (key f), val = stored (val f)\<rparr>) (sfields s),
     fields_capacity := length (sfields s)\<rparr>"

lemma struct_copy_copied:
  assumes "plenty m"
  shows "\<exists>m'. zst_caps_struct_copy s m = (Some (copied s), m') \<and> plenty m'"
proof -
  obtain m1 where m1: "alloc m = (None, m1)" "plenty m1" using assms by (rule plenty_alloc)
  obtain m2 where m2: "alloc m1 = (None, m2)" "plenty m2" using m1(2) by (rule plenty_alloc)
  from copy_fields_plenty [OF m2(2), of "sfields s"] m1 m2 show ?thesis
    by (cases "sfields s = []") (auto simp: zst_caps_struct_copy_def copied_def)
qed

lemma copied_simps [simp]:
  "media_type (copied s) = media_type s" "ctype (copied s) = ctype s" "video (copied s) = video s" "audio (copied s) = audio s"
  by (simp_all add: copied_def)

lemma copied_ok: "struct_ok s \<Longrightarrow> struct_ok (copied s)"
  by (simp add: struct_ok_def copied_def o_def cong: map_cong)

lemma copy_structs_plenty: "plenty m \<Longrightarrow> \<exists>m'. copy_structs ss m = (Some (map copied ss), m') \<and> plenty m'"
proof (induction ss arbitrary: m)
  case (Cons s ss)
  obtain m1 where "zst_caps_struct_copy s m = (Some (copied s), m1)" "plenty m1" using struct_copy_copied [OF Cons.prems] by blast
  with Cons.IH [of m1] show ?case by auto
qed simp

lemma caps_copy_plenty:
  assumes "plenty m"
  shows "\<exists>m'. zst_caps_copy (Some ss) m = (Some (map copied ss), m') \<and> plenty m'"
proof -
  obtain m1 where "alloc m = (None, m1)" "plenty m1" using assms by (rule plenty_alloc)
  with copy_structs_plenty [of m1 ss] show ?thesis by (auto simp: zst_caps_copy_def zst_caps_create_def)
qed

section \<open>The generic part of an intersection\<close>

definition clash :: "caps_struct \<Rightarrow> caps_struct \<Rightarrow> caps_field \<Rightarrow> bool" where
  "clash s1 s2 f \<longleftrightarrow> \<not> caps_is_raw_legacy_field s1 (key f) \<and>
     (case lookup s2 (key f) of Some v \<Rightarrow> \<not> caps_field_equal (val f) v | None \<Rightarrow> False)"

definition generic1 :: "caps_struct \<Rightarrow> caps_field list \<Rightarrow> caps_field list" where
  "generic1 s1 fs = filter (\<lambda>f. \<not> caps_is_raw_legacy_field s1 (key f)) fs"

definition generic2 :: "caps_struct \<Rightarrow> caps_struct \<Rightarrow> caps_field list \<Rightarrow> caps_field list" where
  "generic2 s1 s2 fs = filter (\<lambda>f. \<not> caps_is_raw_legacy_field s2 (key f) \<and> lookup s1 (key f) = None) fs"

lemma put_field_set:
  assumes "plenty m" and "length (key f) \<le> 63"
  shows "caps_struct_set_field f s m = (ZST_OK, put_field (key f) (val f) (s, m))"
proof -
  have f: "\<lparr>key = key f, val = val f\<rparr> = f" by (cases f) simp
  obtain s' m' where c: "caps_struct_set_field f s m = (ZST_OK, s', m')"
    using set_field_plenty [OF assms, of s] by blast
  then show ?thesis by (simp add: put_field_def f)
qed

lemma intersect_fields1_plenty:
  "struct_ok (fst st) \<and> plenty (snd st) \<Longrightarrow> list_all (\<lambda>f. length (key f) \<le> 63) fs \<Longrightarrow>
   (if \<exists>f \<in> set fs. clash s1 s2 f then \<exists>m'. intersect_fields1 s1 s2 fs (fst st) (snd st) = (None, m') \<and> plenty m'
    else intersect_fields1 s1 s2 fs (fst st) (snd st) =
      (let st' = caps_fields.put_all (kvs (generic1 s1 fs)) st in (Some (fst st'), snd st')))"
proof (induction fs arbitrary: st)
  case Nil
  then show ?case by (simp add: generic1_def caps_fields.put_all_def)
next
  case (Cons f fs)
  have set: "caps_struct_set_field f (fst st) (snd st) = (ZST_OK, put_field (key f) (val f) st)"
    using put_field_set [of "snd st" f "fst st"] Cons.prems by simp
  have good: "struct_ok (fst (put_field (key f) (val f) st)) \<and> plenty (snd (put_field (key f) (val f) st))"
    using Cons.prems put_field_good(1) by auto
  have c: "(case caps_struct_find_field s2 (key f) of Some f2 \<Rightarrow> \<not> caps_field_equal (val f) (val f2) | None \<Rightarrow> False)
     \<longleftrightarrow> (case lookup s2 (key f) of Some v \<Rightarrow> \<not> caps_field_equal (val f) v | None \<Rightarrow> False)"
    by (simp add: lookup_def split: option.splits)
  show ?case
    using Cons.IH [of st] Cons.IH [OF good] Cons.prems set
    by (auto simp: clash_def c generic1_def caps_fields.put_all_def split_beta split: if_splits)
qed

lemma intersect_fields2_plenty:
  "struct_ok (fst st) \<and> plenty (snd st) \<Longrightarrow> list_all (\<lambda>f. length (key f) \<le> 63) fs \<Longrightarrow>
   intersect_fields2 s1 s2 fs (fst st) (snd st) =
      (let st' = caps_fields.put_all (kvs (generic2 s1 s2 fs)) st in (Some (fst st'), snd st'))"
proof (induction fs arbitrary: st)
  case Nil
  then show ?case by (simp add: generic2_def caps_fields.put_all_def)
next
  case (Cons f fs)
  have set: "caps_struct_set_field f (fst st) (snd st) = (ZST_OK, put_field (key f) (val f) st)"
    using put_field_set [of "snd st" f "fst st"] Cons.prems by simp
  have good: "struct_ok (fst (put_field (key f) (val f) st)) \<and> plenty (snd (put_field (key f) (val f) st))"
    using Cons.prems put_field_good(1) by auto
  have c: "caps_struct_find_field s1 (key f) = None \<longleftrightarrow> lookup s1 (key f) = None" by (simp add: lookup_def)
  show ?case
    using Cons.IH [of st] Cons.IH [OF good] Cons.prems set c
    by (auto simp: generic2_def caps_fields.put_all_def split_beta)
qed

section \<open>The typed part of an intersection\<close>

definition agree :: "('a \<Rightarrow> bool) \<Rightarrow> ('a \<Rightarrow> 'a \<Rightarrow> bool) \<Rightarrow> 'a \<Rightarrow> 'a \<Rightarrow> bool" where
  "agree wild eq a b \<longleftrightarrow> wild a \<or> wild b \<or> eq a b"

text \<open>Two raw structures agree when every attribute is equal or a wildcard on one side.\<close>

definition attrs_agree :: "caps_struct \<Rightarrow> caps_struct \<Rightarrow> bool" where
  "attrs_agree s1 s2 \<longleftrightarrow>
     (caps_is_raw_video_struct s1 \<longrightarrow>
        agree (\<lambda>x. x = 0) (=) (width (video s1)) (width (video s2)) \<and>
        agree (\<lambda>x. x = 0) (=) (height (video s1)) (height (video s2)) \<and>
        agree (\<lambda>x. fp_eq x fp_zero) fp_eq (framerate (video s1)) (framerate (video s2)) \<and>
        agree (\<lambda>x. x = []) (=) (pixel_format (video s1)) (pixel_format (video s2))) \<and>
     (caps_is_raw_audio_struct s1 \<longrightarrow>
        agree (\<lambda>x. x = 0) (=) (channels (audio s1)) (channels (audio s2)) \<and>
        agree (\<lambda>x. x = 0) (=) (sample_rate (audio s1)) (sample_rate (audio s2)) \<and>
        agree (\<lambda>x. x = []) (=) (format (audio s1)) (format (audio s2)))"

text \<open>The attributes the intersection of two agreeing structures has.\<close>

definition meet_or :: "('a \<Rightarrow> bool) \<Rightarrow> 'a \<Rightarrow> 'a \<Rightarrow> 'a" where
  "meet_or wild a b = (if wild a then b else a)"

lemma meet_attr_eq: "meet_attr wild eq a b = (if agree wild eq a b then Some (meet_or wild a b) else None)"
  by (auto simp: meet_attr_def agree_def meet_or_def)

definition meet_video :: "caps_video \<Rightarrow> caps_video \<Rightarrow> caps_video" where
  "meet_video a b = \<lparr>width = meet_or (\<lambda>x. x = 0) (width a) (width b),
     height = meet_or (\<lambda>x. x = 0) (height a) (height b),
     framerate = meet_or (\<lambda>x. fp_eq x fp_zero) (framerate a) (framerate b),
     pixel_format = meet_or (\<lambda>x. x = []) (pixel_format a) (pixel_format b)\<rparr>"

definition meet_audio :: "caps_audio \<Rightarrow> caps_audio \<Rightarrow> caps_audio" where
  "meet_audio a b = \<lparr>channels = meet_or (\<lambda>x. x = 0) (channels a) (channels b),
     sample_rate = meet_or (\<lambda>x. x = 0) (sample_rate a) (sample_rate b),
     format = meet_or (\<lambda>x. x = []) (format a) (format b)\<rparr>"

lemma create_video_raw:
  assumes "plenty m" and "mt = ''video/x-raw''"
  obtains s m' where "zst_caps_struct_create_video (Some mt) w h fr (Some fmt) m = (Some s, m')"
    and "struct_ok s" and "plenty m'" and "media_type s = mt" and "ctype s = ZST_CAPS_VIDEO"
    and "video s = \<lparr>width = w, height = h, framerate = fr, pixel_format = c_strncpy 31 fmt\<rparr>"
    and "lookup s = [''width'' \<mapsto> ZST_CAPS_FIELD_INT w, ''height'' \<mapsto> ZST_CAPS_FIELD_INT h,
      ''framerate'' \<mapsto> ZST_CAPS_FIELD_DOUBLE fr, ''pixel-format'' \<mapsto> ZST_CAPS_FIELD_STRING (Some fmt)]"
proof -
  obtain m1 where m1: "alloc m = (None, m1)" "plenty m1" using assms(1) by (rule plenty_alloc)
  define s0 where "s0 = zero_struct\<lparr>media_type := c_strncpy 63 mt, ctype := ZST_CAPS_VIDEO,
     video := \<lparr>width = w, height = h, framerate = fr, pixel_format = c_strncpy 31 fmt\<rparr>\<rparr>"
  define l where "l = [(''width'', ZST_CAPS_FIELD_INT w), (''height'', ZST_CAPS_FIELD_INT h),
     (''framerate'', ZST_CAPS_FIELD_DOUBLE fr), (''pixel-format'', ZST_CAPS_FIELD_STRING (Some fmt))]"
  let ?st = "caps_fields.put_all l (s0, m1)"
  have ok: "struct_ok s0" using assms(2) by (simp add: struct_ok_def s0_def zero_struct_def)
  have valid: "list_all ((\<lambda>k. length k \<le> 63) \<circ> fst) l" by (simp add: l_def)
  have good: "struct_ok (fst ?st) \<and> plenty (snd ?st)"
    using caps_fields.put_all_good [OF _ valid, of "(s0, m1)"] ok m1(2) by simp
  have "zst_caps_struct_create_video (Some mt) w h fr (Some fmt) m = (Some (fst ?st), snd ?st)"
    using m1 assms(2)
    by (simp add: zst_caps_struct_create_video_def Let_def caps_fields.put_all_def l_def s0_def)
  moreover have "lookup (fst ?st) k = [''width'' \<mapsto> ZST_CAPS_FIELD_INT w, ''height'' \<mapsto> ZST_CAPS_FIELD_INT h,
      ''framerate'' \<mapsto> ZST_CAPS_FIELD_DOUBLE fr, ''pixel-format'' \<mapsto> ZST_CAPS_FIELD_STRING (Some fmt)] k" for k
    using caps_fields.find_put_all [OF _ valid, of "(s0, m1)" k] ok m1(2)
    by (simp add: l_def stored_def) (simp add: lookup_map_of s0_def zero_struct_def)
  moreover have "media_type (fst ?st) = mt" "ctype (fst ?st) = ZST_CAPS_VIDEO"
     "video (fst ?st) = \<lparr>width = w, height = h, framerate = fr, pixel_format = c_strncpy 31 fmt\<rparr>"
    using assms(2) by (simp_all add: caps_fields.put_all_def l_def s0_def zero_struct_def)
  ultimately show thesis using good by (intro that [of "fst ?st" "snd ?st"]) auto
qed

lemma create_audio_raw:
  assumes "plenty m" and "mt = ''audio/x-raw''"
  obtains s m' where "zst_caps_struct_create_audio (Some mt) ch rate (Some fmt) m = (Some s, m')"
    and "struct_ok s" and "plenty m'" and "media_type s = mt" and "ctype s = ZST_CAPS_AUDIO"
    and "audio s = \<lparr>channels = ch, sample_rate = rate, format = c_strncpy 31 fmt\<rparr>"
    and "lookup s = [''channels'' \<mapsto> ZST_CAPS_FIELD_INT ch, ''sample-rate'' \<mapsto> ZST_CAPS_FIELD_INT rate,
      ''format'' \<mapsto> ZST_CAPS_FIELD_STRING (Some fmt)]"
proof -
  obtain m1 where m1: "alloc m = (None, m1)" "plenty m1" using assms(1) by (rule plenty_alloc)
  define s0 where "s0 = zero_struct\<lparr>media_type := c_strncpy 63 mt, ctype := ZST_CAPS_AUDIO,
     audio := \<lparr>channels = ch, sample_rate = rate, format = c_strncpy 31 fmt\<rparr>\<rparr>"
  define l where "l = [(''channels'', ZST_CAPS_FIELD_INT ch), (''sample-rate'', ZST_CAPS_FIELD_INT rate),
     (''format'', ZST_CAPS_FIELD_STRING (Some fmt))]"
  let ?st = "caps_fields.put_all l (s0, m1)"
  have ok: "struct_ok s0" using assms(2) by (simp add: struct_ok_def s0_def zero_struct_def)
  have valid: "list_all ((\<lambda>k. length k \<le> 63) \<circ> fst) l" by (simp add: l_def)
  have good: "struct_ok (fst ?st) \<and> plenty (snd ?st)"
    using caps_fields.put_all_good [OF _ valid, of "(s0, m1)"] ok m1(2) by simp
  have "zst_caps_struct_create_audio (Some mt) ch rate (Some fmt) m = (Some (fst ?st), snd ?st)"
    using m1 assms(2)
    by (simp add: zst_caps_struct_create_audio_def Let_def caps_fields.put_all_def l_def s0_def)
  moreover have "lookup (fst ?st) k = [''channels'' \<mapsto> ZST_CAPS_FIELD_INT ch, ''sample-rate'' \<mapsto> ZST_CAPS_FIELD_INT rate,
      ''format'' \<mapsto> ZST_CAPS_FIELD_STRING (Some fmt)] k" for k
    using caps_fields.find_put_all [OF _ valid, of "(s0, m1)" k] ok m1(2)
    by (simp add: l_def stored_def) (simp add: lookup_map_of s0_def zero_struct_def)
  moreover have "media_type (fst ?st) = mt" "ctype (fst ?st) = ZST_CAPS_AUDIO"
     "audio (fst ?st) = \<lparr>channels = ch, sample_rate = rate, format = c_strncpy 31 fmt\<rparr>"
    using assms(2) by (simp_all add: caps_fields.put_all_def l_def s0_def zero_struct_def)
  ultimately show thesis using good by (intro that [of "fst ?st" "snd ?st"]) auto
qed

text \<open>What the typed part of an intersection hands on to the generic one.\<close>

definition base_ok :: "caps_struct \<Rightarrow> caps_struct \<Rightarrow> caps_struct \<Rightarrow> bool" where
  "base_ok s1 s2 res \<longleftrightarrow> struct_ok res \<and> media_type res = media_type s1 \<and> ctype res = ctype s1 \<and>
     (caps_is_raw_video_struct s1 \<longrightarrow> video res = meet_video (video s1) (video s2)) \<and>
     (caps_is_raw_audio_struct s1 \<longrightarrow> audio res = meet_audio (audio s1) (audio s2)) \<and>
     (\<forall>k. \<not> caps_is_raw_legacy_field s1 k \<longrightarrow> lookup res k = None \<or> lookup res k = map_option stored (lookup s1 k))"

lemma meet_or_length: "length a \<le> n \<Longrightarrow> length b \<le> n \<Longrightarrow> length (meet_or wild a b) \<le> n"
  by (simp add: meet_or_def)

lemma struct_base_plenty:
  assumes "plenty m" and ok: "struct_ok s1" "struct_ok s2"
  shows "if attrs_agree s1 s2
    then \<exists>res m'. struct_base s1 s2 m = (Some res, m') \<and> plenty m' \<and> base_ok s1 s2 res
    else struct_base s1 s2 m = (None, m)"
proof -
  have lens: "length (meet_or (\<lambda>x. x = []) (pixel_format (video s1)) (pixel_format (video s2))) \<le> 31"
    "length (meet_or (\<lambda>x. x = []) (format (audio s1)) (format (audio s2))) \<le> 31"
    using ok by (auto simp: struct_ok_def intro!: meet_or_length)
  have excl: "\<not> (caps_is_raw_video_struct s1 \<and> caps_is_raw_audio_struct s1)"
    by (simp add: caps_is_raw_video_struct_def caps_is_raw_audio_struct_def)
  consider (vid) "caps_is_raw_video_struct s1" "\<not> caps_is_raw_audio_struct s1"
    | (aud) "caps_is_raw_audio_struct s1" "\<not> caps_is_raw_video_struct s1"
    | (gen) "\<not> caps_is_raw_video_struct s1" "\<not> caps_is_raw_audio_struct s1" using excl by blast
  then show ?thesis
  proof cases
    case vid
    then have mt: "media_type s1 = ''video/x-raw''" "ctype s1 = ZST_CAPS_VIDEO"
      by (auto simp: caps_is_raw_video_struct_def)
    let ?v = "meet_video (video s1) (video s2)"
    obtain s m' where c: "zst_caps_struct_create_video (Some (media_type s1)) (width ?v) (height ?v) (framerate ?v)
        (Some (pixel_format ?v)) m = (Some s, m')" "struct_ok s" "plenty m'" "media_type s = media_type s1"
        "ctype s = ZST_CAPS_VIDEO"
        "video s = \<lparr>width = width ?v, height = height ?v, framerate = framerate ?v, pixel_format = c_strncpy 31 (pixel_format ?v)\<rparr>"
        "lookup s = [''width'' \<mapsto> ZST_CAPS_FIELD_INT (width ?v), ''height'' \<mapsto> ZST_CAPS_FIELD_INT (height ?v),
          ''framerate'' \<mapsto> ZST_CAPS_FIELD_DOUBLE (framerate ?v),
          ''pixel-format'' \<mapsto> ZST_CAPS_FIELD_STRING (Some (pixel_format ?v))]"
      using create_video_raw [OF assms(1) mt(1)] by blast
    have pf: "c_strncpy 31 (pixel_format ?v) = pixel_format ?v" using lens(1) by (simp add: meet_video_def)
    have "base_ok s1 s2 s" using vid c mt pf by (simp add: base_ok_def caps_is_raw_legacy_field_def)
    with c(1,3) vid pf show ?thesis
      by (simp add: attrs_agree_def struct_base_def meet_attr_eq meet_video_def)
  next
    case aud
    then have mt: "media_type s1 = ''audio/x-raw''" "ctype s1 = ZST_CAPS_AUDIO"
      by (auto simp: caps_is_raw_audio_struct_def)
    let ?a = "meet_audio (audio s1) (audio s2)"
    obtain s m' where c: "zst_caps_struct_create_audio (Some (media_type s1)) (channels ?a) (sample_rate ?a)
        (Some (format ?a)) m = (Some s, m')" "struct_ok s" "plenty m'" "media_type s = media_type s1"
        "ctype s = ZST_CAPS_AUDIO"
        "audio s = \<lparr>channels = channels ?a, sample_rate = sample_rate ?a, format = c_strncpy 31 (format ?a)\<rparr>"
        "lookup s = [''channels'' \<mapsto> ZST_CAPS_FIELD_INT (channels ?a),
          ''sample-rate'' \<mapsto> ZST_CAPS_FIELD_INT (sample_rate ?a),
          ''format'' \<mapsto> ZST_CAPS_FIELD_STRING (Some (format ?a))]"
      using create_audio_raw [OF assms(1) mt(1)] by blast
    have pf: "c_strncpy 31 (format ?a) = format ?a" using lens(2) by (simp add: meet_audio_def)
    have "base_ok s1 s2 s" using aud c mt pf by (simp add: base_ok_def caps_is_raw_legacy_field_def)
    with c(1,3) aud pf show ?thesis
      by (simp add: attrs_agree_def struct_base_def meet_attr_eq meet_audio_def)
  next
    case gen
    obtain t m' where "zst_caps_struct_copy s1 m = (Some t, m')" "plenty m'" "struct_ok t"
      "\<And>k. lookup t k = map_option stored (lookup s1 k)" "media_type t = media_type s1" "ctype t = ctype s1"
      using struct_copy_plenty [OF assms(1) ok(1)] by blast
    with gen show ?thesis by (auto simp: attrs_agree_def struct_base_def base_ok_def)
  qed
qed

text \<open>The generic fields both sides have agree.\<close>

definition fields_agree :: "caps_struct \<Rightarrow> caps_struct \<Rightarrow> bool" where
  "fields_agree s1 s2 \<longleftrightarrow> (\<forall>k v1 v2. \<not> caps_is_raw_legacy_field s1 k \<longrightarrow> lookup s1 k = Some v1 \<longrightarrow>
     lookup s2 k = Some v2 \<longrightarrow> caps_field_equal v1 v2)"

lemma lookup_in_set:
  "struct_ok s \<Longrightarrow> lookup s k = Some v \<longleftrightarrow> (\<exists>f \<in> set (sfields s). key f = k \<and> val f = v)"
  by (auto simp: lookup_map_of struct_ok_def image_iff o_def intro!: map_of_is_SomeI dest!: map_of_SomeD)

lemma clash_fields_agree:
  assumes "struct_ok s1"
  shows "(\<exists>f \<in> set (sfields s1). clash s1 s2 f) \<longleftrightarrow> \<not> fields_agree s1 s2"
  using lookup_in_set [OF assms] by (fastforce simp: clash_def fields_agree_def split: option.splits)

lemma put_all_frame:
  "media_type (fst (caps_fields.put_all l st)) = media_type (fst st)"
  "ctype (fst (caps_fields.put_all l st)) = ctype (fst st)"
  "video (fst (caps_fields.put_all l st)) = video (fst st)"
  "audio (fst (caps_fields.put_all l st)) = audio (fst st)"
  by (induction l arbitrary: st) (auto simp: caps_fields.put_all_def)

lemma map_of_rev_kvs: "distinct (map key fs) \<Longrightarrow> map_of (rev (kvs fs)) = map_of (kvs fs)"
  by (subst map_of_inject_set) (auto simp: o_def simp flip: rev_map)

lemma generic_lookup:
  assumes "struct_ok s"
  shows "map_of (rev (kvs (filter (\<lambda>f. P (key f)) (sfields s)))) k = (if P k then lookup s k else None)"
proof -
  have d: "distinct (map key (filter (\<lambda>f. P (key f)) (sfields s)))"
    using assms by (simp add: struct_ok_def distinct_map_filter)
  have "map_of (kvs (filter (\<lambda>f. P (key f)) fs)) k = (if P k then map_of (kvs fs) k else None)" for fs
    by (induction fs) auto
  then show ?thesis using map_of_rev_kvs [OF d] by (simp add: lookup_map_of)
qed

lemma stored_idem [simp]: "stored (stored v) = stored v"
  by (auto simp: stored_def min_def split: caps_value.splits option.splits)

lemma legacy_cong:
  "media_type s1 = media_type s2 \<Longrightarrow> ctype s1 = ctype s2 \<Longrightarrow>
     caps_is_raw_legacy_field s1 = caps_is_raw_legacy_field s2"
  by (rule ext) (auto simp: caps_is_raw_legacy_field_def caps_is_raw_video_struct_def caps_is_raw_audio_struct_def)

definition intersected :: "caps_struct \<Rightarrow> caps_struct \<Rightarrow> caps_struct \<Rightarrow> bool" where
  "intersected s1 s2 res \<longleftrightarrow> struct_ok res \<and> media_type res = media_type s1 \<and> ctype res = ctype s1 \<and>
     (caps_is_raw_video_struct s1 \<longrightarrow> video res = meet_video (video s1) (video s2)) \<and>
     (caps_is_raw_audio_struct s1 \<longrightarrow> audio res = meet_audio (audio s1) (audio s2)) \<and>
     (\<forall>k. \<not> caps_is_raw_legacy_field s1 k \<longrightarrow>
        lookup res k = map_option stored (case lookup s1 k of Some v \<Rightarrow> Some v | None \<Rightarrow> lookup s2 k))"

lemma generic_intersected:
  assumes base: "base_ok s1 s2 res" "plenty m" and ok: "struct_ok s1" "struct_ok s2"
    and same: "media_type s1 = media_type s2" "ctype s1 = ctype s2"
    and st1: "st1 = caps_fields.put_all (kvs (generic1 s1 (sfields s1))) (res, m)"
    and st2: "st2 = caps_fields.put_all (kvs (generic2 s1 s2 (sfields s2))) st1"
  shows "intersected s1 s2 (fst st2)"
proof -
  note leg = legacy_cong [OF same]
  have v1: "list_all ((\<lambda>k. length k \<le> 63) \<circ> fst) (kvs (generic1 s1 (sfields s1)))"
    and v2: "list_all ((\<lambda>k. length k \<le> 63) \<circ> fst) (kvs (generic2 s1 s2 (sfields s2)))"
    using ok by (auto simp: list_all_iff generic1_def generic2_def struct_ok_def)
  have g0: "struct_ok (fst (res, m)) \<and> plenty (snd (res, m))" using base by (simp add: base_ok_def)
  have g1: "struct_ok (fst st1) \<and> plenty (snd st1)" unfolding st1 by (rule caps_fields.put_all_good [OF g0 v1])
  have g2: "struct_ok (fst st2) \<and> plenty (snd st2)" unfolding st2 by (rule caps_fields.put_all_good [OF g1 v2])
  have l1: "lookup (fst st1) k = map_option stored (lookup s1 k)" if k: "\<not> caps_is_raw_legacy_field s1 k" for k
  proof -
    have "lookup (fst st1) k = (case lookup s1 k of Some v \<Rightarrow> Some (stored v) | None \<Rightarrow> lookup res k)"
      using caps_fields.find_put_all [OF g0 v1, of k] k
        generic_lookup [OF ok(1), where P = "\<lambda>k. \<not> caps_is_raw_legacy_field s1 k" and k = k]
      by (simp add: st1 generic1_def split: option.splits)
    then show ?thesis using base(1) k by (auto simp: base_ok_def split: option.splits)
  qed
  have "lookup (fst st2) k = map_option stored (case lookup s1 k of Some v \<Rightarrow> Some v | None \<Rightarrow> lookup s2 k)"
    if k: "\<not> caps_is_raw_legacy_field s1 k" for k
    using caps_fields.find_put_all [OF g1 v2, of k] k l1 [OF k] leg
      generic_lookup [OF ok(2), where P = "\<lambda>k. \<not> caps_is_raw_legacy_field s2 k \<and> lookup s1 k = None" and k = k]
    by (auto simp: st2 generic2_def split: option.splits)
  then show ?thesis
    using g2 base(1) by (simp add: intersected_def base_ok_def st1 st2 put_all_frame)
qed

lemma struct_intersect_plenty:
  assumes "plenty m" and ok: "struct_ok s1" "struct_ok s2"
  shows "if media_type s1 = media_type s2 \<and> ctype s1 = ctype s2 \<and> attrs_agree s1 s2 \<and> fields_agree s1 s2
    then \<exists>res m'. zst_caps_struct_intersect s1 s2 m = (Some res, m') \<and> plenty m' \<and> intersected s1 s2 res
    else \<exists>m'. zst_caps_struct_intersect s1 s2 m = (None, m') \<and> plenty m'"
proof (cases "media_type s1 = media_type s2 \<and> ctype s1 = ctype s2 \<and> attrs_agree s1 s2")
  case False
  then show ?thesis
    using struct_base_plenty [OF assms] assms(1) by (auto simp: zst_caps_struct_intersect_def)
next
  case True
  then obtain res m1 where b: "struct_base s1 s2 m = (Some res, m1)" "plenty m1" "base_ok s1 s2 res"
    using struct_base_plenty [OF assms] by auto
  define st1 where "st1 = caps_fields.put_all (kvs (generic1 s1 (sfields s1))) (res, m1)"
  define st2 where "st2 = caps_fields.put_all (kvs (generic2 s1 s2 (sfields s2))) st1"
  have g0: "struct_ok (fst (res, m1)) \<and> plenty (snd (res, m1))" using b by (simp add: base_ok_def)
  have keys: "list_all (\<lambda>f. length (key f) \<le> 63) (sfields s1)" "list_all (\<lambda>f. length (key f) \<le> 63) (sfields s2)"
    using ok by (auto simp: list_all_iff struct_ok_def)
  note f1 = intersect_fields1_plenty [OF g0 keys(1), of s1 s2, unfolded clash_fields_agree [OF ok(1)] Let_def]
  have g1: "struct_ok (fst st1) \<and> plenty (snd st1)"
    unfolding st1_def using ok(1)
    by (intro caps_fields.put_all_good [OF g0]) (auto simp: list_all_iff generic1_def struct_ok_def)
  have g2: "plenty (snd st2)"
    unfolding st2_def using ok(2) caps_fields.put_all_good [OF g1]
    by (auto simp: list_all_iff generic2_def struct_ok_def)
  note f2 = intersect_fields2_plenty [OF g1 keys(2), of s1 s2, unfolded Let_def]
  show ?thesis
  proof (cases "fields_agree s1 s2")
    case False
    then show ?thesis using f1 True b(1) by (auto simp: zst_caps_struct_intersect_def)
  next
    case fa: True
    have "zst_caps_struct_intersect s1 s2 m = (Some (fst st2), snd st2)"
      using f1 f2 True b(1) fa by (simp add: zst_caps_struct_intersect_def st1_def st2_def)
    moreover have "intersected s1 s2 (fst st2)"
      by (rule generic_intersected [OF b(3,2) ok _ _ st1_def st2_def]) (use True in auto)
    ultimately show ?thesis using True fa g2 by auto
  qed
qed

definition structs_agree :: "caps_struct \<Rightarrow> caps_struct \<Rightarrow> bool" where
  "structs_agree s1 s2 \<longleftrightarrow> media_type s1 = media_type s2 \<and> ctype s1 = ctype s2 \<and> attrs_agree s1 s2 \<and> fields_agree s1 s2"

lemma intersect_pairs_plenty:
  assumes "plenty m" and "\<forall>(s1, s2) \<in> set ps. struct_ok s1 \<and> struct_ok s2"
  shows "\<exists>rs m'. intersect_pairs ps res m = (res @ rs, m') \<and> plenty m' \<and>
    list_all2 (\<lambda>(s1, s2) r. intersected s1 s2 r) (filter (\<lambda>(s1, s2). structs_agree s1 s2) ps) rs"
  using assms
proof (induction ps arbitrary: res m)
  case Nil
  then show ?case by simp
next
  case (Cons p ps)
  obtain s1 s2 where p: "p = (s1, s2)" by fastforce
  note step = struct_intersect_plenty [OF Cons.prems(1), of s1 s2, folded structs_agree_def]
  show ?case
  proof (cases "structs_agree s1 s2")
    case True
    then obtain r m1 where r: "zst_caps_struct_intersect s1 s2 m = (Some r, m1)" "plenty m1" "intersected s1 s2 r"
      using step Cons.prems(2) p by auto
    obtain rs m' where "intersect_pairs ps (res @ [r]) m1 = ((res @ [r]) @ rs, m') \<and> plenty m' \<and>
        list_all2 (\<lambda>(s1, s2) r. intersected s1 s2 r) (filter (\<lambda>(s1, s2). structs_agree s1 s2) ps) rs"
      using Cons.IH [OF r(2), of "res @ [r]"] Cons.prems(2) by auto
    then show ?thesis using True r p by (intro exI [of _ "r # rs"]) auto
  next
    case False
    then obtain m1 where r: "zst_caps_struct_intersect s1 s2 m = (None, m1)" "plenty m1"
      using step Cons.prems(2) p by auto
    then show ?thesis using Cons.IH [OF r(2), of res] Cons.prems(2) False r p by auto
  qed
qed

section \<open>Setters\<close>

lemma set_first_plenty:
  assumes "plenty m" and "length k \<le> 63" and "sfields (upd s) = sfields s" and "struct_ok (upd s)"
  obtains s' m' where "set_first upd k v (Some (s # ss)) m = (ZST_OK, Some (s' # ss), m')" and "plenty m'"
    and "struct_ok s'" and "lookup s' = (lookup s)(k \<mapsto> stored v)" and "video s' = video (upd s)"
    and "audio s' = audio (upd s)" and "media_type s' = media_type (upd s)" and "ctype s' = ctype (upd s)"
proof -
  obtain s' m' where c: "caps_struct_set_field \<lparr>key = k, val = v\<rparr> (upd s) m = (ZST_OK, s', m')" "plenty m'"
    "lookup s' k = Some (stored v)"
    using set_field_plenty [of m "\<lparr>key = k, val = v\<rparr>" "upd s"] assms(1,2) by auto
  have "lookup s' k' = lookup s k'" if "k' \<noteq> k" for k'
    using set_field_other [OF c(1), of k'] that assms(2) lookup_cong [OF assms(3)] by simp
  then have "lookup s' = (lookup s)(k \<mapsto> stored v)" using c(3) by auto
  then show thesis
    using c set_field_frame [OF c(1)] set_field_ok [OF c(1) assms(4)] assms(2)
    by (intro that [of s' m']) (auto simp: set_first_def)
qed

lemma set_first_step:
  assumes "plenty m" and "length k \<le> 63" and "sfields (upd s) = sfields s" and "struct_ok (upd s)"
  shows "\<exists>s' m'. set_first upd k v (Some (s # ss)) m = (ZST_OK, Some (s' # ss), m') \<and> plenty m' \<and> struct_ok s' \<and>
    lookup s' = (lookup s)(k \<mapsto> stored v) \<and> video s' = video (upd s) \<and> audio s' = audio (upd s) \<and>
    media_type s' = media_type (upd s) \<and> ctype s' = ctype (upd s)"
  by (rule set_first_plenty [where upd = upd and s = s and v = v and ss = ss, OF assms]) blast

lemma set_first_ok:
  assumes "set_first upd k v (Some ss) m = (r, c', m')" and "list_all struct_ok ss"
    and "\<And>s. struct_ok s \<Longrightarrow> struct_ok (upd s)"
  shows "\<exists>ss'. c' = Some ss' \<and> length ss' = length ss \<and> list_all struct_ok ss'"
proof (cases ss)
  case Nil
  then show ?thesis using assms(1) by (auto simp: set_first_def)
next
  case (Cons s t)
  obtain r1 s1 m1 where c: "caps_struct_set_field \<lparr>key = c_strncpy 63 k, val = v\<rparr> (upd s) m = (r1, s1, m1)"
    by (metis prod_cases3)
  have "struct_ok s1" using set_field_ok [OF c] assms(2,3) Cons by simp
  then show ?thesis using assms(1,2) Cons c by (auto simp: set_first_def)
qed

lemma mirror_fields [simp]:
  "sfields (mirror_int k v s) = sfields s" "sfields (mirror_double k d s) = sfields s"
  "sfields (mirror_string k t s) = sfields s"
  by (simp_all add: mirror_int_def mirror_double_def mirror_string_def Let_def)

lemma mirror_ok [simp]:
  "struct_ok (mirror_int k v s) = struct_ok s" "struct_ok (mirror_double k d s) = struct_ok s"
  "struct_ok s \<Longrightarrow> struct_ok (mirror_string k t s)"
  by (auto simp: mirror_int_def mirror_double_def mirror_string_def Let_def struct_ok_def)

lemma mirror_frame [simp]:
  "media_type (mirror_int k v s) = media_type s" "ctype (mirror_int k v s) = ctype s"
  "media_type (mirror_double k d s) = media_type s" "ctype (mirror_double k d s) = ctype s"
  "media_type (mirror_string k t s) = media_type s" "ctype (mirror_string k t s) = ctype s"
  by (simp_all add: mirror_int_def mirror_double_def mirror_string_def Let_def)

lemma mirror_attrs:
  "ctype s = ZST_CAPS_VIDEO \<Longrightarrow> video (mirror_int ''width'' v s) = (video s)\<lparr>width := v\<rparr>"
  "ctype s = ZST_CAPS_VIDEO \<Longrightarrow> video (mirror_int ''height'' v s) = (video s)\<lparr>height := v\<rparr>"
  "ctype s = ZST_CAPS_VIDEO \<Longrightarrow> video (mirror_double ''framerate'' d s) = (video s)\<lparr>framerate := d\<rparr>"
  "ctype s = ZST_CAPS_VIDEO \<Longrightarrow>
     video (mirror_string ''pixel-format'' (Some t) s) = (video s)\<lparr>pixel_format := c_strncpy 31 t\<rparr>"
  "ctype s = ZST_CAPS_AUDIO \<Longrightarrow> audio (mirror_int ''channels'' v s) = (audio s)\<lparr>channels := v\<rparr>"
  "ctype s = ZST_CAPS_AUDIO \<Longrightarrow> audio (mirror_int ''sample-rate'' v s) = (audio s)\<lparr>sample_rate := v\<rparr>"
  "ctype s = ZST_CAPS_AUDIO \<Longrightarrow> audio (mirror_string ''format'' (Some t) s) = (audio s)\<lparr>format := c_strncpy 31 t\<rparr>"
  by (simp_all add: mirror_int_def mirror_double_def mirror_string_def)

lemmas setter_defs = zst_caps_set_int_def zst_caps_set_uint_def zst_caps_set_double_def
  zst_caps_set_string_def zst_caps_set_fraction_def zst_caps_set_buffer_def

lemmas getter_defs = zst_caps_get_int_def zst_caps_get_uint_def zst_caps_get_double_def
  zst_caps_get_string_def zst_caps_get_fraction_def zst_caps_get_buffer_def

lemma first_field_Cons [simp]: "first_field (Some (s # ss)) k = lookup s k"
  by (simp add: first_field_def lookup_def)

section \<open>Properties\<close>

text \<open>C9: with memory available, two well-formed structures have an intersection exactly when they have
  the same media type and kind, every typed attribute of raw media is equal or a wildcard on one
  side, and every generic field both have is equal.  The result is well formed, each typed attribute
  is the more specific one of the two, and every generic field of either side is in it.\<close>

theorem caps_intersect_spec:
  assumes "plenty m" and "struct_ok s1" and "struct_ok s2"
  shows "case zst_caps_struct_intersect s1 s2 m of
     (None, _) \<Rightarrow> \<not> (media_type s1 = media_type s2 \<and> ctype s1 = ctype s2 \<and> attrs_agree s1 s2 \<and> fields_agree s1 s2)
   | (Some res, _) \<Rightarrow>
       media_type s1 = media_type s2 \<and> ctype s1 = ctype s2 \<and> attrs_agree s1 s2 \<and> fields_agree s1 s2 \<and>
       struct_ok res \<and> media_type res = media_type s1 \<and> ctype res = ctype s1 \<and>
       (caps_is_raw_video_struct s1 \<longrightarrow> video res = meet_video (video s1) (video s2)) \<and>
       (caps_is_raw_audio_struct s1 \<longrightarrow> audio res = meet_audio (audio s1) (audio s2)) \<and>
       (\<forall>k. \<not> caps_is_raw_legacy_field s1 k \<longrightarrow>
          lookup res k = map_option stored (case lookup s1 k of Some v \<Rightarrow> Some v | None \<Rightarrow> lookup s2 k))"
proof (cases "media_type s1 = media_type s2 \<and> ctype s1 = ctype s2 \<and> attrs_agree s1 s2 \<and> fields_agree s1 s2")
  case True
  then obtain res m' where "zst_caps_struct_intersect s1 s2 m = (Some res, m')" "intersected s1 s2 res"
    using struct_intersect_plenty [OF assms] by auto
  with True show ?thesis by (simp add: intersected_def)
next
  case False
  then obtain m' where "zst_caps_struct_intersect s1 s2 m = (None, m')"
    using struct_intersect_plenty [OF assms] by auto
  with False show ?thesis by simp
qed

definition demo_video :: "int \<Rightarrow> int \<Rightarrow> string \<Rightarrow> caps_struct" where
  "demo_video w h fmt = the (fst (zst_caps_struct_create_video (Some ''video/x-raw'') w h (Fp_num 30) (Some fmt) []))"

lemma demo_video_ok: "struct_ok (demo_video w h fmt)" "media_type (demo_video w h fmt) = ''video/x-raw''"
  "ctype (demo_video w h fmt) = ZST_CAPS_VIDEO"
  "video (demo_video w h fmt) = \<lparr>width = w, height = h, framerate = Fp_num 30, pixel_format = c_strncpy 31 fmt\<rparr>"
  using create_video_raw [OF plenty_Nil refl, of w h "Fp_num 30" fmt] unfolding demo_video_def
  by (metis fst_conv option.sel)+

theorem caps_intersect_spec_witness:
  "\<exists>res m'. zst_caps_struct_intersect (demo_video 0 480 ''NV12'') (demo_video 640 0 []) [] = (Some res, m') \<and>
     width (video res) = 640 \<and> height (video res) = 480"
proof -
  have "fst (zst_caps_struct_intersect (demo_video 0 480 ''NV12'') (demo_video 640 0 []) []) \<noteq> None" by code_simp
  then obtain res m' where "zst_caps_struct_intersect (demo_video 0 480 ''NV12'') (demo_video 640 0 []) [] = (Some res, m')"
    by (metis not_None_eq prod.collapse)
  with caps_intersect_spec [OF plenty_Nil demo_video_ok(1) demo_video_ok(1), of 0 480 "''NV12''" 640 0 "[]"] show ?thesis
    by (auto simp: demo_video_ok caps_is_raw_video_struct_def meet_video_def meet_or_def)
qed

text \<open>C10: with memory available, the intersection of two capabilities has one structure for every
  compatible pair of their structures, in the order of the first operand and then of the second, and
  each is the intersection of its pair.\<close>

theorem caps_intersect_all_pairs:
  assumes "plenty m" and "list_all struct_ok ss1" and "list_all struct_ok ss2"
  shows "\<exists>rs m'. zst_caps_intersect (Some ss1) (Some ss2) m = (Some rs, m') \<and>
    list_all2 (\<lambda>(s1, s2) r. intersected s1 s2 r)
      (filter (\<lambda>(s1, s2). structs_agree s1 s2) (List.product ss1 ss2)) rs"
proof -
  obtain m1 where m1: "alloc m = (None, m1)" "plenty m1" using assms(1) by (rule plenty_alloc)
  have "\<forall>(s1, s2) \<in> set (List.product ss1 ss2). struct_ok s1 \<and> struct_ok s2"
    using assms(2,3) by (auto simp: list_all_iff)
  from intersect_pairs_plenty [OF m1(2) this, of "[]"] m1(1) show ?thesis
    by (auto simp: zst_caps_intersect_def zst_caps_create_def)
qed

theorem caps_intersect_all_pairs_witness:
  "\<exists>rs m'. zst_caps_intersect (Some [demo_video 640 480 []]) (Some [demo_video 0 0 [], demo_video 320 0 []]) [] = (Some rs, m')
    \<and> length rs = 1"
proof -
  have no: "\<not> structs_agree (demo_video 640 480 []) (demo_video 320 0 [])"
    by (simp add: structs_agree_def attrs_agree_def agree_def demo_video_ok caps_is_raw_video_struct_def)
  have yes: "structs_agree (demo_video 640 480 []) (demo_video 0 0 [])"
  proof -
    have "fst (zst_caps_struct_intersect (demo_video 640 480 []) (demo_video 0 0 []) []) \<noteq> None" by code_simp
    then show ?thesis
      using struct_intersect_plenty [OF plenty_Nil demo_video_ok(1) demo_video_ok(1), of 640 480 "[]" 0 0 "[]"]
      by (auto simp: structs_agree_def split: if_splits)
  qed
  have "list_all struct_ok [demo_video 640 480 []]" "list_all struct_ok [demo_video 0 0 [], demo_video 320 0 []]"
    by (simp_all add: demo_video_ok)
  from caps_intersect_all_pairs [OF plenty_Nil this] yes no show ?thesis
    by (auto simp: list_all2_Cons1)
qed

lemma caps_field_equal_sym: "caps_field_equal v1 v2 = caps_field_equal v2 v1"
  by (cases v1; cases v2) (auto simp: caps_field_equal_def fp_eq_def split: option.splits)

lemma agree_sym_eq: "agree wild (=) a b \<Longrightarrow> agree wild (=) b a"
  by (auto simp: agree_def)

lemma agree_sym_fp: "agree wild fp_eq a b \<Longrightarrow> agree wild fp_eq b a"
  by (auto simp: agree_def fp_eq_def)

lemma structs_agree_sym: "structs_agree s1 s2 \<Longrightarrow> structs_agree s2 s1"
proof -
  assume a: "structs_agree s1 s2"
  then have same: "media_type s2 = media_type s1" "ctype s2 = ctype s1" by (simp_all add: structs_agree_def)
  have raw: "caps_is_raw_video_struct s2 = caps_is_raw_video_struct s1"
    "caps_is_raw_audio_struct s2 = caps_is_raw_audio_struct s1"
    by (simp_all add: caps_is_raw_video_struct_def caps_is_raw_audio_struct_def same)
  have "attrs_agree s2 s1"
    using a unfolding structs_agree_def attrs_agree_def raw by (auto dest: agree_sym_eq agree_sym_fp)
  moreover have "fields_agree s2 s1"
    unfolding fields_agree_def
  proof (intro allI impI)
    fix k v1 v2
    assume k: "\<not> caps_is_raw_legacy_field s2 k" "lookup s2 k = Some v1" "lookup s1 k = Some v2"
    have "\<not> caps_is_raw_legacy_field s1 k" using k(1) legacy_cong [OF same] by simp
    then have "caps_field_equal v2 v1" using a k by (simp add: structs_agree_def fields_agree_def)
    then show "caps_field_equal v1 v2" by (simp only: caps_field_equal_sym [of v1])
  qed
  ultimately show ?thesis using same by (simp add: structs_agree_def)
qed

text \<open>Also, negotiation does not depend on the side: with memory available, the intersection of two
  capabilities is empty exactly when the intersection taken the other way round is empty.\<close>

lemma caps_negotiation_symmetric:
  assumes "list_all struct_ok ss1" and "list_all struct_ok ss2"
  shows "fst (zst_caps_intersect (Some ss1) (Some ss2) []) = Some [] \<longleftrightarrow>
    fst (zst_caps_intersect (Some ss2) (Some ss1) []) = Some []"
proof -
  have *: "fst (zst_caps_intersect (Some xs) (Some ys) []) = Some [] \<longleftrightarrow>
      (\<forall>x \<in> set xs. \<forall>y \<in> set ys. \<not> structs_agree x y)"
    if "list_all struct_ok xs" "list_all struct_ok ys" for xs ys
  proof -
    have all: "\<forall>(s1, s2) \<in> set (List.product xs ys). struct_ok s1 \<and> struct_ok s2"
      using that by (auto simp: list_all_iff)
    obtain rs m' where r: "zst_caps_intersect (Some xs) (Some ys) [] = (Some rs, m')"
      "list_all2 (\<lambda>(s1, s2) r. intersected s1 s2 r) (filter (\<lambda>(s1, s2). structs_agree s1 s2) (List.product xs ys)) rs"
      using intersect_pairs_plenty [OF plenty_Nil all, of "[]"]
      by (auto simp: zst_caps_intersect_def zst_caps_create_def)
    have "rs = [] \<longleftrightarrow> filter (\<lambda>(s1, s2). structs_agree s1 s2) (List.product xs ys) = []"
      using r(2) by (metis length_0_conv list_all2_lengthD)
    then show ?thesis using r(1) by (auto simp: filter_empty_conv)
  qed
  show ?thesis using * [OF assms] * [OF assms(2,1)] structs_agree_sym by blast
qed

text \<open>C12: with memory available, what a setter stores under a key of at most 63 characters is what the
  getter of that type returns, and every other key of the structure is found as before.\<close>

theorem caps_set_get_roundtrip:
  assumes "plenty m" and "length k \<le> 63" and "k' \<noteq> k" and "struct_ok s"
    and "length bs = unat n" and "n > 0"
  shows "(\<exists>s1 m1. zst_caps_set_int k i (Some (s # ss)) m = (ZST_OK, Some (s1 # ss), m1) \<and>
            zst_caps_get_int (Some (s1 # ss)) k = Some i \<and> lookup s1 k' = lookup s k') \<and>
         (\<exists>s1 m1. zst_caps_set_uint k u (Some (s # ss)) m = (ZST_OK, Some (s1 # ss), m1) \<and>
            zst_caps_get_uint (Some (s1 # ss)) k = Some u \<and> lookup s1 k' = lookup s k') \<and>
         (\<exists>s1 m1. zst_caps_set_double k d (Some (s # ss)) m = (ZST_OK, Some (s1 # ss), m1) \<and>
            zst_caps_get_double (Some (s1 # ss)) k = Some d \<and> lookup s1 k' = lookup s k') \<and>
         (\<exists>s1 m1. zst_caps_set_string k (Some t) (Some (s # ss)) m = (ZST_OK, Some (s1 # ss), m1) \<and>
            zst_caps_get_string (Some (s1 # ss)) k = Some (Some t) \<and> lookup s1 k' = lookup s k') \<and>
         (\<exists>s1 m1. zst_caps_set_fraction k a b (Some (s # ss)) m = (ZST_OK, Some (s1 # ss), m1) \<and>
            zst_caps_get_fraction (Some (s1 # ss)) k = Some (a, b) \<and> lookup s1 k' = lookup s k') \<and>
         (\<exists>s1 m1. zst_caps_set_buffer k (Some bs) n (Some (s # ss)) m = (ZST_OK, Some (s1 # ss), m1) \<and>
            zst_caps_get_buffer (Some (s1 # ss)) k = Some (Some bs, n) \<and> lookup s1 k' = lookup s k')"
proof -
  have *: "\<exists>s1 m1. set_first upd k v (Some (s # ss)) m = (ZST_OK, Some (s1 # ss), m1) \<and>
      lookup s1 k = Some (stored v) \<and> lookup s1 k' = lookup s k'"
    if "sfields (upd s) = sfields s" "struct_ok (upd s)" for upd v
    using set_first_plenty [of m k upd s v ss] assms(1-3) that by (metis fun_upd_apply)
  show ?thesis
    unfolding setter_defs getter_defs first_field_Cons
    using * [of "mirror_int k i" "ZST_CAPS_FIELD_INT i"] * [of id "ZST_CAPS_FIELD_UINT u"]
      * [of "mirror_double k d" "ZST_CAPS_FIELD_DOUBLE d"] * [of "mirror_string k (Some t)" "ZST_CAPS_FIELD_STRING (Some t)"]
      * [of id "ZST_CAPS_FIELD_FRACTION a b"] * [of id "ZST_CAPS_FIELD_BUFFER (Some bs) n"] assms(4-6)
    by (simp add: stored_def) (elim exE conjE; intro conjI; fastforce)
qed

theorem caps_set_get_roundtrip_witness:
  "\<exists>s1 m1. zst_caps_set_buffer ''codec-data'' (Some [1, 2]) 2 (Some [demo_video 1 1 []]) [] = (ZST_OK, Some [s1], m1) \<and>
     zst_caps_get_buffer (Some [s1]) ''codec-data'' = Some (Some [1, 2], 2)"
proof -
  have "\<exists>s1 m1. zst_caps_set_buffer ''codec-data'' (Some [1, 2]) 2 (Some (demo_video 1 1 [] # [])) [] = (ZST_OK, Some (s1 # []), m1) \<and>
      zst_caps_get_buffer (Some (s1 # [])) ''codec-data'' = Some (Some [1, 2], 2) \<and>
      lookup s1 ''x'' = lookup (demo_video 1 1 []) ''x''"
    by (rule caps_set_get_roundtrip [THEN conjunct2, THEN conjunct2, THEN conjunct2, THEN conjunct2, THEN conjunct2])
      (simp_all add: demo_video_ok)
  then show ?thesis by blast
qed

text \<open>Every setter keeps the capabilities well formed (terminated strings within their arrays,
  distinct keys, no more fields than the array has room for), whatever it is given and whichever of
  its allocations fail.\<close>

lemma caps_setters_well_formed:
  assumes "list_all struct_ok ss"
    and "call \<in> {zst_caps_set_int k i, zst_caps_set_uint k u, zst_caps_set_double k d, zst_caps_set_string k t,
      zst_caps_set_fraction k a b, zst_caps_set_buffer k bs n}"
    and "call (Some ss) m = (r, c', m')"
  shows "\<exists>ss'. c' = Some ss' \<and> length ss' = length ss \<and> list_all struct_ok ss'"
  using assms(2) set_first_ok [OF _ assms(1), of _ k _ m r c' m'] assms(3)
  by (auto simp: setter_defs)

definition fixed_video :: "caps_video \<Rightarrow> caps_video" where
  "fixed_video v = \<lparr>width = (if width v = 0 then 640 else width v), height = (if height v = 0 then 480 else height v),
     framerate = (if fp_eq (framerate v) fp_zero then Fp_num 30 else framerate v),
     pixel_format = (if pixel_format v = [] then ''YUV420P'' else pixel_format v)\<rparr>"

definition fixed_audio :: "caps_audio \<Rightarrow> caps_audio" where
  "fixed_audio a = \<lparr>channels = (if channels a = 0 then 2 else channels a),
     sample_rate = (if sample_rate a = 0 then 44100 else sample_rate a),
     format = (if format a = [] then ''S16LE'' else format a)\<rparr>"

lemma fixate_video:
  assumes "plenty m" and ok: "struct_ok s" and raw: "caps_is_raw_video_struct s"
  shows "\<exists>t m'. zst_caps_fixate (Some (s # ss)) m = (ZST_OK, Some [t], m') \<and> plenty m' \<and> struct_ok t \<and>
    media_type t = media_type s \<and> ctype t = ctype s \<and> video t = fixed_video (video s) \<and>
    lookup t = (lookup s)(''width'' \<mapsto> ZST_CAPS_FIELD_INT (width (video t)),
      ''height'' \<mapsto> ZST_CAPS_FIELD_INT (height (video t)), ''framerate'' \<mapsto> ZST_CAPS_FIELD_DOUBLE (framerate (video t)),
      ''pixel-format'' \<mapsto> ZST_CAPS_FIELD_STRING (Some (pixel_format (video t))))"
proof -
  let ?v = "fixed_video (video s)" and ?s0 = "s\<lparr>video := fixed_video (video s)\<rparr>"
  have c: "ctype s = ZST_CAPS_VIDEO" using raw by (simp add: caps_is_raw_video_struct_def)
  have ok0: "struct_ok ?s0" using ok by (simp add: struct_ok_def fixed_video_def)
  obtain s1 m1 where s1: "zst_caps_set_int ''width'' (width ?v) (Some [?s0]) m = (ZST_OK, Some [s1], m1)" "plenty m1"
    "struct_ok s1" "lookup s1 = (lookup ?s0)(''width'' \<mapsto> stored (ZST_CAPS_FIELD_INT (width ?v)))"
    "video s1 = ?v" "media_type s1 = media_type s" "ctype s1 = ZST_CAPS_VIDEO"
    using set_first_step [of m "''width''" "mirror_int ''width'' (width ?v)" ?s0 "ZST_CAPS_FIELD_INT (width ?v)" "[]"]
      assms(1) ok0 c by (auto simp: zst_caps_set_int_def mirror_attrs)
  obtain s2 m2 where s2: "zst_caps_set_int ''height'' (height ?v) (Some [s1]) m1 = (ZST_OK, Some [s2], m2)" "plenty m2"
    "struct_ok s2" "lookup s2 = (lookup s1)(''height'' \<mapsto> stored (ZST_CAPS_FIELD_INT (height ?v)))"
    "video s2 = ?v" "media_type s2 = media_type s" "ctype s2 = ZST_CAPS_VIDEO"
    using set_first_step [of m1 "''height''" "mirror_int ''height'' (height ?v)" s1 "ZST_CAPS_FIELD_INT (height ?v)" "[]"]
      s1 by (auto simp: zst_caps_set_int_def mirror_attrs)
  obtain s3 m3 where s3: "zst_caps_set_double ''framerate'' (framerate ?v) (Some [s2]) m2 = (ZST_OK, Some [s3], m3)"
    "plenty m3" "struct_ok s3" "lookup s3 = (lookup s2)(''framerate'' \<mapsto> stored (ZST_CAPS_FIELD_DOUBLE (framerate ?v)))"
    "video s3 = ?v" "media_type s3 = media_type s" "ctype s3 = ZST_CAPS_VIDEO"
    using set_first_step [of m2 "''framerate''" "mirror_double ''framerate'' (framerate ?v)" s2
        "ZST_CAPS_FIELD_DOUBLE (framerate ?v)" "[]"] s2
    by (auto simp: zst_caps_set_double_def mirror_attrs)
  have pf: "c_strncpy 31 (pixel_format ?v) = pixel_format ?v" using ok0 by (simp add: struct_ok_def)
  obtain s4 m4 where s4: "zst_caps_set_string ''pixel-format'' (Some (pixel_format ?v)) (Some [s3]) m3
      = (ZST_OK, Some [s4], m4)" "plenty m4" "struct_ok s4"
    "lookup s4 = (lookup s3)(''pixel-format'' \<mapsto> stored (ZST_CAPS_FIELD_STRING (Some (pixel_format ?v))))"
    "video s4 = ?v" "media_type s4 = media_type s" "ctype s4 = ZST_CAPS_VIDEO"
    using set_first_step [of m3 "''pixel-format''" "mirror_string ''pixel-format'' (Some (pixel_format ?v))" s3
        "ZST_CAPS_FIELD_STRING (Some (pixel_format ?v))" "[]"] s3 pf
    by (auto simp: zst_caps_set_string_def mirror_attrs)
  have "zst_caps_fixate (Some (s # ss)) m = (ZST_OK, Some [s4], m4)"
  proof -
    have v: "(let v = video s; v = (if width v = 0 then v\<lparr>width := 640\<rparr> else v);
                 v = (if height v = 0 then v\<lparr>height := 480\<rparr> else v);
                 v = (if fp_eq (framerate v) fp_zero then v\<lparr>framerate := Fp_num 30\<rparr> else v)
              in if pixel_format v = [] then v\<lparr>pixel_format := ''YUV420P''\<rparr> else v) = ?v"
      by (simp add: fixed_video_def Let_def)
    show ?thesis
      unfolding zst_caps_fixate_def using raw s1(1) s2(1) s3(1) s4(1) v by (simp add: Let_def)
  qed
  moreover have "lookup ?s0 = lookup s" by (rule lookup_cong) simp
  ultimately show ?thesis using s1 s2 s3 s4 c by (simp add: stored_def)
qed

lemma fixate_audio:
  assumes "plenty m" and ok: "struct_ok s" and raw: "caps_is_raw_audio_struct s"
  shows "\<exists>t m'. zst_caps_fixate (Some (s # ss)) m = (ZST_OK, Some [t], m') \<and> plenty m' \<and> struct_ok t \<and>
    media_type t = media_type s \<and> ctype t = ctype s \<and> audio t = fixed_audio (audio s) \<and>
    lookup t = (lookup s)(''channels'' \<mapsto> ZST_CAPS_FIELD_INT (channels (audio t)),
      ''sample-rate'' \<mapsto> ZST_CAPS_FIELD_INT (sample_rate (audio t)),
      ''format'' \<mapsto> ZST_CAPS_FIELD_STRING (Some (format (audio t))))"
proof -
  let ?v = "fixed_audio (audio s)" and ?s0 = "s\<lparr>audio := fixed_audio (audio s)\<rparr>"
  have c: "ctype s = ZST_CAPS_AUDIO" and nv: "\<not> caps_is_raw_video_struct s"
    using raw by (simp_all add: caps_is_raw_audio_struct_def caps_is_raw_video_struct_def)
  have ok0: "struct_ok ?s0" using ok by (simp add: struct_ok_def fixed_audio_def)
  obtain s1 m1 where s1: "zst_caps_set_int ''channels'' (channels ?v) (Some [?s0]) m = (ZST_OK, Some [s1], m1)" "plenty m1"
    "struct_ok s1" "lookup s1 = (lookup ?s0)(''channels'' \<mapsto> stored (ZST_CAPS_FIELD_INT (channels ?v)))"
    "audio s1 = ?v" "media_type s1 = media_type s" "ctype s1 = ZST_CAPS_AUDIO"
    using set_first_step [of m "''channels''" "mirror_int ''channels'' (channels ?v)" ?s0 "ZST_CAPS_FIELD_INT (channels ?v)" "[]"]
      assms(1) ok0 c by (auto simp: zst_caps_set_int_def mirror_attrs)
  obtain s2 m2 where s2: "zst_caps_set_int ''sample-rate'' (sample_rate ?v) (Some [s1]) m1 = (ZST_OK, Some [s2], m2)"
    "plenty m2" "struct_ok s2" "lookup s2 = (lookup s1)(''sample-rate'' \<mapsto> stored (ZST_CAPS_FIELD_INT (sample_rate ?v)))"
    "audio s2 = ?v" "media_type s2 = media_type s" "ctype s2 = ZST_CAPS_AUDIO"
    using set_first_step [of m1 "''sample-rate''" "mirror_int ''sample-rate'' (sample_rate ?v)" s1
        "ZST_CAPS_FIELD_INT (sample_rate ?v)" "[]"]
      s1 by (auto simp: zst_caps_set_int_def mirror_attrs)
  have pf: "c_strncpy 31 (format ?v) = format ?v" using ok0 by (simp add: struct_ok_def)
  obtain s4 m4 where s4: "zst_caps_set_string ''format'' (Some (format ?v)) (Some [s2]) m2 = (ZST_OK, Some [s4], m4)" "plenty m4"
    "struct_ok s4" "lookup s4 = (lookup s2)(''format'' \<mapsto> stored (ZST_CAPS_FIELD_STRING (Some (format ?v))))"
    "audio s4 = ?v" "media_type s4 = media_type s" "ctype s4 = ZST_CAPS_AUDIO"
    using set_first_step [of m2 "''format''" "mirror_string ''format'' (Some (format ?v))" s2
        "ZST_CAPS_FIELD_STRING (Some (format ?v))" "[]"] s2 pf
    by (auto simp: zst_caps_set_string_def mirror_attrs)
  have v: "(let a = audio s; a = (if channels a = 0 then a\<lparr>channels := 2\<rparr> else a);
                 a = (if sample_rate a = 0 then a\<lparr>sample_rate := 44100\<rparr> else a)
              in if format a = [] then a\<lparr>format := ''S16LE''\<rparr> else a) = ?v"
    by (simp add: fixed_audio_def Let_def)
  have "zst_caps_fixate (Some (s # ss)) m = (ZST_OK, Some [s4], m4)"
    unfolding zst_caps_fixate_def using raw nv s1(1) s2(1) s4(1) v by (simp add: Let_def)
  moreover have "lookup ?s0 = lookup s" by (rule lookup_cong) simp
  ultimately show ?thesis using s1 s2 s4 c by (simp add: stored_def)
qed

lemma fixate_plenty:
  assumes "plenty m" and "struct_ok s" and "media_type s \<noteq> []"
  shows "\<exists>t m'. zst_caps_fixate (Some (s # ss)) m = (ZST_OK, Some [t], m') \<and> plenty m' \<and> ctype t = ctype s \<and>
    zst_caps_is_fixed (Some [t]) \<and> struct_ok t \<and> media_type t = media_type s \<and>
    (caps_is_raw_video_struct s \<longrightarrow> video t = fixed_video (video s) \<and>
       zst_caps_get_int (Some [t]) ''width'' = Some (width (video t)) \<and>
       zst_caps_get_int (Some [t]) ''height'' = Some (height (video t)) \<and>
       zst_caps_get_double (Some [t]) ''framerate'' = Some (framerate (video t)) \<and>
       zst_caps_get_string (Some [t]) ''pixel-format'' = Some (Some (pixel_format (video t)))) \<and>
    (caps_is_raw_audio_struct s \<longrightarrow> audio t = fixed_audio (audio s) \<and>
       zst_caps_get_int (Some [t]) ''channels'' = Some (channels (audio t)) \<and>
       zst_caps_get_int (Some [t]) ''sample-rate'' = Some (sample_rate (audio t)) \<and>
       zst_caps_get_string (Some [t]) ''format'' = Some (Some (format (audio t))))"
proof -
  consider (vid) "caps_is_raw_video_struct s" | (aud) "caps_is_raw_audio_struct s"
    | (gen) "\<not> caps_is_raw_video_struct s" "\<not> caps_is_raw_audio_struct s" by blast
  then show ?thesis
  proof cases
    case vid
    then have n: "ctype s = ZST_CAPS_VIDEO" "\<not> caps_is_raw_audio_struct s"
      by (auto simp: caps_is_raw_audio_struct_def caps_is_raw_video_struct_def)
    have fx: "width (fixed_video v) \<noteq> 0" "height (fixed_video v) \<noteq> 0" "\<not> fp_eq (framerate (fixed_video v)) fp_zero"
      "pixel_format (fixed_video v) \<noteq> []" for v by (auto simp: fixed_video_def fp_eq_def)
    obtain t m' where "zst_caps_fixate (Some (s # ss)) m = (ZST_OK, Some [t], m')" "plenty m'" "struct_ok t"
      "media_type t = media_type s" "ctype t = ctype s" "video t = fixed_video (video s)"
      "lookup t = (lookup s)(''width'' \<mapsto> ZST_CAPS_FIELD_INT (width (video t)),
        ''height'' \<mapsto> ZST_CAPS_FIELD_INT (height (video t)), ''framerate'' \<mapsto> ZST_CAPS_FIELD_DOUBLE (framerate (video t)),
        ''pixel-format'' \<mapsto> ZST_CAPS_FIELD_STRING (Some (pixel_format (video t))))"
      using fixate_video [OF assms(1,2) vid, of ss] by blast
    then show ?thesis
      using n assms(3) vid fx by (auto simp: zst_caps_is_fixed_def zst_caps_struct_is_fixed_def getter_defs)
  next
    case aud
    then have n: "ctype s = ZST_CAPS_AUDIO" "\<not> caps_is_raw_video_struct s"
      by (auto simp: caps_is_raw_audio_struct_def caps_is_raw_video_struct_def)
    have fx: "channels (fixed_audio v) \<noteq> 0" "sample_rate (fixed_audio v) \<noteq> 0" "format (fixed_audio v) \<noteq> []" for v
      by (auto simp: fixed_audio_def)
    obtain t m' where "zst_caps_fixate (Some (s # ss)) m = (ZST_OK, Some [t], m')" "plenty m'" "struct_ok t"
      "media_type t = media_type s" "ctype t = ctype s" "audio t = fixed_audio (audio s)"
      "lookup t = (lookup s)(''channels'' \<mapsto> ZST_CAPS_FIELD_INT (channels (audio t)),
      ''sample-rate'' \<mapsto> ZST_CAPS_FIELD_INT (sample_rate (audio t)),
      ''format'' \<mapsto> ZST_CAPS_FIELD_STRING (Some (format (audio t))))"
      using fixate_audio [OF assms(1,2) aud, of ss] by blast
    then show ?thesis
      using n assms(3) aud fx by (auto simp: zst_caps_is_fixed_def zst_caps_struct_is_fixed_def getter_defs)
  next
    case gen
    with assms show ?thesis
      by (auto simp: zst_caps_fixate_def zst_caps_is_fixed_def zst_caps_struct_is_fixed_def split: caps_type.split)
  qed
qed

text \<open>C11: with memory available, fixating well-formed, non-empty capabilities leaves one structure.  When its media type is not
  empty it is fixed: no attribute is a wildcard any more, attributes that were set are kept, and the generic fields of raw media say the same as the typed attributes.\<close>

theorem caps_fixate_fixed:
  assumes "plenty m" and "struct_ok s" and "media_type s \<noteq> []"
  shows "\<exists>t m'. zst_caps_fixate (Some (s # ss)) m = (ZST_OK, Some [t], m') \<and>
    zst_caps_is_fixed (Some [t]) \<and> struct_ok t \<and> media_type t = media_type s \<and>
    (caps_is_raw_video_struct s \<longrightarrow> video t = fixed_video (video s) \<and>
       zst_caps_get_int (Some [t]) ''width'' = Some (width (video t)) \<and>
       zst_caps_get_int (Some [t]) ''height'' = Some (height (video t)) \<and>
       zst_caps_get_double (Some [t]) ''framerate'' = Some (framerate (video t)) \<and>
       zst_caps_get_string (Some [t]) ''pixel-format'' = Some (Some (pixel_format (video t)))) \<and>
    (caps_is_raw_audio_struct s \<longrightarrow> audio t = fixed_audio (audio s) \<and>
       zst_caps_get_int (Some [t]) ''channels'' = Some (channels (audio t)) \<and>
       zst_caps_get_int (Some [t]) ''sample-rate'' = Some (sample_rate (audio t)) \<and>
       zst_caps_get_string (Some [t]) ''format'' = Some (Some (format (audio t))))"
  using fixate_plenty [OF assms, of ss] by blast

theorem caps_fixate_fixed_witness:
  "\<exists>t m'. zst_caps_fixate (Some [demo_video 0 480 []]) [] = (ZST_OK, Some [t], m') \<and>
    zst_caps_get_int (Some [t]) ''width'' = Some 640"
  using caps_fixate_fixed [OF plenty_Nil demo_video_ok(1), of 0 480 "[]" "[]"]
  by (auto simp: demo_video_ok caps_is_raw_video_struct_def fixed_video_def)

text \<open>A failed \<open>zst_caps_set_buffer\<close> is not without effect.  When the key already holds a buffer of
  four bytes and the allocation for the new value fails, the call answers with an error, yet the old
  value is gone and the getter now succeeds with a NULL pointer and a stale non-zero size.\<close>

lemma caps_set_buffer_failure_corrupts:
  "\<exists>c. zst_caps_set_buffer ''codec-data'' (Some [5, 6]) 2
        (fst (snd (zst_caps_set_buffer ''codec-data'' (Some [1, 2, 3, 4]) 4 (fst (zst_caps_new_simple (Some ''video/h264'') [])) [])))
        [Some 4] = (ZST_ERROR, c, []) \<and>
      zst_caps_get_buffer c ''codec-data'' = Some (None, 4)"
  by (rule exI [of _ "fst (snd (zst_caps_set_buffer ''codec-data'' (Some [5, 6]) 2
        (fst (snd (zst_caps_set_buffer ''codec-data'' (Some [1, 2, 3, 4]) 4 (fst (zst_caps_new_simple (Some ''video/h264'') [])) [])))
        [Some 4]))"]) code_simp

end
