(* ===== verification/Zst_Bus.thy ===== *)
theory Zst_Bus
  imports "HOL-Library.Sublist" Zst_Caps Zst_Fifo
begin

text \<open>
  The event bus of \<open>src/zst_bus.c\<close> and \<open>include/zst_bus.h\<close>: events with owned copies of what they
  describe, the queue they are posted to, and the dispatch thread that hands them to the
  application's handler.  The in-band events of \<open>src/zst_pad_event.c\<close>, which travel along the pads, are
  here too, since they own their capabilities in the same way.

  Events own heap blocks (copied strings and capabilities) and references on pads, so they live in a
  small heap: a map from addresses to blocks, the next unused address, the allocation script of
  theory \<open>Zst_Caps\<close> and the reference counts of the pads.  Dropping the last reference of a pad
  (which finalises it) is the business of the pad code; here the count is what is tracked.  The
  queue is a list of node and event addresses.  Every operation holds the bus mutex except while it
  waits; a wake-up of a waiting thread is what the others did meanwhile, with the flag whether the
  timed wait ran out.
\<close>

section \<open>Events\<close>

datatype event_type =
    ZST_EVENT_EOS | ZST_EVENT_ERROR | ZST_EVENT_STATE_CHANGED | ZST_EVENT_WARNING | ZST_EVENT_SEGMENT
  | ZST_EVENT_PAD_ADDED | ZST_EVENT_PAD_REMOVED | ZST_EVENT_STREAM_ADDED | ZST_EVENT_STREAM_REMOVED
  | ZST_EVENT_STREAM_CHANGED | ZST_EVENT_STREAM_STATUS | ZST_EVENT_CAPS_CHANGED | ZST_EVENT_NO_MORE_PADS
  | ZST_EVENT_CLOCK_SYNC | ZST_EVENT_REDUNDANCY_FAILOVER | ZST_EVENT_REDUNDANCY_RECOVERY
  | ZST_EVENT_SIGNAL_PRESENT | ZST_EVENT_SIGNAL_LOST | ZST_EVENT_KEY_PRESS | ZST_EVENT_MOUSE_BUTTON
  | ZST_EVENT_MOUSE_MOTION | ZST_EVENT_WEBRTC_LOCAL_DESCRIPTION | ZST_EVENT_WEBRTC_ICE_CANDIDATE
  | ZST_EVENT_WEBRTC_PLI | ZST_EVENT_WEBRTC_REMB | ZST_EVENT_DANTE_CONNECTED | ZST_EVENT_DANTE_DISCONNECTED
  | ZST_EVENT_DANTE_CONFIGURATION_REQUESTED | ZST_EVENT_DANTE_FLOW_CREATED | ZST_EVENT_DANTE_FLOW_DELETED
  | ZST_EVENT_DANTE_RX_CHANNEL_STATUS

datatype zst_state = ZST_STATE_NULL | ZST_STATE_READY | ZST_STATE_PAUSED | ZST_STATE_PLAYING

record zst_segment =
  seg_start :: zst_time
  seg_stop :: zst_time
  seg_rate :: fp
  seg_base :: zst_time
  seg_position :: zst_time

text \<open>
  Stream descriptions and Dante flows, over the type of their strings and capabilities: values in
  what a caller passes, addresses of owned blocks in an event.
\<close>

datatype media_kind = ZST_MEDIA_UNKNOWN | ZST_MEDIA_VIDEO | ZST_MEDIA_AUDIO | ZST_MEDIA_TEXT | ZST_MEDIA_DATA

datatype stream_status =
  ZST_STREAM_STATUS_PRESENT | ZST_STREAM_STATUS_LOST | ZST_STREAM_STATUS_REMOVED | ZST_STREAM_STATUS_CHANGED

datatype flow_direction = ZST_DANTE_FLOW_TX | ZST_DANTE_FLOW_RX

datatype flow_transport = ZST_DANTE_FLOW_UNICAST | ZST_DANTE_FLOW_MULTICAST

datatype tx_channel_status =
    ZST_DANTE_TX_STATUS_OK | ZST_DANTE_TX_STATUS_EXT_NOT_CONNECTED | ZST_DANTE_TX_STATUS_EXT_NOT_READY
  | ZST_DANTE_TX_STATUS_EXT_CONNECTION_BAD | ZST_DANTE_TX_STATUS_EXT_CONNECTION_UNSUPPORTED
  | ZST_DANTE_TX_STATUS_EXT_INVALID_CONFIGURATION | ZST_DANTE_TX_STATUS_EXT_SYSTEM_FAILURE

record ('s, 'c) stream_info =
  si_struct_size :: u64
  si_id :: u64
  si_program_id :: u32
  si_index :: u32
  si_kind :: media_kind
  si_status :: stream_status
  si_name :: "'s option"
  si_language :: "'s option"
  si_caps :: "'c option"
  si_first_pts :: zst_time
  si_last_seen_pts :: zst_time
  si_flags :: u32

record 's dante_flow =
  df_direction :: flow_direction
  df_transport :: flow_transport
  df_flow_index :: u32
  df_channel_index :: u32
  df_port :: u16
  receiver_address :: "'s option"
  multicast_address :: "'s option"
  transmitter_address :: "'s option"
  video_subtype :: "u8 list"

datatype event_as =
    As_none
  | As_error zst_result "addr option"
  | As_state_changed zst_state zst_state
  | As_warning zst_result "addr option"
  | As_segment zst_segment
  | As_pad_added "addr option" "(addr, addr) stream_info"
  | As_pad_removed "addr option" u64
  | As_caps_changed "addr option" "addr option" "addr option"
  | As_stream_status "(addr, addr) stream_info"
  | As_stream_removed u64
  | As_key_press u32 u32 string
  | As_mouse_button u32 int int int
  | As_mouse_motion int int
  | As_webrtc_local_description "addr option" "addr option"
  | As_webrtc_ice_candidate "addr option" int "addr option"
  | As_webrtc_pli int
  | As_webrtc_remb int u32
  | As_dante_flow "addr dante_flow"
  | As_dante_rx_channel_status u32 tx_channel_status

record zst_event =
  ev_type :: event_type
  ev_src :: "addr option"
  ev_as :: event_as

text \<open>In-band events, which travel along the pads (\<open>src/zst_pad_event.c\<close>); they are reference counted.\<close>

datatype pad_event_type =
    ZST_PAD_EVENT_STREAM_START | ZST_PAD_EVENT_CAPS | ZST_PAD_EVENT_SEGMENT | ZST_PAD_EVENT_EOS
  | ZST_PAD_EVENT_FLUSH_START | ZST_PAD_EVENT_FLUSH_STOP | ZST_PAD_EVENT_GAP | ZST_PAD_EVENT_DISCONT
  | ZST_PAD_EVENT_FORCE_KEYFRAME

datatype pad_event_as = Pad_as_none | Pad_as_stream_start u64 | Pad_as_caps "addr option" | Pad_as_segment zst_segment

record pad_event =
  pe_type :: pad_event_type
  pe_refcount :: int
  pe_as :: pad_event_as

datatype block =
    Block_event zst_event
  | Block_string string
  | Block_caps zst_caps
  | Block_node addr
  | Block_pad_event pad_event

record event_heap =
  script :: alloc_script
  next_addr :: addr
  blocks :: "addr \<rightharpoonup> block"
  pad_refs :: "addr \<Rightarrow> int"

section \<open>Owned blocks\<close>

definition new_block :: "block \<Rightarrow> event_heap \<Rightarrow> addr option \<times> event_heap" where
  "new_block b h =
     (case alloc (script h) of
        (None, m) \<Rightarrow>
          (Some (next_addr h),
           h\<lparr>script := m, next_addr := Suc (next_addr h), blocks := (blocks h)(next_addr h \<mapsto> b)\<rparr>)
      | (Some _, m) \<Rightarrow> (None, h\<lparr>script := m\<rparr>))"

definition c_free :: "addr option \<Rightarrow> event_heap \<Rightarrow> event_heap" where
  "c_free p h = (case p of None \<Rightarrow> h | Some a \<Rightarrow> h\<lparr>blocks := (blocks h)(a := None)\<rparr>)"

text \<open>\<open>strdup\<close> of a string that may be NULL.\<close>

definition dup_string :: "string option \<Rightarrow> event_heap \<Rightarrow> addr option \<times> event_heap" where
  "dup_string s h = (case s of None \<Rightarrow> (None, h) | Some t \<Rightarrow> new_block (Block_string t) h)"

text \<open>\<open>zst_caps_copy\<close> of capabilities that may be NULL; the copy is one owned block.\<close>

definition dup_caps :: "zst_caps option \<Rightarrow> event_heap \<Rightarrow> addr option \<times> event_heap" where
  "dup_caps c h =
     (case c of None \<Rightarrow> (None, h)
      | Some ss \<Rightarrow>
          (case zst_caps_copy (Some ss) (script h) of
             (None, m) \<Rightarrow> (None, h\<lparr>script := m\<rparr>)
           | (Some ss', m) \<Rightarrow>
               (Some (next_addr h),
                h\<lparr>script := m, next_addr := Suc (next_addr h),
                  blocks := (blocks h)(next_addr h \<mapsto> Block_caps ss')\<rparr>)))"

definition zst_pad_ref :: "addr option \<Rightarrow> event_heap \<Rightarrow> addr option \<times> event_heap" where
  "zst_pad_ref p h =
     (case p of None \<Rightarrow> (None, h)
      | Some a \<Rightarrow> (Some a, h\<lparr>pad_refs := (pad_refs h)(a := pad_refs h a + 1)\<rparr>))"

definition zst_pad_unref :: "addr option \<Rightarrow> event_heap \<Rightarrow> event_heap" where
  "zst_pad_unref p h =
     (case p of None \<Rightarrow> h | Some a \<Rightarrow> h\<lparr>pad_refs := (pad_refs h)(a := pad_refs h a - 1)\<rparr>)"

section \<open>Event constructors\<close>

text \<open>
  All constructors allocate a zeroed event, give up when that fails, and fill it.  \<open>with_event\<close> is that
  frame: the argument computes the payload, allocating what the event owns.
\<close>

definition with_event ::
    "event_type \<Rightarrow> addr option \<Rightarrow> (event_heap \<Rightarrow> event_as \<times> event_heap) \<Rightarrow> event_heap \<Rightarrow> addr option \<times> event_heap" where
  "with_event ty src fill h =
     (case new_block (Block_event \<lparr>ev_type = ty, ev_src = src, ev_as = As_none\<rparr>) h of
        (None, h1) \<Rightarrow> (None, h1)
      | (Some a, h1) \<Rightarrow>
          (case fill h1 of (p, h2) \<Rightarrow>
             (Some a, h2\<lparr>blocks := (blocks h2)(a \<mapsto> Block_event \<lparr>ev_type = ty, ev_src = src, ev_as = p\<rparr>)\<rparr>)))"

abbreviation plain_event :: "event_type \<Rightarrow> event_as \<Rightarrow> addr option \<Rightarrow> event_heap \<Rightarrow> addr option \<times> event_heap" where
  "plain_event ty p src \<equiv> with_event ty src (\<lambda>h. (p, h))"

definition zst_event_new_redundancy_failover :: "addr option \<Rightarrow> event_heap \<Rightarrow> addr option \<times> event_heap" where
  "zst_event_new_redundancy_failover = plain_event ZST_EVENT_REDUNDANCY_FAILOVER As_none"

definition zst_event_new_redundancy_recovery :: "addr option \<Rightarrow> event_heap \<Rightarrow> addr option \<times> event_heap" where
  "zst_event_new_redundancy_recovery = plain_event ZST_EVENT_REDUNDANCY_RECOVERY As_none"

definition zst_event_new_eos :: "addr option \<Rightarrow> event_heap \<Rightarrow> addr option \<times> event_heap" where
  "zst_event_new_eos = plain_event ZST_EVENT_EOS As_none"

definition zst_event_new_no_more_pads :: "addr option \<Rightarrow> event_heap \<Rightarrow> addr option \<times> event_heap" where
  "zst_event_new_no_more_pads = plain_event ZST_EVENT_NO_MORE_PADS As_none"

definition zst_event_new_clock_sync :: "addr option \<Rightarrow> event_heap \<Rightarrow> addr option \<times> event_heap" where
  "zst_event_new_clock_sync = plain_event ZST_EVENT_CLOCK_SYNC As_none"

definition zst_event_new_signal_lost :: "addr option \<Rightarrow> event_heap \<Rightarrow> addr option \<times> event_heap" where
  "zst_event_new_signal_lost = plain_event ZST_EVENT_SIGNAL_LOST As_none"

definition zst_event_new_signal_present :: "addr option \<Rightarrow> event_heap \<Rightarrow> addr option \<times> event_heap" where
  "zst_event_new_signal_present = plain_event ZST_EVENT_SIGNAL_PRESENT As_none"

definition zst_event_new_dante_connected :: "addr option \<Rightarrow> event_heap \<Rightarrow> addr option \<times> event_heap" where
  "zst_event_new_dante_connected = plain_event ZST_EVENT_DANTE_CONNECTED As_none"

definition zst_event_new_dante_disconnected :: "addr option \<Rightarrow> event_heap \<Rightarrow> addr option \<times> event_heap" where
  "zst_event_new_dante_disconnected = plain_event ZST_EVENT_DANTE_DISCONNECTED As_none"

definition zst_event_new_dante_configuration_requested :: "addr option \<Rightarrow> event_heap \<Rightarrow> addr option \<times> event_heap" where
  "zst_event_new_dante_configuration_requested = plain_event ZST_EVENT_DANTE_CONFIGURATION_REQUESTED As_none"

definition zst_event_new_stream_removed :: "addr option \<Rightarrow> u64 \<Rightarrow> event_heap \<Rightarrow> addr option \<times> event_heap" where
  "zst_event_new_stream_removed src sid = plain_event ZST_EVENT_STREAM_REMOVED (As_stream_removed sid) src"

definition zst_event_new_state_changed ::
    "addr option \<Rightarrow> zst_state \<Rightarrow> zst_state \<Rightarrow> event_heap \<Rightarrow> addr option \<times> event_heap" where
  "zst_event_new_state_changed src old new = plain_event ZST_EVENT_STATE_CHANGED (As_state_changed old new) src"

definition zero_segment :: zst_segment where
  "zero_segment = \<lparr>seg_start = 0, seg_stop = 0, seg_rate = fp_zero, seg_base = 0, seg_position = 0\<rparr>"

definition zst_event_new_segment :: "addr option \<Rightarrow> zst_segment option \<Rightarrow> event_heap \<Rightarrow> addr option \<times> event_heap" where
  "zst_event_new_segment src seg =
     plain_event ZST_EVENT_SEGMENT (As_segment (case seg of None \<Rightarrow> zero_segment | Some s \<Rightarrow> s)) src"

definition zst_event_new_key_press ::
    "addr option \<Rightarrow> u32 \<Rightarrow> u32 \<Rightarrow> string option \<Rightarrow> event_heap \<Rightarrow> addr option \<times> event_heap" where
  "zst_event_new_key_press src key_sym key_code str =
     plain_event ZST_EVENT_KEY_PRESS (As_key_press key_sym key_code (case str of None \<Rightarrow> [] | Some s \<Rightarrow> c_strncpy 15 s)) src"

definition zst_event_new_mouse_button ::
    "addr option \<Rightarrow> u32 \<Rightarrow> int \<Rightarrow> int \<Rightarrow> int \<Rightarrow> event_heap \<Rightarrow> addr option \<times> event_heap" where
  "zst_event_new_mouse_button src button pressed x y =
     plain_event ZST_EVENT_MOUSE_BUTTON (As_mouse_button button pressed x y) src"

definition zst_event_new_mouse_motion :: "addr option \<Rightarrow> int \<Rightarrow> int \<Rightarrow> event_heap \<Rightarrow> addr option \<times> event_heap" where
  "zst_event_new_mouse_motion src x y = plain_event ZST_EVENT_MOUSE_MOTION (As_mouse_motion x y) src"

definition zst_event_new_webrtc_pli :: "addr option \<Rightarrow> int \<Rightarrow> event_heap \<Rightarrow> addr option \<times> event_heap" where
  "zst_event_new_webrtc_pli src track = plain_event ZST_EVENT_WEBRTC_PLI (As_webrtc_pli track) src"

definition zst_event_new_webrtc_remb :: "addr option \<Rightarrow> int \<Rightarrow> u32 \<Rightarrow> event_heap \<Rightarrow> addr option \<times> event_heap" where
  "zst_event_new_webrtc_remb src track bitrate = plain_event ZST_EVENT_WEBRTC_REMB (As_webrtc_remb track bitrate) src"

definition zst_event_new_dante_rx_channel_status ::
    "addr option \<Rightarrow> u32 \<Rightarrow> tx_channel_status \<Rightarrow> event_heap \<Rightarrow> addr option \<times> event_heap" where
  "zst_event_new_dante_rx_channel_status src channel status =
     plain_event ZST_EVENT_DANTE_RX_CHANNEL_STATUS (As_dante_rx_channel_status channel status) src"

definition zst_event_new_error ::
    "addr option \<Rightarrow> zst_result \<Rightarrow> string option \<Rightarrow> event_heap \<Rightarrow> addr option \<times> event_heap" where
  "zst_event_new_error src result message =
     with_event ZST_EVENT_ERROR src (\<lambda>h. case dup_string message h of (p, h1) \<Rightarrow> (As_error result p, h1))"

definition zst_event_new_warning ::
    "addr option \<Rightarrow> zst_result \<Rightarrow> string option \<Rightarrow> event_heap \<Rightarrow> addr option \<times> event_heap" where
  "zst_event_new_warning src result message =
     with_event ZST_EVENT_WARNING src (\<lambda>h. case dup_string message h of (p, h1) \<Rightarrow> (As_warning result p, h1))"

definition zst_event_new_webrtc_local_description ::
    "addr option \<Rightarrow> string option \<Rightarrow> string option \<Rightarrow> event_heap \<Rightarrow> addr option \<times> event_heap" where
  "zst_event_new_webrtc_local_description src ty sdp =
     with_event ZST_EVENT_WEBRTC_LOCAL_DESCRIPTION src (\<lambda>h.
       case dup_string ty h of (p, h1) \<Rightarrow> case dup_string sdp h1 of (q, h2) \<Rightarrow>
         (As_webrtc_local_description p q, h2))"

definition zst_event_new_webrtc_ice_candidate ::
    "addr option \<Rightarrow> string option \<Rightarrow> int \<Rightarrow> string option \<Rightarrow> event_heap \<Rightarrow> addr option \<times> event_heap" where
  "zst_event_new_webrtc_ice_candidate src mid mline candidate =
     with_event ZST_EVENT_WEBRTC_ICE_CANDIDATE src (\<lambda>h.
       case dup_string mid h of (p, h1) \<Rightarrow> case dup_string candidate h1 of (q, h2) \<Rightarrow>
         (As_webrtc_ice_candidate p mline q, h2))"

definition zero_stream :: "(addr, addr) stream_info" where
  "zero_stream = \<lparr>si_struct_size = 0, si_id = 0, si_program_id = 0, si_index = 0, si_kind = ZST_MEDIA_UNKNOWN,
     si_status = ZST_STREAM_STATUS_PRESENT, si_name = None, si_language = None, si_caps = None,
     si_first_pts = 0, si_last_seen_pts = 0, si_flags = 0\<rparr>"

definition copy_stream_info ::
    "(string, zst_caps) stream_info option \<Rightarrow> event_heap \<Rightarrow> (addr, addr) stream_info \<times> event_heap" where
  "copy_stream_info src h =
     (case src of None \<Rightarrow> (zero_stream, h)
      | Some s \<Rightarrow>
          (case dup_string (si_name s) h of (n, h1) \<Rightarrow>
           case dup_string (si_language s) h1 of (l, h2) \<Rightarrow>
           case dup_caps (si_caps s) h2 of (c, h3) \<Rightarrow>
             (\<lparr>si_struct_size = si_struct_size s, si_id = si_id s, si_program_id = si_program_id s,
               si_index = si_index s, si_kind = si_kind s, si_status = si_status s, si_name = n,
               si_language = l, si_caps = c, si_first_pts = si_first_pts s,
               si_last_seen_pts = si_last_seen_pts s, si_flags = si_flags s\<rparr>, h3)))"

definition zst_event_new_stream_added ::
    "addr option \<Rightarrow> (string, zst_caps) stream_info option \<Rightarrow> event_heap \<Rightarrow> addr option \<times> event_heap" where
  "zst_event_new_stream_added src stream =
     with_event ZST_EVENT_STREAM_ADDED src (\<lambda>h. case copy_stream_info stream h of (s, h1) \<Rightarrow> (As_stream_status s, h1))"

definition zst_event_new_stream_changed ::
    "addr option \<Rightarrow> (string, zst_caps) stream_info option \<Rightarrow> event_heap \<Rightarrow> addr option \<times> event_heap" where
  "zst_event_new_stream_changed src stream =
     with_event ZST_EVENT_STREAM_CHANGED src (\<lambda>h. case copy_stream_info stream h of (s, h1) \<Rightarrow> (As_stream_status s, h1))"

definition zst_event_new_stream_status ::
    "addr option \<Rightarrow> (string, zst_caps) stream_info option \<Rightarrow> event_heap \<Rightarrow> addr option \<times> event_heap" where
  "zst_event_new_stream_status src stream =
     with_event ZST_EVENT_STREAM_STATUS src (\<lambda>h. case copy_stream_info stream h of (s, h1) \<Rightarrow> (As_stream_status s, h1))"

definition zst_event_new_pad_added ::
    "addr option \<Rightarrow> addr option \<Rightarrow> (string, zst_caps) stream_info option \<Rightarrow> event_heap \<Rightarrow> addr option \<times> event_heap" where
  "zst_event_new_pad_added src pad stream =
     with_event ZST_EVENT_PAD_ADDED src (\<lambda>h.
       case zst_pad_ref pad h of (p, h1) \<Rightarrow> case copy_stream_info stream h1 of (s, h2) \<Rightarrow> (As_pad_added p s, h2))"

definition zst_event_new_pad_removed ::
    "addr option \<Rightarrow> addr option \<Rightarrow> u64 \<Rightarrow> event_heap \<Rightarrow> addr option \<times> event_heap" where
  "zst_event_new_pad_removed src pad sid =
     with_event ZST_EVENT_PAD_REMOVED src (\<lambda>h. case zst_pad_ref pad h of (p, h1) \<Rightarrow> (As_pad_removed p sid, h1))"

definition zst_event_new_caps_changed ::
    "addr option \<Rightarrow> addr option \<Rightarrow> zst_caps option \<Rightarrow> zst_caps option \<Rightarrow> event_heap \<Rightarrow> addr option \<times> event_heap" where
  "zst_event_new_caps_changed src pad old new =
     with_event ZST_EVENT_CAPS_CHANGED src (\<lambda>h.
       case zst_pad_ref pad h of (p, h1) \<Rightarrow> case dup_caps old h1 of (c1, h2) \<Rightarrow> case dup_caps new h2 of (c2, h3) \<Rightarrow>
         (As_caps_changed p c1 c2, h3))"

text \<open>
  \<open>copy_dante_flow\<close> undoes its copies when one of them failed; the caller then frees the event.
\<close>

definition copy_dante_flow :: "string dante_flow \<Rightarrow> event_heap \<Rightarrow> addr dante_flow option \<times> event_heap" where
  "copy_dante_flow src h =
     (case dup_string (receiver_address src) h of (r, h1) \<Rightarrow>
      case dup_string (multicast_address src) h1 of (m, h2) \<Rightarrow>
      case dup_string (transmitter_address src) h2 of (t, h3) \<Rightarrow>
        if receiver_address src \<noteq> None \<and> r = None \<or> multicast_address src \<noteq> None \<and> m = None \<or>
           transmitter_address src \<noteq> None \<and> t = None
        then (None, c_free t (c_free m (c_free r h3)))
        else (Some \<lparr>df_direction = df_direction src, df_transport = df_transport src,
                    df_flow_index = df_flow_index src, df_channel_index = df_channel_index src,
                    df_port = df_port src, receiver_address = r, multicast_address = m,
                    transmitter_address = t, video_subtype = video_subtype src\<rparr>, h3))"

definition new_dante_flow_event ::
    "addr option \<Rightarrow> event_type \<Rightarrow> string dante_flow option \<Rightarrow> event_heap \<Rightarrow> addr option \<times> event_heap" where
  "new_dante_flow_event src ty flow h =
     (case flow of None \<Rightarrow> (None, h)
      | Some f \<Rightarrow>
          (case plain_event ty As_none src h of
             (None, h1) \<Rightarrow> (None, h1)
           | (Some a, h1) \<Rightarrow>
               (case copy_dante_flow f h1 of
                  (None, h2) \<Rightarrow> (None, c_free (Some a) h2)
                | (Some g, h2) \<Rightarrow>
                    (Some a, h2\<lparr>blocks := (blocks h2)(a \<mapsto>
                       Block_event \<lparr>ev_type = ty, ev_src = src, ev_as = As_dante_flow g\<rparr>)\<rparr>))))"

definition zst_event_new_dante_flow_created ::
    "addr option \<Rightarrow> string dante_flow option \<Rightarrow> event_heap \<Rightarrow> addr option \<times> event_heap" where
  "zst_event_new_dante_flow_created src flow = new_dante_flow_event src ZST_EVENT_DANTE_FLOW_CREATED flow"

definition zst_event_new_dante_flow_deleted ::
    "addr option \<Rightarrow> string dante_flow option \<Rightarrow> event_heap \<Rightarrow> addr option \<times> event_heap" where
  "zst_event_new_dante_flow_deleted src flow = new_dante_flow_event src ZST_EVENT_DANTE_FLOW_DELETED flow"

section \<open>Destroying an event\<close>

definition free_stream :: "(addr, addr) stream_info \<Rightarrow> event_heap \<Rightarrow> event_heap" where
  "free_stream s h = c_free (si_caps s) (c_free (si_language s) (c_free (si_name s) h))"

text \<open>
  The release of what an event owns, by its type and the union member the code reads for that type.
  A type whose payload is of another member cannot arise from the constructors; it owns nothing in
  the model.
\<close>

definition release_payload :: "event_type \<Rightarrow> event_as \<Rightarrow> event_heap \<Rightarrow> event_heap" where
  "release_payload ty p h =
     (case (ty, p) of
        (ZST_EVENT_ERROR, As_error _ m) \<Rightarrow> c_free m h
      | (ZST_EVENT_WARNING, As_warning _ m) \<Rightarrow> c_free m h
      | (ZST_EVENT_PAD_ADDED, As_pad_added pad s) \<Rightarrow> free_stream s (zst_pad_unref pad h)
      | (ZST_EVENT_PAD_REMOVED, As_pad_removed pad _) \<Rightarrow> zst_pad_unref pad h
      | (ZST_EVENT_CAPS_CHANGED, As_caps_changed pad c1 c2) \<Rightarrow> c_free c2 (c_free c1 (zst_pad_unref pad h))
      | (ZST_EVENT_STREAM_STATUS, As_stream_status s) \<Rightarrow> free_stream s h
      | (ZST_EVENT_STREAM_ADDED, As_stream_status s) \<Rightarrow> free_stream s h
      | (ZST_EVENT_STREAM_CHANGED, As_stream_status s) \<Rightarrow> free_stream s h
      | (ZST_EVENT_WEBRTC_LOCAL_DESCRIPTION, As_webrtc_local_description t s) \<Rightarrow> c_free s (c_free t h)
      | (ZST_EVENT_WEBRTC_ICE_CANDIDATE, As_webrtc_ice_candidate t _ s) \<Rightarrow> c_free s (c_free t h)
      | (ZST_EVENT_DANTE_FLOW_CREATED, As_dante_flow f) \<Rightarrow>
          c_free (transmitter_address f) (c_free (multicast_address f) (c_free (receiver_address f) h))
      | (ZST_EVENT_DANTE_FLOW_DELETED, As_dante_flow f) \<Rightarrow>
          c_free (transmitter_address f) (c_free (multicast_address f) (c_free (receiver_address f) h))
      | _ \<Rightarrow> h)"

definition zst_event_destroy :: "addr option \<Rightarrow> event_heap \<Rightarrow> event_heap" where
  "zst_event_destroy p h =
     (case p of None \<Rightarrow> h
      | Some a \<Rightarrow> (case blocks h a of
            Some (Block_event e) \<Rightarrow> c_free (Some a) (release_payload (ev_type e) (ev_as e) h)
          | _ \<Rightarrow> h))"

section \<open>The bus\<close>

text \<open>
  The queue is the list of the nodes' and their events' addresses; \<open>count\<close> is its length (modulo
  2^32).  The handler is named by a number.
\<close>

record zst_bus =
  queue :: "(addr \<times> addr) list"
  bus_count :: u32
  flushing :: bool
  has_thread :: bool
  handler :: "nat option"

type_synonym bus_state = "zst_bus \<times> event_heap"
type_synonym bus_wakeup = "(bus_state \<Rightarrow> bus_state) \<times> bool"

datatype 'a outcome = Returned zst_result 'a | Waiting

definition zst_bus_create :: "alloc_script \<Rightarrow> zst_bus option \<times> alloc_script" where
  "zst_bus_create m =
     (case alloc m of
        (None, m1) \<Rightarrow> (Some \<lparr>queue = [], bus_count = 0, flushing = False, has_thread = False, handler = None\<rparr>, m1)
      | (Some _, m1) \<Rightarrow> (None, m1))"

definition zst_bus_post :: "addr option \<Rightarrow> bus_state \<Rightarrow> zst_result \<times> bus_state" where
  "zst_bus_post event = (\<lambda>(bus, h).
     (case event of None \<Rightarrow> (ZST_ERROR, (bus, h))
      | Some e \<Rightarrow>
          if flushing bus then (ZST_ERROR, (bus, h))
          else (case new_block (Block_node e) h of
                  (None, h1) \<Rightarrow> (ZST_ERROR, (bus, h1))
                | (Some n, h1) \<Rightarrow>
                    (ZST_OK, (bus\<lparr>queue := queue bus @ [(n, e)], bus_count := bus_count bus + 1\<rparr>, h1)))))"

text \<open>
  \<open>zst_bus_pop\<close>: the outcome with the event, the state, and the wake-ups it has not used.  \<open>Waiting\<close> is
  a call still waiting when the given wake-ups are used up.
\<close>

fun zst_bus_pop :: "u32 \<Rightarrow> bus_wakeup list \<Rightarrow> bus_state \<Rightarrow> addr option outcome \<times> bus_state \<times> bus_wakeup list" where
  "zst_bus_pop timeout_ms env (bus, h) =
     (if queue bus = [] \<and> \<not> flushing bus then
        (if timeout_ms = 0 then (Returned ZST_TIMEOUT None, (bus, h), env)
         else (case env of [] \<Rightarrow> (Waiting, (bus, h), [])
               | (step, timed_out) # env' \<Rightarrow>
                   if timeout_ms \<noteq> - 1 \<and> timed_out then (Returned ZST_TIMEOUT None, step (bus, h), env')
                   else zst_bus_pop timeout_ms env' (step (bus, h))))
      else if flushing bus then (Returned ZST_ERROR None, (bus, h), env)
      else (case queue bus of
              (n, e) # q \<Rightarrow>
                (Returned ZST_OK (Some e), (bus\<lparr>queue := q, bus_count := bus_count bus - 1\<rparr>, c_free (Some n) h), env)
            | [] \<Rightarrow> (Returned ZST_OK None, (bus, h), env)))"








text \<open>
  \<open>zst_bus_set_handler\<close>: a running dispatch thread is told to stop and joined with the mutex
  released; \<open>joined\<close> is what the other threads do until it has ended.  \<open>thread_ok\<close> is whether the new
  thread could be started.
\<close>

definition zst_bus_set_handler ::
    "nat option \<Rightarrow> (bus_state \<Rightarrow> bus_state) \<Rightarrow> bool \<Rightarrow> bus_state \<Rightarrow> zst_result \<times> bus_state" where
  "zst_bus_set_handler new joined thread_ok s =
     (let (bus, h) = (if has_thread (fst s)
                      then (case joined ((fst s)\<lparr>flushing := True\<rparr>, snd s) of
                              (b, h1) \<Rightarrow> (b\<lparr>has_thread := False, flushing := False\<rparr>, h1))
                      else s);
          bus = bus\<lparr>handler := new\<rparr>
      in if new \<noteq> None then
           (if \<not> thread_ok then (ZST_ERROR, (bus, h)) else (ZST_OK, (bus\<lparr>has_thread := True\<rparr>, h)))
         else (ZST_OK, (bus, h)))"

definition free_nodes :: "(addr \<times> addr) list \<Rightarrow> event_heap \<Rightarrow> event_heap" where
  "free_nodes q h = fold (\<lambda>(n, e) h. c_free (Some n) (zst_event_destroy (Some e) h)) q h"

definition zst_bus_destroy :: "(bus_state \<Rightarrow> bus_state) \<Rightarrow> bus_state \<Rightarrow> event_heap" where
  "zst_bus_destroy joined s =
     (let s1 = ((fst s)\<lparr>flushing := True\<rparr>, snd s);
          (bus, h) = (if has_thread (fst s) then joined s1 else s1)
      in free_nodes (queue bus) h)"

section \<open>Pad events\<close>

definition new_pad_event ::
    "pad_event_type \<Rightarrow> (event_heap \<Rightarrow> pad_event_as \<times> event_heap) \<Rightarrow> event_heap \<Rightarrow> addr option \<times> event_heap" where
  "new_pad_event ty fill h =
     (case new_block (Block_pad_event \<lparr>pe_type = ty, pe_refcount = 1, pe_as = Pad_as_none\<rparr>) h of
        (None, h1) \<Rightarrow> (None, h1)
      | (Some a, h1) \<Rightarrow>
          (case fill h1 of (p, h2) \<Rightarrow>
             (Some a, h2\<lparr>blocks := (blocks h2)(a \<mapsto> Block_pad_event \<lparr>pe_type = ty, pe_refcount = 1, pe_as = p\<rparr>)\<rparr>)))"

definition zst_pad_event_new_stream_start :: "u64 \<Rightarrow> event_heap \<Rightarrow> addr option \<times> event_heap" where
  "zst_pad_event_new_stream_start sid = new_pad_event ZST_PAD_EVENT_STREAM_START (\<lambda>h. (Pad_as_stream_start sid, h))"

definition zst_pad_event_new_caps :: "zst_caps option \<Rightarrow> event_heap \<Rightarrow> addr option \<times> event_heap" where
  "zst_pad_event_new_caps caps =
     new_pad_event ZST_PAD_EVENT_CAPS (\<lambda>h. case dup_caps caps h of (c, h1) \<Rightarrow> (Pad_as_caps c, h1))"

definition zst_pad_event_new_segment :: "zst_segment option \<Rightarrow> event_heap \<Rightarrow> addr option \<times> event_heap" where
  "zst_pad_event_new_segment seg = new_pad_event ZST_PAD_EVENT_SEGMENT
     (\<lambda>h. (Pad_as_segment (case seg of None \<Rightarrow> zero_segment | Some s \<Rightarrow> s), h))"

definition zst_pad_event_new_eos :: "event_heap \<Rightarrow> addr option \<times> event_heap" where
  "zst_pad_event_new_eos = new_pad_event ZST_PAD_EVENT_EOS (\<lambda>h. (Pad_as_none, h))"

definition zst_pad_event_new_flush_start :: "event_heap \<Rightarrow> addr option \<times> event_heap" where
  "zst_pad_event_new_flush_start = new_pad_event ZST_PAD_EVENT_FLUSH_START (\<lambda>h. (Pad_as_none, h))"

definition zst_pad_event_new_flush_stop :: "event_heap \<Rightarrow> addr option \<times> event_heap" where
  "zst_pad_event_new_flush_stop = new_pad_event ZST_PAD_EVENT_FLUSH_STOP (\<lambda>h. (Pad_as_none, h))"

definition zst_pad_event_new_discont :: "event_heap \<Rightarrow> addr option \<times> event_heap" where
  "zst_pad_event_new_discont = new_pad_event ZST_PAD_EVENT_DISCONT (\<lambda>h. (Pad_as_none, h))"

definition zst_pad_event_new_force_keyframe :: "event_heap \<Rightarrow> addr option \<times> event_heap" where
  "zst_pad_event_new_force_keyframe = new_pad_event ZST_PAD_EVENT_FORCE_KEYFRAME (\<lambda>h. (Pad_as_none, h))"

definition zst_pad_event_ref :: "addr option \<Rightarrow> event_heap \<Rightarrow> addr option \<times> event_heap" where
  "zst_pad_event_ref p h =
     (case p of None \<Rightarrow> (None, h)
      | Some a \<Rightarrow> (case blocks h a of
            Some (Block_pad_event e) \<Rightarrow>
              (Some a, h\<lparr>blocks := (blocks h)(a \<mapsto> Block_pad_event (e\<lparr>pe_refcount := pe_refcount e + 1\<rparr>))\<rparr>)
          | _ \<Rightarrow> (Some a, h)))"

text \<open>The capabilities a pad event carries, NULL when it is of another type.\<close>

definition pe_owned :: "pad_event \<Rightarrow> addr option" where
  "pe_owned e = (case (pe_type e, pe_as e) of (ZST_PAD_EVENT_CAPS, Pad_as_caps c) \<Rightarrow> c | _ \<Rightarrow> None)"

definition zst_pad_event_unref :: "addr option \<Rightarrow> event_heap \<Rightarrow> event_heap" where
  "zst_pad_event_unref p h =
     (case p of None \<Rightarrow> h
      | Some a \<Rightarrow> (case blocks h a of
            Some (Block_pad_event e) \<Rightarrow>
              if pe_refcount e = 1 then c_free (Some a) (c_free (pe_owned e) h)
              else h\<lparr>blocks := (blocks h)(a \<mapsto> Block_pad_event (e\<lparr>pe_refcount := pe_refcount e - 1\<rparr>))\<rparr>
          | _ \<Rightarrow> h))"

section \<open>Ownership\<close>

text \<open>\<open>heap_fresh\<close>: the addresses from the next one on are unused.\<close>

definition heap_fresh :: "event_heap \<Rightarrow> bool" where
  "heap_fresh h \<longleftrightarrow> (\<forall>a \<ge> next_addr h. blocks h a = None)"

text \<open>
  \<open>grown h p h'\<close>: from \<open>h\<close> to \<open>h'\<close> only the block \<open>p\<close> (when there is one) was added, at a fresh address.
\<close>

definition grown :: "event_heap \<Rightarrow> addr option \<Rightarrow> event_heap \<Rightarrow> bool" where
  "grown h p h' \<longleftrightarrow> heap_fresh h' \<and> next_addr h \<le> next_addr h' \<and> pad_refs h' = pad_refs h \<and>
     (case p of None \<Rightarrow> blocks h' = blocks h
      | Some a \<Rightarrow> next_addr h \<le> a \<and> a < next_addr h' \<and> (\<exists>b. blocks h' = (blocks h)(a \<mapsto> b)))"

lemma new_block_grown: "heap_fresh h \<Longrightarrow> new_block b h = (p, h') \<Longrightarrow> grown h p h'"
  by (auto simp: new_block_def grown_def heap_fresh_def split: prod.splits option.splits)

lemma dup_string_grown: "heap_fresh h \<Longrightarrow> dup_string s h = (p, h') \<Longrightarrow> grown h p h'"
  by (cases s) (auto simp: dup_string_def grown_def new_block_grown [unfolded grown_def])

lemma dup_caps_grown: "heap_fresh h \<Longrightarrow> dup_caps c h = (p, h') \<Longrightarrow> grown h p h'"
  by (cases c) (auto simp: dup_caps_def grown_def heap_fresh_def split: prod.splits option.splits)

lemma c_free_simps [simp]:
  "blocks (c_free p h) = (case p of None \<Rightarrow> blocks h | Some a \<Rightarrow> (blocks h)(a := None))"
  "pad_refs (c_free p h) = pad_refs h" "next_addr (c_free p h) = next_addr h"
  by (auto simp: c_free_def split: option.splits)

lemma zst_pad_unref_simps [simp]:
  "blocks (zst_pad_unref p h) = blocks h" "next_addr (zst_pad_unref p h) = next_addr h"
  by (auto simp: zst_pad_unref_def split: option.splits)

text \<open>
  The filling of an event is undone by the release of its payload: for every heap in which the blocks
  of the filled one are unchanged except at the event's own address.
\<close>

definition fill_ok :: "event_type \<Rightarrow> (event_heap \<Rightarrow> event_as \<times> event_heap) \<Rightarrow> bool" where
  "fill_ok ty fill \<longleftrightarrow> (\<forall>h p h' a blk. heap_fresh h \<longrightarrow> fill h = (p, h') \<longrightarrow> a < next_addr h \<longrightarrow>
     (blocks (release_payload ty p (h'\<lparr>blocks := (blocks h')(a \<mapsto> blk)\<rparr>)))(a := None) = (blocks h)(a := None) \<and>
     pad_refs (release_payload ty p (h'\<lparr>blocks := (blocks h')(a \<mapsto> blk)\<rparr>)) = pad_refs h)"

lemma with_event_destroy:
  assumes "fill_ok ty fill" and "heap_fresh h" and "with_event ty src fill h = (r, h')"
  shows "blocks (zst_event_destroy r h') = blocks h \<and> pad_refs (zst_event_destroy r h') = pad_refs h"
proof -
  obtain r1 h1 where n: "new_block (Block_event \<lparr>ev_type = ty, ev_src = src, ev_as = As_none\<rparr>) h = (r1, h1)" by fastforce
  note g = new_block_grown [OF assms(2) n]
  show ?thesis
  proof (cases r1)
    case None
    then have "r = None" "h' = h1" using assms(3) n by (auto simp: with_event_def)
    then show ?thesis using g None by (simp add: zst_event_destroy_def grown_def)
  next
    case (Some a)
    obtain p h2 where f: "fill h1 = (p, h2)" by fastforce
    have r: "r = Some a" and h': "h' = h2\<lparr>blocks := (blocks h2)(a \<mapsto> Block_event \<lparr>ev_type = ty, ev_src = src, ev_as = p\<rparr>)\<rparr>"
      using assms(3) n f Some by (auto simp: with_event_def)
    have a: "a < next_addr h1" "blocks h a = None" "(blocks h1)(a := None) = blocks h" "heap_fresh h1" "pad_refs h1 = pad_refs h"
      using g Some assms(2) by (auto simp: grown_def heap_fresh_def)
    have "(blocks (release_payload ty p h'))(a := None) = (blocks h1)(a := None) \<and> pad_refs (release_payload ty p h') = pad_refs h1"
      using assms(1) a(1,4) f unfolding fill_ok_def h' by blast
    moreover have "zst_event_destroy r h' = c_free (Some a) (release_payload ty p h')"
      using r h' by (simp add: zst_event_destroy_def)
    ultimately show ?thesis using a by simp
  qed
qed

text \<open>A pointer that is not the event's own commutes with writing the event.\<close>

definition erase :: "addr option \<Rightarrow> (addr \<rightharpoonup> block) \<Rightarrow> (addr \<rightharpoonup> block)" where
  "erase p m = (case p of None \<Rightarrow> m | Some x \<Rightarrow> m(x := None))"

lemma erase_simps [simp]: "erase None m = m" "erase (Some x) m = m(x := None)"
  by (simp_all add: erase_def)

lemma blocks_c_free: "blocks (c_free p h) = erase p (blocks h)"
  by (cases p) auto

lemma grown_erase: "grown h p h' \<Longrightarrow> heap_fresh h \<Longrightarrow> erase p (blocks h') = blocks h"
  by (auto simp: grown_def heap_fresh_def split: option.splits)

lemma erase_upd: "p \<noteq> Some a \<Longrightarrow> erase p (m(a \<mapsto> b)) = (erase p m)(a \<mapsto> b)"
  by (cases p) (auto simp: fun_upd_twist)

lemma erase_comm: "erase p (erase q m) = erase q (erase p m)"
  by (cases p; cases q) (auto simp: fun_eq_iff)

lemma grown_other: "grown h p h' \<Longrightarrow> a < next_addr h \<Longrightarrow> p \<noteq> Some a"
  by (auto simp: grown_def)

lemma grownD: "grown h p h' \<Longrightarrow> heap_fresh h' \<and> next_addr h \<le> next_addr h' \<and> pad_refs h' = pad_refs h"
  by (simp add: grown_def)

lemma fill_ok_plain: "(\<And>h. release_payload ty p h = h) \<Longrightarrow> fill_ok ty (\<lambda>h. (p, h))"
  by (auto simp: fill_ok_def fun_eq_iff)

text \<open>One, two and three owned blocks.\<close>

lemma fill_ok1:
  assumes "\<And>h p h'. heap_fresh h \<Longrightarrow> d h = (p, h') \<Longrightarrow> grown h p h'"
    and "\<And>p h. release_payload ty (mk p) h = c_free p h"
  shows "fill_ok ty (\<lambda>h. case d h of (p, h1) \<Rightarrow> (mk p, h1))"
  unfolding fill_ok_def
proof (intro allI impI)
  fix h q h' a blk
  assume f: "heap_fresh h" "(case d h of (p, h1) \<Rightarrow> (mk p, h1)) = (q, h')" "a < next_addr h"
  obtain p h1 where d: "d h = (p, h1)" by fastforce
  note g = assms(1) [OF f(1) d]
  show "(blocks (release_payload ty q (h'\<lparr>blocks := (blocks h')(a \<mapsto> blk)\<rparr>)))(a := None) = (blocks h)(a := None) \<and>
     pad_refs (release_payload ty q (h'\<lparr>blocks := (blocks h')(a \<mapsto> blk)\<rparr>)) = pad_refs h"
    using f(2) d grown_erase [OF g f(1)] grown_other [OF g f(3)] grownD [OF g]
    by (auto simp: assms(2) blocks_c_free erase_upd simp del: c_free_simps(1))
qed

lemma fill_ok2:
  assumes "\<And>h p h'. heap_fresh h \<Longrightarrow> d h = (p, h') \<Longrightarrow> grown h p h'"
    and "\<And>h p h'. heap_fresh h \<Longrightarrow> e h = (p, h') \<Longrightarrow> grown h p h'"
    and "\<And>p q h. release_payload ty (mk p q) h = c_free q (c_free p h)"
  shows "fill_ok ty (\<lambda>h. case d h of (p, h1) \<Rightarrow> case e h1 of (q, h2) \<Rightarrow> (mk p q, h2))"
  unfolding fill_ok_def
proof (intro allI impI)
  fix h x h' a blk
  assume f: "heap_fresh h" "(case d h of (p, h1) \<Rightarrow> case e h1 of (q, h2) \<Rightarrow> (mk p q, h2)) = (x, h')" "a < next_addr h"
  obtain p h1 where d: "d h = (p, h1)" by fastforce
  obtain q h2 where e: "e h1 = (q, h2)" by fastforce
  note g = assms(1) [OF f(1) d]
  have f1: "heap_fresh h1" "a < next_addr h1" using grownD [OF g] f(3) by auto
  note g2 = assms(2) [OF f1(1) e]
  have "erase q (erase p (blocks h2)) = blocks h"
    using grown_erase [OF g f(1)] grown_erase [OF g2 f1(1)] by (simp add: erase_comm [of q p])
  then show "(blocks (release_payload ty x (h'\<lparr>blocks := (blocks h')(a \<mapsto> blk)\<rparr>)))(a := None) = (blocks h)(a := None) \<and>
     pad_refs (release_payload ty x (h'\<lparr>blocks := (blocks h')(a \<mapsto> blk)\<rparr>)) = pad_refs h"
    using f(2) d e grown_other [OF g f(3)] grown_other [OF g2 f1(2)] grownD [OF g] grownD [OF g2]
    by (auto simp: assms(3) blocks_c_free erase_upd simp del: c_free_simps(1))
qed

lemma copy_stream_info_free:
  assumes "heap_fresh h" and "copy_stream_info s h = (t, h')"
  shows "heap_fresh h'" and "next_addr h \<le> next_addr h'" and "pad_refs h' = pad_refs h"
    and "a < next_addr h \<Longrightarrow> blocks (free_stream t (h'\<lparr>blocks := (blocks h')(a \<mapsto> blk)\<rparr>)) = (blocks h)(a \<mapsto> blk)"
proof -
  have "heap_fresh h' \<and> next_addr h \<le> next_addr h' \<and> pad_refs h' = pad_refs h \<and>
    (a < next_addr h \<longrightarrow> blocks (free_stream t (h'\<lparr>blocks := (blocks h')(a \<mapsto> blk)\<rparr>)) = (blocks h)(a \<mapsto> blk))"
  proof (cases s)
    case None
    then show ?thesis using assms by (auto simp: copy_stream_info_def free_stream_def zero_stream_def)
  next
    case (Some i)
    obtain n h1 where n: "dup_string (si_name i) h = (n, h1)" by fastforce
    obtain l h2 where l: "dup_string (si_language i) h1 = (l, h2)" by fastforce
    obtain c h3 where c: "dup_caps (si_caps i) h2 = (c, h3)" by fastforce
    note g1 = dup_string_grown [OF assms(1) n] note f1 = grownD [OF g1]
    note g2 = dup_string_grown [OF f1 [THEN conjunct1] l] note f2 = grownD [OF g2]
    note g3 = dup_caps_grown [OF f2 [THEN conjunct1] c] note f3 = grownD [OF g3]
    have t: "h' = h3" "si_name t = n" "si_language t = l" "si_caps t = c"
      using assms(2) Some n l c by (auto simp: copy_stream_info_def)
    have "erase c (erase l (erase n (blocks h3))) = blocks h"
    proof -
      have "erase c (blocks h3) = blocks h2" "erase l (blocks h2) = blocks h1" "erase n (blocks h1) = blocks h"
        using grown_erase [OF g1 assms(1)] grown_erase [OF g2] grown_erase [OF g3] f1 f2 by auto
      then show ?thesis by (metis erase_comm)
    qed
    then show ?thesis
      using grown_other [OF g1] grown_other [OF g2, of a] grown_other [OF g3, of a] f1 f2 f3
      by (auto simp: t free_stream_def blocks_c_free erase_upd simp del: c_free_simps(1))
  qed
  then show "heap_fresh h'" "next_addr h \<le> next_addr h'" "pad_refs h' = pad_refs h"
    "a < next_addr h \<Longrightarrow> blocks (free_stream t (h'\<lparr>blocks := (blocks h')(a \<mapsto> blk)\<rparr>)) = (blocks h)(a \<mapsto> blk)" by auto
qed

lemma free_stream_pads [simp]: "pad_refs (free_stream t h) = pad_refs h"
  by (simp add: free_stream_def)

lemma fill_ok_stream:
  assumes "\<And>t h. release_payload ty (As_stream_status t) h = free_stream t h"
  shows "fill_ok ty (\<lambda>h. case copy_stream_info s h of (t, h1) \<Rightarrow> (As_stream_status t, h1))"
  using copy_stream_info_free by (auto simp: fill_ok_def assms split: prod.splits)

lemma pad_ref_unref:
  assumes "zst_pad_ref p h = (q, h')"
  shows "q = p" and "blocks h' = blocks h" and "next_addr h' = next_addr h" and "heap_fresh h' = heap_fresh h"
    and "pad_refs h2 = pad_refs h' \<Longrightarrow> pad_refs (zst_pad_unref q h2) = pad_refs h"
  using assms by (auto simp: zst_pad_ref_def zst_pad_unref_def heap_fresh_def split: option.splits)

lemma fill_ok_pad_removed:
  "fill_ok ZST_EVENT_PAD_REMOVED (\<lambda>h. case zst_pad_ref pad h of (p, h1) \<Rightarrow> (As_pad_removed p sid, h1))"
  unfolding fill_ok_def
proof (intro allI impI)
  fix h x h' a blk
  assume f: "heap_fresh h" "(case zst_pad_ref pad h of (p, h1) \<Rightarrow> (As_pad_removed p sid, h1)) = (x, h')" "a < next_addr h"
  obtain p h1 where p: "zst_pad_ref pad h = (p, h1)" by fastforce
  show "(blocks (release_payload ZST_EVENT_PAD_REMOVED x (h'\<lparr>blocks := (blocks h')(a \<mapsto> blk)\<rparr>)))(a := None) = (blocks h)(a := None) \<and>
     pad_refs (release_payload ZST_EVENT_PAD_REMOVED x (h'\<lparr>blocks := (blocks h')(a \<mapsto> blk)\<rparr>)) = pad_refs h"
    using f(2) p pad_ref_unref [OF p] by (auto simp: release_payload_def)
qed

lemma fill_ok_pad_added:
  "fill_ok ZST_EVENT_PAD_ADDED (\<lambda>h. case zst_pad_ref pad h of (p, h1) \<Rightarrow>
     case copy_stream_info s h1 of (t, h2) \<Rightarrow> (As_pad_added p t, h2))"
  unfolding fill_ok_def
proof (intro allI impI)
  fix h x h' a blk
  assume f: "heap_fresh h" "a < next_addr h" "(case zst_pad_ref pad h of (p, h1) \<Rightarrow>
     case copy_stream_info s h1 of (t, h2) \<Rightarrow> (As_pad_added p t, h2)) = (x, h')"
  obtain p h1 where p: "zst_pad_ref pad h = (p, h1)" by fastforce
  obtain t h2 where t: "copy_stream_info s h1 = (t, h2)" by fastforce
  note pr = pad_ref_unref [OF p]
  have f1: "heap_fresh h1" "a < next_addr h1" using f pr by auto
  note c = copy_stream_info_free [OF f1(1) t]
  let ?h = "h2\<lparr>blocks := (blocks h2)(a \<mapsto> blk)\<rparr>"
  have x: "release_payload ZST_EVENT_PAD_ADDED x (h'\<lparr>blocks := (blocks h')(a \<mapsto> blk)\<rparr>) = free_stream t (zst_pad_unref p ?h)"
    using f(3) p t by (auto simp: release_payload_def)
  have "blocks (free_stream t (zst_pad_unref p ?h)) = blocks (free_stream t ?h)"
    by (simp add: free_stream_def blocks_c_free del: c_free_simps(1))
  moreover have "pad_refs (free_stream t (zst_pad_unref p ?h)) = pad_refs h"
    using pr(5) [of ?h] c(3) by simp
  ultimately show "(blocks (release_payload ZST_EVENT_PAD_ADDED x (h'\<lparr>blocks := (blocks h')(a \<mapsto> blk)\<rparr>)))(a := None) = (blocks h)(a := None) \<and>
     pad_refs (release_payload ZST_EVENT_PAD_ADDED x (h'\<lparr>blocks := (blocks h')(a \<mapsto> blk)\<rparr>)) = pad_refs h"
    using c(4) [OF f1(2)] pr(2) by (simp add: x)
qed

lemma fill_ok_caps_changed:
  "fill_ok ZST_EVENT_CAPS_CHANGED (\<lambda>h. case zst_pad_ref pad h of (p, h1) \<Rightarrow> case dup_caps old h1 of (c1, h2) \<Rightarrow>
     case dup_caps new h2 of (c2, h3) \<Rightarrow> (As_caps_changed p c1 c2, h3))"
  unfolding fill_ok_def
proof (intro allI impI)
  fix h x h' a blk
  assume f: "heap_fresh h" "a < next_addr h" "(case zst_pad_ref pad h of (p, h1) \<Rightarrow> case dup_caps old h1 of (c1, h2) \<Rightarrow>
     case dup_caps new h2 of (c2, h3) \<Rightarrow> (As_caps_changed p c1 c2, h3)) = (x, h')"
  obtain p h1 where p: "zst_pad_ref pad h = (p, h1)" by fastforce
  obtain c1 h2 where c1: "dup_caps old h1 = (c1, h2)" by fastforce
  obtain c2 h3 where c2: "dup_caps new h2 = (c2, h3)" by fastforce
  note pr = pad_ref_unref [OF p]
  have f1: "heap_fresh h1" "a < next_addr h1" using f pr by auto
  note g1 = dup_caps_grown [OF f1(1) c1]
  have f2: "heap_fresh h2" "a < next_addr h2" using grownD [OF g1] f1 by auto
  note g2 = dup_caps_grown [OF f2(1) c2]
  let ?h = "h3\<lparr>blocks := (blocks h3)(a \<mapsto> blk)\<rparr>"
  have x: "release_payload ZST_EVENT_CAPS_CHANGED x (h'\<lparr>blocks := (blocks h')(a \<mapsto> blk)\<rparr>) =
      c_free c2 (c_free c1 (zst_pad_unref p ?h))"
    using f(3) p c1 c2 by (auto simp: release_payload_def)
  have "erase c2 (erase c1 (blocks h3)) = blocks h"
    using grown_erase [OF g1 f1(1)] grown_erase [OF g2 f2(1)] pr(2) by (metis erase_comm)
  then have "blocks (c_free c2 (c_free c1 (zst_pad_unref p ?h))) = (blocks h)(a \<mapsto> blk)"
    using grown_other [OF g1 f1(2)] grown_other [OF g2 f2(2)]
    by (simp add: blocks_c_free erase_upd del: c_free_simps(1))
  moreover have "pad_refs (c_free c2 (c_free c1 (zst_pad_unref p ?h))) = pad_refs h"
    using pr(5) [of ?h] grownD [OF g1] grownD [OF g2] by simp
  ultimately show "(blocks (release_payload ZST_EVENT_CAPS_CHANGED x (h'\<lparr>blocks := (blocks h')(a \<mapsto> blk)\<rparr>)))(a := None) = (blocks h)(a := None) \<and>
     pad_refs (release_payload ZST_EVENT_CAPS_CHANGED x (h'\<lparr>blocks := (blocks h')(a \<mapsto> blk)\<rparr>)) = pad_refs h"
    by (simp add: x)
qed

lemma copy_dante_flow_free:
  assumes "heap_fresh h" and "copy_dante_flow f h = (r, h')" and "a < next_addr h"
  shows "pad_refs h' = pad_refs h" and "r = None \<Longrightarrow> blocks h' = blocks h"
    and "r = Some g \<Longrightarrow> blocks (c_free (transmitter_address g) (c_free (multicast_address g) (c_free (receiver_address g)
      (h'\<lparr>blocks := (blocks h')(a \<mapsto> blk)\<rparr>)))) = (blocks h)(a \<mapsto> blk)"
proof -
  obtain p h1 where p: "dup_string (receiver_address f) h = (p, h1)" by fastforce
  obtain q h2 where q: "dup_string (multicast_address f) h1 = (q, h2)" by fastforce
  obtain t h3 where t: "dup_string (transmitter_address f) h2 = (t, h3)" by fastforce
  note g1 = dup_string_grown [OF assms(1) p] note f1 = grownD [OF g1]
  note g2 = dup_string_grown [OF f1 [THEN conjunct1] q] note f2 = grownD [OF g2]
  note g3 = dup_string_grown [OF f2 [THEN conjunct1] t] note f3 = grownD [OF g3]
  have e: "erase t (erase q (erase p (blocks h3))) = blocks h"
  proof -
    have "erase t (blocks h3) = blocks h2" "erase q (blocks h2) = blocks h1" "erase p (blocks h1) = blocks h"
      using grown_erase [OF g1 assms(1)] grown_erase [OF g2] grown_erase [OF g3] f1 f2 by auto
    then show ?thesis by (metis erase_comm)
  qed
  have o: "p \<noteq> Some a" "q \<noteq> Some a" "t \<noteq> Some a"
    using grown_other [OF g1 assms(3)] grown_other [OF g2, of a] grown_other [OF g3, of a] assms(3) f1 f2 by auto
  show "pad_refs h' = pad_refs h" "r = None \<Longrightarrow> blocks h' = blocks h"
    using assms(2) p q t f1 f2 f3 e
    by (auto simp: copy_dante_flow_def blocks_c_free simp del: c_free_simps(1) split: if_splits)
  show "blocks (c_free (transmitter_address g) (c_free (multicast_address g) (c_free (receiver_address g)
      (h'\<lparr>blocks := (blocks h')(a \<mapsto> blk)\<rparr>)))) = (blocks h)(a \<mapsto> blk)" if "r = Some g"
  proof -
    have "h' = h3" "receiver_address g = p" "multicast_address g = q" "transmitter_address g = t"
      using assms(2) p q t that by (auto simp: copy_dante_flow_def split: if_splits)
    with e o show ?thesis by (simp add: blocks_c_free erase_upd del: c_free_simps(1))
  qed
qed

lemma dante_flow_event_destroy:
  assumes "ty \<in> {ZST_EVENT_DANTE_FLOW_CREATED, ZST_EVENT_DANTE_FLOW_DELETED}" and "heap_fresh h"
    and "new_dante_flow_event src ty flow h = (r, h')"
  shows "blocks (zst_event_destroy r h') = blocks h \<and> pad_refs (zst_event_destroy r h') = pad_refs h"
proof (cases flow)
  case None
  then show ?thesis using assms(3) by (auto simp: new_dante_flow_event_def zst_event_destroy_def)
next
  case (Some f)
  let ?e0 = "Block_event \<lparr>ev_type = ty, ev_src = src, ev_as = As_none\<rparr>"
  obtain r1 h1 where n: "plain_event ty As_none src h = (r1, h1)" by fastforce
  show ?thesis
  proof (cases r1)
    case None
    then have "r = None" "h' = h1" "new_block ?e0 h = (None, h1)"
      using assms(3) n Some by (auto simp: new_dante_flow_event_def with_event_def split: prod.splits option.splits)
    then show ?thesis using new_block_grown [OF assms(2), of ?e0 None h1] by (simp add: zst_event_destroy_def grown_def)
  next
    case r1: (Some a)
    have a: "a < next_addr h1" "blocks h a = None" "blocks h1 = (blocks h)(a \<mapsto> ?e0)" "heap_fresh h1" "pad_refs h1 = pad_refs h"
      using n r1 assms(2)
      by (auto simp: with_event_def new_block_def heap_fresh_def fun_upd_idem split: prod.splits option.splits)
    obtain r2 h2 where c: "copy_dante_flow f h1 = (r2, h2)" by fastforce
    note cf = copy_dante_flow_free [OF a(4) c a(1)]
    show ?thesis
    proof (cases r2)
      case None
      then have "r = None" "h' = c_free (Some a) h2" using assms(3) n Some r1 c by (auto simp: new_dante_flow_event_def)
      then show ?thesis using cf(1,2) None a by (simp add: zst_event_destroy_def fun_upd_idem)
    next
      case r2: (Some g)
      let ?h = "h2\<lparr>blocks := (blocks h2)(a \<mapsto> Block_event \<lparr>ev_type = ty, ev_src = src, ev_as = As_dante_flow g\<rparr>)\<rparr>"
      have r: "r = Some a" "h' = ?h" using assms(3) n Some r1 c r2 by (auto simp: new_dante_flow_event_def)
      have rel: "release_payload ty (As_dante_flow g) ?h =
          c_free (transmitter_address g) (c_free (multicast_address g) (c_free (receiver_address g) ?h))"
        using assms(1) by (auto simp: release_payload_def)
      have "blocks (release_payload ty (As_dante_flow g) ?h) =
          (blocks h1)(a \<mapsto> Block_event \<lparr>ev_type = ty, ev_src = src, ev_as = As_dante_flow g\<rparr>)"
        unfolding rel by (rule cf(3) [OF r2])
      moreover have "zst_event_destroy r h' = c_free (Some a) (release_payload ty (As_dante_flow g) ?h)"
        by (simp add: zst_event_destroy_def r)
      moreover have "pad_refs (release_payload ty (As_dante_flow g) ?h) = pad_refs h"
        unfolding rel using cf(1) a(5) by simp
      ultimately show ?thesis using a by (simp add: fun_upd_idem)
    qed
  qed
qed

section \<open>Properties\<close>

lemmas plain_events = zst_event_new_redundancy_failover_def zst_event_new_redundancy_recovery_def zst_event_new_eos_def
  zst_event_new_no_more_pads_def zst_event_new_clock_sync_def zst_event_new_signal_lost_def
  zst_event_new_signal_present_def zst_event_new_dante_connected_def zst_event_new_dante_disconnected_def
  zst_event_new_dante_configuration_requested_def zst_event_new_stream_removed_def zst_event_new_state_changed_def
  zst_event_new_segment_def zst_event_new_key_press_def zst_event_new_mouse_button_def zst_event_new_mouse_motion_def
  zst_event_new_webrtc_pli_def zst_event_new_webrtc_remb_def zst_event_new_dante_rx_channel_status_def

text \<open>All calls that make an event.\<close>

inductive event_maker :: "(event_heap \<Rightarrow> addr option \<times> event_heap) \<Rightarrow> bool" where
  "event_maker (zst_event_new_redundancy_failover src)"
| "event_maker (zst_event_new_redundancy_recovery src)"
| "event_maker (zst_event_new_eos src)"
| "event_maker (zst_event_new_no_more_pads src)"
| "event_maker (zst_event_new_clock_sync src)"
| "event_maker (zst_event_new_signal_lost src)"
| "event_maker (zst_event_new_signal_present src)"
| "event_maker (zst_event_new_dante_connected src)"
| "event_maker (zst_event_new_dante_disconnected src)"
| "event_maker (zst_event_new_dante_configuration_requested src)"
| "event_maker (zst_event_new_stream_removed src sid)"
| "event_maker (zst_event_new_state_changed src old new)"
| "event_maker (zst_event_new_segment src seg)"
| "event_maker (zst_event_new_key_press src key_sym key_code str)"
| "event_maker (zst_event_new_mouse_button src button pressed x y)"
| "event_maker (zst_event_new_mouse_motion src x y)"
| "event_maker (zst_event_new_webrtc_pli src track)"
| "event_maker (zst_event_new_webrtc_remb src track bitrate)"
| "event_maker (zst_event_new_dante_rx_channel_status src channel status)"
| "event_maker (zst_event_new_error src result message)"
| "event_maker (zst_event_new_warning src result message)"
| "event_maker (zst_event_new_webrtc_local_description src kind sdp)"
| "event_maker (zst_event_new_webrtc_ice_candidate src mid mline candidate)"
| "event_maker (zst_event_new_stream_added src stream)"
| "event_maker (zst_event_new_stream_changed src stream)"
| "event_maker (zst_event_new_stream_status src stream)"
| "event_maker (zst_event_new_pad_added src pad stream)"
| "event_maker (zst_event_new_pad_removed src pad sid)"
| "event_maker (zst_event_new_caps_changed src pad old_caps new_caps)"
| "event_maker (zst_event_new_dante_flow_created src flow)"
| "event_maker (zst_event_new_dante_flow_deleted src flow)"

lemma fill_ok_plain_simp: "(\<And>h. release_payload ty p h = h) \<Longrightarrow> fill_ok ty (Pair p)"
  using fill_ok_plain by simp

lemma fill_ok_strings:
  "fill_ok ZST_EVENT_ERROR (\<lambda>h. case dup_string m h of (p, h1) \<Rightarrow> (As_error r p, h1))"
  "fill_ok ZST_EVENT_WARNING (\<lambda>h. case dup_string m h of (p, h1) \<Rightarrow> (As_warning r p, h1))"
  "fill_ok ZST_EVENT_WEBRTC_LOCAL_DESCRIPTION (\<lambda>h. case dup_string m h of (p, h1) \<Rightarrow>
     case dup_string n h1 of (q, h2) \<Rightarrow> (As_webrtc_local_description p q, h2))"
  "fill_ok ZST_EVENT_WEBRTC_ICE_CANDIDATE (\<lambda>h. case dup_string m h of (p, h1) \<Rightarrow>
     case dup_string n h1 of (q, h2) \<Rightarrow> (As_webrtc_ice_candidate p i q, h2))"
  by (rule fill_ok1 fill_ok2; simp add: dup_string_grown release_payload_def)+

lemma fill_ok_streams:
  "fill_ok ZST_EVENT_STREAM_ADDED (\<lambda>h. case copy_stream_info s h of (t, h1) \<Rightarrow> (As_stream_status t, h1))"
  "fill_ok ZST_EVENT_STREAM_CHANGED (\<lambda>h. case copy_stream_info s h of (t, h1) \<Rightarrow> (As_stream_status t, h1))"
  "fill_ok ZST_EVENT_STREAM_STATUS (\<lambda>h. case copy_stream_info s h of (t, h1) \<Rightarrow> (As_stream_status t, h1))"
  by (rule fill_ok_stream; simp add: release_payload_def)+

lemmas owning_events = zst_event_new_error_def zst_event_new_warning_def zst_event_new_webrtc_local_description_def
  zst_event_new_webrtc_ice_candidate_def zst_event_new_stream_added_def zst_event_new_stream_changed_def
  zst_event_new_stream_status_def zst_event_new_pad_added_def zst_event_new_pad_removed_def
  zst_event_new_caps_changed_def zst_event_new_dante_flow_created_def zst_event_new_dante_flow_deleted_def

text \<open>Every maker fills an event in a way its destruction undoes, or is a flow event.\<close>

lemma event_maker_shape:
  assumes "event_maker new"
  shows "(\<exists>ty src fill. new = with_event ty src fill \<and> fill_ok ty fill) \<or>
    (\<exists>ty src flow. new = new_dante_flow_event src ty flow \<and>
       ty \<in> {ZST_EVENT_DANTE_FLOW_CREATED, ZST_EVENT_DANTE_FLOW_DELETED})"
proof -
  have plain: "\<exists>ty' src' fill. plain_event ty p src = with_event ty' src' fill \<and> fill_ok ty' fill"
    if "\<And>h. release_payload ty p h = h" for ty p src
    using fill_ok_plain [OF that] by blast
  show ?thesis
    using assms
    by (induction rule: event_maker.induct; unfold plain_events owning_events)
      ((rule disjI1, rule plain, simp add: release_payload_def) |
       (rule disjI1, rule exI, rule exI, rule exI, rule conjI, rule refl,
        rule fill_ok_strings fill_ok_streams fill_ok_pad_removed fill_ok_pad_added fill_ok_caps_changed) |
       (rule disjI2, blast))+
qed

text \<open>C13: whatever call makes an event, and whichever of its allocations fail, destroying what it returned
  leaves the heap and the pads' reference counts as they were: nothing leaks, nothing is freed that
  was not allocated for the event, and the copies are disjoint from everything the caller has.\<close>

theorem event_new_destroy_no_leak:
  assumes "event_maker new" and "heap_fresh h" and "new h = (r, h')"
  shows "blocks (zst_event_destroy r h') = blocks h \<and> pad_refs (zst_event_destroy r h') = pad_refs h"
  using event_maker_shape [OF assms(1)] with_event_destroy [OF _ assms(2)] dante_flow_event_destroy [OF _ assms(2)] assms(3)
  by blast

definition demo_heap :: event_heap where
  "demo_heap = \<lparr>script = [None, None, Some 0], next_addr = 0, blocks = Map.empty, pad_refs = (\<lambda>_. 1)\<rparr>"

theorem event_new_destroy_no_leak_witness:
  "case zst_event_new_webrtc_local_description None (Some ''offer'') (Some ''v=0'') demo_heap of
     (r, h') \<Rightarrow> r = Some 0 \<and> blocks (zst_event_destroy r h') = Map.empty"
proof -
  obtain r h' where n: "zst_event_new_webrtc_local_description None (Some ''offer'') (Some ''v=0'') demo_heap = (r, h')"
    by fastforce
  have "heap_fresh demo_heap" by (simp add: heap_fresh_def demo_heap_def)
  from event_new_destroy_no_leak [OF event_maker.intros(22) this n] have "blocks (zst_event_destroy r h') = Map.empty"
    by (simp add: demo_heap_def)
  moreover have "r = Some 0"
    using n by (auto simp: zst_event_new_webrtc_local_description_def with_event_def new_block_def demo_heap_def
        split: prod.splits)
  ultimately show ?thesis using n by simp
qed

section \<open>The bus as a FIFO channel\<close>

definition bus_put :: "addr \<Rightarrow> bus_state \<Rightarrow> bool \<times> bus_state" where
  "bus_put e s = (case zst_bus_post (Some e) s of (r, s') \<Rightarrow> (r = ZST_OK, s'))"

definition bus_get :: "bus_state \<Rightarrow> addr option \<times> bus_state" where
  "bus_get s = (case zst_bus_pop 0 [] s of (Returned ZST_OK r, s', _) \<Rightarrow> (r, s') | (_, s', _) \<Rightarrow> (None, s'))"

definition bus_ok :: "bus_state \<Rightarrow> bool" where
  "bus_ok s \<longleftrightarrow> \<not> flushing (fst s) \<and> bus_count (fst s) = of_nat (length (queue (fst s)))"

abbreviation bus_events :: "bus_state \<Rightarrow> addr list" where
  "bus_events s \<equiv> map snd (queue (fst s))"

lemma bus_put_cases:
  assumes "bus_ok s" and "bus_put e s = (ok, s')"
  shows "bus_ok s' \<and> bus_events s' = (if ok then bus_events s @ [e] else bus_events s)"
  using assms by (cases s) (auto simp: bus_put_def zst_bus_post_def bus_ok_def split: prod.splits option.splits)

lemma bus_get_cases:
  assumes "bus_ok s" and "bus_get s = (r, s')"
  shows "bus_ok s' \<and> (case r of None \<Rightarrow> bus_events s = [] \<and> bus_events s' = [] | Some e \<Rightarrow> bus_events s = e # bus_events s')"
  using assms by (cases s) (auto simp: bus_get_def bus_ok_def split: list.splits)

interpretation zst_bus: fifo bus_ok bus_events bus_put bus_get
proof unfold_locales
  fix s s' :: bus_state and x
  show "bus_ok s' \<and> bus_events s' = bus_events s @ [x]" if "bus_ok s" "bus_put x s = (True, s')"
    using bus_put_cases [OF that] by simp
  show "bus_ok s' \<and> bus_events s' = bus_events s" if "bus_ok s" "bus_put x s = (False, s')"
    using bus_put_cases [OF that] by simp
  show "bus_ok s' \<and> bus_events s = x # bus_events s'" if "bus_ok s" "bus_get s = (Some x, s')"
    using bus_get_cases [OF that] by simp
  show "bus_ok s' \<and> bus_events s = [] \<and> bus_events s' = []" if "bus_ok s" "bus_get s = (None, s')"
    using bus_get_cases [OF that] by simp
qed

text \<open>C14: on a new bus, whatever the order of posts and polls, the events that were accepted come out in
  the order they were posted, each exactly once, and the counter is the number of queued events.\<close>

theorem bus_run_fifo:
  assumes "zst_bus_create m = (Some bus, m1)"
    and "fifo_run bus_put bus_get ops (bus, h) = (acc, out, s')"
  shows "acc = out @ bus_events s' \<and> bus_count (fst s') = of_nat (length (bus_events s'))"
proof -
  have b: "bus_ok (bus, h)" "bus_events (bus, h) = []"
    using assms(1) by (auto simp: zst_bus_create_def bus_ok_def split: prod.splits option.splits)
  from zst_bus.fifo_run_order [OF b(1) assms(2)] b(2) show ?thesis by (simp add: bus_ok_def)
qed

theorem bus_run_fifo_witness:
  "\<exists>bus. fst (zst_bus_create []) = Some bus \<and>
     (case fifo_run bus_put bus_get [Put 5, Put 6, Get, Put 7] (bus, demo_heap) of (acc, out, s') \<Rightarrow> acc = out @ bus_events s')"
proof -
  obtain bus where b: "zst_bus_create [] = (Some bus, [])" by (simp add: zst_bus_create_def)
  obtain acc out s' where "fifo_run bus_put bus_get [Put 5, Put 6, Get, Put 7] (bus, demo_heap) = (acc, out, s')"
    by (metis prod_cases3)
  with bus_run_fifo [OF b this] b show ?thesis by auto
qed

















text \<open>Also, replacing the handler always leaves a bus that accepts events again: it is not flushing when
  the call returns, it has a dispatch thread exactly when a handler was given and its thread could be
  started, and the queued events are those the others left.\<close>

lemma bus_set_handler_resumes:
  assumes "\<not> flushing (fst s)" and "zst_bus_set_handler new joined thread_ok s = (r, s')"
  shows "\<not> flushing (fst s') \<and> handler (fst s') = new \<and>
    has_thread (fst s') = (new \<noteq> None \<and> thread_ok) \<and> (r = ZST_OK \<longleftrightarrow> new = None \<or> thread_ok) \<and>
    queue (fst s') = queue (fst (if has_thread (fst s) then joined ((fst s)\<lparr>flushing := True\<rparr>, snd s) else s))"
  using assms by (auto simp: zst_bus_set_handler_def Let_def split: prod.splits if_splits)

text \<open>All calls that make a pad event.\<close>

inductive pad_event_maker :: "(event_heap \<Rightarrow> addr option \<times> event_heap) \<Rightarrow> bool" where
  "pad_event_maker (zst_pad_event_new_stream_start sid)"
| "pad_event_maker (zst_pad_event_new_caps caps)"
| "pad_event_maker (zst_pad_event_new_segment seg)"
| "pad_event_maker zst_pad_event_new_eos"
| "pad_event_maker zst_pad_event_new_flush_start"
| "pad_event_maker zst_pad_event_new_flush_stop"
| "pad_event_maker zst_pad_event_new_discont"
| "pad_event_maker zst_pad_event_new_force_keyframe"

text \<open>\<open>holds_event h0 a n h\<close>: \<open>h\<close> is \<open>h0\<close> plus the event at \<open>a\<close> with \<open>n\<close> references and what it owns.\<close>

definition holds_event :: "event_heap \<Rightarrow> addr \<Rightarrow> int \<Rightarrow> event_heap \<Rightarrow> bool" where
  "holds_event h0 a n h \<longleftrightarrow> blocks h0 a = None \<and> pad_refs h = pad_refs h0 \<and>
     (\<exists>e. blocks h a = Some (Block_pad_event e) \<and> pe_refcount e = n \<and> pe_owned e \<noteq> Some a \<and>
        erase (pe_owned e) ((blocks h)(a := None)) = blocks h0)"

lemma pe_owned_simps [simp]:
  "(\<And>c. p \<noteq> Pad_as_caps c) \<Longrightarrow> pe_owned \<lparr>pe_type = ty, pe_refcount = n, pe_as = p\<rparr> = None"
  "pe_owned \<lparr>pe_type = ZST_PAD_EVENT_CAPS, pe_refcount = n, pe_as = Pad_as_caps c\<rparr> = c"
  "pe_owned (e\<lparr>pe_refcount := n\<rparr>) = pe_owned e"
  by (auto simp: pe_owned_def split: pad_event_type.splits pad_event_as.splits)

lemma new_pad_event_holds:
  assumes "heap_fresh h" and "pad_event_maker new" and "new h = (Some a, h')"
  shows "holds_event h a 1 h'"
proof -
  have plain: "holds_event h a 1 h'" if "new_pad_event ty (\<lambda>h. (p, h)) h = (Some a, h')" "\<And>c. p \<noteq> Pad_as_caps c" for ty p
    using that assms(1)
    by (auto simp: new_pad_event_def new_block_def holds_event_def heap_fresh_def fun_upd_idem
        split: prod.splits option.splits)
  have caps: "holds_event h a 1 h'" if n: "zst_pad_event_new_caps c h = (Some a, h')" for c
  proof -
    let ?b = "Block_pad_event \<lparr>pe_type = ZST_PAD_EVENT_CAPS, pe_refcount = 1, pe_as = Pad_as_none\<rparr>"
    obtain r1 h1 where n1: "new_block ?b h = (r1, h1)" by fastforce
    obtain p h2 where d: "dup_caps c h1 = (p, h2)" by fastforce
    have r1: "r1 = Some a" and h': "h' = h2\<lparr>blocks := (blocks h2)(a \<mapsto> Block_pad_event \<lparr>pe_type = ZST_PAD_EVENT_CAPS, pe_refcount = 1, pe_as = Pad_as_caps p\<rparr>)\<rparr>"
      using n n1 d by (auto simp: zst_pad_event_new_caps_def new_pad_event_def split: option.splits)
    note g1 = new_block_grown [OF assms(1) n1]
    have f1: "heap_fresh h1" "a < next_addr h1" "blocks h a = None" "(blocks h1)(a := None) = blocks h" "pad_refs h1 = pad_refs h"
      using g1 r1 assms(1) by (auto simp: grown_def heap_fresh_def)
    note g2 = dup_caps_grown [OF f1(1) d]
    have e: "erase p (blocks h2) = blocks h1" "p \<noteq> Some a" "pad_refs h2 = pad_refs h1"
      using grown_erase [OF g2 f1(1)] grown_other [OF g2 f1(2)] grownD [OF g2] by auto
    have "erase p ((blocks h2)(a := None)) = (erase p (blocks h2))(a := None)" by (cases p) (auto simp: fun_eq_iff)
    with e f1 h' show ?thesis by (simp add: holds_event_def)
  qed
  show ?thesis
    using assms(2,3) plain caps
    by cases (auto simp: zst_pad_event_new_stream_start_def zst_pad_event_new_segment_def zst_pad_event_new_eos_def
      zst_pad_event_new_flush_start_def zst_pad_event_new_flush_stop_def zst_pad_event_new_discont_def
      zst_pad_event_new_force_keyframe_def)
qed

lemma pad_event_ref_holds:
  "holds_event h0 a n h \<Longrightarrow> holds_event h0 a (n + 1) (snd (zst_pad_event_ref (Some a) h))"
  by (auto simp: holds_event_def zst_pad_event_ref_def)

lemma pad_event_unref_holds:
  "holds_event h0 a n h \<Longrightarrow> n \<noteq> 1 \<Longrightarrow> holds_event h0 a (n - 1) (zst_pad_event_unref (Some a) h)"
  by (auto simp: holds_event_def zst_pad_event_unref_def)

lemma pad_event_unref_last:
  assumes "holds_event h0 a 1 h"
  shows "blocks (zst_pad_event_unref (Some a) h) = blocks h0 \<and> pad_refs (zst_pad_event_unref (Some a) h) = pad_refs h0"
proof -
  obtain e where e: "blocks h a = Some (Block_pad_event e)" "pe_refcount e = 1"
      "erase (pe_owned e) ((blocks h)(a := None)) = blocks h0" and p: "pad_refs h = pad_refs h0"
    using assms by (auto simp: holds_event_def)
  have "(erase (pe_owned e) (blocks h))(a := None) = erase (pe_owned e) ((blocks h)(a := None))"
    by (cases "pe_owned e") (auto simp: fun_eq_iff)
  with e p show ?thesis by (simp add: zst_pad_event_unref_def blocks_c_free del: c_free_simps(1))
qed

text \<open>A pad event lives exactly as long as it has references: after it is made and referenced any
  number of times it survives that many drops, and one more drop frees it and the capabilities it
  carries, leaving the heap as it was before.\<close>

lemma pad_event_refcount_balanced:
  assumes "pad_event_maker new" and "heap_fresh h" and "new h = (Some a, h1)"
  shows "let h2 = ((\<lambda>h. snd (zst_pad_event_ref (Some a) h)) ^^ n) h1;
             h3 = (zst_pad_event_unref (Some a) ^^ n) h2
         in blocks h3 a \<noteq> None \<and> blocks (zst_pad_event_unref (Some a) h3) = blocks h"
proof -
  have up: "holds_event h a (1 + int k) (((\<lambda>h. snd (zst_pad_event_ref (Some a) h)) ^^ k) h1)" for k
  proof (induction k)
    case 0
    then show ?case using new_pad_event_holds [OF assms(2,1,3)] by simp
  next
    case (Suc k)
    from pad_event_ref_holds [OF this] show ?case by (simp add: add.commute add.left_commute)
  qed
  have down: "holds_event h a m x \<Longrightarrow> m > int k \<Longrightarrow> holds_event h a (m - int k) ((zst_pad_event_unref (Some a) ^^ k) x)" for k m x
  proof (induction k)
    case (Suc k)
    then have "holds_event h a (m - int k) ((zst_pad_event_unref (Some a) ^^ k) x)" by simp
    from pad_event_unref_holds [OF this] Suc.prems(2) show ?case by (simp add: algebra_simps)
  qed simp
  have "holds_event h a 1 ((zst_pad_event_unref (Some a) ^^ n) (((\<lambda>h. snd (zst_pad_event_ref (Some a) h)) ^^ n) h1))"
    using down [OF up [of n], of n] by simp
  then show ?thesis using pad_event_unref_last by (auto simp: Let_def holds_event_def)
qed

end
