(* ===== verification/Zst_Text.thy ===== *)
theory Zst_Text
  imports Zst_Prelude
begin

text \<open>
  Numbers as text, as the \<open>set_property\<close> and \<open>get_property\<close> functions of the elements use them:
  \<open>atoi\<close> and the conversion \<open>%d\<close> of \<open>snprintf\<close> of the C library, for a 32-bit \<open>int\<close>.
\<close>

definition digit :: "nat \<Rightarrow> char" where
  "digit d = char_of (48 + d)"

definition is_digit :: "char \<Rightarrow> bool" where
  "is_digit c \<longleftrightarrow> 48 \<le> (of_char c :: nat) \<and> (of_char c :: nat) \<le> 57"

definition is_space :: "char \<Rightarrow> bool" where
  "is_space c \<longleftrightarrow> (of_char c :: nat) \<in> {9, 10, 11, 12, 13, 32}"

fun print_nat :: "nat \<Rightarrow> string" where
  "print_nat n = (if n < 10 then [digit n] else print_nat (n div 10) @ [digit (n mod 10)])"

declare print_nat.simps [simp del]

definition print_int :: "int \<Rightarrow> string" where
  "print_int i = (if i < 0 then CHR ''-'' # print_nat (nat (- i)) else print_nat (nat i))"

fun scan_digits :: "nat \<Rightarrow> string \<Rightarrow> nat" where
  "scan_digits acc [] = acc"
| "scan_digits acc (c # cs) = (if is_digit c then scan_digits (acc * 10 + (of_char c - 48)) cs else acc)"

text \<open>\<open>atoi\<close> is \<open>strtol\<close> (64 bits, saturating) truncated to \<open>int\<close>.\<close>

definition clamp64 :: "int \<Rightarrow> int" where
  "clamp64 i = max (- (2 ^ 63)) (min (2 ^ 63 - 1) i)"

definition c_int :: "int \<Rightarrow> int" where
  "c_int i = sint (of_int i :: 32 word)"

definition c_atoi :: "string \<Rightarrow> int" where
  "c_atoi s =
     (case dropWhile is_space s of
        [] \<Rightarrow> 0
      | c # cs \<Rightarrow>
          if c = CHR ''-'' then c_int (clamp64 (- int (scan_digits 0 cs)))
          else if c = CHR ''+'' then c_int (clamp64 (int (scan_digits 0 cs)))
          else c_int (clamp64 (int (scan_digits 0 (c # cs)))))"

text \<open>\<open>snprintf(value_out, max_len, ...)\<close> keeps at most \<open>max_len - 1\<close> characters.\<close>

definition c_snprintf :: "nat \<Rightarrow> string \<Rightarrow> string" where
  "c_snprintf max_len s = take (max_len - 1) s"

section \<open>Printing and reading back\<close>

lemma of_char_digit: "d < 10 \<Longrightarrow> (of_char (digit d) :: nat) = 48 + d"
  by (simp add: digit_def)

lemma is_digit_digit: "d < 10 \<Longrightarrow> is_digit (digit d)"
  by (simp add: is_digit_def of_char_digit)

lemma print_nat_all_digits: "c \<in> set (print_nat n) \<Longrightarrow> is_digit c"
proof (induction n rule: print_nat.induct)
  case (1 n)
  then show ?case by (subst (asm) print_nat.simps) (auto simp: is_digit_digit split: if_splits)
qed

lemma print_nat_nonempty [simp]: "print_nat n \<noteq> []"
  by (subst print_nat.simps) simp

lemma scan_digits_append:
  "list_all is_digit xs \<Longrightarrow> scan_digits acc (xs @ ys) = scan_digits (scan_digits acc xs) ys"
  by (induction xs arbitrary: acc) auto

lemma scan_print_nat: "scan_digits 0 (print_nat n) = n"
proof (induction n rule: print_nat.induct)
  case (1 n)
  show ?case
  proof (cases "n < 10")
    case True
    then show ?thesis by (subst print_nat.simps) (simp add: is_digit_digit of_char_digit)
  next
    case False
    have "list_all is_digit (print_nat (n div 10))" using print_nat_all_digits by (auto simp: list_all_iff)
    with 1 False show ?thesis
      by (subst print_nat.simps) (simp add: scan_digits_append is_digit_digit of_char_digit)
  qed
qed

lemma c_int_small [simp]: "- (2 ^ 31) \<le> i \<Longrightarrow> i < 2 ^ 31 \<Longrightarrow> c_int i = i"
  unfolding c_int_def by (rule sint_of_int_small) simp_all

lemma is_digit_no_space: "is_digit c \<Longrightarrow> \<not> is_space c" "is_digit c \<Longrightarrow> c \<noteq> CHR ''-''" "is_digit c \<Longrightarrow> c \<noteq> CHR ''+''"
  by (auto simp: is_digit_def is_space_def)

lemma atoi_print_int:
  assumes "- (2 ^ 31) \<le> i" and "i < 2 ^ 31"
  shows "c_atoi (print_int i) = i"
proof (cases "i < 0")
  case True
  have "\<not> is_space CHR ''-''" by (simp add: is_space_def)
  then have "dropWhile is_space (print_int i) = CHR ''-'' # print_nat (nat (- i))"
    using True by (simp add: print_int_def)
  moreover have "clamp64 (- int (scan_digits 0 (print_nat (nat (- i))))) = i"
    using True assms by (simp add: scan_print_nat clamp64_def)
  ultimately show ?thesis using assms by (simp add: c_atoi_def)
next
  case False
  obtain c cs where c: "print_nat (nat i) = c # cs" by (meson list.exhaust print_nat_nonempty)
  then have d: "is_digit c" using print_nat_all_digits [of c "nat i"] by simp
  note n = is_digit_no_space [OF d]
  have "clamp64 (int (scan_digits 0 (c # cs))) = i"
    using False assms by (simp only: c [symmetric] scan_print_nat) (simp add: clamp64_def)
  then show ?thesis
    using False assms n c by (simp add: c_atoi_def print_int_def del: scan_digits.simps)
qed

end
