(* ===== verification/Zst_Redundancy.thy ===== *)
theory Zst_Redundancy
  imports Zst_Text
begin

text \<open>
  Seamless protection switching of ST 2110 streams (SMPTE ST 2022-7): the muxer that sends every packet
  over two links (\<open>src/st2110_redundancy_mux.c\<close>), the demuxer that merges the two links and forwards
  each packet once (\<open>src/st2110_redundancy_demux.c\<close>), and the packet checks of
  \<open>src/zst_st2110_utils.c\<close>.

  A packet is the list of bytes of a buffer with its EOS flag.  The demuxer works under its mutex, so
  one call is one step; the clock reading is an argument.  What a call does outside the element, a
  push on the source pad or an event on the bus, is a list of actions.
\<close>

section \<open>Packets\<close>

record packet =
  bytes :: "u8 list"
  eos :: bool

text \<open>The first argument is whether the buffer and its data pointer are there.\<close>

definition zst_st2110_20_validate_packet :: "bool \<Rightarrow> packet \<Rightarrow> bool" where
  "zst_st2110_20_validate_packet present p =
     (if \<not> present \<or> length (bytes p) < 12 then False
      else if drop_bit 6 (bytes p ! 0) AND 3 \<noteq> 2 then False else True)"

definition zst_st2110_30_validate_packet :: "bool \<Rightarrow> packet \<Rightarrow> bool" where
  "zst_st2110_30_validate_packet present p =
     (if \<not> present \<or> length (bytes p) < 12 then False
      else if drop_bit 6 (bytes p ! 0) AND 3 \<noteq> 2 then False else True)"

section \<open>The demuxer\<close>

record redundancy_demux =
  failover_detection_ms :: int
  recovery_detection_ms :: int
  initialized :: bool
  highest_seq :: u16
  seen_history :: "bool list"
  current_link :: nat
  last_primary_time :: u64

datatype demux_pad = Sink_primary | Sink_backup

datatype demux_action = Forward packet | Post_recovery | Post_failover

definition packet_seq :: "packet \<Rightarrow> u16" where
  "packet_seq p = push_bit 8 (ucast (bytes p ! 2)) OR ucast (bytes p ! 3)"

text \<open>The loop that forgets the numbers between the highest one and a new highest one.\<close>

lemma u16_step_down: "i \<noteq> seq \<Longrightarrow> unat (seq - (i + 1) :: u16) < unat (seq - i)"
proof -
  assume "i \<noteq> seq"
  then have "seq - i \<noteq> 0" by simp
  then have "unat (seq - i - 1) < unat (seq - i)" using unat_minus_one [of "seq - i"] by (simp add: unat_gt_0)
  then show ?thesis by (simp add: algebra_simps)
qed

function clear_between :: "u16 \<Rightarrow> u16 \<Rightarrow> bool list \<Rightarrow> bool list" where
  "clear_between i seq hist = (if i = seq then hist else clear_between (i + 1) seq (hist[unat i mod 4096 := False]))"
  by pat_completeness auto
termination
  by (relation "measure (\<lambda>(i, seq, hist). unat (seq - i))") (auto simp: u16_step_down)

declare clear_between.simps [simp del]

text \<open>
  The duplicate filter: whether the packet is passed on, and the state.
\<close>

definition demux_filter :: "u16 \<Rightarrow> redundancy_demux \<Rightarrow> bool \<times> redundancy_demux" where
  "demux_filter seq s =
     (if \<not> initialized s then
        (True, s\<lparr>initialized := True, highest_seq := seq,
                 seen_history := (replicate 4096 False)[unat seq mod 4096 := True]\<rparr>)
      else
        (let diff = sint (seq - highest_seq s)
         in if diff > 0 then
              (let hist = (if diff \<ge> 4096 then replicate 4096 False
                           else clear_between (highest_seq s + 1) seq (seen_history s))
               in (True, s\<lparr>highest_seq := seq, seen_history := hist[unat seq mod 4096 := True]\<rparr>))
            else if diff > -2048 then
              (if seen_history s ! (unat seq mod 4096) then (False, s)
               else (True, s\<lparr>seen_history := (seen_history s)[unat seq mod 4096 := True]\<rparr>))
            else (False, s)))"

text \<open>The link supervision that follows for a packet that passed, with the events it posts.\<close>

definition demux_link :: "demux_pad \<Rightarrow> u64 \<Rightarrow> bool \<Rightarrow> redundancy_demux \<Rightarrow> demux_action list \<times> redundancy_demux" where
  "demux_link pad now has_bus s =
     (case pad of
        Sink_primary \<Rightarrow>
          (let s1 = s\<lparr>last_primary_time := now\<rparr>
           in if current_link s1 \<noteq> 0
              then (if has_bus then [Post_recovery] else [], s1\<lparr>current_link := 0\<rparr>) else ([], s1))
      | Sink_backup \<Rightarrow>
          if current_link s = 0 \<and> now > last_primary_time s + of_int (failover_detection_ms s)
          then (if has_bus then [Post_failover] else [], s\<lparr>current_link := 1\<rparr>) else ([], s))"

text \<open>\<open>linked\<close> is whether the source pad has a peer, \<open>has_bus\<close> whether the element has a bus.\<close>

definition st2110_redundancy_demux_push ::
    "demux_pad \<Rightarrow> packet \<Rightarrow> u64 \<Rightarrow> bool \<Rightarrow> bool \<Rightarrow> redundancy_demux \<Rightarrow> demux_action list \<times> redundancy_demux" where
  "st2110_redundancy_demux_push pad p now linked has_bus s =
     (if length (bytes p) < 12 then (if eos p \<and> linked then [Forward p] else [], s)
      else (case demux_filter (packet_seq p) s of
              (False, s1) \<Rightarrow> ([], s1)
            | (True, s1) \<Rightarrow>
                (case demux_link pad now has_bus s1 of
                   (acts, s2) \<Rightarrow> (acts @ (if linked then [Forward p] else []), s2))))"

definition st2110_redundancy_demux_open :: "u64 \<Rightarrow> redundancy_demux \<Rightarrow> redundancy_demux" where
  "st2110_redundancy_demux_open now s =
     s\<lparr>initialized := False, highest_seq := 0, current_link := 0, last_primary_time := now,
       seen_history := replicate 4096 False\<rparr>"

definition zst_st2110_redundancy_demux_create :: redundancy_demux where
  "zst_st2110_redundancy_demux_create =
     \<lparr>failover_detection_ms = 500, recovery_detection_ms = 2000, initialized = False, highest_seq = 0,
      seen_history = replicate 4096 False, current_link = 0, last_primary_time = 0\<rparr>"

definition st2110_redundancy_demux_set_property ::
    "string \<Rightarrow> string \<Rightarrow> redundancy_demux \<Rightarrow> zst_result \<times> redundancy_demux" where
  "st2110_redundancy_demux_set_property name value s =
     (if name = ''failover-detection-ms'' then (ZST_OK, s\<lparr>failover_detection_ms := c_atoi value\<rparr>)
      else if name = ''recovery-detection-ms'' then (ZST_OK, s\<lparr>recovery_detection_ms := c_atoi value\<rparr>)
      else (ZST_ERROR, s))"

definition st2110_redundancy_demux_get_property ::
    "string \<Rightarrow> nat \<Rightarrow> redundancy_demux \<Rightarrow> zst_result \<times> string option" where
  "st2110_redundancy_demux_get_property name max_len s =
     (if max_len = 0 then (ZST_ERROR, None)
      else if name = ''failover-detection-ms''
      then (ZST_OK, Some (c_snprintf max_len (print_int (failover_detection_ms s))))
      else if name = ''recovery-detection-ms''
      then (ZST_OK, Some (c_snprintf max_len (print_int (recovery_detection_ms s))))
      else (ZST_ERROR, None))"

section \<open>The muxer\<close>

record redundancy_mux =
  fec_enabled :: bool
  primary_addr :: string
  backup_addr :: string
  primary_port :: int
  backup_port :: int

datatype mux_action = To_primary packet | To_backup packet

definition st2110_redundancy_mux_pad_push :: "packet \<Rightarrow> bool \<Rightarrow> bool \<Rightarrow> mux_action list" where
  "st2110_redundancy_mux_pad_push p primary_linked backup_linked =
     (if primary_linked then [To_primary p] else []) @ (if backup_linked then [To_backup p] else [])"

definition zst_st2110_redundancy_mux_create :: redundancy_mux where
  "zst_st2110_redundancy_mux_create =
     \<lparr>fec_enabled = False, primary_addr = c_strncpy 63 ''239.255.10.0'', backup_addr = c_strncpy 63 ''239.255.11.0'',
      primary_port = 5004, backup_port = 5004\<rparr>"

definition st2110_redundancy_mux_set_property ::
    "string \<Rightarrow> string \<Rightarrow> redundancy_mux \<Rightarrow> zst_result \<times> redundancy_mux" where
  "st2110_redundancy_mux_set_property name value s =
     (if name = ''fec-enabled'' then (ZST_OK, s\<lparr>fec_enabled := (value = ''true'' \<or> value = ''1'')\<rparr>)
      else if name = ''primary-addr'' then (ZST_OK, s\<lparr>primary_addr := c_strncpy 63 value\<rparr>)
      else if name = ''backup-addr'' then (ZST_OK, s\<lparr>backup_addr := c_strncpy 63 value\<rparr>)
      else if name = ''primary-port'' then (ZST_OK, s\<lparr>primary_port := c_atoi value\<rparr>)
      else if name = ''backup-port'' then (ZST_OK, s\<lparr>backup_port := c_atoi value\<rparr>)
      else (ZST_ERROR, s))"

definition st2110_redundancy_mux_get_property :: "string \<Rightarrow> nat \<Rightarrow> redundancy_mux \<Rightarrow> zst_result \<times> string option" where
  "st2110_redundancy_mux_get_property name max_len s =
     (if max_len = 0 then (ZST_ERROR, None)
      else if name = ''fec-enabled''
      then (ZST_OK, Some (c_snprintf max_len (if fec_enabled s then ''true'' else ''false'')))
      else if name = ''primary-addr'' then (ZST_OK, Some (c_snprintf max_len (primary_addr s)))
      else if name = ''backup-addr'' then (ZST_OK, Some (c_snprintf max_len (backup_addr s)))
      else if name = ''primary-port'' then (ZST_OK, Some (c_snprintf max_len (print_int (primary_port s))))
      else if name = ''backup-port'' then (ZST_OK, Some (c_snprintf max_len (print_int (backup_port s))))
      else (ZST_ERROR, None))"

section \<open>The specification of the duplicate filter\<close>

text \<open>
  Abstractly packets carry unbounded numbers.  The filter remembers the highest number and the numbers
  passed; it passes a number that is higher than the highest or less than 2048 below it and was not
  passed before.
\<close>

type_synonym dedup = "int \<times> int set"

definition dedup_step :: "int \<Rightarrow> dedup \<Rightarrow> bool \<times> dedup" where
  "dedup_step n = (\<lambda>(high, passed).
     if n > high - 2048 \<and> n \<notin> passed then (True, (max high n, insert n passed)) else (False, (high, passed)))"

text \<open>
  The simulation: the 16-bit state represents the abstract one.  The history tells exactly the passed
  numbers among the last 2048, which is all the filter looks at.
\<close>

definition represents :: "redundancy_demux \<Rightarrow> dedup \<Rightarrow> bool" where
  "represents s d \<longleftrightarrow> (case d of (high, passed) \<Rightarrow>
     initialized s \<and> highest_seq s = of_int high \<and> length (seen_history s) = 4096 \<and> (\<forall>n \<in> passed. n \<le> high) \<and>
     (\<forall>n. high - 2048 < n \<longrightarrow> n \<le> high \<longrightarrow> seen_history s ! nat (n mod 4096) = (n \<in> passed)))"

lemma history_index: "unat (of_int n :: u16) mod 4096 = nat (n mod 4096)"
proof -
  have "int (unat (of_int n :: u16)) = n mod 65536" by (simp add: uint_word_of_int flip: uint_nat)
  then have "int (unat (of_int n :: u16) mod 4096) = n mod 65536 mod 4096" by (simp add: zmod_int)
  also have "\<dots> = n mod 4096" by (simp add: mod_mod_cancel)
  finally show ?thesis by (metis nat_int)
qed

lemma nat_mod_inj:
  assumes "nat (a mod 4096) = nat (b mod 4096)" and "\<bar>a - b\<bar> < (4096 :: int)"
  shows "a = b"
proof -
  have "a mod 4096 = b mod 4096" using assms(1) by (metis eq_nat_nat_iff pos_mod_sign zero_less_numeral)
  then have "4096 dvd a - b" by (simp add: mod_eq_dvd_iff)
  then show ?thesis using assms(2) by (metis abs_of_nonneg dvd_abs_iff dvd_imp_le_int eq_iff_diff_eq_0 linorder_not_less abs_numeral)
qed

lemma length_clear_between [simp]: "length (clear_between i seq hist) = length hist"
proof (induction i seq hist rule: clear_between.induct)
  case (1 i seq hist)
  then show ?case by (subst clear_between.simps) simp
qed

lemma clear_between_nth:
  assumes "length hist = 4096" and "lo \<le> hi" and "hi - lo < 65536" and "j < 4096"
  shows "clear_between (of_int lo) (of_int hi) hist ! j =
    (if \<exists>n. lo \<le> n \<and> n < hi \<and> j = nat (n mod 4096) then False else hist ! j)"
  using assms
proof (induction "nat (hi - lo)" arbitrary: lo hist)
  case 0
  then have "lo = hi" by simp
  then show ?case by (subst clear_between.simps) auto
next
  case (Suc k)
  have "(of_int lo :: u16) \<noteq> of_int hi"
  proof
    assume "(of_int lo :: u16) = of_int hi"
    then have "uint (of_int lo :: u16) = uint (of_int hi :: u16)" by (rule arg_cong)
    then have "hi mod 65536 = lo mod 65536" by (simp add: uint_word_of_int)
    then have "65536 dvd hi - lo" by (simp add: mod_eq_dvd_iff)
    then show False using Suc.hyps(2) Suc.prems(3) by (metis less_numeral_extra(3) nat_0_less_mult_iff zdvd_not_zless zero_less_Suc zero_less_nat_eq)
  qed
  then have "clear_between (of_int lo) (of_int hi) hist =
      clear_between (of_int (lo + 1)) (of_int hi) (hist[nat (lo mod 4096) := False])"
    by (subst clear_between.simps) (simp add: history_index)
  moreover have "clear_between (of_int (lo + 1)) (of_int hi) (hist[nat (lo mod 4096) := False]) ! j =
      (if \<exists>n. lo + 1 \<le> n \<and> n < hi \<and> j = nat (n mod 4096) then False else (hist[nat (lo mod 4096) := False]) ! j)"
    using Suc.hyps(2) Suc.prems by (intro Suc.hyps(1)) auto
  moreover have "(\<exists>n. lo \<le> n \<and> n < hi \<and> j = nat (n mod 4096)) \<longleftrightarrow>
      j = nat (lo mod 4096) \<or> (\<exists>n. lo + 1 \<le> n \<and> n < hi \<and> j = nat (n mod 4096))"
    using Suc.hyps(2) by (metis add1_zle_eq less_le nat_0_iff not_less_eq_eq order.refl zero_less_Suc diff_gt_0_iff_gt zero_less_nat_eq)
  ultimately show ?case using Suc.prems(1,4) by (auto simp: nth_list_update)
qed

lemma filter_new_highest:
  assumes rep: "represents s (high, passed)" and n: "high < n" "n - high < 32768"
  shows "\<exists>s'. demux_filter (of_int n) s = (True, s') \<and> represents s' (n, insert n passed)"
proof -
  note r = rep [unfolded represents_def, simplified]
  have d: "sint (of_int n - of_int high :: u16) = n - high"
    using r n sint_of_int_small [of "n - high", where ?'a = 16] by simp
  define hist where "hist = (if n - high \<ge> 4096 then replicate 4096 False
     else clear_between (highest_seq s + 1) (of_int n) (seen_history s))"
  let ?s = "s\<lparr>highest_seq := of_int n, seen_history := hist[nat (n mod 4096) := True]\<rparr>"
  have len: "length hist = 4096" using r by (simp add: hist_def)
  have f: "demux_filter (of_int n) s = (True, ?s)"
    using r n by (simp add: demux_filter_def d hist_def history_index Let_def)
  have old: "hist ! nat (m mod 4096) = (m \<in> passed)" if m: "n - 2048 < m" "m < n" for m
  proof (cases "n - high \<ge> 4096")
    case True
    then have "m \<notin> passed" using r m by force
    with True show ?thesis by (simp add: hist_def nat_less_iff)
  next
    case False
    have lo: "highest_seq s + 1 = of_int (high + 1)" using r by simp
    have c: "hist ! nat (m mod 4096) = (if \<exists>x. high + 1 \<le> x \<and> x < n \<and> nat (m mod 4096) = nat (x mod 4096)
        then False else seen_history s ! nat (m mod 4096))"
      using False r n clear_between_nth [of "seen_history s" "high + 1" n "nat (m mod 4096)"]
      by (simp add: hist_def lo nat_less_iff)
    show ?thesis
    proof (cases "m > high")
      case True
      then have "m \<notin> passed" using r by force
      with True m c show ?thesis by auto
    next
      case le: False
      have "\<not> (\<exists>x. high + 1 \<le> x \<and> x < n \<and> nat (m mod 4096) = nat (x mod 4096))"
        using le m n nat_mod_inj [of m] by fastforce
      with c r m n le show ?thesis by auto
    qed
  qed
  have "represents ?s (n, insert n passed)"
    unfolding represents_def prod.case
  proof (intro conjI allI impI ballI)
    fix m assume m: "n - 2048 < m" "m \<le> n"
    show "seen_history ?s ! nat (m mod 4096) = (m \<in> insert n passed)"
    proof (cases "m = n")
      case True
      then show ?thesis using len by (simp add: nat_less_iff)
    next
      case False
      then have "nat (m mod 4096) \<noteq> nat (n mod 4096)" using m nat_mod_inj [of m n] by auto
      then show ?thesis using old [of m] m False by (simp add: nth_list_update)
    qed
  qed (use r n len in \<open>auto intro: order.strict_implies_order order_le_less_trans\<close>)
  with f show ?thesis by blast
qed

text \<open>One step of the filter on a number less than 2^15 away from the highest one does what the
  specification says.\<close>

lemma filter_refines:
  assumes rep: "represents s (high, passed)" and n: "\<bar>n - high\<bar> < 32768"
    and spec: "dedup_step n (high, passed) = (b, d)"
  shows "\<exists>s'. demux_filter (of_int n) s = (b, s') \<and> represents s' d"
proof (cases "n > high")
  case True
  then have "n \<notin> passed" using rep by (force simp: represents_def)
  then show ?thesis using filter_new_highest [OF rep True] n spec True by (auto simp: dedup_step_def max_def)
next
  case False
  note r = rep [unfolded represents_def, simplified]
  have d: "sint (of_int n - of_int high :: u16) = n - high"
    using r n False sint_of_int_small [of "n - high", where ?'a = 16] by simp
  show ?thesis
  proof (cases "n > high - 2048")
    case False': False
    then show ?thesis using spec r rep False by (auto simp: demux_filter_def d dedup_step_def Let_def)
  next
    case True
    then have seen: "seen_history s ! nat (n mod 4096) = (n \<in> passed)" using r False by auto
    show ?thesis
    proof (cases "n \<in> passed")
      case True
      then show ?thesis using spec r rep False seen by (auto simp: demux_filter_def d dedup_step_def Let_def history_index)
    next
      case new: False
      let ?s = "s\<lparr>seen_history := (seen_history s)[nat (n mod 4096) := True]\<rparr>"
      have f: "demux_filter (of_int n) s = (True, ?s)"
        using r new seen True False by (simp add: demux_filter_def d Let_def history_index)
      have "represents ?s (high, insert n passed)"
        unfolding represents_def prod.case
      proof (intro conjI allI impI ballI)
        fix m assume m: "high - 2048 < m" "m \<le> high"
        show "seen_history ?s ! nat (m mod 4096) = (m \<in> insert n passed)"
        proof (cases "m = n")
          case True
          then show ?thesis using r by (simp add: nat_less_iff)
        next
          case False
          moreover have "\<bar>m - n\<bar> < 4096" using m True \<open>\<not> n > high\<close> by linarith
          ultimately have "nat (m mod 4096) \<noteq> nat (n mod 4096)" using nat_mod_inj [of m n] by blast
          then show ?thesis using r m False by (simp add: nth_list_update)
        qed
      qed (use r False in auto)
      moreover have "b = True \<and> d = (high, insert n passed)" using spec new True False by (auto simp: dedup_step_def)
      ultimately show ?thesis using f by auto
    qed
  qed
qed

section \<open>Runs\<close>

text \<open>
  Arrivals carry the unbounded number of their packet beside the pad, the packet and the time; the
  result is the numbers forwarded and the events posted.
\<close>

type_synonym arrival = "int \<times> demux_pad \<times> packet \<times> u64"

fun demux_run :: "arrival list \<Rightarrow> redundancy_demux \<Rightarrow> int list \<times> demux_action list \<times> redundancy_demux" where
  "demux_run [] s = ([], [], s)"
| "demux_run ((n, pad, p, now) # as) s =
     (case st2110_redundancy_demux_push pad p now True True s of
        (acts, s1) \<Rightarrow>
          (case demux_run as s1 of
             (out, evs, s2) \<Rightarrow>
               (if Forward p \<in> set acts then n # out else out, filter (\<lambda>a. a \<noteq> Forward p) acts @ evs, s2)))"

definition numbered :: "arrival \<Rightarrow> bool" where
  "numbered = (\<lambda>(n, pad, p, now). 12 \<le> length (bytes p) \<and> packet_seq p = of_int n)"

text \<open>Reordering and loss stay within the window: no packet is 2048 or more behind, none jumps 2^15 ahead.\<close>

fun steady :: "int list \<Rightarrow> int \<Rightarrow> bool" where
  "steady [] high = True"
| "steady (n # ns) high = (high - 2048 < n \<and> n < high + 32768 \<and> steady ns (max high n))"

lemma demux_link_same:
  assumes "demux_link pad now has_bus s = (acts, s')"
  shows "represents s' d = represents s d" and "Forward p \<notin> set acts"
  using assms by (auto simp: demux_link_def represents_def Let_def split: demux_pad.splits if_splits prod.splits)

lemma demux_push_passes:
  assumes "demux_filter (packet_seq p) s = (b, s1)" and "12 \<le> length (bytes p)"
    and "st2110_redundancy_demux_push pad p now True True s = (acts, s')"
  shows "Forward p \<in> set acts \<longleftrightarrow> b" and "represents s' d = represents s1 d"
proof -
  obtain l s2 where l: "demux_link pad now True s1 = (l, s2)" by fastforce
  show "Forward p \<in> set acts \<longleftrightarrow> b" "represents s' d = represents s1 d"
    using assms l demux_link_same [OF l] by (auto simp: st2110_redundancy_demux_push_def split: bool.splits)
qed

lemma dedup_step_cases:
  assumes "high - 2048 < n"
  shows "dedup_step n (high, passed) = (n \<notin> passed, (max high n, insert n passed)) \<or>
    n \<in> passed \<and> dedup_step n (high, passed) = (False, (high, passed))"
  using assms by (auto simp: dedup_step_def)

lemma demux_run_exact:
  assumes "represents s (high, passed)" and "list_all numbered as" and "steady (map fst as) high"
    and "demux_run as s = (out, evs, s')"
  shows "distinct out \<and> set out = set (map fst as) - passed"
  using assms
proof (induction as arbitrary: s high passed out evs s')
  case Nil
  then show ?case by simp
next
  case (Cons a as)
  obtain n pad p now where a: "a = (n, pad, p, now)" by (metis prod_cases4)
  obtain acts s1 where push: "st2110_redundancy_demux_push pad p now True True s = (acts, s1)" by fastforce
  obtain out1 evs1 s2 where run: "demux_run as s1 = (out1, evs1, s2)" by (metis prod_cases3)
  have num: "12 \<le> length (bytes p)" "packet_seq p = of_int n" using Cons.prems(2) a by (auto simp: numbered_def)
  have near: "high - 2048 < n" "\<bar>n - high\<bar> < 32768" "steady (map fst as) (max high n)"
    using Cons.prems(3) a by auto
  obtain b d where spec: "dedup_step n (high, passed) = (b, d)" by (rule prod.exhaust)
  obtain s0 where f: "demux_filter (of_int n) s = (b, s0)" "represents s0 d"
    using filter_refines [OF Cons.prems(1) near(2) spec] by blast
  have b: "b = (n \<notin> passed)" and d: "d = (max high n, insert n passed)"
    using spec near(1) dedup_step_cases [OF near(1), of passed] Cons.prems(1)
    by (auto simp: represents_def insert_absorb max_def dest: bspec)
  have s1: "represents s1 (max high n, insert n passed)" "Forward p \<in> set acts \<longleftrightarrow> b"
    using demux_push_passes [OF f(1) [folded num(2)] num(1) push] f(2) d by auto
  have IH: "distinct out1 \<and> set out1 = set (map fst as) - insert n passed"
    using Cons.IH [OF s1(1) _ near(3) run] Cons.prems(2) by simp
  have "out = (if b then n # out1 else out1)" using Cons.prems(4) a push run s1(2) by auto
  then show ?case using IH b a by auto
qed

lemma represents_first:
  assumes "\<not> initialized s"
  shows "\<exists>s'. demux_filter (of_int n) s = (True, s') \<and> represents s' (n, {n})"
proof -
  have "(replicate 4096 False)[nat (n mod 4096) := True] ! nat (m mod 4096) = (m = n)"
    if "n - 2048 < m" "m \<le> n" for m
  proof (cases "m = n")
    case True
    then show ?thesis by (simp add: nat_less_iff)
  next
    case False
    then have "nat (m mod 4096) \<noteq> nat (n mod 4096)" using that nat_mod_inj [of m n] by auto
    with False show ?thesis by (simp add: nth_list_update nat_less_iff)
  qed
  with assms show ?thesis by (auto simp: demux_filter_def represents_def history_index)
qed

section \<open>Link supervision\<close>

definition link_ok :: "redundancy_demux \<Rightarrow> bool" where
  "link_ok s \<longleftrightarrow> current_link s \<in> {0, 1}"

text \<open>The events of a run alternate, beginning with a failover when the primary link is in use.\<close>

fun alternating :: "nat \<Rightarrow> demux_action list \<Rightarrow> bool" where
  "alternating l [] = True"
| "alternating l (a # as) = ((if l = 0 then a = Post_failover else a = Post_recovery) \<and> alternating (1 - l) as)"

lemma demux_filter_link: "demux_filter q s = (b, s') \<Longrightarrow> current_link s' = current_link s"
  by (auto simp: demux_filter_def Let_def split: if_splits)

lemma demux_push_events:
  assumes "link_ok s" and "st2110_redundancy_demux_push pad p now True True s = (acts, s')"
  shows "link_ok s' \<and> alternating (current_link s) (filter (\<lambda>a. a \<noteq> Forward p) acts) \<and>
    (if filter (\<lambda>a. a \<noteq> Forward p) acts = [] then current_link s' = current_link s
     else current_link s' = 1 - current_link s \<and> length (filter (\<lambda>a. a \<noteq> Forward p) acts) = 1)"
proof (cases "length (bytes p) < 12")
  case True
  then show ?thesis using assms by (auto simp: st2110_redundancy_demux_push_def)
next
  case False
  obtain b s1 where f: "demux_filter (packet_seq p) s = (b, s1)" by fastforce
  obtain l s2 where l: "demux_link pad now True s1 = (l, s2)" by fastforce
  show ?thesis
    using assms False f l demux_filter_link [OF f]
    by (auto simp: st2110_redundancy_demux_push_def link_ok_def demux_link_def Let_def
        split: bool.splits demux_pad.splits if_splits)
qed

lemma alternating_append:
  "length xs = 1 \<Longrightarrow> l \<in> {0, 1} \<Longrightarrow> alternating l (xs @ ys) \<longleftrightarrow> alternating l xs \<and> alternating (1 - l) ys"
  by (cases xs) auto

lemma demux_run_events:
  "link_ok s \<Longrightarrow> demux_run as s = (out, evs, s') \<Longrightarrow> alternating (current_link s) evs"
proof (induction as arbitrary: s out evs s')
  case Nil
  then show ?case by simp
next
  case (Cons a as)
  obtain n pad p now where a: "a = (n, pad, p, now)" by (metis prod_cases4)
  obtain acts s1 where push: "st2110_redundancy_demux_push pad p now True True s = (acts, s1)" by fastforce
  obtain out1 evs1 s2 where run: "demux_run as s1 = (out1, evs1, s2)" by (metis prod_cases3)
  note e = demux_push_events [OF Cons.prems(1) push]
  have IH: "alternating (current_link s1) evs1" using Cons.IH [OF _ run] e by simp
  have evs: "evs = filter (\<lambda>a. a \<noteq> Forward p) acts @ evs1" using Cons.prems(2) a push run by auto
  show ?case
  proof (cases "filter (\<lambda>a. a \<noteq> Forward p) acts = []")
    case True
    then show ?thesis using e IH evs by simp
  next
    case False
    then show ?thesis using e IH evs Cons.prems(1) by (auto simp: alternating_append link_ok_def)
  qed
qed

section \<open>Properties\<close>

text \<open>C16: while reordering between the two links stays below 2048 packets, the demuxer forwards every
  packet number that arrives on either link, and forwards it exactly once, across wrap-arounds of the
  16-bit sequence number.\<close>

theorem demux_exactly_once:
  assumes "list_all numbered as" and "as \<noteq> []" and "steady (map fst as) (fst (hd as))"
    and "demux_run as (st2110_redundancy_demux_open now s) = (out, evs, s')"
  shows "distinct out \<and> set out = set (map fst as)"
proof -
  let ?s = "st2110_redundancy_demux_open now s"
  obtain n pad p t bs where a: "as = (n, pad, p, t) # bs" using assms(2) by (metis list.exhaust prod_cases4)
  obtain acts s1 where push: "st2110_redundancy_demux_push pad p t True True ?s = (acts, s1)" by fastforce
  obtain out1 evs1 s2 where run: "demux_run bs s1 = (out1, evs1, s2)" by (metis prod_cases3)
  have num: "12 \<le> length (bytes p)" "packet_seq p = of_int n" using assms(1) a by (auto simp: numbered_def)
  obtain s0 where f: "demux_filter (of_int n) ?s = (True, s0)" "represents s0 (n, {n})"
    using represents_first [of ?s n] by (auto simp: st2110_redundancy_demux_open_def)
  have s1: "represents s1 (n, {n})" "Forward p \<in> set acts"
    using demux_push_passes [OF f(1) [folded num(2)] num(1) push] f(2) by auto
  have "distinct out1 \<and> set out1 = set (map fst bs) - {n}"
    using demux_run_exact [OF s1(1) _ _ run] assms(1,3) a by simp
  moreover have "out = n # out1" using assms(4) a push run s1(2) by auto
  ultimately show ?thesis using a by auto
qed

definition demo_packet :: "nat \<Rightarrow> packet" where
  "demo_packet q = \<lparr>bytes = [128, 96, of_nat (q div 256), of_nat (q mod 256)] @ replicate 8 0, eos = False\<rparr>"

lemma demo_packet_seq: "packet_seq (demo_packet 65535) = of_int 65535" "packet_seq (demo_packet 0) = of_int 65536"
  by (simp_all add: packet_seq_def demo_packet_def)

theorem demux_exactly_once_witness:
  "case demux_run [(65535, Sink_primary, demo_packet 65535, 0), (65536, Sink_backup, demo_packet 0, 1),
       (65535, Sink_backup, demo_packet 65535, 1), (65536, Sink_primary, demo_packet 0, 2)]
     (st2110_redundancy_demux_open 0 zst_st2110_redundancy_demux_create) of
     (out, evs, s') \<Rightarrow> distinct out \<and> set out = {65535, 65536}"
proof -
  let ?as = "[(65535, Sink_primary, demo_packet 65535, 0), (65536, Sink_backup, demo_packet 0, 1),
       (65535, Sink_backup, demo_packet 65535, 1), (65536, Sink_primary, demo_packet 0, 2)] :: arrival list"
  have num: "list_all numbered ?as"
    using demo_packet_seq by (simp add: numbered_def) (simp add: demo_packet_def)
  have st: "?as \<noteq> []" "steady (map fst ?as) (fst (hd ?as))" by simp_all
  obtain out evs s' where r: "demux_run ?as (st2110_redundancy_demux_open 0 zst_st2110_redundancy_demux_create) = (out, evs, s')"
    by (metis prod_cases3)
  from demux_exactly_once [OF num st r] show ?thesis unfolding r by auto
qed

text \<open>The failover and recovery events a demuxer posts strictly alternate, beginning with a failover,
  whatever arrives on the two links and whenever.\<close>

lemma demux_events_alternate:
  assumes "demux_run as (st2110_redundancy_demux_open now s) = (out, evs, s')"
  shows "alternating 0 evs"
  using demux_run_events [OF _ assms] by (simp add: st2110_redundancy_demux_open_def link_ok_def)

text \<open>A packet of the primary link that arrives after its copy on the backup link is not taken as a
  sign of life of the primary link: the element's state does not change at all.  So when the backup
  link is merely ahead of the primary one, the next backup packet later than the failover time after
  the last primary packet that came first posts a failover, however recently the primary link
  delivered.\<close>

lemma demux_late_primary_fails_over:
  assumes "represents s (high, passed)" and "current_link s = 0"
    and "n \<in> passed" and "high - 2048 < n" and "packet_seq p = of_int n" and "12 \<le> length (bytes p)"
    and "high < n'" and "n' - high < 32768" and "packet_seq q = of_int n'" and "12 \<le> length (bytes q)"
    and "t2 > last_primary_time s + of_int (failover_detection_ms s)"
    and "st2110_redundancy_demux_push Sink_primary p t1 True True s = (acts1, s1)"
    and "st2110_redundancy_demux_push Sink_backup q t2 True True s1 = (acts2, s2)"
  shows "acts1 = [] \<and> s1 = s \<and> acts2 = [Post_failover, Forward q] \<and> current_link s2 = 1"
proof -
  have hn: "n \<le> high" using assms(1,3) by (auto simp: represents_def)
  have sp: "dedup_step n (high, passed) = (False, (high, passed))" using assms(3) by (simp add: dedup_step_def)
  have f: "demux_filter (of_int n) s = (False, s)"
  proof -
    have "seen_history s ! nat (n mod 4096)" "highest_seq s = of_int high" "initialized s"
      using assms(1,3,4) hn by (auto simp: represents_def)
    moreover have "sint (of_int n - of_int high :: u16) = n - high"
      using hn assms(4) sint_of_int_small [of "n - high", where ?'a = 16] by simp
    ultimately show ?thesis using hn assms(4) by (simp add: demux_filter_def Let_def history_index)
  qed
  then have 1: "acts1 = []" "s1 = s" using assms(5,6,12) by (auto simp: st2110_redundancy_demux_push_def)
  obtain s0 where g: "demux_filter (of_int n') s = (True, s0)" using filter_new_highest [OF assms(1,7,8)] by blast
  have k: "current_link s0 = 0" "last_primary_time s0 = last_primary_time s" "failover_detection_ms s0 = failover_detection_ms s"
    using g assms(2) by (auto simp: demux_filter_def Let_def split: if_splits)
  then show ?thesis
    using 1 g assms(9-11,13) by (auto simp: st2110_redundancy_demux_push_def demux_link_def)
qed

end
