(* ===== verification/Zst_Property.thy ===== *)
theory Zst_Property
  imports Zst_Redundancy
begin

text \<open>
  Properties of elements by name and type: the typed setters and getters of \<open>src/zst_element.c\<close>, which
  check the element's descriptor (\<open>include/zst_element_factory.h\<close>) and turn values into text and back
  around the element's own \<open>set_property\<close> and \<open>get_property\<close>.

  An element is its private state with the two operations, either of which may be missing, and the
  property table of its descriptor.  A getter of the element returns its result and the text it left
  in the caller's array.  The getters return the value that is stored through the caller's pointer, or
  nothing.  The conversions of \<open>double\<close> values are not modelled.
\<close>

section \<open>Reading numbers\<close>

text \<open>The common part of \<open>strtoll\<close> and \<open>strtoull\<close> in base 10: sign, magnitude and what is left of the
  text after the digits; nothing when there are no digits.\<close>

definition c_strto :: "string \<Rightarrow> (bool \<times> nat \<times> string) option" where
  "c_strto s =
     (let t = dropWhile is_space s;
          neg = (t \<noteq> [] \<and> hd t = CHR ''-'');
          u = (if t \<noteq> [] \<and> (hd t = CHR ''-'' \<or> hd t = CHR ''+'') then tl t else t)
      in if takeWhile is_digit u = [] then None
         else Some (neg, scan_digits 0 u, dropWhile is_digit u))"

section \<open>Elements and descriptors\<close>

datatype property_type =
    ZST_PROPERTY_STRING | ZST_PROPERTY_INT | ZST_PROPERTY_UINT | ZST_PROPERTY_DOUBLE | ZST_PROPERTY_BOOL | ZST_PROPERTY_ENUM

abbreviation ZST_PROPERTY_READABLE :: u32 where "ZST_PROPERTY_READABLE \<equiv> 1"
abbreviation ZST_PROPERTY_WRITABLE :: u32 where "ZST_PROPERTY_WRITABLE \<equiv> 2"

record property_spec =
  ps_name :: "string option"
  ps_type :: property_type
  ps_flags :: u32

record 'e prop_element =
  priv :: 'e
  op_set :: "(string \<Rightarrow> string \<Rightarrow> 'e \<Rightarrow> zst_result \<times> 'e) option"
  op_get :: "(string \<Rightarrow> nat \<Rightarrow> 'e \<Rightarrow> zst_result \<times> string) option"
  desc :: "property_spec list option"

definition zst_element_set_property :: "string \<Rightarrow> string \<Rightarrow> 'e prop_element \<Rightarrow> zst_result \<times> 'e prop_element" where
  "zst_element_set_property name value el =
     (case op_set el of None \<Rightarrow> (ZST_ERROR, el)
      | Some f \<Rightarrow> (case f name value (priv el) of (r, e) \<Rightarrow> (r, el\<lparr>priv := e\<rparr>)))"

definition zst_element_get_property :: "string \<Rightarrow> nat \<Rightarrow> 'e prop_element \<Rightarrow> zst_result \<times> string" where
  "zst_element_get_property name max_len el =
     (if max_len = 0 then (ZST_ERROR, [])
      else case op_get el of None \<Rightarrow> (ZST_ERROR, []) | Some f \<Rightarrow> f name max_len (priv el))"

definition zst_element_find_property_spec :: "string \<Rightarrow> 'e prop_element \<Rightarrow> property_spec option" where
  "zst_element_find_property_spec name el =
     (case desc el of None \<Rightarrow> None | Some specs \<Rightarrow> find (\<lambda>p. ps_name p = Some name) specs)"

definition zst_element_check_property_type :: "string \<Rightarrow> property_type \<Rightarrow> u32 \<Rightarrow> 'e prop_element \<Rightarrow> zst_result" where
  "zst_element_check_property_type name expected access el =
     (case zst_element_find_property_spec name el of
        None \<Rightarrow> ZST_OK
      | Some p \<Rightarrow>
          if ps_flags p AND access = 0 then ZST_ERROR
          else if ps_type p = expected then ZST_OK
          else if expected = ZST_PROPERTY_STRING \<and> ps_type p = ZST_PROPERTY_ENUM then ZST_OK
          else if expected = ZST_PROPERTY_INT \<and> ps_type p = ZST_PROPERTY_UINT \<or>
                  expected = ZST_PROPERTY_UINT \<and> ps_type p = ZST_PROPERTY_INT then ZST_OK
          else ZST_ERROR)"

section \<open>Typed setters\<close>

definition zst_element_set_property_string :: "string \<Rightarrow> string \<Rightarrow> 'e prop_element \<Rightarrow> zst_result \<times> 'e prop_element" where
  "zst_element_set_property_string name value el =
     (if zst_element_check_property_type name ZST_PROPERTY_STRING ZST_PROPERTY_WRITABLE el \<noteq> ZST_OK then (ZST_ERROR, el)
      else zst_element_set_property name value el)"

definition zst_element_set_property_int :: "string \<Rightarrow> 64 word \<Rightarrow> 'e prop_element \<Rightarrow> zst_result \<times> 'e prop_element" where
  "zst_element_set_property_int name value el =
     (if zst_element_check_property_type name ZST_PROPERTY_INT ZST_PROPERTY_WRITABLE el \<noteq> ZST_OK then (ZST_ERROR, el)
      else zst_element_set_property name (c_snprintf 64 (print_int (sint value))) el)"

definition zst_element_set_property_uint :: "string \<Rightarrow> u64 \<Rightarrow> 'e prop_element \<Rightarrow> zst_result \<times> 'e prop_element" where
  "zst_element_set_property_uint name value el =
     (if zst_element_check_property_type name ZST_PROPERTY_UINT ZST_PROPERTY_WRITABLE el \<noteq> ZST_OK then (ZST_ERROR, el)
      else zst_element_set_property name (c_snprintf 64 (print_nat (unat value))) el)"

definition zst_element_set_property_bool :: "string \<Rightarrow> bool \<Rightarrow> 'e prop_element \<Rightarrow> zst_result \<times> 'e prop_element" where
  "zst_element_set_property_bool name value el =
     (if zst_element_check_property_type name ZST_PROPERTY_BOOL ZST_PROPERTY_WRITABLE el \<noteq> ZST_OK then (ZST_ERROR, el)
      else zst_element_set_property name (if value then ''true'' else ''false'') el)"

section \<open>Typed getters\<close>

definition zst_element_get_property_string :: "string \<Rightarrow> nat \<Rightarrow> 'e prop_element \<Rightarrow> zst_result \<times> string" where
  "zst_element_get_property_string name max_len el =
     (if zst_element_check_property_type name ZST_PROPERTY_STRING ZST_PROPERTY_READABLE el \<noteq> ZST_OK then (ZST_ERROR, [])
      else zst_element_get_property name max_len el)"

definition zst_element_get_property_int :: "string \<Rightarrow> 'e prop_element \<Rightarrow> zst_result \<times> 64 word option" where
  "zst_element_get_property_int name el =
     (if zst_element_check_property_type name ZST_PROPERTY_INT ZST_PROPERTY_READABLE el \<noteq> ZST_OK then (ZST_ERROR, None)
      else case zst_element_get_property name 64 el of (r, buf) \<Rightarrow>
        if r \<noteq> ZST_OK then (ZST_ERROR, None)
        else case c_strto buf of
          None \<Rightarrow> (ZST_ERROR, None)
        | Some (neg, n, rest) \<Rightarrow>
            (let v = (if neg then - int n else int n)
             in if clamp64 v \<noteq> v \<or> rest \<noteq> [] then (ZST_ERROR, None) else (ZST_OK, Some (of_int v))))"

definition zst_element_get_property_uint :: "string \<Rightarrow> 'e prop_element \<Rightarrow> zst_result \<times> u64 option" where
  "zst_element_get_property_uint name el =
     (if zst_element_check_property_type name ZST_PROPERTY_UINT ZST_PROPERTY_READABLE el \<noteq> ZST_OK then (ZST_ERROR, None)
      else case zst_element_get_property name 64 el of (r, buf) \<Rightarrow>
        if r \<noteq> ZST_OK then (ZST_ERROR, None)
        else case c_strto buf of
          None \<Rightarrow> (ZST_ERROR, None)
        | Some (neg, n, rest) \<Rightarrow>
            if n \<ge> 2 ^ 64 \<or> rest \<noteq> [] then (ZST_ERROR, None)
            else (ZST_OK, Some (if neg then - of_nat n else of_nat n)))"

definition zst_element_get_property_bool :: "string \<Rightarrow> 'e prop_element \<Rightarrow> zst_result \<times> bool option" where
  "zst_element_get_property_bool name el =
     (if zst_element_check_property_type name ZST_PROPERTY_BOOL ZST_PROPERTY_READABLE el \<noteq> ZST_OK then (ZST_ERROR, None)
      else case zst_element_get_property name 16 el of (r, buf) \<Rightarrow>
        if r \<noteq> ZST_OK then (ZST_ERROR, None)
        else if buf = ''true'' \<or> buf = ''1'' then (ZST_OK, Some True)
        else if buf = ''false'' \<or> buf = ''0'' then (ZST_OK, Some False)
        else (ZST_ERROR, None))"

section \<open>Numbers survive as text\<close>

lemma print_nat_length: "n < 10 ^ k \<Longrightarrow> 0 < k \<Longrightarrow> length (print_nat n) \<le> k"
proof (induction k arbitrary: n)
  case (Suc k)
  show ?case
  proof (cases "n < 10")
    case True
    then show ?thesis by (subst print_nat.simps) simp
  next
    case False
    with Suc.prems have "0 < k" "n div 10 < 10 ^ k" by (auto intro!: gr0I)
    with Suc.IH [of "n div 10"] False show ?thesis by (subst print_nat.simps) simp
  qed
qed simp

lemma u64_text: "length (print_nat (unat (v :: u64))) \<le> 20"
proof (rule print_nat_length)
  have "unat v < 2 ^ 64" using unsigned_less [of v, where ?'a = nat] by simp
  then show "unat v < 10 ^ 20" by simp
qed simp

lemma print_nat_digits: "takeWhile is_digit (print_nat n) = print_nat n" "dropWhile is_digit (print_nat n) = []"
  using print_nat_all_digits by (auto simp: takeWhile_eq_all_conv)

lemma strto_print_nat: "c_strto (print_nat n) = Some (False, n, [])"
proof -
  obtain c cs where c: "print_nat n = c # cs" by (meson list.exhaust print_nat_nonempty)
  then have "is_digit c" using print_nat_all_digits [of c n] by simp
  note n = is_digit_no_space [OF this]
  have "dropWhile is_space (print_nat n) = print_nat n" "hd (print_nat n) \<noteq> CHR ''-''" "hd (print_nat n) \<noteq> CHR ''+''"
    using c n by simp_all
  then show ?thesis by (simp add: c_strto_def Let_def scan_print_nat print_nat_digits)
qed

lemma strto_print_int: "c_strto (print_int i) = Some (i < 0, nat \<bar>i\<bar>, [])"
proof (cases "i < 0")
  case True
  have "\<not> is_space CHR ''-''" by (simp add: is_space_def)
  with True show ?thesis by (simp add: c_strto_def Let_def print_int_def scan_print_nat print_nat_digits)
next
  case False
  then show ?thesis using strto_print_nat [of "nat i"] by (simp add: print_int_def)
qed

lemma s64_range: "- (2 ^ 63) \<le> sint (v :: 64 word)" "sint (v :: 64 word) < 2 ^ 63"
  using sint_greater_eq [of v] sint_less [of v] by simp_all

lemma s64_text: "length (print_int (sint (v :: 64 word))) \<le> 20"
proof -
  have "nat \<bar>sint v\<bar> < 10 ^ 19" using s64_range [of v] by (simp add: abs_if nat_less_iff)
  then have "length (print_nat (nat \<bar>sint v\<bar>)) \<le> 19" by (rule print_nat_length) simp
  then show ?thesis by (auto simp: print_int_def)
qed

section \<open>Elements that keep the text\<close>

text \<open>
  \<open>serves\<close>: the element has the two operations and its descriptor admits the type.  The contract between
  the typed interface and an element: for the names and texts it \<open>keeps\<close>, the element
  accepts the text and gives the same text back when the caller's array is large enough.
\<close>

definition serves ::
    "(string \<Rightarrow> string \<Rightarrow> 'e \<Rightarrow> zst_result \<times> 'e) \<Rightarrow> (string \<Rightarrow> nat \<Rightarrow> 'e \<Rightarrow> zst_result \<times> string) \<Rightarrow> string \<Rightarrow> property_type \<Rightarrow> 'e prop_element \<Rightarrow> bool" where
  "serves put get name ty el \<longleftrightarrow> op_set el = Some put \<and> op_get el = Some get \<and>
     zst_element_check_property_type name ty ZST_PROPERTY_WRITABLE el = ZST_OK \<and>
     zst_element_check_property_type name ty ZST_PROPERTY_READABLE el = ZST_OK"

locale text_properties =
  fixes put :: "string \<Rightarrow> string \<Rightarrow> 'e \<Rightarrow> zst_result \<times> 'e"
    and get :: "string \<Rightarrow> nat \<Rightarrow> 'e \<Rightarrow> zst_result \<times> string"
    and keeps :: "string \<Rightarrow> string \<Rightarrow> bool"
  assumes kept: "keeps name v \<Longrightarrow> \<exists>e'. put name v e = (ZST_OK, e') \<and> (\<forall>max_len > length v. get name max_len e' = (ZST_OK, v))"
begin

lemma set_then_get:
  assumes "serves put get name ty el" and "keeps name v"
  shows "\<exists>el'. zst_element_set_property name v el = (ZST_OK, el') \<and> serves put get name ty el' \<and>
    (\<forall>max_len > length v. zst_element_get_property name max_len el' = (ZST_OK, v))"
proof -
  obtain e' where "put name v (priv el) = (ZST_OK, e')" "\<forall>max_len > length v. get name max_len e' = (ZST_OK, v)"
    using kept [OF assms(2)] by blast
  with assms(1) show ?thesis
    by (auto simp: serves_def zst_element_set_property_def zst_element_get_property_def
        zst_element_check_property_type_def zst_element_find_property_spec_def)
qed

lemma int_roundtrip:
  assumes "serves put get name ZST_PROPERTY_INT el" and "keeps name (print_int (sint v))"
  shows "\<exists>el'. zst_element_set_property_int name v el = (ZST_OK, el') \<and> zst_element_get_property_int name el' = (ZST_OK, Some v)"
proof -
  have l: "length (print_int (sint v)) < 63" using s64_text [of v] by simp
  obtain el' where "zst_element_set_property name (print_int (sint v)) el = (ZST_OK, el')" "serves put get name ZST_PROPERTY_INT el'"
    "\<forall>max_len > length (print_int (sint v)). zst_element_get_property name max_len el' = (ZST_OK, print_int (sint v))"
    using set_then_get [OF assms] by blast
  moreover from this(3) l have "zst_element_get_property name 64 el' = (ZST_OK, print_int (sint v))" by simp
  moreover have "clamp64 (sint v) = sint v" using s64_range [of v] by (simp add: clamp64_def)
  ultimately show ?thesis
    using assms(1) l by (auto simp: zst_element_set_property_int_def zst_element_get_property_int_def serves_def
        c_snprintf_def strto_print_int Let_def)
qed

lemma uint_roundtrip:
  assumes "serves put get name ZST_PROPERTY_UINT el" and "keeps name (print_nat (unat v))"
  shows "\<exists>el'. zst_element_set_property_uint name v el = (ZST_OK, el') \<and> zst_element_get_property_uint name el' = (ZST_OK, Some v)"
proof -
  have l: "length (print_nat (unat v)) < 63" using u64_text [of v] by simp
  obtain el' where "zst_element_set_property name (print_nat (unat v)) el = (ZST_OK, el')" "serves put get name ZST_PROPERTY_UINT el'"
    "\<forall>max_len > length (print_nat (unat v)). zst_element_get_property name max_len el' = (ZST_OK, print_nat (unat v))"
    using set_then_get [OF assms] by blast
  moreover from this(3) l have "zst_element_get_property name 64 el' = (ZST_OK, print_nat (unat v))" by simp
  moreover have "unat v < 2 ^ 64" using unsigned_less [of v, where ?'a = nat] by simp
  ultimately show ?thesis
    using assms(1) l by (auto simp: zst_element_set_property_uint_def zst_element_get_property_uint_def serves_def
        c_snprintf_def strto_print_nat)
qed

lemma bool_roundtrip:
  assumes "serves put get name ZST_PROPERTY_BOOL el" and "keeps name ''true''" and "keeps name ''false''"
  shows "\<exists>el'. zst_element_set_property_bool name v el = (ZST_OK, el') \<and> zst_element_get_property_bool name el' = (ZST_OK, Some v)"
proof -
  have "keeps name (if v then ''true'' else ''false'')" using assms by simp
  from set_then_get [OF assms(1) this] assms(1) show ?thesis
    by (auto simp: zst_element_set_property_bool_def zst_element_get_property_bool_def serves_def)
qed

lemma string_roundtrip:
  assumes "serves put get name ZST_PROPERTY_STRING el" and "keeps name v" and "length v < max_len"
  shows "\<exists>el'. zst_element_set_property_string name v el = (ZST_OK, el') \<and>
    zst_element_get_property_string name max_len el' = (ZST_OK, v)"
  using set_then_get [OF assms(1,2)] assms(1,3)
  by (auto simp: zst_element_set_property_string_def zst_element_get_property_string_def serves_def)

end

section \<open>The redundancy elements\<close>

text \<open>The getters of the elements return nothing where they do not write the array.\<close>

definition written :: "(string \<Rightarrow> nat \<Rightarrow> 'e \<Rightarrow> zst_result \<times> string option) \<Rightarrow> string \<Rightarrow> nat \<Rightarrow> 'e \<Rightarrow> zst_result \<times> string" where
  "written get name max_len e = (case get name max_len e of (r, t) \<Rightarrow> (r, case t of None \<Rightarrow> [] | Some s \<Rightarrow> s))"

definition int_text :: "string \<Rightarrow> bool" where
  "int_text v \<longleftrightarrow> (\<exists>i. - (2 ^ 31) \<le> i \<and> i < 2 ^ 31 \<and> v = print_int i)"

definition demux_keeps :: "string \<Rightarrow> string \<Rightarrow> bool" where
  "demux_keeps name v \<longleftrightarrow> name \<in> {''failover-detection-ms'', ''recovery-detection-ms''} \<and> int_text v"

definition mux_keeps :: "string \<Rightarrow> string \<Rightarrow> bool" where
  "mux_keeps name v \<longleftrightarrow> name \<in> {''primary-port'', ''backup-port''} \<and> int_text v \<or>
     name \<in> {''primary-addr'', ''backup-addr''} \<and> length v \<le> 63 \<or> name = ''fec-enabled'' \<and> v \<in> {''true'', ''false''}"

interpretation demux_text: text_properties st2110_redundancy_demux_set_property
    "written st2110_redundancy_demux_get_property" demux_keeps
proof
  fix name v and e :: redundancy_demux
  assume "demux_keeps name v"
  then obtain i where "- (2 ^ 31) \<le> i" "i < 2 ^ 31" "v = print_int i" "name \<in> {''failover-detection-ms'', ''recovery-detection-ms''}"
    unfolding demux_keeps_def int_text_def by blast
  then show "\<exists>e'. st2110_redundancy_demux_set_property name v e = (ZST_OK, e') \<and>
      (\<forall>max_len > length v. written st2110_redundancy_demux_get_property name max_len e' = (ZST_OK, v))"
    by (auto simp: st2110_redundancy_demux_set_property_def st2110_redundancy_demux_get_property_def written_def
        atoi_print_int c_snprintf_def)
qed

interpretation mux_text: text_properties st2110_redundancy_mux_set_property
    "written st2110_redundancy_mux_get_property" mux_keeps
proof
  fix name v and e :: redundancy_mux
  let ?kept = "\<exists>e'. st2110_redundancy_mux_set_property name v e = (ZST_OK, e') \<and>
      (\<forall>max_len > length v. written st2110_redundancy_mux_get_property name max_len e' = (ZST_OK, v))"
  note defs = st2110_redundancy_mux_set_property_def st2110_redundancy_mux_get_property_def written_def
  assume "mux_keeps name v"
  then show ?kept
    unfolding mux_keeps_def
  proof (elim disjE conjE)
    assume n: "name \<in> {''primary-port'', ''backup-port''}" and "int_text v"
    then obtain i where "- (2 ^ 31) \<le> i" "i < 2 ^ 31" and v: "v = print_int i" unfolding int_text_def by blast
    then have i: "c_atoi v = i" using atoi_print_int by simp
    have "c_snprintf max_len v = v" if "length v < max_len" for max_len using that by (simp add: c_snprintf_def)
    with n i v show ?kept by (elim insertE emptyE) (simp_all add: defs)
  next
    assume n: "name \<in> {''primary-addr'', ''backup-addr''}" and "length v \<le> 63"
    then have v: "c_strncpy 63 v = v" by simp
    have "c_snprintf max_len v = v" if "length v < max_len" for max_len using that by (simp add: c_snprintf_def)
    with n v show ?kept by (elim insertE emptyE) (simp_all add: defs)
  next
    assume "name = ''fec-enabled''" "v \<in> {''true'', ''false''}"
    then show ?kept by (elim insertE emptyE) (simp_all add: defs c_snprintf_def)
  qed
qed

text \<open>The elements as the typed interface sees them; their descriptors list no properties.\<close>

definition demux_element :: "redundancy_demux \<Rightarrow> redundancy_demux prop_element" where
  "demux_element s = \<lparr>priv = s, op_set = Some st2110_redundancy_demux_set_property,
     op_get = Some (written st2110_redundancy_demux_get_property), desc = Some []\<rparr>"

definition mux_element :: "redundancy_mux \<Rightarrow> redundancy_mux prop_element" where
  "mux_element s = \<lparr>priv = s, op_set = Some st2110_redundancy_mux_set_property,
     op_get = Some (written st2110_redundancy_mux_get_property), desc = Some []\<rparr>"

lemma elements_serve:
  "serves st2110_redundancy_demux_set_property (written st2110_redundancy_demux_get_property) name ty (demux_element s)"
  "serves st2110_redundancy_mux_set_property (written st2110_redundancy_mux_get_property) name ty (mux_element m)"
  by (simp_all add: serves_def demux_element_def mux_element_def zst_element_check_property_type_def
      zst_element_find_property_spec_def)

section \<open>Properties\<close>

text \<open>C22: what is set through the typed interface of an element is what is read back.  For the redundancy
  elements: 32-bit numbers of the detection times and ports, the flag for error correction, and
  addresses of up to 63 characters.\<close>

theorem redundancy_typed_roundtrip:
  assumes "- (2 ^ 31) \<le> sint v" and "sint v < 2 ^ 31" and "length a \<le> 63"
    and "d \<in> {''failover-detection-ms'', ''recovery-detection-ms''}" and "p \<in> {''primary-port'', ''backup-port''}"
    and "n \<in> {''primary-addr'', ''backup-addr''}"
  shows "(\<exists>el. zst_element_set_property_int d v (demux_element s) = (ZST_OK, el) \<and> zst_element_get_property_int d el = (ZST_OK, Some v)) \<and>
    (\<exists>el. zst_element_set_property_int p v (mux_element m) = (ZST_OK, el) \<and> zst_element_get_property_int p el = (ZST_OK, Some v)) \<and>
    (\<exists>el. zst_element_set_property_bool ''fec-enabled'' b (mux_element m) = (ZST_OK, el) \<and>
       zst_element_get_property_bool ''fec-enabled'' el = (ZST_OK, Some b)) \<and>
    (\<exists>el. zst_element_set_property_string n a (mux_element m) = (ZST_OK, el) \<and> zst_element_get_property_string n 64 el = (ZST_OK, a))"
proof -
  have "int_text (print_int (sint v))" using assms(1,2) unfolding int_text_def by blast
  then have k: "demux_keeps d (print_int (sint v))" "mux_keeps p (print_int (sint v))" "mux_keeps n a"
    "mux_keeps ''fec-enabled'' ''true''" "mux_keeps ''fec-enabled'' ''false''"
    unfolding demux_keeps_def mux_keeps_def using assms(3-6) by simp_all
  show ?thesis
    using demux_text.int_roundtrip [OF elements_serve(1) k(1)] mux_text.int_roundtrip [OF elements_serve(2) k(2)]
      mux_text.bool_roundtrip [OF elements_serve(2) k(4,5), where v = b]
      mux_text.string_roundtrip [OF elements_serve(2) k(3), where max_len = 64] assms(3) by simp
qed

theorem redundancy_typed_roundtrip_witness:
  "\<exists>el. zst_element_set_property_int ''backup-port'' 5006 (mux_element zst_st2110_redundancy_mux_create) = (ZST_OK, el) \<and>
     zst_element_get_property_int ''backup-port'' el = (ZST_OK, Some 5006)"
proof -
  have "sint (5006 :: 64 word) = 5006" by simp
  then show ?thesis
    using redundancy_typed_roundtrip [of 5006 "''10.0.0.1''" "''failover-detection-ms''" "''backup-port''" "''primary-addr''"]
    by auto
qed

text \<open>Which types of a descriptor a typed accessor may touch.\<close>

fun compatible :: "property_type \<Rightarrow> property_type \<Rightarrow> bool" where
  "compatible ZST_PROPERTY_STRING t = (t \<in> {ZST_PROPERTY_STRING, ZST_PROPERTY_ENUM})"
| "compatible ZST_PROPERTY_INT t = (t \<in> {ZST_PROPERTY_INT, ZST_PROPERTY_UINT})"
| "compatible ZST_PROPERTY_UINT t = (t \<in> {ZST_PROPERTY_INT, ZST_PROPERTY_UINT})"
| "compatible e t = (e = t)"

lemma check_property_type_iff:
  assumes "zst_element_find_property_spec name el = Some p"
  shows "zst_element_check_property_type name e access el = ZST_OK \<longleftrightarrow> ps_flags p AND access \<noteq> 0 \<and> compatible e (ps_type p)"
  using assms by (cases e) (auto simp: zst_element_check_property_type_def)

text \<open>For a property that the descriptor lists, a typed accessor gets through to the element exactly when the
  property has the access flag and a type that is compatible with the accessor's (integers of either
  sign with each other, strings also with enumerations); otherwise it is an error, and nothing is set
  or read.\<close>

lemma property_type_guard:
  assumes "zst_element_find_property_spec name el = Some p"
  defines "writes \<equiv> \<lambda>e. ps_flags p AND ZST_PROPERTY_WRITABLE \<noteq> 0 \<and> compatible e (ps_type p)"
    and "reads \<equiv> \<lambda>e. ps_flags p AND ZST_PROPERTY_READABLE \<noteq> 0 \<and> compatible e (ps_type p)"
  shows "zst_element_set_property_int name v el =
      (if writes ZST_PROPERTY_INT then zst_element_set_property name (print_int (sint v)) el else (ZST_ERROR, el)) \<and>
    zst_element_set_property_uint name w el =
      (if writes ZST_PROPERTY_UINT then zst_element_set_property name (print_nat (unat w)) el else (ZST_ERROR, el)) \<and>
    zst_element_set_property_bool name b el =
      (if writes ZST_PROPERTY_BOOL then zst_element_set_property name (if b then ''true'' else ''false'') el else (ZST_ERROR, el)) \<and>
    zst_element_set_property_string name s el =
      (if writes ZST_PROPERTY_STRING then zst_element_set_property name s el else (ZST_ERROR, el)) \<and>
    (\<not> reads ZST_PROPERTY_INT \<longrightarrow> zst_element_get_property_int name el = (ZST_ERROR, None)) \<and>
    (\<not> reads ZST_PROPERTY_UINT \<longrightarrow> zst_element_get_property_uint name el = (ZST_ERROR, None)) \<and>
    (\<not> reads ZST_PROPERTY_BOOL \<longrightarrow> zst_element_get_property_bool name el = (ZST_ERROR, None)) \<and>
    zst_element_get_property_string name k el =
      (if reads ZST_PROPERTY_STRING then zst_element_get_property name k el else (ZST_ERROR, []))"
proof -
  note c = check_property_type_iff [OF assms(1)]
  have t: "take 63 (print_int (sint v)) = print_int (sint v)" "take 63 (print_nat (unat w)) = print_nat (unat w)"
    using s64_text [of v] u64_text [of w] by simp_all
  show ?thesis
    unfolding zst_element_set_property_int_def zst_element_set_property_uint_def zst_element_set_property_bool_def
      zst_element_set_property_string_def zst_element_get_property_int_def zst_element_get_property_uint_def
      zst_element_get_property_bool_def zst_element_get_property_string_def writes_def reads_def c
    by (simp add: c_snprintf_def t)
qed

definition demo_typed :: "bool \<Rightarrow> bool prop_element" where
  "demo_typed b = \<lparr>priv = b, op_set = Some (\<lambda>n v s. (ZST_OK, v = ''true'')), op_get = Some (\<lambda>n k s. (ZST_OK, ''true'')),
     desc = Some [\<lparr>ps_name = Some ''sync'', ps_type = ZST_PROPERTY_BOOL, ps_flags = 2\<rparr>]\<rparr>"

end
