(* ===== verification/Zst_Pacer.thy ===== *)
theory Zst_Pacer
  imports Zst_Prelude
begin

text \<open>
  The timestamp pacer of \<open>src/zst_timestamp_pacer.c\<close>, which delays buffers so that they leave at the rate
  of their timestamps.  All times are 64-bit nanoseconds.  The pacer's mutex is held during one
  iteration of the waiting loop and released while it reads the clock and sleeps, so an iteration is
  one step; the clock readings are an argument, together with what other threads did to the pacer
  before the iteration.  Which clock is used does not matter to the pacer beyond its readings.
\<close>

section \<open>State\<close>

record pacer =
  enabled :: bool
  started :: bool
  base_ts :: zst_time
  base_clock :: zst_time
  last_ts :: zst_time
  tolerance_ns :: zst_time
  reset_threshold_ns :: zst_time
  max_lateness_ns :: zst_time
  sleep_quantum_ns :: zst_time
  paced_count :: u64
  dropped_count :: u64
  reset_count :: u64
  total_wait_ns :: u64
  fallback_clock :: bool

definition default_sleep_quantum :: zst_time where
  "default_sleep_quantum = 10 * 1000 * 1000"

text \<open>\<open>clock_ok\<close> is whether the system clock could be created.\<close>

definition zst_timestamp_pacer_init :: "bool \<Rightarrow> pacer" where
  "zst_timestamp_pacer_init clock_ok =
     \<lparr>enabled = False, started = False, base_ts = 0, base_clock = 0, last_ts = 0,
      tolerance_ns = 5 * 1000 * 1000, reset_threshold_ns = 2 * 1000 * 1000 * 1000, max_lateness_ns = 0,
      sleep_quantum_ns = default_sleep_quantum, paced_count = 0, dropped_count = 0, reset_count = 0,
      total_wait_ns = 0, fallback_clock = clock_ok\<rparr>"

definition zst_timestamp_pacer_reset :: "pacer \<Rightarrow> pacer" where
  "zst_timestamp_pacer_reset p =
     p\<lparr>started := False, base_ts := 0, base_clock := 0, last_ts := 0, reset_count := reset_count p + 1\<rparr>"

definition zst_timestamp_pacer_deinit :: "pacer \<Rightarrow> pacer" where
  "zst_timestamp_pacer_deinit p = p\<lparr>fallback_clock := False, started := False\<rparr>"

definition zst_timestamp_pacer_set_enabled :: "bool \<Rightarrow> pacer \<Rightarrow> pacer" where
  "zst_timestamp_pacer_set_enabled e p = (if e then p\<lparr>enabled := True\<rparr> else p\<lparr>enabled := False, started := False\<rparr>)"

definition zst_timestamp_pacer_configure :: "zst_time \<Rightarrow> zst_time \<Rightarrow> zst_time \<Rightarrow> pacer \<Rightarrow> pacer" where
  "zst_timestamp_pacer_configure tolerance reset_threshold max_lateness p =
     p\<lparr>tolerance_ns := tolerance, reset_threshold_ns := reset_threshold, max_lateness_ns := max_lateness\<rparr>"

definition zst_timestamp_pacer_should_reset_locked :: "pacer \<Rightarrow> zst_time \<Rightarrow> bool" where
  "zst_timestamp_pacer_should_reset_locked p ts =
     (if \<not> started p then True
      else if ts < last_ts p then True
      else if reset_threshold_ns p > 0 \<and> ts > last_ts p \<and> ts - last_ts p > reset_threshold_ns p then True
      else False)"

definition zst_timestamp_pacer_start_locked :: "zst_time \<Rightarrow> zst_time \<Rightarrow> pacer \<Rightarrow> pacer" where
  "zst_timestamp_pacer_start_locked ts now p =
     p\<lparr>started := True, base_ts := ts, base_clock := now, last_ts := ts\<rparr>"

definition zst_timestamp_pacer_min_time :: "zst_time \<Rightarrow> zst_time \<Rightarrow> zst_time" where
  "zst_timestamp_pacer_min_time a b = (if a < b then a else b)"

definition pacer_target :: "pacer \<Rightarrow> zst_time \<Rightarrow> zst_time" where
  "pacer_target p ts =
     (let ts_delta = ts - base_ts p
      in if - 1 - base_clock p < ts_delta then - 1 else base_clock p + ts_delta)"

section \<open>Waiting\<close>

datatype pacer_step = Return zst_result bool | Sleep zst_time

text \<open>One iteration of the loop, under the mutex; the boolean of \<open>Return\<close> is the dropped flag.\<close>

definition pacer_iteration :: "bool \<Rightarrow> zst_time \<Rightarrow> zst_time \<Rightarrow> pacer \<Rightarrow> pacer_step \<times> pacer" where
  "pacer_iteration has_clock ts now p =
     (if \<not> enabled p then (Return ZST_OK False, p)
      else if \<not> has_clock \<and> \<not> fallback_clock p then (Return ZST_OK False, p)
      else if zst_timestamp_pacer_should_reset_locked p ts then
        (let p1 = (if started p then p\<lparr>reset_count := reset_count p + 1\<rparr> else p);
             p2 = zst_timestamp_pacer_start_locked ts now p1
         in (Return ZST_OK False, p2\<lparr>paced_count := paced_count p2 + 1\<rparr>))
      else if ts = last_ts p then (Return ZST_OK False, p\<lparr>paced_count := paced_count p + 1\<rparr>)
      else if ts < base_ts p then
        (let p1 = zst_timestamp_pacer_start_locked ts now p
         in (Return ZST_OK False, p1\<lparr>reset_count := reset_count p1 + 1, paced_count := paced_count p1 + 1\<rparr>))
      else
        (let target = pacer_target p ts
         in if now > target \<and> max_lateness_ns p > 0 \<and> now - target > max_lateness_ns p then
              (Return ZST_AGAIN True, p\<lparr>last_ts := ts, dropped_count := dropped_count p + 1\<rparr>)
            else if target > now \<and> target - now > tolerance_ns p then
              (let quantum = (if sleep_quantum_ns p > 0 then sleep_quantum_ns p else default_sleep_quantum);
                   sleep_ns = zst_timestamp_pacer_min_time (target - now) quantum
               in (Sleep sleep_ns, p\<lparr>total_wait_ns := total_wait_ns p + sleep_ns\<rparr>))
            else (Return ZST_OK False, p\<lparr>last_ts := ts, paced_count := paced_count p + 1\<rparr>)))"

text \<open>
  The loop over the readings of the clock and the interference before each iteration.  The outcome
  is \<open>None\<close> when the readings are used up with the caller still asleep.
\<close>

fun zst_timestamp_pacer_wait ::
    "bool \<Rightarrow> zst_time \<Rightarrow> (zst_time \<times> (pacer \<Rightarrow> pacer)) list \<Rightarrow> pacer \<Rightarrow> (zst_result \<times> bool) option \<times> pacer" where
  "zst_timestamp_pacer_wait has_clock ts [] p = (None, p)"
| "zst_timestamp_pacer_wait has_clock ts ((reading, other) # env) p =
     (let p0 = other p;
          now = (if has_clock \<or> fallback_clock p then reading else 0)
      in case pacer_iteration has_clock ts now p0 of
           (Return r dropped, p1) \<Rightarrow> (Some (r, dropped), p1)
         | (Sleep ns, p1) \<Rightarrow> zst_timestamp_pacer_wait has_clock ts env p1)"

section \<open>The target\<close>

text \<open>The target is the base clock plus the distance of the timestamps, saturated at 2^64 - 1.\<close>

lemma unat_minus_le: "b \<le> a \<Longrightarrow> unat (a - b :: u64) = unat a - unat b"
  by (simp add: unat_sub word_le_nat_alt)

lemma pacer_target_saturates:
  assumes "base_ts p \<le> ts"
  shows "unat (pacer_target p ts) = min (2 ^ 64 - 1) (unat (base_clock p) + (unat ts - unat (base_ts p)))"
proof -
  let ?d = "ts - base_ts p" and ?b = "base_clock p"
  have d: "unat ?d = unat ts - unat (base_ts p)" using assms by (rule unat_minus_le)
  have m: "unat (- 1 :: u64) = 2 ^ 64 - 1" by (simp add: unsigned_minus_1_eq_mask mask_eq_exp_minus_1)
  have c: "unat (- 1 - ?b) = 2 ^ 64 - 1 - unat ?b" by (subst unat_minus_le) (simp_all add: m)
  show ?thesis
  proof (cases "- 1 - ?b < ?d")
    case True
    then have "2 ^ 64 - 1 - unat ?b < unat ?d" using c by (simp add: word_less_nat_alt)
    then show ?thesis using True d m by (simp add: pacer_target_def Let_def)
  next
    case False
    then have le: "unat ?d \<le> 2 ^ 64 - 1 - unat ?b" using c by (simp add: word_less_nat_alt not_less)
    have "unat ?b < 2 ^ 64" using unsigned_less [of ?b, where ?'a = nat] by simp
    then have lt: "unat ?b + unat ?d < 2 ^ 64" using le by simp
    then have "unat (?b + ?d) = unat ?b + unat ?d" by (simp add: unat_add_lem [symmetric])
    then show ?thesis using False d lt by (simp add: pacer_target_def Let_def min_def)
  qed
qed

section \<open>Pacing without interference\<close>

text \<open>The state in which a new, later timestamp is paced against the baseline.\<close>

definition pacing :: "pacer \<Rightarrow> zst_time \<Rightarrow> bool" where
  "pacing p ts \<longleftrightarrow> enabled p \<and> started p \<and> last_ts p < ts \<and> base_ts p \<le> ts \<and>
     (reset_threshold_ns p = 0 \<or> ts - last_ts p \<le> reset_threshold_ns p)"

definition quantum :: "pacer \<Rightarrow> zst_time" where
  "quantum p = (if sleep_quantum_ns p > 0 then sleep_quantum_ns p else default_sleep_quantum)"

lemma quantum_pos: "0 < unat (quantum p)"
  by (auto simp: quantum_def default_sleep_quantum_def unat_gt_0)

abbreviation quiet :: "zst_time list \<Rightarrow> (zst_time \<times> (pacer \<Rightarrow> pacer)) list" where
  "quiet readings \<equiv> map (\<lambda>r. (r, id)) readings"

definition too_late :: "pacer \<Rightarrow> zst_time \<Rightarrow> zst_time \<Rightarrow> bool" where
  "too_late p ts now \<longleftrightarrow> pacer_target p ts < now \<and> max_lateness_ns p > 0 \<and> now - pacer_target p ts > max_lateness_ns p"

definition too_early :: "pacer \<Rightarrow> zst_time \<Rightarrow> zst_time \<Rightarrow> bool" where
  "too_early p ts now \<longleftrightarrow> now < pacer_target p ts \<and> tolerance_ns p < pacer_target p ts - now"

lemma iteration_pacing:
  assumes "pacing p ts"
  shows "pacer_iteration True ts now p =
    (if too_late p ts now then (Return ZST_AGAIN True, p\<lparr>last_ts := ts, dropped_count := dropped_count p + 1\<rparr>)
     else if too_early p ts now then
       (Sleep (zst_timestamp_pacer_min_time (pacer_target p ts - now) (quantum p)),
        p\<lparr>total_wait_ns := total_wait_ns p + zst_timestamp_pacer_min_time (pacer_target p ts - now) (quantum p)\<rparr>)
     else (Return ZST_OK False, p\<lparr>last_ts := ts, paced_count := paced_count p + 1\<rparr>))"
proof -
  have "enabled p" "\<not> zst_timestamp_pacer_should_reset_locked p ts" "ts \<noteq> last_ts p" "\<not> ts < base_ts p"
    using assms by (auto simp: pacing_def zst_timestamp_pacer_should_reset_locked_def not_less)
  then show ?thesis
    by (simp add: pacer_iteration_def too_late_def too_early_def quantum_def Let_def)
qed

lemma pacing_sleep [simp]:
  "pacing (p\<lparr>total_wait_ns := w\<rparr>) ts = pacing p ts" "pacer_target (p\<lparr>total_wait_ns := w\<rparr>) ts = pacer_target p ts"
  "quantum (p\<lparr>total_wait_ns := w\<rparr>) = quantum p" "too_late (p\<lparr>total_wait_ns := w\<rparr>) ts now = too_late p ts now"
  "too_early (p\<lparr>total_wait_ns := w\<rparr>) ts now = too_early p ts now"
  by (simp_all add: pacing_def pacer_target_def quantum_def too_late_def too_early_def Let_def)

lemma wait_pacing:
  assumes "pacing p ts"
  shows "\<exists>w. zst_timestamp_pacer_wait True ts (quiet readings) p =
    (case dropWhile (too_early p ts) readings of
       [] \<Rightarrow> (None, p\<lparr>total_wait_ns := w\<rparr>)
     | now # _ \<Rightarrow>
         if too_late p ts now
         then (Some (ZST_AGAIN, True), p\<lparr>total_wait_ns := w, last_ts := ts, dropped_count := dropped_count p + 1\<rparr>)
         else (Some (ZST_OK, False), p\<lparr>total_wait_ns := w, last_ts := ts, paced_count := paced_count p + 1\<rparr>))"
  using assms
proof (induction readings arbitrary: p)
  case Nil
  then show ?case by (intro exI [of _ "total_wait_ns p"]) simp
next
  case (Cons now readings)
  have excl: "\<not> (too_late p ts now \<and> too_early p ts now)" by (auto simp: too_late_def too_early_def)
  show ?case
  proof (cases "too_early p ts now")
    case True
    let ?ns = "zst_timestamp_pacer_min_time (pacer_target p ts - now) (quantum p)"
    let ?p = "p\<lparr>total_wait_ns := total_wait_ns p + ?ns\<rparr>"
    have eq: "zst_timestamp_pacer_wait True ts (quiet (now # readings)) p = zst_timestamp_pacer_wait True ts (quiet readings) ?p"
      using True excl iteration_pacing [OF Cons.prems, of now] by simp
    have "too_early ?p ts = too_early p ts" "too_late ?p ts = too_late p ts" by (simp_all add: fun_eq_iff)
    moreover obtain w where IH: "zst_timestamp_pacer_wait True ts (quiet readings) ?p =
      (case dropWhile (too_early ?p ts) readings of
         [] \<Rightarrow> (None, ?p\<lparr>total_wait_ns := w\<rparr>)
       | now # _ \<Rightarrow>
           if too_late ?p ts now
           then (Some (ZST_AGAIN, True), ?p\<lparr>total_wait_ns := w, last_ts := ts, dropped_count := dropped_count ?p + 1\<rparr>)
           else (Some (ZST_OK, False), ?p\<lparr>total_wait_ns := w, last_ts := ts, paced_count := paced_count ?p + 1\<rparr>))"
    proof -
      have "pacing ?p ts" using Cons.prems by simp
      from Cons.IH [OF this] show thesis using that by blast
    qed
    ultimately show ?thesis
      unfolding eq IH using True
      by (intro exI [of _ w]) (simp split: list.split del: dropWhile_eq_Nil_conv)
  next
    case False
    then show ?thesis
      using iteration_pacing [OF Cons.prems, of now] by (intro exI [of _ "total_wait_ns p"]) auto
  qed
qed

text \<open>
  A clock keeps its promise when each reading after a sleep is at least the sleep later.
\<close>

fun honest :: "pacer \<Rightarrow> zst_time \<Rightarrow> zst_time list \<Rightarrow> bool" where
  "honest p ts (r1 # r2 # rs) \<longleftrightarrow>
     (too_early p ts r1 \<longrightarrow> unat r1 + min (unat (pacer_target p ts) - unat r1) (unat (quantum p)) \<le> unat r2) \<and>
     honest p ts (r2 # rs)"
| "honest p ts rs \<longleftrightarrow> True"

lemma honest_progress:
  assumes "honest p ts (r # rs)" and "(unat (pacer_target p ts) - unat r) div unat (quantum p) + 1 \<le> length rs"
  shows "\<exists>now \<in> set (r # rs). \<not> too_early p ts now"
  using assms
proof (induction rs arbitrary: r)
  case Nil
  then show ?case by simp
next
  case (Cons r2 rs)
  let ?T = "unat (pacer_target p ts)" and ?q = "unat (quantum p)"
  show ?case
  proof (cases "too_early p ts r")
    case True
    then have adv: "unat r + min (?T - unat r) ?q \<le> unat r2" and h: "honest p ts (r2 # rs)" using Cons.prems(1) by auto
    show ?thesis
    proof (cases "?T - unat r \<le> ?q")
      case True
      then have "?T \<le> unat r2" using adv by simp
      then have "\<not> too_early p ts r2" by (simp add: too_early_def word_less_nat_alt)
      then show ?thesis by auto
    next
      case False
      then have "?T - unat r2 \<le> (?T - unat r) - ?q" using adv by simp
      then have "(?T - unat r2) div ?q \<le> ((?T - unat r) - ?q) div ?q" by (rule div_le_mono)
      also have "\<dots> = (?T - unat r) div ?q - 1" using False quantum_pos [of p] by (simp add: le_div_geq)
      finally have "(?T - unat r2) div ?q + 1 \<le> (?T - unat r) div ?q"
        using False quantum_pos [of p] by (simp add: div_greater_zero_iff Suc_le_eq flip: Suc_diff_1)
           (metis One_nat_def Suc_pred div_greater_zero_iff le_imp_less_Suc less_imp_le not_le)
      then have "(?T - unat r2) div ?q + 1 \<le> length rs" using Cons.prems(2) by simp
      from Cons.IH [OF h this] show ?thesis by auto
    qed
  qed auto
qed

section \<open>Properties\<close>

text \<open>C17: with a clock whose sleeps last at least as long as asked, the wait returns after at most one
  iteration per sleep quantum of the remaining time and two more; it never sleeps forever.\<close>

theorem pacer_wait_returns:
  assumes "pacing p ts" and "honest p ts (r # rs)"
    and "(unat (pacer_target p ts) - unat r) div unat (quantum p) + 1 \<le> length rs"
  shows "fst (zst_timestamp_pacer_wait True ts (quiet (r # rs)) p) \<noteq> None"
proof -
  have "dropWhile (too_early p ts) (r # rs) \<noteq> []"
    using honest_progress [OF assms(2,3)] by (simp only: dropWhile_eq_Nil_conv) blast
  then obtain now xs where "dropWhile (too_early p ts) (r # rs) = now # xs" by (meson list.exhaust)
  then show ?thesis using wait_pacing [OF assms(1), of "r # rs"] by (auto split: if_splits)
qed

definition demo_pacer :: pacer where
  "demo_pacer = (zst_timestamp_pacer_init True)\<lparr>enabled := True, started := True, base_clock := 100\<rparr>"

lemma demo_pacer_facts: "pacing demo_pacer 25000000" "pacer_target demo_pacer 25000000 = 25000100"
  "quantum demo_pacer = 10000000" "tolerance_ns demo_pacer = 5000000" "max_lateness_ns demo_pacer = 0"
  by (simp_all add: demo_pacer_def pacing_def zst_timestamp_pacer_init_def pacer_target_def quantum_def
      default_sleep_quantum_def)

theorem pacer_wait_returns_witness:
  "fst (zst_timestamp_pacer_wait True 25000000 (quiet [100, 10000200, 20000300, 20000400, 20000500]) demo_pacer) \<noteq> None"
proof -
  have "honest demo_pacer 25000000 [100, 10000200, 20000300, 20000400, 20000500]"
    by (simp add: demo_pacer_facts too_early_def)
  from pacer_wait_returns [OF demo_pacer_facts(1) this] show ?thesis by (simp add: demo_pacer_facts)
qed

text \<open>C18: a paced buffer is released (answer OK) only at a clock reading not more than the tolerance before
  its target time, which is the base clock plus the timestamp distance saturated at 2^64 - 1, and it
  is reported for dropping only when the reading is past the target by more than the configured
  lateness.\<close>

theorem pacer_never_early:
  assumes "pacing p ts" and "zst_timestamp_pacer_wait True ts (quiet readings) p = (Some (r, dropped), p')"
  shows "\<exists>now \<in> set readings. last_ts p' = ts \<and>
    (r = ZST_OK \<and> \<not> dropped \<and>
       min (2 ^ 64 - 1) (unat (base_clock p) + (unat ts - unat (base_ts p))) \<le> unat now + unat (tolerance_ns p) \<or>
     r = ZST_AGAIN \<and> dropped \<and> 0 < unat (max_lateness_ns p) \<and>
       min (2 ^ 64 - 1) (unat (base_clock p) + (unat ts - unat (base_ts p))) + unat (max_lateness_ns p) < unat now)"
proof -
  have T: "unat (pacer_target p ts) = min (2 ^ 64 - 1) (unat (base_clock p) + (unat ts - unat (base_ts p)))"
    using assms(1) by (intro pacer_target_saturates) (simp add: pacing_def)
  obtain now xs where d: "dropWhile (too_early p ts) readings = now # xs"
    using wait_pacing [OF assms(1), of readings] assms(2) by (cases "dropWhile (too_early p ts) readings") auto
  have now: "now \<in> set readings" by (metis d list.set_intros(1) set_dropWhileD)
  have ne: "\<not> too_early p ts now" using d by (metis hd_dropWhile list.distinct(1) list.sel(1))
  have early: "unat (pacer_target p ts) \<le> unat now + unat (tolerance_ns p)"
  proof (cases "now < pacer_target p ts")
    case True
    with ne have "pacer_target p ts - now \<le> tolerance_ns p" by (simp add: too_early_def)
    moreover have "unat (pacer_target p ts - now) = unat (pacer_target p ts) - unat now"
      using True by (intro unat_minus_le) simp
    ultimately show ?thesis by (simp add: word_le_nat_alt)
  next
    case False
    then show ?thesis by (simp add: word_less_nat_alt not_less)
  qed
  have late: "0 < unat (max_lateness_ns p) \<and> unat (pacer_target p ts) + unat (max_lateness_ns p) < unat now" if "too_late p ts now"
    using that by (auto simp: too_late_def word_less_nat_alt unat_minus_le less_imp_le)
  show ?thesis
    using wait_pacing [OF assms(1), of readings] assms(2) d now early late unfolding T
    by (intro bexI [of _ now]) (auto split: if_splits)
qed

theorem pacer_never_early_witness:
  "\<exists>r d p'. zst_timestamp_pacer_wait True 25000000 (quiet [100, 10000200, 20000300]) demo_pacer = (Some (r, d), p') \<and>
     last_ts p' = 25000000"
proof -
  have "fst (zst_timestamp_pacer_wait True 25000000 (quiet [100, 10000200, 20000300]) demo_pacer) \<noteq> None"
    using wait_pacing [OF demo_pacer_facts(1), of "[100, 10000200, 20000300]"]
    by (auto simp: demo_pacer_facts too_early_def too_late_def)
  then obtain r d p' where w: "zst_timestamp_pacer_wait True 25000000 (quiet [100, 10000200, 20000300]) demo_pacer = (Some (r, d), p')"
    by (metis not_None_eq prod.collapse)
  from pacer_never_early [OF demo_pacer_facts(1) w] w show ?thesis by blast
qed

text \<open>Whatever other threads do to the pacer meanwhile, an iteration that starts a new baseline or
  ends the wait counts exactly one buffer, as paced or as dropped, unless the pacer is disabled or has
  no clock; a sleep counts none and is never longer than the quantum.\<close>

lemma pacer_iteration_counts:
  assumes "enabled p" and "has_clock \<or> fallback_clock p"
  shows "case pacer_iteration has_clock ts now p of
     (Return r dropped, p') \<Rightarrow>
       started p' \<and> last_ts p' = ts \<and>
       (if dropped then r = ZST_AGAIN \<and> dropped_count p' = dropped_count p + 1 \<and> paced_count p' = paced_count p
        else r = ZST_OK \<and> dropped_count p' = dropped_count p \<and> paced_count p' = paced_count p + 1)
   | (Sleep ns, p') \<Rightarrow>
       ns \<le> quantum p \<and> 0 < ns \<and> dropped_count p' = dropped_count p \<and> paced_count p' = paced_count p \<and>
       total_wait_ns p' = total_wait_ns p + ns"
proof -
  have "0 < quantum p" using quantum_pos [of p] by (simp add: unat_gt_0 word_gt_0)
  then show ?thesis
    using assms
    by (auto simp: pacer_iteration_def Let_def zst_timestamp_pacer_start_locked_def zst_timestamp_pacer_should_reset_locked_def
        zst_timestamp_pacer_min_time_def quantum_def word_gt_0 split: if_splits)
qed

end
