(* ===== verification/Zst_Pad.thy ===== *)
theory Zst_Pad
  imports Zst_Bus Zst_Buffer_Pool "HOL-Library.Monad_Syntax"
begin

text \<open>
  Pads, the connection points of elements (\<open>src/zst_pad.c\<close>, \<open>include/zst_pad.h\<close>): reference counts, links,
  negotiation of capabilities, probes and blocking, segments, and the events and buffers that travel
  along the links.  Ghost pads, by which a bin exposes a pad of a child, are those of \<open>src/zst_bin.c\<close>.

  Pads and the elements they belong to live in a graph by their addresses.  Every operation returns an
  option: \<open>None\<close> means that it used a freed pad or never came back, so a theorem that an operation
  returns \<open>Some\<close> also says that it is memory safe.  Capabilities of a pad are values; events are the
  reference counted blocks of theory \<open>Zst_Bus\<close>, and buffers live in the heap of theory \<open>Zst_Buffer\<close>.

  What is not pad code is in the environment: probe callbacks, the operations of elements, what other
  threads did by the time a waiting thread woke up, clocks, the rounding of \<open>double\<close> arithmetic, and the push and pull functions other than the default ones.
  Calls out of the pad code that only concern other objects are requests recorded in the graph.
\<close>

section \<open>Data\<close>

datatype pad_direction = ZST_PAD_SRC | ZST_PAD_SINK

datatype probe_type =
    ZST_PAD_PROBE_PRE_BUFFER | ZST_PAD_PROBE_POST_BUFFER | ZST_PAD_PROBE_PRE_EVENT | ZST_PAD_PROBE_POST_EVENT

fun probe_bit :: "probe_type \<Rightarrow> u32" where
  "probe_bit ZST_PAD_PROBE_PRE_BUFFER = 1"
| "probe_bit ZST_PAD_PROBE_POST_BUFFER = 2"
| "probe_bit ZST_PAD_PROBE_PRE_EVENT = 4"
| "probe_bit ZST_PAD_PROBE_POST_EVENT = 8"

datatype probe_return = ZST_PAD_PROBE_OK | ZST_PAD_PROBE_DROP | ZST_PAD_PROBE_BLOCK | ZST_PAD_PROBE_REBLOCK

text \<open>Callbacks are names; the user data of a callback is part of its name.\<close>

record pad_probe =
  pr_id :: u64
  pr_types :: u32
  pr_callback :: nat

datatype spillover_policy = ZST_SPILLOVER_BLOCK | ZST_SPILLOVER_DROP_NEW | ZST_SPILLOVER_DROP_OLD

datatype unlinked_policy = ZST_PAD_UNLINKED_ERROR | ZST_PAD_UNLINKED_DROP | ZST_PAD_UNLINKED_BLOCK | ZST_PAD_UNLINKED_QUEUE

datatype push_fn = Default_sink_pad_push | Ghost_sink_push | Ghost_src_proxy_push | Element_push nat
datatype pull_fn = Default_src_pad_pull | Ghost_src_pull | Element_pull nat

text \<open>
  The private pointer of a pad: nothing, the data of a ghost pad (target, proxy sink, end of stream seen),
  the ghost pad a proxy sink belongs to, or data of an element.  Only ghost pads have the destructor
  \<open>ghost_pad_destroy_priv\<close>; destructors of elements do not touch pads.
\<close>

datatype pad_priv = No_priv | Ghost_priv "addr option" "addr option" bool | Proxy_priv addr | Element_priv

record zst_pad =
  pd_name :: "string option"
  pd_direction :: pad_direction
  pd_parent :: "addr option"
  pd_caps :: "zst_caps option"
  pd_template_caps :: "zst_caps option"
  pd_push :: "push_fn option"
  pd_pull :: "pull_fn option"
  pd_peer :: "addr option"
  pd_linked :: bool
  pd_priv :: pad_priv
  pd_has_probes :: u32
  pd_probes :: "pad_probe list"
  pd_next_probe_id :: u64
  pd_blocked :: bool
  pd_block_callback_fired :: bool
  pd_block_callback :: "nat option"
  pd_has_segment :: bool
  pd_segment :: zst_segment
  pd_spillover_policy :: spillover_policy
  pd_max_queued :: u32
  pd_queued_count :: u32
  pd_unlinked_policy :: unlinked_policy
  pd_sticky_stream_start :: "addr option"
  pd_sticky_caps :: "addr option"
  pd_sticky_segment :: "addr option"
  pd_last_transit_time :: u64
  pd_media_jitter_ns :: rat
  pd_jitter_buffer_count :: u64
  pd_refcount :: int

text \<open>What the pad code reads of an element.\<close>

record pad_element =
  pe_src_pads :: "addr list"
  pe_sink_pads :: "addr list"
  pe_pipeline :: "addr option"
  pe_bus :: "addr option"
  pe_clock :: "addr option"
  pe_parent_bin :: "addr option"

datatype request =
    Sizing_dirty addr
  | Sizing_check addr addr
  | Post_eos addr addr
  | Post_qos addr addr
  | Post_error addr addr zst_result
  | Clock_wait addr zst_time

record pad_graph =
  pads :: "addr \<rightharpoonup> zst_pad"
  elements :: "addr \<rightharpoonup> pad_element"
  eheap :: event_heap
  mem :: world
  wakeups :: nat
  requests :: "request list"

record pad_env =
  env_probe :: "nat \<Rightarrow> addr \<Rightarrow> addr option \<Rightarrow> probe_type \<Rightarrow> pad_graph \<Rightarrow> (probe_return \<times> pad_graph) option"
  env_others :: "nat \<Rightarrow> pad_graph \<Rightarrow> pad_graph"
  env_timeout :: "nat \<Rightarrow> bool"
  env_get_caps :: "addr \<Rightarrow> (addr \<Rightarrow> pad_graph \<Rightarrow> (zst_caps option \<times> pad_graph) option) option"
  env_event :: "addr \<Rightarrow> (addr \<Rightarrow> addr \<Rightarrow> pad_graph \<Rightarrow> (zst_result \<times> pad_graph) option) option"
  env_process :: "addr \<Rightarrow> (addr option \<Rightarrow> pad_graph \<Rightarrow> (zst_result \<times> addr option \<times> pad_graph) option) option"
  env_push :: "push_fn \<Rightarrow> addr \<Rightarrow> addr \<Rightarrow> pad_graph \<Rightarrow> (zst_result \<times> pad_graph) option"
  env_pull :: "pull_fn \<Rightarrow> addr \<Rightarrow> pad_graph \<Rightarrow> (zst_result \<times> addr option \<times> pad_graph) option"
  env_time :: "addr \<Rightarrow> pad_graph \<Rightarrow> zst_time"
  env_round :: "rat \<Rightarrow> rat"

abbreviation set_script :: "alloc_script \<Rightarrow> pad_graph \<Rightarrow> pad_graph" where
  "set_script m g \<equiv> g\<lparr>eheap := (eheap g)\<lparr>script := m\<rparr>\<rparr>"

definition put_pad :: "addr \<Rightarrow> zst_pad \<Rightarrow> pad_graph \<Rightarrow> pad_graph" where
  "put_pad p x g = g\<lparr>pads := (pads g)(p \<mapsto> x)\<rparr>"

definition upd_pad :: "addr \<Rightarrow> (zst_pad \<Rightarrow> zst_pad) \<Rightarrow> pad_graph \<Rightarrow> pad_graph option" where
  "upd_pad p f g = map_option (\<lambda>x. put_pad p (f x) g) (pads g p)"

definition zst_segment_default :: zst_segment where
  "zst_segment_default = \<lparr>seg_start = 0, seg_stop = - 1, seg_rate = Fp_num 1, seg_base = 0, seg_position = 0\<rparr>"

section \<open>Creation and reference counts\<close>

definition new_pad :: "string option \<Rightarrow> pad_direction \<Rightarrow> zst_pad" where
  "new_pad name dir =
     \<lparr>pd_name = name, pd_direction = dir, pd_parent = None, pd_caps = None, pd_template_caps = None,
      pd_push = (if dir = ZST_PAD_SRC then None else Some Default_sink_pad_push),
      pd_pull = (if dir = ZST_PAD_SRC then Some Default_src_pad_pull else None),
      pd_peer = None, pd_linked = False, pd_priv = No_priv, pd_has_probes = 0, pd_probes = [], pd_next_probe_id = 1,
      pd_blocked = False, pd_block_callback_fired = False, pd_block_callback = None,
      pd_has_segment = False, pd_segment = zst_segment_default, pd_spillover_policy = ZST_SPILLOVER_BLOCK,
      pd_max_queued = 0, pd_queued_count = 0, pd_unlinked_policy = ZST_PAD_UNLINKED_ERROR,
      pd_sticky_stream_start = None, pd_sticky_caps = None, pd_sticky_segment = None,
      pd_last_transit_time = 0, pd_media_jitter_ns = 0, pd_jitter_buffer_count = 0, pd_refcount = 1\<rparr>"

definition zst_pad_create :: "string option \<Rightarrow> pad_direction \<Rightarrow> pad_graph \<Rightarrow> addr option \<times> pad_graph" where
  "zst_pad_create name dir g =
     (case alloc (script (eheap g)) of
        (Some _, m) \<Rightarrow> (None, set_script m g)
      | (None, m) \<Rightarrow>
          (let (nm, m1) = (case name of None \<Rightarrow> (None, m)
                           | Some s \<Rightarrow> (case alloc m of (None, m1) \<Rightarrow> (Some s, m1) | (Some _, m1) \<Rightarrow> (None, m1)));
               p = next_addr (eheap g)
           in (Some p, put_pad p (new_pad nm dir) (g\<lparr>eheap := (eheap g)\<lparr>script := m1, next_addr := Suc p\<rparr>\<rparr>))))"

definition pad_ref :: "addr \<Rightarrow> pad_graph \<Rightarrow> pad_graph option" where
  "pad_ref p = upd_pad p (\<lambda>x. x\<lparr>pd_refcount := pd_refcount x + 1\<rparr>)"

text \<open>The parts of \<open>zst_pad_finalize\<close>: detaching a peer that is still there, and releasing what the pad owns.\<close>

definition detach_peer :: "addr \<Rightarrow> pad_graph \<Rightarrow> pad_graph option" where
  "detach_peer p g =
     do { x \<leftarrow> pads g p;
          g1 \<leftarrow> upd_pad p (\<lambda>x. x\<lparr>pd_peer := None, pd_linked := False\<rparr>) g;
          (case pd_peer x of None \<Rightarrow> Some g1
           | Some q \<Rightarrow> upd_pad q (\<lambda>y. if pd_peer y = Some p then y\<lparr>pd_peer := None, pd_linked := False\<rparr> else y) g1) }"

definition free_pad :: "addr \<Rightarrow> pad_graph \<Rightarrow> pad_graph option" where
  "free_pad p g =
     do { x \<leftarrow> pads g p;
          Some (g\<lparr>pads := (pads g)(p := None),
                  eheap := zst_pad_event_unref (pd_sticky_segment x)
                    (zst_pad_event_unref (pd_sticky_caps x) (zst_pad_event_unref (pd_sticky_stream_start x) (eheap g)))\<rparr>) }"

text \<open>\<open>zst_pad_unref\<close> with \<open>zst_pad_finalize\<close> inside, which for a ghost pad drops its proxy sink.\<close>

partial_function (option) pad_unref :: "addr \<Rightarrow> pad_graph \<Rightarrow> pad_graph option" where
  "pad_unref p g =
     do { x \<leftarrow> pads g p;
          (let g1 = put_pad p (x\<lparr>pd_refcount := pd_refcount x - 1\<rparr>) g
           in if pd_refcount x \<noteq> 1 then Some g1
              else do { g2 \<leftarrow> detach_peer p g1;
                        g3 \<leftarrow> (case pd_priv x of Ghost_priv t (Some q) eos \<Rightarrow> pad_unref q g2 | _ \<Rightarrow> Some g2);
                        free_pad p g3 }) }"

declare pad_unref.simps [code]

text \<open>The pattern by which the code reads the peer: under the link lock, with a reference taken.\<close>

definition ref_peer :: "addr \<Rightarrow> pad_graph \<Rightarrow> (addr option \<times> pad_graph) option" where
  "ref_peer p g =
     do { x \<leftarrow> pads g p;
          (case pd_peer x of None \<Rightarrow> Some (None, g) | Some q \<Rightarrow> do { g1 \<leftarrow> pad_ref q g; Some (Some q, g1) }) }"

definition zst_pad_get_peer :: "addr \<Rightarrow> pad_graph \<Rightarrow> (addr option \<times> pad_graph) option" where
  "zst_pad_get_peer p g = ref_peer p g"

definition zst_pad_is_linked :: "addr \<Rightarrow> pad_graph \<Rightarrow> bool option" where
  "zst_pad_is_linked p g = map_option pd_linked (pads g p)"

definition zst_pad_reset_callbacks :: "addr \<Rightarrow> pad_graph \<Rightarrow> pad_graph option" where
  "zst_pad_reset_callbacks p = upd_pad p (\<lambda>x.
     if pd_direction x = ZST_PAD_SRC then x\<lparr>pd_pull := Some Default_src_pad_pull, pd_push := None\<rparr>
     else x\<lparr>pd_push := Some Default_sink_pad_push, pd_pull := None\<rparr>)"

section \<open>Capabilities\<close>

definition zst_pad_set_caps :: "addr \<Rightarrow> zst_caps option \<Rightarrow> pad_graph \<Rightarrow> (zst_result \<times> pad_graph) option" where
  "zst_pad_set_caps p c g =
     (case c of None \<Rightarrow> do { g1 \<leftarrow> upd_pad p (\<lambda>x. x\<lparr>pd_caps := None\<rparr>) g; Some (ZST_OK, g1) }
      | Some ss \<Rightarrow>
          (case zst_caps_copy (Some ss) (script (eheap g)) of (c', m) \<Rightarrow>
             do { g1 \<leftarrow> upd_pad p (\<lambda>x. x\<lparr>pd_caps := c'\<rparr>) (set_script m g);
                  Some (if c' = None then ZST_ERROR else ZST_OK, g1) }))"

definition zst_pad_set_template_caps :: "addr \<Rightarrow> zst_caps option \<Rightarrow> pad_graph \<Rightarrow> (zst_result \<times> pad_graph) option" where
  "zst_pad_set_template_caps p c g =
     (case c of None \<Rightarrow> do { g1 \<leftarrow> upd_pad p (\<lambda>x. x\<lparr>pd_template_caps := None\<rparr>) g; Some (ZST_OK, g1) }
      | Some ss \<Rightarrow>
          (case zst_caps_copy (Some ss) (script (eheap g)) of (c', m) \<Rightarrow>
             do { g1 \<leftarrow> upd_pad p (\<lambda>x. x\<lparr>pd_template_caps := c'\<rparr>) (set_script m g);
                  Some (if c' = None then ZST_ERROR else ZST_OK, g1) }))"

definition copy_template :: "addr \<Rightarrow> pad_graph \<Rightarrow> (zst_caps option \<times> pad_graph) option" where
  "copy_template p g =
     do { x \<leftarrow> pads g p;
          (case zst_caps_copy (pd_template_caps x) (script (eheap g)) of (c, m) \<Rightarrow> Some (c, set_script m g)) }"

definition zst_pad_get_caps :: "pad_env \<Rightarrow> addr \<Rightarrow> pad_graph \<Rightarrow> (zst_caps option \<times> pad_graph) option" where
  "zst_pad_get_caps E p g =
     do { x \<leftarrow> pads g p;
          if pd_caps x \<noteq> None then
            (case zst_caps_copy (pd_caps x) (script (eheap g)) of (c, m) \<Rightarrow> Some (c, set_script m g))
          else (case Option.bind (pd_parent x) (env_get_caps E) of
                  None \<Rightarrow> copy_template p g
                | Some f \<Rightarrow> do { (c, g1) \<leftarrow> f p g; if c \<noteq> None then Some (c, g1) else copy_template p g1 }) }"

text \<open>Storing the agreed capabilities in both pads.\<close>

definition set_both_caps :: "addr \<Rightarrow> addr \<Rightarrow> zst_caps option \<Rightarrow> pad_graph \<Rightarrow> (zst_result \<times> pad_graph) option" where
  "set_both_caps src sink c g =
     do { (r, g1) \<leftarrow> zst_pad_set_caps src c g;
          if r = ZST_OK then zst_pad_set_caps sink c g1 else Some (r, g1) }"

definition zst_pad_negotiate :: "pad_env \<Rightarrow> addr \<Rightarrow> addr \<Rightarrow> pad_graph \<Rightarrow> (zst_result \<times> pad_graph) option" where
  "zst_pad_negotiate E src sink g =
     do { (c1, g1) \<leftarrow> zst_pad_get_caps E src g;
          (c2, g2) \<leftarrow> zst_pad_get_caps E sink g1;
          if c1 = None \<or> c2 = None then Some (ZST_OK, g2)
          else (case zst_caps_intersect c1 c2 (script (eheap g2)) of
                  (None, m) \<Rightarrow> Some (ZST_ERROR, set_script m g2)
                | (Some i, m) \<Rightarrow>
                    if zst_caps_is_fixed (Some i) then set_both_caps src sink (Some i) (set_script m g2)
                    else (case zst_caps_fixate (Some i) m of (r, c, m1) \<Rightarrow>
                            if r \<noteq> ZST_OK then Some (ZST_ERROR, set_script m1 g2)
                            else set_both_caps src sink c (set_script m1 g2))) }"

section \<open>Probes and blocking\<close>

definition zst_pad_add_probe :: "addr \<Rightarrow> u32 \<Rightarrow> nat option \<Rightarrow> pad_graph \<Rightarrow> (u64 \<times> pad_graph) option" where
  "zst_pad_add_probe p types callback g =
     (case callback of None \<Rightarrow> Some (0, g)
      | Some cb \<Rightarrow>
          if types = 0 then Some (0, g)
          else (case alloc (script (eheap g)) of
                  (Some _, m) \<Rightarrow> Some (0, set_script m g)
                | (None, m) \<Rightarrow>
                    do { x \<leftarrow> pads g p;
                         (let (pid, nxt) = (if pd_next_probe_id x = 0 then (1, 2) else (pd_next_probe_id x, pd_next_probe_id x + 1))
                          in Some (pid, put_pad p (x\<lparr>pd_probes := \<lparr>pr_id = pid, pr_types = types, pr_callback = cb\<rparr> # pd_probes x,
                                pd_next_probe_id := nxt, pd_has_probes := pd_has_probes x + 1\<rparr>) (set_script m g))) }))"

fun unlink_probe :: "u64 \<Rightarrow> pad_probe list \<Rightarrow> pad_probe list option" where
  "unlink_probe i [] = None"
| "unlink_probe i (r # rs) = (if pr_id r = i then Some rs else map_option (Cons r) (unlink_probe i rs))"

definition zst_pad_remove_probe :: "addr \<Rightarrow> u64 \<Rightarrow> pad_graph \<Rightarrow> (zst_result \<times> pad_graph) option" where
  "zst_pad_remove_probe p i g =
     (if i = 0 then Some (ZST_ERROR, g)
      else do { x \<leftarrow> pads g p;
                (case unlink_probe i (pd_probes x) of
                   None \<Rightarrow> Some (ZST_ERROR, g)
                 | Some rs \<Rightarrow> Some (ZST_OK, put_pad p (x\<lparr>pd_probes := rs, pd_has_probes := pd_has_probes x - 1\<rparr>) g)) })"

definition zst_pad_block :: "addr \<Rightarrow> pad_graph \<Rightarrow> pad_graph option" where
  "zst_pad_block p = upd_pad p (\<lambda>x. x\<lparr>pd_blocked := True, pd_block_callback_fired := False\<rparr>)"

definition zst_pad_unblock :: "addr \<Rightarrow> pad_graph \<Rightarrow> pad_graph option" where
  "zst_pad_unblock p = upd_pad p (\<lambda>x. x\<lparr>pd_blocked := False, pd_block_callback_fired := False\<rparr>)"

definition zst_pad_is_blocked :: "addr \<Rightarrow> pad_graph \<Rightarrow> bool option" where
  "zst_pad_is_blocked p g = map_option pd_blocked (pads g p)"

definition zst_pad_set_block_callback :: "addr \<Rightarrow> nat option \<Rightarrow> pad_graph \<Rightarrow> pad_graph option" where
  "zst_pad_set_block_callback p cb = upd_pad p (\<lambda>x. x\<lparr>pd_block_callback := cb, pd_block_callback_fired := False\<rparr>)"

text \<open>A condition wait ends with what the other threads did meanwhile.\<close>

definition wake :: "pad_env \<Rightarrow> pad_graph \<Rightarrow> pad_graph" where
  "wake E g = (env_others E (wakeups g) g)\<lparr>wakeups := Suc (wakeups g)\<rparr>"

partial_function (option) wait_unblocked :: "pad_env \<Rightarrow> addr \<Rightarrow> pad_graph \<Rightarrow> pad_graph option" where
  "wait_unblocked E p g =
     do { x \<leftarrow> pads g p; if pd_blocked x then wait_unblocked E p (wake E g) else Some g }"

declare wait_unblocked.simps [code]

partial_function (option) pad_handle_block ::
    "pad_env \<Rightarrow> addr \<Rightarrow> addr option \<Rightarrow> probe_type \<Rightarrow> pad_graph \<Rightarrow> (probe_return \<times> pad_graph) option" where
  "pad_handle_block E p buf ty g =
     do { x \<leftarrow> pads g p;
          if \<not> pd_blocked x then Some (ZST_PAD_PROBE_OK, put_pad p (x\<lparr>pd_block_callback_fired := False\<rparr>) g)
          else
            do { (r, g1) \<leftarrow>
                   (case (if pd_block_callback_fired x then None else pd_block_callback x) of
                      None \<Rightarrow> Some (ZST_PAD_PROBE_BLOCK, g)
                    | Some cb \<Rightarrow> env_probe E cb p buf ty (put_pad p (x\<lparr>pd_block_callback_fired := True\<rparr>) g));
                 if r = ZST_PAD_PROBE_OK then do { g2 \<leftarrow> zst_pad_unblock p g1; Some (ZST_PAD_PROBE_OK, g2) }
                 else if r = ZST_PAD_PROBE_DROP then Some (ZST_PAD_PROBE_DROP, g1)
                 else do { g2 \<leftarrow> wait_unblocked E p g1;
                           g3 \<leftarrow> upd_pad p (\<lambda>x. x\<lparr>pd_block_callback_fired := False\<rparr>) g2;
                           pad_handle_block E p buf ty g3 } } }"

declare pad_handle_block.simps [code]

text \<open>The calls of the collected callbacks, in the order of the list.\<close>

fun call_probes :: "pad_env \<Rightarrow> nat list \<Rightarrow> addr \<Rightarrow> addr option \<Rightarrow> probe_type \<Rightarrow> pad_graph \<Rightarrow> (probe_return \<times> pad_graph) option" where
  "call_probes E [] p buf ty g = Some (ZST_PAD_PROBE_OK, g)"
| "call_probes E (cb # cbs) p buf ty g =
     do { (r, g1) \<leftarrow> env_probe E cb p buf ty g;
          if r = ZST_PAD_PROBE_DROP then Some (ZST_PAD_PROBE_DROP, g1)
          else if r = ZST_PAD_PROBE_BLOCK \<or> r = ZST_PAD_PROBE_REBLOCK then
            do { g2 \<leftarrow> zst_pad_block p g1;
                 (r, g3) \<leftarrow> pad_handle_block E p buf ty g2;
                 if r \<noteq> ZST_PAD_PROBE_OK then Some (r, g3) else call_probes E cbs p buf ty g3 }
          else call_probes E cbs p buf ty g1 }"

text \<open>More than eight callbacks are collected in two allocated arrays; without memory none is called.\<close>

definition pad_run_probes ::
    "pad_env \<Rightarrow> addr \<Rightarrow> addr option \<Rightarrow> probe_type \<Rightarrow> pad_graph \<Rightarrow> (probe_return \<times> pad_graph) option" where
  "pad_run_probes E p buf ty g =
     do { x \<leftarrow> pads g p;
          if \<not> pd_blocked x \<and> pd_has_probes x = 0 then Some (ZST_PAD_PROBE_OK, g)
          else
            do { (r, g1) \<leftarrow> pad_handle_block E p buf ty g;
                 if r \<noteq> ZST_PAD_PROBE_OK then Some (r, g1)
                 else
                   do { y \<leftarrow> pads g1 p;
                        (let cbs = map pr_callback (filter (\<lambda>q. pr_types q AND probe_bit ty \<noteq> 0) (pd_probes y))
                         in if length cbs \<le> 8 then call_probes E cbs p buf ty g1
                            else (case alloc (script (eheap g1)) of (a, m) \<Rightarrow>
                                   (case alloc m of (b, m1) \<Rightarrow>
                                      if a \<noteq> None \<or> b \<noteq> None then Some (ZST_PAD_PROBE_OK, set_script m1 g1)
                                      else call_probes E cbs p buf ty (set_script m1 g1)))) } } }"

section \<open>Segments\<close>

definition in_segment :: "zst_segment \<Rightarrow> zst_buffer \<Rightarrow> bool" where
  "in_segment s b \<longleftrightarrow>
     (let e = (if duration b > 0 then pts b + duration b else pts b)
      in (if duration b > 0 then \<not> e \<le> seg_start s else \<not> pts b < seg_start s) \<and>
         \<not> (seg_stop s \<noteq> - 1 \<and> pts b \<ge> seg_stop s))"

definition pad_buffer_in_segment :: "zst_pad \<Rightarrow> zst_buffer \<Rightarrow> bool" where
  "pad_buffer_in_segment x b \<longleftrightarrow> flags b AND 1 \<noteq> 0 \<or> \<not> pd_has_segment x \<or> in_segment (pd_segment x) b"

definition zst_pad_set_segment :: "addr \<Rightarrow> zst_segment \<Rightarrow> pad_graph \<Rightarrow> (zst_result \<times> pad_graph) option" where
  "zst_pad_set_segment p s g =
     do { x \<leftarrow> pads g p;
          (let s1 = (if fp_eq (seg_rate s) fp_zero then s\<lparr>seg_rate := Fp_num 1\<rparr> else s);
               x1 = x\<lparr>pd_segment := s1\<rparr>
           in if seg_stop s1 \<noteq> - 1 \<and> seg_stop s1 < seg_start s1 then Some (ZST_ERROR, put_pad p x1 g)
              else Some (ZST_OK, put_pad p (x1\<lparr>pd_has_segment := True\<rparr>) g)) }"

definition zst_pad_get_segment :: "addr \<Rightarrow> pad_graph \<Rightarrow> (zst_result \<times> zst_segment option) option" where
  "zst_pad_get_segment p g =
     do { x \<leftarrow> pads g p; Some (if pd_has_segment x then (ZST_OK, Some (pd_segment x)) else (ZST_ERROR, None)) }"

definition zst_pad_clear_segment :: "addr \<Rightarrow> pad_graph \<Rightarrow> pad_graph option" where
  "zst_pad_clear_segment p = upd_pad p (\<lambda>x. x\<lparr>pd_has_segment := False, pd_segment := zst_segment_default,
     pd_spillover_policy := ZST_SPILLOVER_BLOCK\<rparr>)"

definition zst_pad_set_unlinked_policy :: "addr \<Rightarrow> unlinked_policy \<Rightarrow> u32 \<Rightarrow> pad_graph \<Rightarrow> pad_graph option" where
  "zst_pad_set_unlinked_policy p pol n = upd_pad p (\<lambda>x. x\<lparr>pd_unlinked_policy := pol, pd_max_queued := n, pd_queued_count := 0\<rparr>)"

section \<open>Snapshots of the pads of an element\<close>

fun ref_pads :: "addr list \<Rightarrow> pad_graph \<Rightarrow> pad_graph option" where
  "ref_pads [] g = Some g"
| "ref_pads (p # ps) g = do { g1 \<leftarrow> pad_ref p g; ref_pads ps g1 }"

text \<open>\<open>zst_element_snapshot_src_pads\<close> and its twin for sink pads; \<open>None\<close> inside is the error.\<close>

definition snapshot_pads :: "addr list \<Rightarrow> pad_graph \<Rightarrow> (addr list option \<times> pad_graph) option" where
  "snapshot_pads ps g =
     (if ps = [] then Some (Some [], g)
      else (case alloc (script (eheap g)) of
              (Some _, m) \<Rightarrow> Some (None, set_script m g)
            | (None, m) \<Rightarrow> do { g1 \<leftarrow> ref_pads ps (set_script m g); Some (Some ps, g1) }))"

fun zst_element_pad_snapshot_free :: "addr list \<Rightarrow> pad_graph \<Rightarrow> pad_graph option" where
  "zst_element_pad_snapshot_free [] g = Some g"
| "zst_element_pad_snapshot_free (p # ps) g = do { g1 \<leftarrow> pad_unref p g; zst_element_pad_snapshot_free ps g1 }"

fun for_pads :: "(addr \<Rightarrow> pad_graph \<Rightarrow> (zst_result \<times> pad_graph) option) \<Rightarrow> addr list \<Rightarrow> pad_graph \<Rightarrow> pad_graph option" where
  "for_pads f [] g = Some g"
| "for_pads f (p # ps) g = do { (_, g1) \<leftarrow> f p g; for_pads f ps g1 }"

text \<open>The frame of the propagation loops: snapshot, one call per pad, release.\<close>

definition each_pad :: "(addr \<Rightarrow> pad_graph \<Rightarrow> (zst_result \<times> pad_graph) option) \<Rightarrow> addr list \<Rightarrow> pad_graph \<Rightarrow> pad_graph option" where
  "each_pad f ps g =
     do { (snap, g1) \<leftarrow> snapshot_pads ps g;
          (case snap of None \<Rightarrow> Some g1
           | Some qs \<Rightarrow> do { g2 \<leftarrow> for_pads f qs g1; zst_element_pad_snapshot_free qs g2 }) }"

text \<open>\<open>pad_propagate_segment\<close>; the argument is the number of levels left, 257 at depth 0.\<close>

primrec pad_propagate_segment :: "nat \<Rightarrow> pad_env \<Rightarrow> zst_segment \<Rightarrow> addr \<Rightarrow> pad_graph \<Rightarrow> (zst_result \<times> pad_graph) option" where
  "pad_propagate_segment 0 E s p g = Some (ZST_ERROR, g)"
| "pad_propagate_segment (Suc r) E s p g =
     do { (pr, g1) \<leftarrow> pad_run_probes E p None ZST_PAD_PROBE_PRE_EVENT g;
          if pr = ZST_PAD_PROBE_DROP then Some (ZST_OK, g1)
          else
            do { (_, g2) \<leftarrow> zst_pad_set_segment p s g1;
                 x \<leftarrow> pads g2 p;
                 (peer, g3) \<leftarrow> (if pd_direction x = ZST_PAD_SRC then ref_peer p g2 else Some (None, g2));
                 g6 \<leftarrow> (case peer of None \<Rightarrow> Some g3
                   | Some q \<Rightarrow>
                       do { (pr2, g4) \<leftarrow> pad_run_probes E q None ZST_PAD_PROBE_PRE_EVENT g3;
                            g4a \<leftarrow> (if pr2 \<noteq> ZST_PAD_PROBE_DROP then
                                     do { (_, ga) \<leftarrow> zst_pad_set_segment q s g4;
                                          (_, gb) \<leftarrow> pad_run_probes E q None ZST_PAD_PROBE_POST_EVENT ga;
                                          Some gb }
                                   else Some g4);
                            y \<leftarrow> pads g4a q;
                            g5 \<leftarrow> (case pd_parent y of None \<Rightarrow> Some g4a
                              | Some d \<Rightarrow> do { el \<leftarrow> elements g4a d;
                                              each_pad (pad_propagate_segment r E s) (pe_src_pads el) g4a });
                            pad_unref q g5 });
                 (_, g7) \<leftarrow> pad_run_probes E p None ZST_PAD_PROBE_POST_EVENT g6;
                 Some (ZST_OK, g7) } }"

definition zst_pad_push_segment :: "pad_env \<Rightarrow> zst_segment \<Rightarrow> addr \<Rightarrow> pad_graph \<Rightarrow> (zst_result \<times> pad_graph) option" where
  "zst_pad_push_segment E s p g =
     do { x \<leftarrow> pads g p;
          if pd_direction x \<noteq> ZST_PAD_SRC then Some (ZST_ERROR, g) else pad_propagate_segment 257 E s p g }"

section \<open>Events along the pads\<close>

definition pad_event_at :: "addr \<Rightarrow> pad_graph \<Rightarrow> pad_event option" where
  "pad_event_at a g = (case blocks (eheap g) a of Some (Block_pad_event e) \<Rightarrow> Some e | _ \<Rightarrow> None)"

text \<open>The capabilities an event carries, when it is of that type and has any.\<close>

definition event_caps :: "pad_event \<Rightarrow> pad_graph \<Rightarrow> zst_caps option" where
  "event_caps e g = (case Option.bind (pe_owned e) (blocks (eheap g)) of Some (Block_caps c) \<Rightarrow> Some c | _ \<Rightarrow> None)"

text \<open>Replacing a sticky event: the new one is referenced before the old one is dropped.\<close>

definition swap_sticky :: "addr \<Rightarrow> addr option \<Rightarrow> pad_graph \<Rightarrow> pad_graph" where
  "swap_sticky ev old g = g\<lparr>eheap := zst_pad_event_unref old (snd (zst_pad_event_ref (Some ev) (eheap g)))\<rparr>"

definition store_sticky :: "addr \<Rightarrow> addr \<Rightarrow> pad_event \<Rightarrow> pad_graph \<Rightarrow> pad_graph option" where
  "store_sticky p ev e g =
     do { x \<leftarrow> pads g p;
          (case pe_type e of
             ZST_PAD_EVENT_STREAM_START \<Rightarrow>
               Some (swap_sticky ev (pd_sticky_stream_start x) (put_pad p (x\<lparr>pd_sticky_stream_start := Some ev\<rparr>) g))
           | ZST_PAD_EVENT_CAPS \<Rightarrow>
               (let g1 = swap_sticky ev (pd_sticky_caps x) (put_pad p (x\<lparr>pd_sticky_caps := Some ev\<rparr>) g)
                in case event_caps e g1 of None \<Rightarrow> Some g1
                   | Some c \<Rightarrow> do { (_, g2) \<leftarrow> zst_pad_set_caps p (Some c) g1; Some g2 })
           | ZST_PAD_EVENT_SEGMENT \<Rightarrow>
               (case pe_as e of
                  Pad_as_segment s \<Rightarrow>
                    Some (swap_sticky ev (pd_sticky_segment x)
                      (put_pad p (x\<lparr>pd_sticky_segment := Some ev, pd_segment := s, pd_has_segment := True\<rparr>) g))
                | _ \<Rightarrow> None)
           | _ \<Rightarrow> Some g) }"

definition zst_ghost_pad_get_target :: "zst_pad \<Rightarrow> addr option" where
  "zst_ghost_pad_get_target x = (case pd_priv x of Ghost_priv t proxy eos \<Rightarrow> t | _ \<Rightarrow> None)"

text \<open>What passing pads take over from an event.\<close>

definition apply_event :: "pad_event \<Rightarrow> addr \<Rightarrow> pad_graph \<Rightarrow> pad_graph option" where
  "apply_event e p g =
     (case (pe_type e, pe_as e) of
        (ZST_PAD_EVENT_CAPS, _) \<Rightarrow>
          (case event_caps e g of None \<Rightarrow> Some g | Some c \<Rightarrow> do { (_, g1) \<leftarrow> zst_pad_set_caps p (Some c) g; Some g1 })
      | (ZST_PAD_EVENT_SEGMENT, Pad_as_segment s) \<Rightarrow> upd_pad p (\<lambda>x. x\<lparr>pd_segment := s, pd_has_segment := True\<rparr>) g
      | _ \<Rightarrow> Some g)"

partial_function (option) resolve_ghosts :: "pad_event option \<Rightarrow> addr \<Rightarrow> pad_graph \<Rightarrow> (addr \<times> pad_graph) option" where
  "resolve_ghosts e p g =
     do { g1 \<leftarrow> (case e of None \<Rightarrow> Some g | Some ev \<Rightarrow> apply_event ev p g);
          x \<leftarrow> pads g1 p;
          (case zst_ghost_pad_get_target x of
             None \<Rightarrow> Some (p, g1)
           | Some t \<Rightarrow> do { g2 \<leftarrow> pad_ref t g1; g3 \<leftarrow> pad_unref p g2; resolve_ghosts e t g3 }) }"

declare resolve_ghosts.simps [code]

text \<open>The ghost pad behind the proxy sink of a source ghost pad.\<close>

definition proxied_ghost :: "zst_pad \<Rightarrow> addr option" where
  "proxied_ghost x =
     (if pd_parent x = None \<and> pd_name x = Some ''ghost-proxy-sink''
      then (case pd_priv x of Proxy_priv gh \<Rightarrow> Some gh | _ \<Rightarrow> None) else None)"

text \<open>
  \<open>zst_pad_push_event_internal\<close>; the first argument is the number of levels left, 257 at depth 0.  \<open>deliver\<close> is
  its last part, at the pad that takes the event.
\<close>

definition deliver :: "pad_env \<Rightarrow> (addr \<Rightarrow> pad_graph \<Rightarrow> (zst_result \<times> pad_graph) option) \<Rightarrow> addr \<Rightarrow> addr \<Rightarrow> addr \<Rightarrow> pad_graph
    \<Rightarrow> (zst_result \<times> pad_graph) option" where
  "deliver E forward ev src q g =
     do { (pr, g1) \<leftarrow> pad_run_probes E q None ZST_PAD_PROBE_PRE_EVENT g;
          if pr = ZST_PAD_PROBE_DROP then
            do { g2 \<leftarrow> pad_unref q g1;
                 (_, g3) \<leftarrow> pad_run_probes E src None ZST_PAD_PROBE_POST_EVENT g2;
                 Some (ZST_OK, g3) }
          else
            do { y \<leftarrow> pads g1 q;
                 (ret, g2) \<leftarrow> (case pd_parent y of None \<Rightarrow> Some (ZST_OK, g1)
                   | Some d \<Rightarrow> (case env_event E d of
                        Some f \<Rightarrow> f q ev g1
                      | None \<Rightarrow> do { el \<leftarrow> elements g1 d; ga \<leftarrow> each_pad forward (pe_src_pads el) g1; Some (ZST_OK, ga) }));
                 (_, g3) \<leftarrow> pad_run_probes E q None ZST_PAD_PROBE_POST_EVENT g2;
                 g4 \<leftarrow> pad_unref q g3;
                 if ret \<noteq> ZST_OK then Some (ret, g4)
                 else do { (_, g5) \<leftarrow> pad_run_probes E src None ZST_PAD_PROBE_POST_EVENT g4; Some (ZST_OK, g5) } } }"

primrec zst_pad_push_event_internal :: "nat \<Rightarrow> pad_env \<Rightarrow> addr \<Rightarrow> addr \<Rightarrow> pad_graph \<Rightarrow> (zst_result \<times> pad_graph) option" where
  "zst_pad_push_event_internal 0 E ev src g = Some (ZST_ERROR, g)"
| "zst_pad_push_event_internal (Suc r) E ev src g =
     do { x \<leftarrow> pads g src;
          if pd_direction x \<noteq> ZST_PAD_SRC then Some (ZST_ERROR, g)
          else
            do { e \<leftarrow> pad_event_at ev g;
                 g1 \<leftarrow> store_sticky src ev e g;
                 (pr, g2) \<leftarrow> pad_run_probes E src None ZST_PAD_PROBE_PRE_EVENT g1;
                 if pr = ZST_PAD_PROBE_DROP then Some (ZST_OK, g2)
                 else
                   do { (peer, g3) \<leftarrow> ref_peer src g2;
                        (case peer of
                           None \<Rightarrow> do { (_, g4) \<leftarrow> pad_run_probes E src None ZST_PAD_PROBE_POST_EVENT g3; Some (ZST_OK, g4) }
                         | Some q \<Rightarrow>
                             do { y \<leftarrow> pads g3 q;
                                  (case proxied_ghost y of
                                     Some gh \<Rightarrow> do { g4 \<leftarrow> pad_unref q g3; zst_pad_push_event_internal r E ev gh g4 }
                                   | None \<Rightarrow>
                                       do { (q', g4) \<leftarrow> resolve_ghosts (Some e) q g3;
                                            deliver E (zst_pad_push_event_internal r E ev) ev src q' g4 }) }) } } }"

definition zst_pad_push_event :: "pad_env \<Rightarrow> addr \<Rightarrow> addr \<Rightarrow> pad_graph \<Rightarrow> (zst_result \<times> pad_graph) option" where
  "zst_pad_push_event E src ev g = zst_pad_push_event_internal 257 E ev src g"

text \<open>Events against the stream, from a sink pad to the elements that feed it.\<close>

fun find_ghost :: "addr \<Rightarrow> addr list \<Rightarrow> pad_graph \<Rightarrow> addr option option" where
  "find_ghost p [] g = Some None"
| "find_ghost p (q # qs) g =
     do { x \<leftarrow> pads g q; if zst_ghost_pad_get_target x = Some p then Some (Some q) else find_ghost p qs g }"

definition deliver_upstream :: "pad_env \<Rightarrow> (addr \<Rightarrow> pad_graph \<Rightarrow> (zst_result \<times> pad_graph) option) \<Rightarrow> addr \<Rightarrow> addr \<Rightarrow> addr \<Rightarrow> pad_graph
    \<Rightarrow> (zst_result \<times> pad_graph) option" where
  "deliver_upstream E forward ev sink q g =
     do { (pr, g1) \<leftarrow> pad_run_probes E q None ZST_PAD_PROBE_PRE_EVENT g;
          if pr = ZST_PAD_PROBE_DROP then
            do { g2 \<leftarrow> pad_unref q g1;
                 (_, g3) \<leftarrow> pad_run_probes E sink None ZST_PAD_PROBE_POST_EVENT g2;
                 Some (ZST_OK, g3) }
          else
            do { y \<leftarrow> pads g1 q;
                 (ret, g2) \<leftarrow> (case pd_parent y of None \<Rightarrow> Some (ZST_ERROR, g1)
                   | Some d \<Rightarrow>
                       do { (r, ga) \<leftarrow> (case env_event E d of None \<Rightarrow> Some (ZST_ERROR, g1) | Some f \<Rightarrow> f q ev g1);
                            if r \<noteq> ZST_OK then do { el \<leftarrow> elements ga d; gb \<leftarrow> each_pad forward (pe_sink_pads el) ga; Some (ZST_OK, gb) }
                            else Some (ZST_OK, ga) });
                 (_, g3) \<leftarrow> pad_run_probes E q None ZST_PAD_PROBE_POST_EVENT g2;
                 g4 \<leftarrow> pad_unref q g3;
                 if ret \<noteq> ZST_OK then Some (ret, g4)
                 else do { (_, g5) \<leftarrow> pad_run_probes E sink None ZST_PAD_PROBE_POST_EVENT g4; Some (ZST_OK, g5) } } }"

primrec zst_pad_push_event_upstream_internal :: "nat \<Rightarrow> pad_env \<Rightarrow> addr \<Rightarrow> addr \<Rightarrow> pad_graph \<Rightarrow> (zst_result \<times> pad_graph) option" where
  "zst_pad_push_event_upstream_internal 0 E ev sink g = Some (ZST_ERROR, g)"
| "zst_pad_push_event_upstream_internal (Suc r) E ev sink g =
     do { x \<leftarrow> pads g sink;
          if pd_direction x \<noteq> ZST_PAD_SINK then Some (ZST_ERROR, g)
          else
            do { (pr, g1) \<leftarrow> pad_run_probes E sink None ZST_PAD_PROBE_PRE_EVENT g;
                 if pr = ZST_PAD_PROBE_DROP then Some (ZST_OK, g1)
                 else
                   do { (peer, g2) \<leftarrow> ref_peer sink g1;
                        x2 \<leftarrow> pads g2 sink;
                        ghost \<leftarrow> (if peer \<noteq> None then Some None
                          else case pd_parent x2 of None \<Rightarrow> Some None
                            | Some d \<Rightarrow> do { el \<leftarrow> elements g2 d;
                                (case pe_parent_bin el of None \<Rightarrow> Some None
                                 | Some bin \<Rightarrow> do { b \<leftarrow> elements g2 bin; find_ghost sink (pe_sink_pads b) g2 }) });
                        (case (ghost, peer) of
                           (Some gp, _) \<Rightarrow> zst_pad_push_event_upstream_internal r E ev gp g2
                         | (None, None) \<Rightarrow> do { (_, g3) \<leftarrow> pad_run_probes E sink None ZST_PAD_PROBE_POST_EVENT g2; Some (ZST_OK, g3) }
                         | (None, Some q) \<Rightarrow>
                             do { (q', g3) \<leftarrow> resolve_ghosts None q g2;
                                  deliver_upstream E (zst_pad_push_event_upstream_internal r E ev) ev sink q' g3 }) } } }"

definition zst_pad_push_event_upstream :: "pad_env \<Rightarrow> addr \<Rightarrow> addr \<Rightarrow> pad_graph \<Rightarrow> (zst_result \<times> pad_graph) option" where
  "zst_pad_push_event_upstream E sink ev g = zst_pad_push_event_upstream_internal 257 E ev sink g"

text \<open>Replaying the sticky events: each slot is read when its turn comes.\<close>

definition replay_slot :: "nat \<Rightarrow> pad_env \<Rightarrow> addr \<Rightarrow> (zst_pad \<Rightarrow> addr option) \<Rightarrow> pad_graph \<Rightarrow> pad_graph option" where
  "replay_slot r E p slot g =
     do { x \<leftarrow> pads g p;
          (case slot x of None \<Rightarrow> Some g | Some ev \<Rightarrow> do { (_, g1) \<leftarrow> zst_pad_push_event_internal r E ev p g; Some g1 }) }"

definition replay_sticky :: "nat \<Rightarrow> pad_env \<Rightarrow> addr \<Rightarrow> pad_graph \<Rightarrow> pad_graph option" where
  "replay_sticky r E p g =
     do { g1 \<leftarrow> replay_slot r E p pd_sticky_stream_start g;
          g2 \<leftarrow> replay_slot r E p pd_sticky_caps g1;
          replay_slot r E p pd_sticky_segment g2 }"

definition zst_pad_push_sticky_events :: "pad_env \<Rightarrow> addr \<Rightarrow> pad_graph \<Rightarrow> (zst_result \<times> pad_graph) option" where
  "zst_pad_push_sticky_events E p g =
     do { x \<leftarrow> pads g p;
          if pd_direction x \<noteq> ZST_PAD_SRC \<or> pd_peer x = None then Some (ZST_ERROR, g)
          else do { g1 \<leftarrow> replay_sticky 256 E p g; Some (ZST_OK, g1) } }"

section \<open>Links\<close>

definition pipeline_of :: "addr \<Rightarrow> pad_graph \<Rightarrow> addr option option" where
  "pipeline_of p g =
     do { x \<leftarrow> pads g p;
          (case pd_parent x of None \<Rightarrow> Some None | Some d \<Rightarrow> map_option pe_pipeline (elements g d)) }"

text \<open>The pipelines of both ends are told that the topology changed, once when they are the same.\<close>

definition mark_dirty :: "addr option \<Rightarrow> addr option \<Rightarrow> pad_graph \<Rightarrow> pad_graph" where
  "mark_dirty a b g =
     g\<lparr>requests := requests g @ (case a of None \<Rightarrow> [] | Some x \<Rightarrow> [Sizing_dirty x])
        @ (case b of None \<Rightarrow> [] | Some y \<Rightarrow> if a = Some y then [] else [Sizing_dirty y])\<rparr>"

definition zst_pad_link :: "pad_env \<Rightarrow> addr \<Rightarrow> addr \<Rightarrow> pad_graph \<Rightarrow> (zst_result \<times> pad_graph) option" where
  "zst_pad_link E src sink g =
     do { x \<leftarrow> pads g src;
          y \<leftarrow> pads g sink;
          if pd_direction x \<noteq> ZST_PAD_SRC \<or> pd_direction y \<noteq> ZST_PAD_SINK then Some (ZST_ERROR, g)
          else
            do { (r, g1) \<leftarrow> zst_pad_negotiate E src sink g;
                 if r \<noteq> ZST_OK then Some (r, g1)
                 else
                   do { x1 \<leftarrow> pads g1 src;
                        y1 \<leftarrow> pads g1 sink;
                        if pd_peer x1 \<noteq> None \<or> pd_peer y1 \<noteq> None then Some (ZST_ERROR, g1)
                        else
                          do { g2 \<leftarrow> pad_ref sink g1;
                               g3 \<leftarrow> pad_ref src g2;
                               g4 \<leftarrow> upd_pad src (\<lambda>x. x\<lparr>pd_peer := Some sink, pd_linked := True\<rparr>) g3;
                               g5 \<leftarrow> upd_pad sink (\<lambda>x. x\<lparr>pd_peer := Some src, pd_linked := True\<rparr>) g4;
                               g6 \<leftarrow> replay_sticky 257 E src g5;
                               a \<leftarrow> pipeline_of src g6;
                               b \<leftarrow> pipeline_of sink g6;
                               Some (ZST_OK, mark_dirty a b g6) } } } }"

definition zst_pad_unlink :: "addr \<Rightarrow> pad_graph \<Rightarrow> pad_graph option" where
  "zst_pad_unlink p g =
     do { (peer, g1) \<leftarrow> ref_peer p g;
          (case peer of None \<Rightarrow> Some g1
           | Some q \<Rightarrow>
               do { a \<leftarrow> pipeline_of p g1;
                    b \<leftarrow> pipeline_of q g1;
                    g2 \<leftarrow> upd_pad p (\<lambda>x. x\<lparr>pd_peer := None, pd_linked := False\<rparr>) g1;
                    g3 \<leftarrow> upd_pad q (\<lambda>y. if pd_peer y = Some p then y\<lparr>pd_peer := None, pd_linked := False\<rparr> else y) g2;
                    g4 \<leftarrow> pad_unref q (mark_dirty a b g3);
                    g5 \<leftarrow> pad_unref p g4;
                    pad_unref q g5 }) }"

section \<open>Ghost pads\<close>

definition zst_ghost_pad_set_target :: "pad_env \<Rightarrow> addr \<Rightarrow> addr \<Rightarrow> pad_graph \<Rightarrow> (zst_result \<times> pad_graph) option" where
  "zst_ghost_pad_set_target E gh target g =
     do { x \<leftarrow> pads g gh;
          (case pd_priv x of
             Ghost_priv t proxy eos \<Rightarrow>
               do { y \<leftarrow> pads g target;
                    if pd_direction x \<noteq> pd_direction y then Some (ZST_ERROR, g)
                    else
                      do { g1 \<leftarrow> (case proxy of None \<Rightarrow> Some g | Some q \<Rightarrow> pad_unref q g);
                           g2 \<leftarrow> upd_pad gh (\<lambda>x. x\<lparr>pd_priv := Ghost_priv (Some target) None False\<rparr>) g1;
                           if pd_direction y \<noteq> ZST_PAD_SRC then Some (ZST_OK, g2)
                           else (case zst_pad_create (Some ''ghost-proxy-sink'') ZST_PAD_SINK g2 of
                                   (None, g3) \<Rightarrow>
                                     do { g4 \<leftarrow> upd_pad gh (\<lambda>x. x\<lparr>pd_priv := Ghost_priv None None False\<rparr>) g3; Some (ZST_ERROR, g4) }
                                 | (Some q, g3) \<Rightarrow>
                                     do { g4 \<leftarrow> upd_pad q (\<lambda>x. x\<lparr>pd_push := Some Ghost_src_proxy_push, pd_pull := None, pd_priv := Proxy_priv gh\<rparr>) g3;
                                          (r, g5) \<leftarrow> zst_pad_link E target q g4;
                                          if r \<noteq> ZST_OK then
                                            do { g6 \<leftarrow> upd_pad q (\<lambda>x. x\<lparr>pd_priv := No_priv\<rparr>) g5;
                                                 g7 \<leftarrow> pad_unref q g6;
                                                 g8 \<leftarrow> upd_pad gh (\<lambda>x. x\<lparr>pd_priv := Ghost_priv None None False\<rparr>) g7;
                                                 Some (ZST_ERROR, g8) }
                                          else do { g6 \<leftarrow> upd_pad gh (\<lambda>x. x\<lparr>pd_priv := Ghost_priv (Some target) (Some q) False\<rparr>) g5;
                                                    Some (ZST_OK, g6) } }) } }
           | _ \<Rightarrow> Some (ZST_ERROR, g)) }"

definition zst_ghost_pad_create :: "pad_env \<Rightarrow> string option \<Rightarrow> addr \<Rightarrow> pad_graph \<Rightarrow> (addr option \<times> pad_graph) option" where
  "zst_ghost_pad_create E name target g =
     do { y \<leftarrow> pads g target;
          (case zst_pad_create name (pd_direction y) g of
             (None, g1) \<Rightarrow> Some (None, g1)
           | (Some p, g1) \<Rightarrow>
               (case alloc (script (eheap g1)) of
                  (Some _, m) \<Rightarrow> do { g2 \<leftarrow> pad_unref p (set_script m g1); Some (None, g2) }
                | (None, m) \<Rightarrow>
                    do { g2 \<leftarrow> upd_pad p (\<lambda>x. if pd_direction y = ZST_PAD_SINK
                               then x\<lparr>pd_priv := Ghost_priv None None False, pd_push := Some Ghost_sink_push, pd_pull := None\<rparr>
                               else x\<lparr>pd_priv := Ghost_priv None None False, pd_pull := Some Ghost_src_pull, pd_push := None\<rparr>) (set_script m g1);
                         (r, g3) \<leftarrow> zst_ghost_pad_set_target E p target g2;
                         if r \<noteq> ZST_OK then do { g4 \<leftarrow> pad_unref p g3; Some (None, g4) } else Some (Some p, g3) })) }"

section \<open>Buffers along the links\<close>

partial_function (option) wait_linked :: "pad_env \<Rightarrow> addr \<Rightarrow> pad_graph \<Rightarrow> (addr option \<times> pad_graph) option" where
  "wait_linked E p g =
     do { (peer, g1) \<leftarrow> ref_peer p g;
          if peer \<noteq> None then Some (peer, g1)
          else do { y \<leftarrow> pads (wake E g1) p;
                    if env_timeout E (wakeups g1) \<and> pd_peer y = None then Some (None, wake E g1)
                    else wait_linked E p (wake E g1) } }"

declare wait_linked.simps [code]

text \<open>The peer a push goes to, or the result the policy for unlinked pads gives.\<close>

definition push_peer :: "pad_env \<Rightarrow> addr \<Rightarrow> pad_graph \<Rightarrow> ((zst_result + addr) \<times> pad_graph) option" where
  "push_peer E p g =
     do { x \<leftarrow> pads g p;
          (peer, g1) \<leftarrow> ref_peer p g;
          (case peer of Some q \<Rightarrow> Some (Inr q, g1)
           | None \<Rightarrow> (case pd_unlinked_policy x of
                ZST_PAD_UNLINKED_DROP \<Rightarrow> Some (Inl ZST_OK, g1)
              | ZST_PAD_UNLINKED_BLOCK \<Rightarrow>
                  do { (r, g2) \<leftarrow> wait_linked E p g1;
                       Some (case r of None \<Rightarrow> Inl ZST_TIMEOUT | Some q \<Rightarrow> Inr q, g2) }
              | ZST_PAD_UNLINKED_QUEUE \<Rightarrow>
                  if pd_queued_count x < pd_max_queued x
                  then Some (Inl ZST_OK, put_pad p (x\<lparr>pd_queued_count := pd_queued_count x + 1\<rparr>) g1)
                  else Some (Inl ZST_ERROR, g1)
              | ZST_PAD_UNLINKED_ERROR \<Rightarrow> Some (Inl ZST_ERROR, g1))) }"

definition clock_of :: "addr option \<Rightarrow> pad_graph \<Rightarrow> addr option option" where
  "clock_of parent g = (case parent of None \<Rightarrow> Some None | Some d \<Rightarrow> map_option pe_clock (elements g d))"

text \<open>The interarrival jitter of RFC 3550; the transit time is a signed difference kept in an unsigned field.\<close>

definition update_jitter :: "pad_env \<Rightarrow> zst_time \<Rightarrow> zst_time \<Rightarrow> zst_pad \<Rightarrow> zst_pad" where
  "update_jitter E R S x =
     (if pd_jitter_buffer_count x > 0 then
        (let transit = R - S;
             diff = sint (transit - pd_last_transit_time x);
             d = sint (if diff < 0 then - (transit - pd_last_transit_time x) else transit - pd_last_transit_time x);
             j = pd_media_jitter_ns x;
             rnd = env_round E
         in x\<lparr>pd_media_jitter_ns := rnd (j + rnd (rnd (rnd (of_int d) - j) / 16)), pd_last_transit_time := transit,
              pd_jitter_buffer_count := pd_jitter_buffer_count x + 1\<rparr>)
      else x\<lparr>pd_last_transit_time := R - S, pd_jitter_buffer_count := pd_jitter_buffer_count x + 1\<rparr>)"

definition track_jitter :: "pad_env \<Rightarrow> addr \<Rightarrow> zst_buffer \<Rightarrow> pad_graph \<Rightarrow> pad_graph option" where
  "track_jitter E p b g =
     do { x \<leftarrow> pads g p;
          c \<leftarrow> clock_of (pd_parent x) g;
          (case c of None \<Rightarrow> Some g
           | Some k \<Rightarrow> if pts b \<noteq> - 1 \<and> pts b \<noteq> 0 \<and> flags b AND 1 = 0
                      then upd_pad p (update_jitter E (env_time E k g) (pts b)) g else Some g) }"

definition zst_pad_get_media_jitter :: "addr \<Rightarrow> pad_graph \<Rightarrow> rat option" where
  "zst_pad_get_media_jitter p g = map_option pd_media_jitter_ns (pads g p)"

text \<open>What a sink makes of a buffer's timestamp: render it, wait first, or drop it because it is late.\<close>

datatype qos = Qos_render | Qos_wait zst_time | Qos_drop

definition qos_decision :: "zst_time \<Rightarrow> zst_time \<Rightarrow> qos" where
  "qos_decision current t =
     (if t > current + 5000000 then (if t - current < 5000000000 then Qos_wait (t - current) else Qos_render)
      else if t < current - 100000000 then (if current - t < 5000000000 then Qos_drop else Qos_render)
      else Qos_render)"

definition first_pad_ref :: "addr list \<Rightarrow> pad_graph \<Rightarrow> (addr option \<times> pad_graph) option" where
  "first_pad_ref ps g = (case ps of [] \<Rightarrow> Some (None, g) | p # _ \<Rightarrow> do { g1 \<leftarrow> pad_ref p g; Some (Some p, g1) })"

definition request :: "request list \<Rightarrow> pad_graph \<Rightarrow> pad_graph" where
  "request rs g = g\<lparr>requests := requests g @ rs\<rparr>"

definition post :: "addr option \<Rightarrow> (addr \<Rightarrow> request) \<Rightarrow> pad_graph \<Rightarrow> pad_graph" where
  "post bus r g = (case bus of None \<Rightarrow> g | Some b \<Rightarrow> request [r b] g)"

definition sizing_check :: "addr option \<Rightarrow> addr \<Rightarrow> pad_graph \<Rightarrow> pad_graph" where
  "sizing_check pipe d g = (case pipe of None \<Rightarrow> g | Some k \<Rightarrow> request [Sizing_check k d] g)"

definition is_failure :: "zst_result \<Rightarrow> bool" where
  "is_failure r \<longleftrightarrow> r \<notin> {ZST_OK, ZST_EOF, ZST_TIMEOUT, ZST_AGAIN}"

definition unref_opt :: "addr option \<Rightarrow> pad_graph \<Rightarrow> pad_graph option" where
  "unref_opt p g = (case p of None \<Rightarrow> Some g | Some q \<Rightarrow> pad_unref q g)"

type_synonym pad_push = "addr \<Rightarrow> addr \<Rightarrow> pad_graph \<Rightarrow> (zst_result \<times> pad_graph) option"

text \<open>The processing part of \<open>default_sink_pad_push\<close>, after end of stream, drop marks and lateness.\<close>

definition sink_process :: "pad_env \<Rightarrow> pad_push \<Rightarrow> addr \<Rightarrow> addr option \<Rightarrow> addr \<Rightarrow> pad_graph \<Rightarrow> (zst_result \<times> pad_graph) option" where
  "sink_process E push d first buf g =
     do { el \<leftarrow> elements g d;
          (ret, out, g1) \<leftarrow> (case env_process E d of None \<Rightarrow> Some (ZST_OK, None, sizing_check (pe_pipeline el) d g)
             | Some f \<Rightarrow> f (Some buf) (sizing_check (pe_pipeline el) d g));
          (ret, g2) \<leftarrow> (case (first, out) of
             (Some q, Some ob) \<Rightarrow>
               if ret \<noteq> ZST_OK then Some (ret, g1)
               else do { (r, ga) \<leftarrow> push q ob g1;
                         b \<leftarrow> get_buffer (mem ga) ob;
                         Some (r, if ob \<noteq> buf \<or> refcount b > 1 then ga\<lparr>mem := zst_buffer_unref (Some ob) (mem ga)\<rparr> else ga) }
           | _ \<Rightarrow> Some (ret, g1));
          g3 \<leftarrow> unref_opt first g2;
          (let g4 = (if ret = ZST_OK then sizing_check (pe_pipeline el) d g3 else g3)
           in Some (ret, if is_failure ret then post (pe_bus el) (\<lambda>k. Post_error k d ret) g4 else g4)) }"

definition default_sink_pad_push :: "pad_env \<Rightarrow> pad_push \<Rightarrow> pad_push" where
  "default_sink_pad_push E push p buf g =
     do { x \<leftarrow> pads g p;
          (case pd_parent x of None \<Rightarrow> Some (ZST_ERROR, g)
           | Some d \<Rightarrow>
               do { el \<leftarrow> elements g d;
                    (first, g1) \<leftarrow> first_pad_ref (pe_src_pads el) g;
                    b \<leftarrow> get_buffer (mem g1) buf;
                    if flags b AND 2 \<noteq> 0 \<or> flags b AND 1 \<noteq> 0 then
                      (case first of
                         Some q \<Rightarrow> do { (r, g2) \<leftarrow> push q buf g1; g3 \<leftarrow> pad_unref q g2; Some (r, g3) }
                       | None \<Rightarrow> Some (ZST_OK, if flags b AND 2 \<noteq> 0 then g1 else post (pe_bus el) (\<lambda>k. Post_eos k d) g1))
                    else
                      (let timed = (if first = None \<and> pts b > 0 then pe_clock el else None)
                       in case timed of None \<Rightarrow> sink_process E push d first buf g1
                          | Some k \<Rightarrow> (case qos_decision (env_time E k g1) (pts b) of
                               Qos_drop \<Rightarrow>
                                 Some (ZST_OK, post (pe_bus el) (\<lambda>k. Post_qos k d)
                                   (g1\<lparr>mem := put_buffer buf (b\<lparr>flags := flags b OR 2\<rparr>) (mem g1)\<rparr>))
                             | Qos_wait t \<Rightarrow> sink_process E push d first buf (request [Clock_wait k t] g1)
                             | Qos_render \<Rightarrow> sink_process E push d first buf g1)) }) }"

text \<open>
  \<open>zst_pad_push\<close>; the first argument bounds the number of elements a buffer passes in one call, since a cycle
  of links would not end.
\<close>

primrec zst_pad_push :: "nat \<Rightarrow> pad_env \<Rightarrow> pad_push" where
  "zst_pad_push 0 E p buf g = None"
| "zst_pad_push (Suc n) E p buf g =
     do { x \<leftarrow> pads g p;
          if pd_direction x \<noteq> ZST_PAD_SRC then Some (ZST_ERROR, g)
          else
            do { (target, g1) \<leftarrow> push_peer E p g;
                 (case target of Inl r \<Rightarrow> Some (r, g1)
                  | Inr q \<Rightarrow>
                      do { b \<leftarrow> get_buffer (mem g1) buf;
                           x1 \<leftarrow> pads g1 p;
                           y1 \<leftarrow> pads g1 q;
                           if \<not> pad_buffer_in_segment x1 b \<or> \<not> pad_buffer_in_segment y1 b
                           then do { g2 \<leftarrow> pad_unref q g1; Some (ZST_OK, g2) }
                           else
                             do { g2 \<leftarrow> track_jitter E p b g1;
                                  (r1, g3) \<leftarrow> pad_run_probes E p (Some buf) ZST_PAD_PROBE_PRE_BUFFER g2;
                                  if r1 = ZST_PAD_PROBE_DROP then do { g4 \<leftarrow> pad_unref q g3; Some (ZST_OK, g4) }
                                  else
                                    do { (r2, g4) \<leftarrow> pad_run_probes E q (Some buf) ZST_PAD_PROBE_PRE_BUFFER g3;
                                         if r2 = ZST_PAD_PROBE_DROP then do { g5 \<leftarrow> pad_unref q g4; Some (ZST_OK, g5) }
                                         else
                                           do { y \<leftarrow> pads g4 q;
                                                (ret, g5) \<leftarrow> (case pd_push y of
                                                   None \<Rightarrow> Some (ZST_ERROR, g4)
                                                 | Some Default_sink_pad_push \<Rightarrow> default_sink_pad_push E (zst_pad_push n E) q buf g4
                                                 | Some f \<Rightarrow> env_push E f q buf g4);
                                                g7 \<leftarrow> (if ret \<noteq> ZST_OK then Some g5
                                                  else do { (_, g6) \<leftarrow> pad_run_probes E q (Some buf) ZST_PAD_PROBE_POST_BUFFER g5;
                                                            (_, g7) \<leftarrow> pad_run_probes E p (Some buf) ZST_PAD_PROBE_POST_BUFFER g6;
                                                            Some g7 });
                                                g8 \<leftarrow> pad_unref q g7;
                                                Some (ret, g8) } } } }) } }"

text \<open>The checks a pulled buffer passes, in the order of the code; the first refusal ends them.\<close>

fun run_checks :: "pad_env \<Rightarrow> addr \<Rightarrow> (addr \<times> probe_type) list \<Rightarrow> pad_graph \<Rightarrow> (bool \<times> pad_graph) option" where
  "run_checks E buf [] g = Some (True, g)"
| "run_checks E buf ((p, ty) # cs) g =
     do { (r, g1) \<leftarrow> pad_run_probes E p (Some buf) ty g;
          if r = ZST_PAD_PROBE_DROP then Some (False, g1) else run_checks E buf cs g1 }"

definition default_src_pad_pull ::
    "pad_env \<Rightarrow> (addr \<Rightarrow> pad_graph \<Rightarrow> (zst_result \<times> addr option \<times> pad_graph) option) \<Rightarrow> addr \<Rightarrow> pad_graph \<Rightarrow> (zst_result \<times> addr option \<times> pad_graph) option" where
  "default_src_pad_pull E pull p g =
     do { x \<leftarrow> pads g p;
          (case pd_parent x of None \<Rightarrow> Some (ZST_ERROR, None, g)
           | Some d \<Rightarrow>
               do { el \<leftarrow> elements g d;
                    (first, g1) \<leftarrow> first_pad_ref (pe_sink_pads el) (sizing_check (pe_pipeline el) d g);
                    (res, inb, g2) \<leftarrow> (case first of None \<Rightarrow> Some (ZST_OK, None, g1) | Some q \<Rightarrow> pull q g1);
                    if res \<noteq> ZST_OK then
                      do { g3 \<leftarrow> unref_opt first (if is_failure res then post (pe_bus el) (\<lambda>k. Post_error k d res) g2 else g2);
                           Some (res, None, g3) }
                    else
                      do { ended \<leftarrow> (case inb of None \<Rightarrow> Some False
                             | Some a \<Rightarrow> map_option (\<lambda>b. flags b AND 1 \<noteq> 0) (get_buffer (mem g2) a));
                           if ended then do { g3 \<leftarrow> unref_opt first g2; Some (ZST_OK, inb, g3) }
                           else
                             do { (ret, out, g3) \<leftarrow> (case env_process E d of None \<Rightarrow> Some (ZST_OK, None, g2) | Some f \<Rightarrow> f inb g2);
                                  g4 \<leftarrow> unref_opt first (g3\<lparr>mem := zst_buffer_unref inb (mem g3)\<rparr>);
                                  Some (if ret = ZST_OK then (ZST_OK, out, sizing_check (pe_pipeline el) d g4)
                                        else (ret, None, if is_failure ret then post (pe_bus el) (\<lambda>k. Post_error k d ret) g4 else g4)) } } }) }"

primrec zst_pad_pull :: "nat \<Rightarrow> pad_env \<Rightarrow> addr \<Rightarrow> pad_graph \<Rightarrow> (zst_result \<times> addr option \<times> pad_graph) option" where
  "zst_pad_pull 0 E p g = None"
| "zst_pad_pull (Suc n) E p g =
     do { x \<leftarrow> pads g p;
          if pd_direction x \<noteq> ZST_PAD_SINK then Some (ZST_ERROR, None, g)
          else
            do { (peer, g1) \<leftarrow> ref_peer p g;
                 (case peer of None \<Rightarrow> Some (ZST_ERROR, None, g1)
                  | Some q \<Rightarrow>
                      do { y \<leftarrow> pads g1 q;
                           (ret, out, g2) \<leftarrow> (case pd_pull y of
                              None \<Rightarrow> Some (ZST_ERROR, None, g1)
                            | Some Default_src_pad_pull \<Rightarrow> default_src_pad_pull E (zst_pad_pull n E) q g1
                            | Some f \<Rightarrow> env_pull E f q g1);
                           (case out of
                              None \<Rightarrow> do { g3 \<leftarrow> pad_unref q g2; Some (ret, None, g3) }
                            | Some buf \<Rightarrow>
                                if ret \<noteq> ZST_OK then do { g3 \<leftarrow> pad_unref q g2; Some (ret, Some buf, g3) }
                                else
                                  do { b \<leftarrow> get_buffer (mem g2) buf;
                                       y2 \<leftarrow> pads g2 q;
                                       x2 \<leftarrow> pads g2 p;
                                       (ok, g3) \<leftarrow> (if \<not> pad_buffer_in_segment y2 b \<or> \<not> pad_buffer_in_segment x2 b then Some (False, g2)
                                          else run_checks E buf [(q, ZST_PAD_PROBE_PRE_BUFFER), (p, ZST_PAD_PROBE_PRE_BUFFER),
                                                 (p, ZST_PAD_PROBE_POST_BUFFER), (q, ZST_PAD_PROBE_POST_BUFFER)] g2);
                                       if ok then do { g4 \<leftarrow> pad_unref q g3; Some (ZST_OK, Some buf, g4) }
                                       else do { g4 \<leftarrow> pad_unref q (g3\<lparr>mem := zst_buffer_unref (Some buf) (mem g3)\<rparr>);
                                                 Some (ZST_AGAIN, None, g4) } }) }) } }"

end
