(* ===== verification/Zst_Pad_Links.thy ===== *)
theory Zst_Pad_Links
  imports Zst_Pad
begin

text \<open>
  What the pad code guarantees: links are symmetric and counted, whatever the sequence of calls; negotiation
  leaves both pads with the same fixed capabilities; probes, segments and lateness decisions.
\<close>

section \<open>The invariant of the pad graph\<close>

text \<open>
  \<open>own\<close> says how many references on each pad are held outside the pads.  A pad is \<open>plain\<close> when it is no
  ghost pad, belongs to no element and has seen no sticky event.
\<close>

definition plain :: "zst_pad \<Rightarrow> bool" where
  "plain x \<longleftrightarrow> pd_priv x = No_priv \<and> pd_parent x = None \<and>
     pd_sticky_stream_start x = None \<and> pd_sticky_caps x = None \<and> pd_sticky_segment x = None"

definition mutual :: "addr \<Rightarrow> zst_pad \<Rightarrow> pad_graph \<Rightarrow> bool" where
  "mutual p x g \<longleftrightarrow>
     (case pd_peer x of None \<Rightarrow> \<not> pd_linked x
      | Some q \<Rightarrow> pd_linked x \<and> (\<exists>y. pads g q = Some y \<and> pd_peer y = Some p \<and> pd_direction y \<noteq> pd_direction x))"

definition pad_ok :: "nat \<Rightarrow> addr \<Rightarrow> zst_pad \<Rightarrow> pad_graph \<Rightarrow> bool" where
  "pad_ok n p x g \<longleftrightarrow> plain x \<and> mutual p x g \<and> pd_refcount x = int n + (if pd_peer x = None then 0 else 1) \<and> 0 < pd_refcount x"

definition graph_ok :: "(addr \<Rightarrow> nat) \<Rightarrow> pad_graph \<Rightarrow> bool" where
  "graph_ok own g \<longleftrightarrow> (\<forall>p x. pads g p = Some x \<longrightarrow> pad_ok (own p) p x g) \<and>
     (\<forall>p. 0 < own p \<longrightarrow> pads g p \<noteq> None) \<and> (\<forall>p \<ge> next_addr (eheap g). pads g p = None)"

lemma graph_okD:
  assumes "graph_ok own g" and "pads g p = Some x"
  shows "plain x" "mutual p x g" "pd_refcount x = int (own p) + (if pd_peer x = None then 0 else 1)" "0 < pd_refcount x"
    "p < next_addr (eheap g)"
proof -
  have "pad_ok (own p) p x g" using assms by (simp add: graph_ok_def)
  then show "plain x" "mutual p x g" "pd_refcount x = int (own p) + (if pd_peer x = None then 0 else 1)" "0 < pd_refcount x"
    unfolding pad_ok_def by blast+
  show "p < next_addr (eheap g)"
  proof (rule ccontr)
    assume "\<not> p < next_addr (eheap g)"
    with assms show False by (simp add: graph_ok_def)
  qed
qed

lemma owned_alive: "graph_ok own g \<Longrightarrow> 0 < own p \<Longrightarrow> \<exists>x. pads g p = Some x"
  by (auto simp: graph_ok_def)

lemma peer_alive:
  assumes "graph_ok own g" and "pads g p = Some x" and "pd_peer x = Some q"
  shows "\<exists>y. pads g q = Some y \<and> pd_peer y = Some p \<and> pd_direction y \<noteq> pd_direction x \<and> q \<noteq> p"
  using graph_okD(2) [OF assms(1,2)] assms(2,3) by (auto simp: mutual_def)

lemma pads_put_pad [simp]: "pads (put_pad p x g) = (pads g)(p \<mapsto> x)" "eheap (put_pad p x g) = eheap g"
  "elements (put_pad p x g) = elements g"
  by (simp_all add: put_pad_def)

lemma upd_pad_Some: "pads g p = Some x \<Longrightarrow> upd_pad p f g = Some (put_pad p (f x) g)"
  by (simp add: upd_pad_def)

text \<open>Changing a pad in a way that concerns neither links nor counts.\<close>

definition same_link :: "zst_pad \<Rightarrow> zst_pad \<Rightarrow> bool" where
  "same_link x x' \<longleftrightarrow> pd_peer x' = pd_peer x \<and> pd_linked x' = pd_linked x \<and> pd_direction x' = pd_direction x \<and>
     pd_refcount x' = pd_refcount x \<and> plain x' = plain x"

definition same_links :: "pad_graph \<Rightarrow> pad_graph \<Rightarrow> bool" where
  "same_links g g' \<longleftrightarrow> next_addr (eheap g') = next_addr (eheap g) \<and> (\<forall>p. rel_option same_link (pads g p) (pads g' p))"

lemma same_link_refl [simp]: "same_link x x"
  by (simp add: same_link_def)

lemma same_links_refl [simp]: "same_links g g"
  by (simp add: same_links_def option.rel_refl)

lemma same_links_trans: "same_links g g1 \<Longrightarrow> same_links g1 g2 \<Longrightarrow> same_links g g2"
  unfolding same_links_def
  by (auto intro: option.rel_transp [unfolded transp_def, rule_format, where R = same_link] simp: same_link_def)

lemma same_links_put:
  "pads g p = Some x \<Longrightarrow> same_link x x' \<Longrightarrow> same_links g (put_pad p x' g)"
  by (auto simp: same_links_def option.rel_refl)

lemma same_links_script [simp]: "same_links g (set_script m g)"
  by (simp add: same_links_def option.rel_refl)

lemma same_linksE:
  assumes "same_links g g'" and "pads g' p = Some x'"
  obtains x where "pads g p = Some x" "same_link x x'"
  using assms unfolding same_links_def by (metis option.rel_cases option.distinct(1) option.inject)

lemma same_linksD:
  assumes "same_links g g'" and "pads g p = Some x"
  obtains x' where "pads g' p = Some x'" "same_link x x'"
  using assms unfolding same_links_def by (metis option.rel_cases option.distinct(1) option.inject)

lemma graph_ok_same_links:
  assumes ok: "graph_ok own g" and s: "same_links g g'"
  shows "graph_ok own g'"
proof -
  have "pad_ok (own p) p x' g'"
    if x': "pads g' p = Some x'" for p x'
  proof -
    obtain x where x: "pads g p = Some x" "same_link x x'" using s x' by (rule same_linksE)
    have "mutual p x' g'"
    proof (cases "pd_peer x")
      case None
      then show ?thesis using graph_okD(2) [OF ok x(1)] x(2) by (simp add: mutual_def same_link_def)
    next
      case (Some q)
      then obtain y where y: "pads g q = Some y" "pd_peer y = Some p" "pd_direction y \<noteq> pd_direction x"
        using peer_alive [OF ok x(1)] by blast
      then obtain y' where "pads g' q = Some y'" "same_link y y'" using s same_linksD by blast
      with Some y graph_okD(2) [OF ok x(1)] x(2) show ?thesis by (auto simp: mutual_def same_link_def)
    qed
    with graph_okD [OF ok x(1)] x(2) show ?thesis by (simp add: same_link_def pad_ok_def)
  qed
  moreover have "pads g' p = None \<longleftrightarrow> pads g p = None" for p
    using s by (auto simp: same_links_def elim: option.rel_cases dest: spec [of _ p])
  moreover have "next_addr (eheap g') = next_addr (eheap g)" using s by (simp add: same_links_def)
  ultimately show ?thesis using ok by (simp add: graph_ok_def)
qed

section \<open>References\<close>

lemma mutual_put:
  assumes "pads g p = Some x" and "pd_peer x' = pd_peer x" and "pd_direction x' = pd_direction x"
  shows "mutual q y (put_pad p x' g) = mutual q y g"
  using assms by (auto simp: mutual_def split: option.splits)

lemma mutual_refcount [simp]: "mutual p (x\<lparr>pd_refcount := r\<rparr>) g = mutual p x g"
  by (cases "pd_peer x") (simp_all add: mutual_def)

lemma graph_ok_count:
  assumes ok: "graph_ok own g" and x: "pads g p = Some x" and r: "r = int n + (if pd_peer x = None then 0 else 1)" "0 < r"
  shows "graph_ok (own(p := n)) (put_pad p (x\<lparr>pd_refcount := r\<rparr>) g)"
proof -
  note m = mutual_put [OF x, of "x\<lparr>pd_refcount := r\<rparr>"]
  have "pad_ok ((own(p := n)) q) q y (put_pad p (x\<lparr>pd_refcount := r\<rparr>) g)"
    if "pads (put_pad p (x\<lparr>pd_refcount := r\<rparr>) g) q = Some y" for q y
  proof (cases "q = p")
    case True
    with that have "y = x\<lparr>pd_refcount := r\<rparr>" by simp
    with True r m graph_okD [OF ok x] show ?thesis by (simp add: pad_ok_def plain_def)
  next
    case False
    with that have "pads g q = Some y" by simp
    from graph_okD [OF ok this] m False show ?thesis by (simp add: pad_ok_def)
  qed
  then show ?thesis using ok x by (auto simp: graph_ok_def)
qed

lemma pad_ref_ok:
  assumes "graph_ok own g" and "pads g p = Some x"
  shows "\<exists>g'. pad_ref p g = Some g' \<and> graph_ok (own(p := own p + 1)) g' \<and>
    pads g' = (pads g)(p \<mapsto> x\<lparr>pd_refcount := pd_refcount x + 1\<rparr>)"
proof -
  have "graph_ok (own(p := own p + 1)) (put_pad p (x\<lparr>pd_refcount := pd_refcount x + 1\<rparr>) g)"
    by (rule graph_ok_count [OF assms]) (use graph_okD(3,4) [OF assms] in auto)
  then show ?thesis using assms by (simp add: pad_ref_def upd_pad_Some)
qed

lemma graph_ok_free:
  assumes ok: "graph_ok own g" and x: "pads g p = Some x" and "pd_peer x = None"
  shows "graph_ok (own(p := 0)) (g\<lparr>pads := (pads g)(p := None)\<rparr>)"
proof -
  have "pad_ok (own q) q y (g\<lparr>pads := (pads g)(p := None)\<rparr>)" if y: "pads g q = Some y" "q \<noteq> p" for q y
  proof -
    have "pd_peer y \<noteq> Some p" using peer_alive [OF ok y(1)] x assms(3) by fastforce
    then have "mutual q y (g\<lparr>pads := (pads g)(p := None)\<rparr>)"
      using graph_okD(2) [OF ok y(1)] by (auto simp: mutual_def split: option.splits)
    with graph_okD [OF ok y(1)] show ?thesis by (simp add: pad_ok_def)
  qed
  with ok show ?thesis by (auto simp: graph_ok_def)
qed

lemma pad_unref_ok:
  assumes ok: "graph_ok own g" and "0 < own p"
  shows "\<exists>g'. pad_unref p g = Some g' \<and> graph_ok (own(p := own p - 1)) g' \<and>
    (\<forall>q. q \<noteq> p \<longrightarrow> pads g' q = pads g q) \<and>
    (1 < own p \<longrightarrow> pads g' p = map_option (\<lambda>x. x\<lparr>pd_refcount := pd_refcount x - 1\<rparr>) (pads g p))"
proof -
  obtain x where x: "pads g p = Some x" using owned_alive [OF assms] by blast
  note d = graph_okD [OF ok x]
  show ?thesis
  proof (cases "pd_refcount x = 1")
    case False
    have "graph_ok (own(p := own p - 1)) (put_pad p (x\<lparr>pd_refcount := pd_refcount x - 1\<rparr>) g)"
      by (rule graph_ok_count [OF ok x]) (use d False assms(2) in auto)
    with False x show ?thesis by (subst pad_unref.simps) auto
  next
    case True
    with d(3) assms(2) have n: "pd_peer x = None" "own p = 1" by (auto split: if_splits)
    have p: "pd_priv x = No_priv" "pd_sticky_stream_start x = None" "pd_sticky_caps x = None" "pd_sticky_segment x = None"
      using d(1) by (auto simp: plain_def)
    have "pad_unref p g = Some (g\<lparr>pads := (pads g)(p := None)\<rparr>)"
      using True x n p
      by (subst pad_unref.simps)
        (simp add: detach_peer_def upd_pad_Some free_pad_def zst_pad_event_unref_def, simp add: put_pad_def)
    with graph_ok_free [OF ok x n(1)] n(2) show ?thesis by (auto simp: fun_upd_same)
  qed
qed

section \<open>Links\<close>

text \<open>Linking and unlinking turn references of the caller into references of the link and back.\<close>

lemma graph_ok_join:
  assumes ok: "graph_ok own g" and x: "pads g p = Some x" and y: "pads g q = Some y" and "p \<noteq> q"
    and "pd_peer x = None" "pd_peer y = None" and "pd_direction x \<noteq> pd_direction y" and "0 < own p" "0 < own q"
  shows "graph_ok (own(p := own p - 1, q := own q - 1))
    (put_pad q (y\<lparr>pd_peer := Some p, pd_linked := True\<rparr>) (put_pad p (x\<lparr>pd_peer := Some q, pd_linked := True\<rparr>) g))"
    (is "graph_ok ?own ?g")
proof -
  have "pad_ok (?own r) r z ?g" if z: "pads ?g r = Some z" for r z
  proof -
    consider "r = p" | "r = q" "r \<noteq> p" | "r \<noteq> p" "r \<noteq> q" by blast
    then show ?thesis
    proof cases
      case 1
      with z assms graph_okD [OF ok x] show ?thesis by (auto simp: pad_ok_def plain_def mutual_def)
    next
      case 2
      with z assms graph_okD [OF ok y] show ?thesis by (auto simp: pad_ok_def plain_def mutual_def)
    next
      case 3
      with z have r: "pads g r = Some z" by simp
      then have "pd_peer z \<noteq> Some p" "pd_peer z \<noteq> Some q" using peer_alive [OF ok r] x y assms(5,6) by fastforce+
      with 3 graph_okD [OF ok r] show ?thesis by (auto simp: pad_ok_def mutual_def split: option.splits)
    qed
  qed
  with ok x y show ?thesis by (auto simp: graph_ok_def)
qed

lemma graph_ok_part:
  assumes ok: "graph_ok own g" and x: "pads g p = Some x" and y: "pads g q = Some y" and "pd_peer x = Some q"
  shows "graph_ok (own(p := own p + 1, q := own q + 1))
    (put_pad q (y\<lparr>pd_peer := None, pd_linked := False\<rparr>) (put_pad p (x\<lparr>pd_peer := None, pd_linked := False\<rparr>) g))"
    (is "graph_ok ?own ?g")
proof -
  obtain y' where "pads g q = Some y'" "pd_peer y' = Some p" "pd_direction y' \<noteq> pd_direction x" "q \<noteq> p"
    using peer_alive [OF ok x assms(4)] by blast
  with y have yp: "pd_peer y = Some p" and "q \<noteq> p" by simp_all
  have "pad_ok (?own r) r z ?g" if z: "pads ?g r = Some z" for r z
  proof -
    consider "r = p" | "r = q" "r \<noteq> p" | "r \<noteq> p" "r \<noteq> q" by blast
    then show ?thesis
    proof cases
      case 1
      with z \<open>q \<noteq> p\<close> assms graph_okD [OF ok x] show ?thesis by (auto simp: pad_ok_def plain_def mutual_def)
    next
      case 2
      with z yp graph_okD [OF ok y] show ?thesis by (auto simp: pad_ok_def plain_def mutual_def)
    next
      case 3
      with z have r: "pads g r = Some z" by simp
      then have "pd_peer z \<noteq> Some p" "pd_peer z \<noteq> Some q"
        using peer_alive [OF ok r] x y yp assms(4) 3 by fastforce+
      with 3 graph_okD [OF ok r] show ?thesis by (auto simp: pad_ok_def mutual_def split: option.splits)
    qed
  qed
  with ok x y show ?thesis by (auto simp: graph_ok_def)
qed

lemma mutual_request [simp]: "mutual p x (g\<lparr>requests := rs\<rparr>) = mutual p x g"
  by (cases "pd_peer x") (simp_all add: mutual_def)

lemma graph_ok_request [simp]: "graph_ok own (g\<lparr>requests := rs\<rparr>) = graph_ok own g"
  by (simp add: graph_ok_def pad_ok_def)

lemma mark_dirty_simps [simp]: "graph_ok own (mark_dirty a b g) = graph_ok own g" "pads (mark_dirty a b g) = pads g"
  by (simp_all add: mark_dirty_def)

lemma set_caps_same_links:
  assumes "pads g p = Some x"
  shows "\<exists>r g'. zst_pad_set_caps p c g = Some (r, g') \<and> same_links g g'"
proof (cases c)
  case None
  have "same_links g (put_pad p (x\<lparr>pd_caps := None\<rparr>) g)"
    by (rule same_links_put [OF assms]) (simp add: same_link_def plain_def)
  with None assms show ?thesis by (simp add: zst_pad_set_caps_def upd_pad_Some)
next
  case (Some ss)
  obtain c' m where c: "zst_caps_copy (Some ss) (script (eheap g)) = (c', m)" by (rule prod.exhaust)
  have "same_links (set_script m g) (put_pad p (x\<lparr>pd_caps := c'\<rparr>) (set_script m g))"
    by (rule same_links_put) (use assms in \<open>simp_all add: same_link_def plain_def\<close>)
  then have "same_links g (put_pad p (x\<lparr>pd_caps := c'\<rparr>) (set_script m g))"
    using same_links_trans [OF same_links_script] by blast
  with Some c assms show ?thesis by (simp add: zst_pad_set_caps_def upd_pad_Some)
qed

lemma set_both_caps_same_links:
  assumes "pads g p = Some x" and "pads g q = Some y"
  shows "\<exists>r g'. set_both_caps p q c g = Some (r, g') \<and> same_links g g'"
proof -
  obtain r g1 where 1: "zst_pad_set_caps p c g = Some (r, g1)" "same_links g g1" using set_caps_same_links [OF assms(1)] by blast
  obtain y1 where y1: "pads g1 q = Some y1" using same_linksD [OF 1(2) assms(2)] by blast
  obtain r2 g2 where "zst_pad_set_caps q c g1 = Some (r2, g2)" "same_links g1 g2" using set_caps_same_links [OF y1] by blast
  with 1 show ?thesis by (auto simp: set_both_caps_def intro: same_links_trans)
qed

lemma get_caps_orphan:
  assumes "pads g p = Some x" and "pd_parent x = None"
  shows "\<exists>c m. zst_pad_get_caps E p g = Some (c, set_script m g)"
  using assms by (auto simp: zst_pad_get_caps_def copy_template_def split: prod.splits)

lemma negotiate_same_links:
  assumes x: "pads g p = Some x" and y: "pads g q = Some y" and "pd_parent x = None" "pd_parent y = None"
  shows "\<exists>r g'. zst_pad_negotiate E p q g = Some (r, g') \<and> same_links g g'"
proof -
  obtain c1 m1 where 1: "zst_pad_get_caps E p g = Some (c1, set_script m1 g)" using get_caps_orphan [OF x assms(3)] by blast
  have y1: "pads (set_script m1 g) q = Some y" using y by simp
  obtain c2 m2 where 2: "zst_pad_get_caps E q (set_script m1 g) = Some (c2, set_script m2 (set_script m1 g))"
    using get_caps_orphan [OF y1 assms(4)] by blast
  let ?g = "set_script m2 (set_script m1 g)"
  have s: "same_links g (set_script m ?g)" for m by (simp add: same_links_def option.rel_refl)
  have both: "\<exists>r g'. set_both_caps p q c (set_script m ?g) = Some (r, g') \<and> same_links g g'" for c m
  proof -
    have "pads (set_script m ?g) p = Some x" "pads (set_script m ?g) q = Some y" using x y by simp_all
    from set_both_caps_same_links [OF this] obtain r g' where "set_both_caps p q c (set_script m ?g) = Some (r, g')"
      "same_links (set_script m ?g) g'" by blast
    with same_links_trans [OF s] show ?thesis by blast
  qed
  obtain i m3 where i: "zst_caps_intersect c1 c2 (script (eheap ?g)) = (i, m3)" by (rule prod.exhaust)
  obtain r4 c4 m4 where f: "zst_caps_fixate i m3 = (r4, c4, m4)" by (metis prod_cases3)
  show ?thesis
  proof (cases "c1 = None \<or> c2 = None")
    case True
    have "same_links g ?g" by (simp add: same_links_def option.rel_refl)
    with True 1 2 show ?thesis by (auto simp: zst_pad_negotiate_def)
  next
    case False
    have "zst_pad_negotiate E p q g =
      (case i of None \<Rightarrow> Some (ZST_ERROR, set_script m3 ?g)
       | Some k \<Rightarrow> if zst_caps_is_fixed i then set_both_caps p q i (set_script m3 ?g)
           else if r4 \<noteq> ZST_OK then Some (ZST_ERROR, set_script m4 ?g) else set_both_caps p q c4 (set_script m4 ?g))"
      using False 1 2 i f by (auto simp: zst_pad_negotiate_def split: option.splits)
    then show ?thesis using both s by (auto split: option.splits)
  qed
qed

lemma pad_link_ok:
  assumes ok: "graph_ok own g" and "0 < own p" "0 < own q"
  shows "\<exists>r g'. zst_pad_link E p q g = Some (r, g') \<and> graph_ok own g' \<and>
    (r = ZST_OK \<longrightarrow> (\<exists>x y. pads g' p = Some x \<and> pads g' q = Some y \<and> pd_peer x = Some q \<and> pd_peer y = Some p))"
proof -
  obtain x y where x: "pads g p = Some x" and y: "pads g q = Some y" using owned_alive [OF ok] assms(2,3) by blast
  have "pd_parent x = None" "pd_parent y = None" using graph_okD(1) [OF ok x] graph_okD(1) [OF ok y] by (simp_all add: plain_def)
  then obtain r g1 where n: "zst_pad_negotiate E p q g = Some (r, g1)" "same_links g g1"
    using negotiate_same_links [OF x y] by blast
  have ok1: "graph_ok own g1" by (rule graph_ok_same_links [OF ok n(2)])
  obtain x1 y1 where x1: "pads g1 p = Some x1" and y1: "pads g1 q = Some y1" and d: "same_link x x1" "same_link y y1"
    using same_linksD [OF n(2) x] same_linksD [OF n(2) y] by metis
  show ?thesis
  proof (cases "pd_direction x = ZST_PAD_SRC \<and> pd_direction y = ZST_PAD_SINK \<and> r = ZST_OK \<and> pd_peer x1 = None \<and> pd_peer y1 = None")
    case False
    then show ?thesis using x y x1 y1 n(1) ok ok1 by (auto simp: zst_pad_link_def)
  next
    case True
    then have "p \<noteq> q" and dir: "pd_direction x1 \<noteq> pd_direction y1" using x y d by (auto simp: same_link_def)
    obtain g2 where g2: "pad_ref q g1 = Some g2" "graph_ok (own(q := own q + 1)) g2"
      "pads g2 = (pads g1)(q \<mapsto> y1\<lparr>pd_refcount := pd_refcount y1 + 1\<rparr>)" using pad_ref_ok [OF ok1 y1] by blast
    have "pads g2 p = Some x1" using g2(3) x1 \<open>p \<noteq> q\<close> by simp
    from pad_ref_ok [OF g2(2) this] \<open>p \<noteq> q\<close> obtain g3 where g3: "pad_ref p g2 = Some g3"
      "graph_ok (own(q := own q + 1, p := own p + 1)) g3"
      "pads g3 = (pads g2)(p \<mapsto> x1\<lparr>pd_refcount := pd_refcount x1 + 1\<rparr>)" by auto
    let ?x = "x1\<lparr>pd_refcount := pd_refcount x1 + 1\<rparr>" and ?y = "y1\<lparr>pd_refcount := pd_refcount y1 + 1\<rparr>"
    let ?g = "put_pad q (?y\<lparr>pd_peer := Some p, pd_linked := True\<rparr>) (put_pad p (?x\<lparr>pd_peer := Some q, pd_linked := True\<rparr>) g3)"
    have p3: "pads g3 p = Some ?x" "pads g3 q = Some ?y" using g2(3) g3(3) \<open>p \<noteq> q\<close> by simp_all
    have "graph_ok (own(q := own q + 1, p := own p + 1, p := own p + 1 - 1, q := own q + 1 - 1)) ?g"
      using graph_ok_join [OF g3(2) p3 \<open>p \<noteq> q\<close>] True dir \<open>p \<noteq> q\<close> by simp
    moreover have "own(q := own q + 1, p := own p + 1, p := own p + 1 - 1, q := own q + 1 - 1) = own"
      using \<open>p \<noteq> q\<close> by (auto simp: fun_eq_iff)
    ultimately have okg: "graph_ok own ?g" by simp
    have pl: "plain x1" "plain y1" using graph_okD(1) [OF ok1 x1] graph_okD(1) [OF ok1 y1] by simp_all
    have rp: "replay_sticky 257 E p ?g = Some ?g"
      using pl(1) \<open>p \<noteq> q\<close> by (simp add: replay_sticky_def replay_slot_def plain_def)
    have pp: "pipeline_of p ?g = Some None" "pipeline_of q ?g = Some None"
      using pl \<open>p \<noteq> q\<close> by (simp_all add: pipeline_of_def plain_def)
    have "zst_pad_link E p q g = Some (ZST_OK, mark_dirty None None ?g)"
      using True x y x1 y1 n(1) g2(1) g3(1) p3 \<open>p \<noteq> q\<close> rp pp by (simp add: zst_pad_link_def upd_pad_Some)
    with okg \<open>p \<noteq> q\<close> show ?thesis by auto
  qed
qed

lemma ref_peer_ok:
  assumes ok: "graph_ok own g" and "0 < own p"
  shows "\<exists>x r g'. pads g p = Some x \<and> r = pd_peer x \<and> ref_peer p g = Some (r, g') \<and>
    graph_ok (case r of None \<Rightarrow> own | Some q \<Rightarrow> own(q := own q + 1)) g' \<and>
    (\<forall>q. map_option pd_peer (pads g' q) = map_option pd_peer (pads g q))"
proof -
  obtain x where x: "pads g p = Some x" using owned_alive [OF assms] by blast
  show ?thesis
  proof (cases "pd_peer x")
    case None
    with x ok show ?thesis by (auto simp: ref_peer_def)
  next
    case (Some q)
    then obtain y where y: "pads g q = Some y" using peer_alive [OF ok x] by blast
    from pad_ref_ok [OF ok y] x Some y show ?thesis by (fastforce simp: ref_peer_def)
  qed
qed

lemma pad_unlink_ok:
  assumes ok: "graph_ok own g" and "0 < own p"
  shows "\<exists>g'. zst_pad_unlink p g = Some g' \<and> graph_ok own g' \<and> (\<exists>x. pads g' p = Some x \<and> pd_peer x = None)"
proof -
  obtain x r g1 where x: "pads g p = Some x" "r = pd_peer x" "ref_peer p g = Some (r, g1)"
      "graph_ok (case r of None \<Rightarrow> own | Some q \<Rightarrow> own(q := own q + 1)) g1"
      "\<forall>q. map_option pd_peer (pads g1 q) = map_option pd_peer (pads g q)"
    using ref_peer_ok [OF assms] by blast
  show ?thesis
  proof (cases r)
    case None
    then show ?thesis using x by (auto simp: zst_pad_unlink_def ref_peer_def)
  next
    case (Some q)
    have "map_option pd_peer (pads g1 p) = Some (Some q)" using x Some by simp
    then obtain x1 where x1: "pads g1 p = Some x1" "pd_peer x1 = Some q" by auto
    let ?own = "own(q := own q + 1)"
    have ok1: "graph_ok ?own g1" using x(4) Some by simp
    obtain y1 where y1: "pads g1 q = Some y1" "pd_peer y1 = Some p" "q \<noteq> p" using peer_alive [OF ok1 x1] by blast
    let ?g = "put_pad q (y1\<lparr>pd_peer := None, pd_linked := False\<rparr>) (put_pad p (x1\<lparr>pd_peer := None, pd_linked := False\<rparr>) g1)"
    have "?own(p := ?own p + 1, q := ?own q + 1) = own(p := own p + 1, q := own q + 2)" using \<open>q \<noteq> p\<close> by auto
    then have ok2: "graph_ok (own(p := own p + 1, q := own q + 2)) (mark_dirty a b ?g)" for a b
      using graph_ok_part [OF ok1 x1(1) y1(1) x1(2)] by simp
    obtain g4 where g4: "pad_unref q (mark_dirty None None ?g) = Some g4" "graph_ok (own(p := own p + 1, q := own q + 1)) g4"
        "\<forall>r. r \<noteq> q \<longrightarrow> pads g4 r = pads ?g r"
      using pad_unref_ok [OF ok2 [of None None], of q] by auto
    have "pads g4 p = Some (x1\<lparr>pd_peer := None, pd_linked := False\<rparr>)" using g4(3) \<open>q \<noteq> p\<close> by simp
    moreover have "own(p := own p + 1, q := own q + 1, p := own p) = own(q := own q + 1)" using \<open>q \<noteq> p\<close> by auto
    ultimately obtain g5 x5 where g5: "pad_unref p g4 = Some g5" "graph_ok (own(q := own q + 1)) g5"
        "pads g5 p = Some x5" "pd_peer x5 = None"
      using pad_unref_ok [OF g4(2), of p] \<open>q \<noteq> p\<close> assms(2) by auto
    obtain g6 where g6: "pad_unref q g5 = Some g6" "graph_ok own g6" "\<forall>r. r \<noteq> q \<longrightarrow> pads g6 r = pads g5 r"
      using pad_unref_ok [OF g5(2), of q] by auto
    have pl: "plain x1" "plain y1" using graph_okD(1) [OF ok1 x1(1)] graph_okD(1) [OF ok1 y1(1)] by simp_all
    have pp: "pipeline_of p g1 = Some None" "pipeline_of q g1 = Some None"
      using pl x1 y1 by (simp_all add: pipeline_of_def plain_def)
    have "zst_pad_unlink p g = Some g6"
      using x(3) Some pp x1 y1 g4(1) g5(1) g6(1) by (simp add: zst_pad_unlink_def upd_pad_Some)
    moreover have "\<exists>x. pads g6 p = Some x \<and> pd_peer x = None"
      using g5(3,4) g6(3) \<open>q \<noteq> p\<close> by auto
    ultimately show ?thesis using g6(2) by blast
  qed
qed

section \<open>Runs of calls\<close>

text \<open>
  Calls on pads by code outside, with the references it holds: a call is only made on pads it holds a
  reference on.  Creating a pad, referencing it and asking for its peer give it one; \<open>Unref\<close> gives one up.
\<close>

datatype pad_call =
    Create "string option" pad_direction
  | Ref addr
  | Unref addr
  | Get_peer addr
  | Link addr addr
  | Unlink addr
  | Set_caps addr "zst_caps option"
  | Set_template_caps addr "zst_caps option"
  | Set_segment addr zst_segment
  | Clear_segment addr
  | Add_probe addr u32 "nat option"
  | Remove_probe addr u64
  | Block addr
  | Unblock addr

fun pads_used :: "pad_call \<Rightarrow> addr list" where
  "pads_used (Create n d) = []"
| "pads_used (Link p q) = [p, q]"
| "pads_used (Ref p) = [p]"
| "pads_used (Unref p) = [p]"
| "pads_used (Get_peer p) = [p]"
| "pads_used (Unlink p) = [p]"
| "pads_used (Set_caps p c) = [p]"
| "pads_used (Set_template_caps p c) = [p]"
| "pads_used (Set_segment p s) = [p]"
| "pads_used (Clear_segment p) = [p]"
| "pads_used (Add_probe p t c) = [p]"
| "pads_used (Remove_probe p i) = [p]"
| "pads_used (Block p) = [p]"
| "pads_used (Unblock p) = [p]"

fun pad_step :: "pad_env \<Rightarrow> pad_call \<Rightarrow> (addr \<Rightarrow> nat) \<times> pad_graph \<Rightarrow> ((addr \<Rightarrow> nat) \<times> pad_graph) option" where
  "pad_step E (Create n d) (own, g) =
     (case zst_pad_create n d g of (None, g1) \<Rightarrow> Some (own, g1) | (Some p, g1) \<Rightarrow> Some (own(p := 1), g1))"
| "pad_step E (Ref p) (own, g) = do { g1 \<leftarrow> pad_ref p g; Some (own(p := own p + 1), g1) }"
| "pad_step E (Unref p) (own, g) = do { g1 \<leftarrow> pad_unref p g; Some (own(p := own p - 1), g1) }"
| "pad_step E (Get_peer p) (own, g) =
     do { (r, g1) \<leftarrow> zst_pad_get_peer p g; Some (case r of None \<Rightarrow> own | Some q \<Rightarrow> own(q := own q + 1), g1) }"
| "pad_step E (Link p q) (own, g) = do { (_, g1) \<leftarrow> zst_pad_link E p q g; Some (own, g1) }"
| "pad_step E (Unlink p) (own, g) = do { g1 \<leftarrow> zst_pad_unlink p g; Some (own, g1) }"
| "pad_step E (Set_caps p c) (own, g) = do { (_, g1) \<leftarrow> zst_pad_set_caps p c g; Some (own, g1) }"
| "pad_step E (Set_template_caps p c) (own, g) = do { (_, g1) \<leftarrow> zst_pad_set_template_caps p c g; Some (own, g1) }"
| "pad_step E (Set_segment p s) (own, g) = do { (_, g1) \<leftarrow> zst_pad_set_segment p s g; Some (own, g1) }"
| "pad_step E (Clear_segment p) (own, g) = do { g1 \<leftarrow> zst_pad_clear_segment p g; Some (own, g1) }"
| "pad_step E (Add_probe p t c) (own, g) = do { (_, g1) \<leftarrow> zst_pad_add_probe p t c g; Some (own, g1) }"
| "pad_step E (Remove_probe p i) (own, g) = do { (_, g1) \<leftarrow> zst_pad_remove_probe p i g; Some (own, g1) }"
| "pad_step E (Block p) (own, g) = do { g1 \<leftarrow> zst_pad_block p g; Some (own, g1) }"
| "pad_step E (Unblock p) (own, g) = do { g1 \<leftarrow> zst_pad_unblock p g; Some (own, g1) }"

fun pad_run :: "pad_env \<Rightarrow> pad_call list \<Rightarrow> (addr \<Rightarrow> nat) \<times> pad_graph \<Rightarrow> ((addr \<Rightarrow> nat) \<times> pad_graph) option" where
  "pad_run E [] s = Some s"
| "pad_run E (c # cs) s =
     (if list_all (\<lambda>p. 0 < fst s p) (pads_used c) then do { s1 \<leftarrow> pad_step E c s; pad_run E cs s1 } else pad_run E cs s)"

definition empty_graph :: "alloc_script \<Rightarrow> pad_graph" where
  "empty_graph m = \<lparr>pads = Map.empty, elements = Map.empty,
     eheap = \<lparr>script = m, next_addr = 1, blocks = Map.empty, pad_refs = (\<lambda>_. 0)\<rparr>,
     mem = \<lparr>malloc_ok = (\<lambda>_. True), attempts = 0, heap = Map.empty, trace = []\<rparr>, wakeups = 0, requests = []\<rparr>"

lemma local_step:
  assumes "graph_ok own g" and "0 < own p" and "\<And>x. pads g p = Some x \<Longrightarrow> same_link x (f x)"
  shows "\<exists>g'. upd_pad p f g = Some g' \<and> graph_ok own g'"
proof -
  obtain x where x: "pads g p = Some x" using owned_alive [OF assms(1,2)] by blast
  with graph_ok_same_links [OF assms(1) same_links_put [OF x assms(3)]] show ?thesis by (simp add: upd_pad_Some)
qed

lemma create_ok:
  assumes ok: "graph_ok own g"
  shows "\<exists>own' g'. pad_step E (Create n d) (own, g) = Some (own', g') \<and> graph_ok own' g'"
proof (cases "fst (alloc (script (eheap g)))")
  case (Some w)
  then obtain m where "alloc (script (eheap g)) = (Some w, m)" by (metis prod.collapse)
  with ok show ?thesis using graph_ok_same_links [OF ok same_links_script] by (simp add: zst_pad_create_def)
next
  case None
  then obtain m where m: "alloc (script (eheap g)) = (None, m)" by (metis prod.collapse)
  let ?p = "next_addr (eheap g)"
  obtain nm m1 where g': "zst_pad_create n d g =
      (Some ?p, put_pad ?p (new_pad nm d) (g\<lparr>eheap := (eheap g)\<lparr>script := m1, next_addr := Suc ?p\<rparr>\<rparr>))" (is "_ = (_, ?g)")
  proof (cases n)
    case None
    then show ?thesis using m that [of None m] by (simp add: zst_pad_create_def Let_def)
  next
    case (Some s)
    obtain a m1 where "alloc m = (a, m1)" by (rule prod.exhaust)
    then show ?thesis using m Some that [of "if a = None then Some s else None" m1]
      by (cases a) (simp_all add: zst_pad_create_def Let_def)
  qed
  have fresh: "pads g ?p = None" using ok by (simp add: graph_ok_def)
  have "pad_ok ((own(?p := 1)) q) q y ?g" if y: "pads ?g q = Some y" for q y
  proof (cases "q = ?p")
    case True
    with y show ?thesis by (auto simp: new_pad_def pad_ok_def plain_def mutual_def)
  next
    case False
    with y have q: "pads g q = Some y" by simp
    have "mutual q y ?g"
    proof (cases "pd_peer y")
      case None
      then show ?thesis using graph_okD(2) [OF ok q] by (simp add: mutual_def)
    next
      case (Some r)
      with fresh graph_okD(2) [OF ok q] show ?thesis by (auto simp: mutual_def)
    qed
    with graph_okD [OF ok q] False show ?thesis by (simp add: pad_ok_def)
  qed
  then have "graph_ok (own(?p := 1)) ?g" using ok by (auto simp: graph_ok_def)
  with g' show ?thesis by simp
qed

text \<open>Calls that concern one pad and neither links nor counts.\<close>

lemma local_calls:
  assumes ok: "graph_ok own g" and "0 < own p"
  shows "\<exists>r g'. zst_pad_set_template_caps p c g = Some (r, g') \<and> graph_ok own g'"
    and "\<exists>r g'. zst_pad_set_segment p s g = Some (r, g') \<and> graph_ok own g'"
    and "\<exists>r g'. zst_pad_add_probe p t k g = Some (r, g') \<and> graph_ok own g'"
    and "\<exists>r g'. zst_pad_remove_probe p i g = Some (r, g') \<and> graph_ok own g'"
    and "\<exists>g'. zst_pad_clear_segment p g = Some g' \<and> graph_ok own g'"
    and "\<exists>g'. zst_pad_block p g = Some g' \<and> graph_ok own g'"
    and "\<exists>g'. zst_pad_unblock p g = Some g' \<and> graph_ok own g'"
proof -
  show "\<exists>g'. zst_pad_clear_segment p g = Some g' \<and> graph_ok own g'" "\<exists>g'. zst_pad_block p g = Some g' \<and> graph_ok own g'"
    "\<exists>g'. zst_pad_unblock p g = Some g' \<and> graph_ok own g'"
    unfolding zst_pad_clear_segment_def zst_pad_block_def zst_pad_unblock_def
    by (rule local_step [OF assms]; simp add: same_link_def plain_def)+
  obtain x where x: "pads g p = Some x" using owned_alive [OF assms] by blast
  have keep: "graph_ok own (put_pad p x' g)" if "same_link x x'" for x'
    by (rule graph_ok_same_links [OF ok same_links_put [OF x that]])
  have keep_script: "graph_ok own (put_pad p x' (set_script m g))" if "same_link x x'" for x' m
  proof (rule graph_ok_same_links [OF graph_ok_same_links [OF ok same_links_script]])
    show "same_links (set_script m g) (put_pad p x' (set_script m g))" by (rule same_links_put) (use x that in simp_all)
  qed
  have sl: "same_link x (x\<lparr>pd_template_caps := c'\<rparr>)" "same_link x (x\<lparr>pd_segment := s'\<rparr>)"
    "same_link x (x\<lparr>pd_segment := s', pd_has_segment := True\<rparr>)" "same_link x (x\<lparr>pd_probes := ps, pd_has_probes := w\<rparr>)"
    "same_link x (x\<lparr>pd_probes := ps, pd_next_probe_id := u, pd_has_probes := w\<rparr>)" for c' s' ps w u
    by (simp_all add: same_link_def plain_def)
  show "\<exists>r g'. zst_pad_set_template_caps p c g = Some (r, g') \<and> graph_ok own g'"
    using x keep [OF sl(1)] keep_script [OF sl(1)]
    by (auto simp: zst_pad_set_template_caps_def upd_pad_Some split: option.splits prod.splits)
  show "\<exists>r g'. zst_pad_set_segment p s g = Some (r, g') \<and> graph_ok own g'"
    using x keep [OF sl(2)] keep [OF sl(3)] by (auto simp: zst_pad_set_segment_def Let_def)
  show "\<exists>r g'. zst_pad_add_probe p t k g = Some (r, g') \<and> graph_ok own g'"
    using x ok keep_script [OF sl(5)] graph_ok_same_links [OF ok same_links_script]
    by (auto simp: zst_pad_add_probe_def Let_def split: option.splits prod.splits)
  show "\<exists>r g'. zst_pad_remove_probe p i g = Some (r, g') \<and> graph_ok own g'"
    using x ok keep [OF sl(4)] by (auto simp: zst_pad_remove_probe_def split: option.splits)
qed

lemma pad_step_ok:
  assumes ok: "graph_ok own g" and u: "list_all (\<lambda>p. 0 < own p) (pads_used c)"
  shows "\<exists>own' g'. pad_step E c (own, g) = Some (own', g') \<and> graph_ok own' g'"
proof (cases c)
  case (Create n d)
  then show ?thesis using create_ok [OF ok] by blast
next
  case (Ref p)
  then obtain x where "pads g p = Some x" using owned_alive [OF ok] u by auto
  from pad_ref_ok [OF ok this] Ref show ?thesis by auto
next
  case (Unref p)
  then show ?thesis using pad_unref_ok [OF ok, of p] u by auto
next
  case (Get_peer p)
  then show ?thesis using ref_peer_ok [OF ok, of p] u by (fastforce simp: zst_pad_get_peer_def)
next
  case (Link p q)
  then show ?thesis using pad_link_ok [OF ok, of p q E] u by auto
next
  case (Unlink p)
  then show ?thesis using pad_unlink_ok [OF ok, of p] u by auto
next
  case (Set_caps p k)
  then obtain x where "pads g p = Some x" using owned_alive [OF ok] u by auto
  from set_caps_same_links [OF this, of k] graph_ok_same_links [OF ok] Set_caps show ?thesis by fastforce
next
  case (Set_template_caps p k)
  then show ?thesis using local_calls(1) [OF ok, of p k] u by auto
next
  case (Set_segment p s)
  then show ?thesis using local_calls(2) [OF ok, of p s] u by auto
next
  case (Clear_segment p)
  then show ?thesis using local_calls(5) [OF ok, of p] u by auto
next
  case (Add_probe p t k)
  then show ?thesis using local_calls(3) [OF ok, of p t k] u by auto
next
  case (Remove_probe p i)
  then show ?thesis using local_calls(4) [OF ok, of p i] u by auto
next
  case (Block p)
  then show ?thesis using local_calls(6) [OF ok, of p] u by auto
next
  case (Unblock p)
  then show ?thesis using local_calls(7) [OF ok, of p] u by auto
qed

lemma pad_run_ok:
  "graph_ok own g \<Longrightarrow> \<exists>own' g'. pad_run E cs (own, g) = Some (own', g') \<and> graph_ok own' g'"
proof (induction cs arbitrary: own g)
  case (Cons c cs)
  then show ?case using pad_step_ok [OF Cons.prems, of c E] by (cases "list_all (\<lambda>p. 0 < own p) (pads_used c)") auto
qed simp

lemma empty_graph_ok: "graph_ok (\<lambda>_. 0) (empty_graph m)"
  by (simp add: graph_ok_def empty_graph_def)

section \<open>Negotiation\<close>

text \<open>What a pad without an element that answers for it brings to a negotiation.\<close>

definition offer :: "zst_pad \<Rightarrow> zst_caps option" where
  "offer x = (if pd_caps x \<noteq> None then pd_caps x else pd_template_caps x)"

lemma get_caps_offer:
  assumes "pads g p = Some x" and "pd_parent x = None" and "offer x = Some ss" and "plenty (script (eheap g))"
  shows "\<exists>m. zst_pad_get_caps E p g = Some (Some (map copied ss), set_script m g) \<and> plenty m"
  using assms caps_copy_plenty [OF assms(4), of ss]
  by (auto simp: zst_pad_get_caps_def copy_template_def offer_def split: if_splits)

lemma set_caps_plenty:
  assumes "pads g p = Some x" and "plenty (script (eheap g))"
  shows "\<exists>m. zst_pad_set_caps p (Some ss) g = Some (ZST_OK, put_pad p (x\<lparr>pd_caps := Some (map copied ss)\<rparr>) (set_script m g)) \<and> plenty m"
  using assms caps_copy_plenty [OF assms(2), of ss] by (auto simp: zst_pad_set_caps_def upd_pad_Some)

lemma set_both_caps_plenty:
  assumes "pads g p = Some x" and "pads g q = Some y" and "p \<noteq> q" and "plenty (script (eheap g))"
  shows "\<exists>g'. set_both_caps p q (Some ss) g = Some (ZST_OK, g') \<and>
    pads g' = (pads g)(p \<mapsto> x\<lparr>pd_caps := Some (map copied ss)\<rparr>, q \<mapsto> y\<lparr>pd_caps := Some (map copied ss)\<rparr>)"
proof -
  obtain m where m: "zst_pad_set_caps p (Some ss) g = Some (ZST_OK, put_pad p (x\<lparr>pd_caps := Some (map copied ss)\<rparr>) (set_script m g))"
    (is "_ = Some (_, ?g)") "plenty m" using set_caps_plenty [OF assms(1,4)] by blast
  have "pads ?g q = Some y" "plenty (script (eheap ?g))" using assms m(2) by simp_all
  from set_caps_plenty [OF this, of ss] m(1) show ?thesis by (auto simp: set_both_caps_def)
qed

lemma is_fixed_copied: "zst_caps_is_fixed (Some (map copied ss)) = zst_caps_is_fixed (Some ss)"
  by (auto simp: zst_caps_is_fixed_def zst_caps_struct_is_fixed_def caps_is_raw_video_struct_def caps_is_raw_audio_struct_def
      split: list.splits caps_type.splits)

lemma find_filter: "find P xs = (case filter P xs of [] \<Rightarrow> None | y # ys \<Rightarrow> Some y)"
  by (induction xs) auto

text \<open>Capabilities that can be negotiated: well formed, and every structure names a media type.\<close>

definition caps_ok :: "zst_caps \<Rightarrow> bool" where
  "caps_ok ss \<longleftrightarrow> list_all (\<lambda>s. struct_ok s \<and> media_type s \<noteq> []) ss"

text \<open>Fixation touches no generic field but those that mirror the attributes.\<close>

lemma fixate_keeps_fields:
  assumes "plenty m" and "struct_ok s" and "zst_caps_fixate (Some (s # ss)) m = (r, Some [t], m')" and "\<not> caps_is_raw_legacy_field s k"
  shows "lookup t k = lookup s k"
proof -
  consider (vid) "caps_is_raw_video_struct s" | (aud) "caps_is_raw_audio_struct s" "\<not> caps_is_raw_video_struct s"
    | (gen) "\<not> caps_is_raw_video_struct s" "\<not> caps_is_raw_audio_struct s" by blast
  then show ?thesis
  proof cases
    case vid
    then show ?thesis using fixate_video [OF assms(1,2) vid, of ss] assms(3,4) by (auto simp: caps_is_raw_legacy_field_def)
  next
    case aud
    then show ?thesis using fixate_audio [OF assms(1,2) aud(1), of ss] assms(3,4) by (auto simp: caps_is_raw_legacy_field_def)
  next
    case gen
    then show ?thesis using assms(3) by (simp add: zst_caps_fixate_def)
  qed
qed

lemma stored_stored [simp]: "stored (stored v) = stored v"
  by (auto simp: stored_def split: caps_value.splits option.splits)

lemma lookup_copied:
  assumes "struct_ok s"
  shows "lookup (copied s) k = map_option stored (lookup s k)"
proof -
  have k: "\<forall>f \<in> set (sfields s). c_strncpy 63 (key f) = key f" using assms by (auto simp: struct_ok_def list_all_iff)
  have "field_index k (map (\<lambda>f. \<lparr>key = c_strncpy 63 (key f), val = stored (val f)\<rparr>) fs) = field_index k fs"
    if "\<forall>f \<in> set fs. c_strncpy 63 (key f) = key f" for fs
    using that by (induction fs) auto
  note ix = this [OF k]
  show ?thesis
  proof (cases "field_index k (sfields s)")
    case (Some i)
    then show ?thesis using ix field_index_SomeD [OF Some] by (simp add: lookup_def caps_struct_find_field_def copied_def)
  qed (use ix in \<open>simp add: lookup_def caps_struct_find_field_def copied_def\<close>)
qed

text \<open>What two structures agree on: the more specific of each attribute with the defaults for what both leave open, and the generic
  fields of both.\<close>

definition agreed :: "caps_struct \<Rightarrow> caps_struct \<Rightarrow> caps_struct \<Rightarrow> bool" where
  "agreed s1 s2 t \<longleftrightarrow> media_type t = media_type s1 \<and> ctype t = ctype s1 \<and>
     (caps_is_raw_video_struct s1 \<longrightarrow> video t = fixed_video (meet_video (video s1) (video s2))) \<and>
     (caps_is_raw_audio_struct s1 \<longrightarrow> audio t = fixed_audio (meet_audio (audio s1) (audio s2))) \<and>
     (\<forall>k. \<not> caps_is_raw_legacy_field s1 k \<longrightarrow>
        lookup t k = map_option stored (case lookup s1 k of Some v \<Rightarrow> Some v | None \<Rightarrow> lookup s2 k))"

lemma same_kind_raw:
  assumes "media_type s = media_type s1" "ctype s = ctype s1"
  shows "caps_is_raw_video_struct s = caps_is_raw_video_struct s1" "caps_is_raw_audio_struct s = caps_is_raw_audio_struct s1"
    "caps_is_raw_legacy_field s k = caps_is_raw_legacy_field s1 k"
  using assms legacy_cong [OF assms] by (auto simp: caps_is_raw_video_struct_def caps_is_raw_audio_struct_def)

lemma agreed_fixed:
  assumes "intersected s1 s2 s" and "zst_caps_is_fixed (Some [s])"
  shows "agreed s1 s2 (copied s)"
proof -
  have s: "struct_ok s" "media_type s = media_type s1" "ctype s = ctype s1" using assms(1) by (simp_all add: intersected_def)
  have v: "fixed_video (video s) = video s" if "caps_is_raw_video_struct s1"
    using assms(2) that same_kind_raw [OF s(2,3)]
    by (auto simp: zst_caps_is_fixed_def zst_caps_struct_is_fixed_def fixed_video_def caps_is_raw_video_struct_def)
  have a: "fixed_audio (audio s) = audio s" if "caps_is_raw_audio_struct s1"
    using assms(2) that same_kind_raw [OF s(2,3)]
    by (auto simp: zst_caps_is_fixed_def zst_caps_struct_is_fixed_def fixed_audio_def caps_is_raw_audio_struct_def)
  show ?thesis
    using assms(1) v a by (auto simp: agreed_def intersected_def lookup_copied [OF s(1)] option.map_comp o_def)
qed

lemma agreed_fixated:
  assumes "intersected s1 s2 s" and "plenty m" and "zst_caps_fixate (Some (s # ss)) m = (ZST_OK, Some [t], m')"
    and "media_type s \<noteq> []"
  shows "agreed s1 s2 (copied t)"
proof -
  have s: "struct_ok s" "media_type s = media_type s1" "ctype s = ctype s1" using assms(1) by (simp_all add: intersected_def)
  note raw = same_kind_raw [OF s(2,3)]
  have t: "struct_ok t" "media_type t = media_type s" "ctype t = ctype s"
    "caps_is_raw_video_struct s \<longrightarrow> video t = fixed_video (video s)" "caps_is_raw_audio_struct s \<longrightarrow> audio t = fixed_audio (audio s)"
    using fixate_plenty [OF assms(2) s(1) assms(4), of ss] assms(3) by auto
  have "lookup t k = lookup s k" if "\<not> caps_is_raw_legacy_field s1 k" for k
    using fixate_keeps_fields [OF assms(2) s(1) assms(3), of k] that raw(3) by simp
  then show ?thesis
    using assms(1) t s(2,3) raw(1,2) by (auto simp: agreed_def intersected_def lookup_copied [OF t(1)] option.map_comp o_def)
qed

lemma negotiate_plenty:
  assumes x: "pads g p = Some x" "pd_parent x = None" "offer x = Some ss1" "caps_ok ss1"
    and y: "pads g q = Some y" "pd_parent y = None" "offer y = Some ss2" "caps_ok ss2"
    and "p \<noteq> q" and "plenty (script (eheap g))"
  shows "\<exists>r g'. zst_pad_negotiate E p q g = Some (r, g') \<and>
    (case find (\<lambda>(s1, s2). structs_agree s1 s2) (List.product (map copied ss1) (map copied ss2)) of
       None \<Rightarrow> r = ZST_ERROR \<and> pads g' = pads g
     | Some (s1, s2) \<Rightarrow> r = ZST_OK \<and>
         (\<exists>t. zst_caps_is_fixed (Some [t]) \<and> agreed s1 s2 t \<and>
            pads g' = (pads g)(p \<mapsto> x\<lparr>pd_caps := Some [t]\<rparr>, q \<mapsto> y\<lparr>pd_caps := Some [t]\<rparr>)))"
proof -
  let ?c1 = "map copied ss1" and ?c2 = "map copied ss2" and ?P = "\<lambda>(s1, s2). structs_agree s1 s2"
  obtain m1 where m1: "zst_pad_get_caps E p g = Some (Some ?c1, set_script m1 g)" "plenty m1"
    using get_caps_offer [OF x(1-3) assms(10)] by blast
  have "pads (set_script m1 g) q = Some y" "plenty (script (eheap (set_script m1 g)))" using y(1) m1(2) by simp_all
  from get_caps_offer [OF this(1) y(2,3) this(2)] obtain m2
    where m2: "zst_pad_get_caps E q (set_script m1 g) = Some (Some ?c2, set_script m2 (set_script m1 g))" "plenty m2" by blast
  let ?g = "set_script m2 (set_script m1 g)"
  have ok: "\<forall>(s1, s2) \<in> set (List.product ?c1 ?c2). struct_ok s1 \<and> struct_ok s2"
    and mt: "\<forall>(s1, s2) \<in> set (List.product ?c1 ?c2). media_type s1 \<noteq> []"
    using x(4) y(4) by (auto simp: caps_ok_def list_all_iff intro: copied_ok)
  obtain m3 where m3: "alloc m2 = (None, m3)" "plenty m3" using m2(2) by (rule plenty_alloc)
  obtain rs m4 where i: "intersect_pairs (List.product ?c1 ?c2) [] m3 = (rs, m4)" "plenty m4"
      "list_all2 (\<lambda>(s1, s2) r. intersected s1 s2 r) (filter ?P (List.product ?c1 ?c2)) rs"
    using intersect_pairs_plenty [OF m3(2) ok, of "[]"] by auto
  have int: "zst_caps_intersect (Some ?c1) (Some ?c2) (script (eheap ?g)) = (Some rs, m4)"
    using m3 i(1) by (simp add: zst_caps_intersect_def zst_caps_create_def)
  have both: "\<exists>g'. set_both_caps p q (Some ss) (set_script m ?g) = Some (ZST_OK, g') \<and>
      pads g' = (pads g)(p \<mapsto> x\<lparr>pd_caps := Some (map copied ss)\<rparr>, q \<mapsto> y\<lparr>pd_caps := Some (map copied ss)\<rparr>)"
    if "plenty m" for ss m
    using set_both_caps_plenty [of "set_script m ?g" p x q y ss] x(1) y(1) \<open>p \<noteq> q\<close> that by simp
  show ?thesis
  proof (cases "filter ?P (List.product ?c1 ?c2)")
    case Nil
    then have "rs = []" using i(3) by simp
    then have "zst_pad_negotiate E p q g = Some (ZST_ERROR, set_script m4 ?g)"
      using m1(1) m2(1) int by (simp add: zst_pad_negotiate_def zst_caps_is_fixed_def zst_caps_fixate_def)
    with Nil show ?thesis by (simp add: find_filter)
  next
    case (Cons pr prs)
    obtain s1 s2 where pr: "pr = (s1, s2)" by (rule prod.exhaust)
    obtain s rest where rs: "rs = s # rest" "intersected s1 s2 s" using i(3) Cons pr by (auto simp: list_all2_Cons1)
    have "pr \<in> set (filter ?P (List.product ?c1 ?c2))" using Cons by simp
    then have mem: "pr \<in> set (List.product ?c1 ?c2)" by simp
    then have m: "media_type s1 \<noteq> []" using mt pr by fastforce
    have s: "struct_ok s" "media_type s = media_type s1" using rs(2) by (simp_all add: intersected_def)
    have f: "find ?P (List.product ?c1 ?c2) = Some (s1, s2)" using Cons pr by (simp add: find_filter)
    show ?thesis
    proof (cases "zst_caps_is_fixed (Some rs)")
      case True
      then have r: "rs = [s]" using rs(1) by (auto simp: zst_caps_is_fixed_def split: list.splits)
      obtain g' where g': "set_both_caps p q (Some rs) (set_script m4 ?g) = Some (ZST_OK, g')"
        "pads g' = (pads g)(p \<mapsto> x\<lparr>pd_caps := Some (map copied rs)\<rparr>, q \<mapsto> y\<lparr>pd_caps := Some (map copied rs)\<rparr>)"
        using both [OF i(2)] by blast
      moreover have "zst_pad_negotiate E p q g = Some (ZST_OK, g')"
        using m1(1) m2(1) int True g'(1) by (simp add: zst_pad_negotiate_def)
      moreover have "zst_caps_is_fixed (Some [copied s])" using True is_fixed_copied [of rs] r by simp
      moreover have "agreed s1 s2 (copied s)" using agreed_fixed [OF rs(2)] True r by simp
      ultimately show ?thesis using f r by (auto intro!: exI [of _ "copied s"])
    next
      case False
      have "media_type s \<noteq> []" using s(2) m by simp
      from fixate_plenty [OF i(2) s(1) this, of rest] obtain t m5
        where t: "zst_caps_fixate (Some rs) m4 = (ZST_OK, Some [t], m5)" "plenty m5" "zst_caps_is_fixed (Some [t])"
          "media_type t = media_type s" using rs(1) by blast
      obtain g' where g': "set_both_caps p q (Some [t]) (set_script m5 ?g) = Some (ZST_OK, g')"
        "pads g' = (pads g)(p \<mapsto> x\<lparr>pd_caps := Some (map copied [t])\<rparr>, q \<mapsto> y\<lparr>pd_caps := Some (map copied [t])\<rparr>)"
        using both [OF t(2)] by blast
      moreover have "zst_pad_negotiate E p q g = Some (ZST_OK, g')"
        using m1(1) m2(1) int False t(1) g'(1) by (simp add: zst_pad_negotiate_def)
      moreover have "zst_caps_is_fixed (Some [copied t])" using t(3) is_fixed_copied [of "[t]"] by simp
      moreover have "agreed s1 s2 (copied t)" using agreed_fixated [OF rs(2) i(2), of rest t m5] t(1) rs(1) \<open>media_type s \<noteq> []\<close> by simp
      ultimately show ?thesis using f by (auto intro!: exI [of _ "copied t"])
    qed
  qed
qed

section \<open>Properties\<close>

text \<open>The environment without callbacks, with a frozen clock.\<close>

definition quiet :: pad_env where
  "quiet = \<lparr>env_probe = (\<lambda>cb p b ty g. Some (ZST_PAD_PROBE_OK, g)), env_others = (\<lambda>k g. g), env_timeout = (\<lambda>k. True),
     env_get_caps = (\<lambda>d. None), env_event = (\<lambda>d. None), env_process = (\<lambda>d. None), env_push = (\<lambda>f p b g. None),
     env_pull = (\<lambda>f p g. None), env_time = (\<lambda>c g. 0), env_round = (\<lambda>x. x)\<rparr>"

text \<open>C23: whatever is done with pads through references one holds (creating, referencing, dropping, linking,
  unlinking, asking for the peer, setting capabilities, segments, probes and blocks, in any order and with
  any allocation failing), no call touches a freed pad, links stay mutual between pads of opposite
  direction, and every reference count is exactly the number of references held outside plus one for a
  link.  This covers pads outside elements, before the first sticky event.\<close>

theorem pad_graph_consistent:
  "\<exists>own g. pad_run E calls (\<lambda>_. 0, empty_graph m) = Some (own, g) \<and> (\<forall>p. 0 < own p \<longrightarrow> pads g p \<noteq> None) \<and>
     (\<forall>p x. pads g p = Some x \<longrightarrow> pd_refcount x = int (own p) + (if pd_peer x = None then 0 else 1) \<and>
        (\<forall>q. pd_peer x = Some q \<longrightarrow> (\<exists>y. pads g q = Some y \<and> pd_peer y = Some p \<and> pd_direction y \<noteq> pd_direction x)))"
proof -
  obtain own g where r: "pad_run E calls (\<lambda>_. 0, empty_graph m) = Some (own, g)" "graph_ok own g"
    using pad_run_ok [OF empty_graph_ok] by blast
  have "pd_refcount x = int (own p) + (if pd_peer x = None then 0 else 1) \<and>
        (\<forall>q. pd_peer x = Some q \<longrightarrow> (\<exists>y. pads g q = Some y \<and> pd_peer y = Some p \<and> pd_direction y \<noteq> pd_direction x))"
    if "pads g p = Some x" for p x
    using graph_okD(3) [OF r(2) that] peer_alive [OF r(2) that] by blast
  moreover have "\<forall>p. 0 < own p \<longrightarrow> pads g p \<noteq> None" using r(2) by (simp add: graph_ok_def)
  ultimately show ?thesis using r(1) by blast
qed

theorem pad_graph_consistent_witness:
  "\<exists>own g x. pad_run quiet [Create None ZST_PAD_SRC, Create None ZST_PAD_SINK, Link 1 2, Unref 2] (\<lambda>_. 0, empty_graph []) =
     Some (own, g) \<and> own 2 = 0 \<and> pads g 2 = Some x \<and> pd_peer x = Some 1 \<and> pd_refcount x = int (own 2) + 1"
proof -
  let ?calls = "[Create None ZST_PAD_SRC, Create None ZST_PAD_SINK, Link 1 2, Unref 2]"
  have "map_option (\<lambda>(own, g). (own 2, map_option pd_peer (pads g 2))) (pad_run quiet ?calls (\<lambda>_. 0, empty_graph [])) =
      Some (0, Some (Some 1))" by code_simp
  with pad_graph_consistent [of quiet ?calls "[]"] show ?thesis by (auto simp del: pad_run.simps)
qed

text \<open>C24: with memory available, a negotiation between two pads that offer well-formed capabilities fails and changes
  nothing when no structure of one agrees with a structure of the other.  Otherwise both pads end up with the same single, fixed structure, and it is the
  one of the first agreeing pair: each attribute of raw media is the value that one of the two sets, or the default where both leave it open, and
  every generic field of either is in it.\<close>

theorem pad_negotiate_agrees:
  assumes "pads g p = Some x" "pd_parent x = None" "offer x = Some ss1" "caps_ok ss1"
    and "pads g q = Some y" "pd_parent y = None" "offer y = Some ss2" "caps_ok ss2"
    and "p \<noteq> q" and "plenty (script (eheap g))"
  shows "\<exists>r g'. zst_pad_negotiate E p q g = Some (r, g') \<and>
    (case find (\<lambda>(s1, s2). structs_agree s1 s2) (List.product (map copied ss1) (map copied ss2)) of
       None \<Rightarrow> r = ZST_ERROR \<and> pads g' = pads g
     | Some (s1, s2) \<Rightarrow> r = ZST_OK \<and>
         (\<exists>t. zst_caps_is_fixed (Some [t]) \<and> agreed s1 s2 t \<and>
            pads g' = (pads g)(p \<mapsto> x\<lparr>pd_caps := Some [t]\<rparr>, q \<mapsto> y\<lparr>pd_caps := Some [t]\<rparr>)))"
  by (rule negotiate_plenty [OF assms])

definition demo_pads :: "int \<Rightarrow> addr option \<Rightarrow> pad_graph" where
  "demo_pads w peer = put_pad 2 ((new_pad None ZST_PAD_SINK)\<lparr>pd_caps := Some [demo_video 640 480 ''NV12''], pd_peer := peer\<rparr>)
     (put_pad 1 ((new_pad None ZST_PAD_SRC)\<lparr>pd_template_caps := Some [demo_video w 0 []]\<rparr>) (empty_graph []))"

lemma demo_pads_simps:
  "pads (demo_pads w peer) 1 = Some ((new_pad None ZST_PAD_SRC)\<lparr>pd_template_caps := Some [demo_video w 0 []]\<rparr>)"
  "pads (demo_pads w peer) 2 = Some ((new_pad None ZST_PAD_SINK)\<lparr>pd_caps := Some [demo_video 640 480 ''NV12''], pd_peer := peer\<rparr>)"
  "plenty (script (eheap (demo_pads w peer)))"
  by (simp_all add: demo_pads_def empty_graph_def)

theorem pad_negotiate_agrees_witness:
  "\<exists>g' t. zst_pad_negotiate quiet 1 2 (demo_pads 0 None) = Some (ZST_OK, g') \<and> zst_caps_is_fixed (Some [t]) \<and> width (video t) = 640 \<and>
     map_option pd_caps (pads g' 1) = Some (Some [t]) \<and> map_option pd_caps (pads g' 2) = Some (Some [t])"
proof -
  note d = demo_pads_simps [of 0 None]
  have r: "map_option fst (zst_pad_negotiate quiet 1 2 (demo_pads 0 None)) = Some ZST_OK" by code_simp
  have "\<exists>r g'. zst_pad_negotiate quiet 1 2 (demo_pads 0 None) = Some (r, g') \<and>
    (case find (\<lambda>(s1, s2). structs_agree s1 s2) (List.product (map copied [demo_video 0 0 []]) (map copied [demo_video 640 480 ''NV12''])) of
       None \<Rightarrow> r = ZST_ERROR \<and> pads g' = pads (demo_pads 0 None)
     | Some (s1, s2) \<Rightarrow> r = ZST_OK \<and> (\<exists>t. zst_caps_is_fixed (Some [t]) \<and> agreed s1 s2 t \<and>
            pads g' = (pads (demo_pads 0 None))(1 \<mapsto> ((new_pad None ZST_PAD_SRC)\<lparr>pd_template_caps := Some [demo_video 0 0 []]\<rparr>)\<lparr>pd_caps := Some [t]\<rparr>,
              2 \<mapsto> ((new_pad None ZST_PAD_SINK)\<lparr>pd_caps := Some [demo_video 640 480 ''NV12''], pd_peer := None\<rparr>)\<lparr>pd_caps := Some [t]\<rparr>)))"
    by (rule pad_negotiate_agrees [OF d(1) _ _ _ d(2) _ _ _ _ d(3)])
      (simp_all add: new_pad_def offer_def caps_ok_def demo_video_ok)
  with r show ?thesis
    by (auto simp: agreed_def fixed_video_def meet_video_def meet_or_def demo_video_ok caps_is_raw_video_struct_def split: option.splits if_splits)
qed

text \<open>A link that is refused is not without effect.  When the sink is already linked, \<open>zst_pad_link\<close> answers with an
  error, but it has negotiated before it looks, so the capabilities of both pads have been replaced by
  the outcome: a source that was open to several formats stays pinned to one.\<close>

lemma pad_link_refused_pins_caps:
  assumes "pads g p = Some x" "pd_parent x = None" "offer x = Some ss1" "caps_ok ss1" "pd_direction x = ZST_PAD_SRC"
    and "pads g q = Some y" "pd_parent y = None" "offer y = Some ss2" "caps_ok ss2" "pd_direction y = ZST_PAD_SINK"
    and "plenty (script (eheap g))" and "pd_peer y \<noteq> None"
    and "find (\<lambda>(s1, s2). structs_agree s1 s2) (List.product (map copied ss1) (map copied ss2)) = Some (s1, s2)"
  shows "\<exists>t g'. zst_pad_link E p q g = Some (ZST_ERROR, g') \<and> zst_caps_is_fixed (Some [t]) \<and>
    pads g' = (pads g)(p \<mapsto> x\<lparr>pd_caps := Some [t]\<rparr>, q \<mapsto> y\<lparr>pd_caps := Some [t]\<rparr>)"
proof -
  have "p \<noteq> q" using assms(1,5,6,10) by auto
  obtain g' t where n: "zst_pad_negotiate E p q g = Some (ZST_OK, g')" "zst_caps_is_fixed (Some [t])"
      "pads g' = (pads g)(p \<mapsto> x\<lparr>pd_caps := Some [t]\<rparr>, q \<mapsto> y\<lparr>pd_caps := Some [t]\<rparr>)"
    using negotiate_plenty [OF assms(1-4,6-9) \<open>p \<noteq> q\<close> assms(11), of E] assms(13) by auto
  then have "zst_pad_link E p q g = Some (ZST_ERROR, g')" using assms \<open>p \<noteq> q\<close> by (simp add: zst_pad_link_def)
  with n show ?thesis by blast
qed

lemma overlap_instant:
  "(\<exists>t. a \<le> t \<and> t < c \<and> b \<le> t \<and> (n \<or> t < d)) \<longleftrightarrow> max a b < c \<and> (n \<or> max a b < (d :: nat))"
proof
  assume "\<exists>t. a \<le> t \<and> t < c \<and> b \<le> t \<and> (n \<or> t < d)"
  then obtain t where "max a b \<le> t" "t < c" "n \<or> t < d" by auto
  then show "max a b < c \<and> (n \<or> max a b < d)" by linarith
qed (rule exI [of _ "max a b"], simp)

text \<open>The clipping of buffers against a segment is exactly an overlap of time ranges.  For a segment that is not
  empty and a buffer whose end does not pass the largest time, the buffer is kept if and only if some
  instant of it, the only one when it has no duration, lies in the segment.\<close>

lemma segment_keeps_overlap:
  assumes "unat (pts b) + unat (duration b) < 2 ^ 64" and "seg_stop s = - 1 \<or> seg_start s < seg_stop s"
  shows "in_segment s b \<longleftrightarrow>
    (\<exists>t. unat (pts b) \<le> t \<and> t < unat (pts b) + max 1 (unat (duration b)) \<and> unat (seg_start s) \<le> t \<and>
       (seg_stop s = - 1 \<or> t < unat (seg_stop s)))"
proof -
  have e: "unat (pts b + duration b) = unat (pts b) + unat (duration b)" using assms(1) by (simp add: unat_word_ariths)
  have d: "0 < duration b \<longleftrightarrow> 0 < unat (duration b)" by (simp add: word_less_nat_alt)
  have "in_segment s b \<longleftrightarrow> (if 0 < unat (duration b) then unat (seg_start s) < unat (pts b) + unat (duration b) else unat (seg_start s) \<le> unat (pts b)) \<and>
      (seg_stop s = - 1 \<or> unat (pts b) < unat (seg_stop s))"
    unfolding in_segment_def Let_def d word_less_nat_alt word_le_nat_alt by (simp add: not_le not_less e)
  moreover have "seg_stop s = - 1 \<or> unat (seg_start s) < unat (seg_stop s)" using assms(2) by (simp add: word_less_nat_alt)
  ultimately show ?thesis unfolding overlap_instant by (auto simp: max_def)
qed

definition demo_buffer :: zst_buffer where
  "demo_buffer = (zero_buffer 0)\<lparr>pts := 90, duration := 20\<rparr>"

text \<open>What a sink does with a timestamp, exactly: it waits for a buffer that is between 5 ms and 5 s early, and
  drops one that is late by less than 5 s.  Late means by more than 100 ms, except while the clock is
  below 100 ms: then the limit underflows, and every buffer that is not ahead of the clock is dropped,
  also one that is just on time.\<close>

lemma qos_decision_exact:
  assumes "unat current + 5000000 < 2 ^ 64"
  shows "(qos_decision current t = Qos_drop \<longleftrightarrow>
      t \<le> current \<and> unat current - unat t < 5000000000 \<and> (unat current < 100000000 \<or> 100000000 < unat current - unat t)) \<and>
    (\<forall>w. qos_decision current t = Qos_wait w \<longleftrightarrow>
      w = t - current \<and> unat current + 5000000 < unat t \<and> unat t - unat current < 5000000000)"
proof -
  have n: "unat (5000000 :: u64) = 5000000" "unat (100000000 :: u64) = 100000000" "unat (5000000000 :: u64) = 5000000000" by simp_all
  have c: "unat current < 2 ^ 64" "unat t < 2 ^ 64" using unsigned_less [of current, where ?'a = nat] unsigned_less [of t, where ?'a = nat] by simp_all
  have plus: "unat (current + 5000000) = unat current + 5000000" using assms by (simp add: unat_word_ariths)
  have minus: "unat (x - y) = (if y \<le> x then unat x - unat y else unat x + 2 ^ 64 - unat y)" for x y :: u64
    using unat_sub_if' [of x y] unfolding word_le_nat_alt by simp
  have cmp: "x < y \<longleftrightarrow> unat x < unat y" "x \<le> y \<longleftrightarrow> unat x \<le> unat y" for x y :: u64 by (simp_all add: word_less_nat_alt word_le_nat_alt)
  define C T where "C = unat current" and "T = unat t"
  have q: "qos_decision current t =
      (if C + 5000000 < T then (if T - C < 5000000000 then Qos_wait (t - current) else Qos_render)
       else if T < (if 100000000 \<le> C then C - 100000000 else C + 2 ^ 64 - 100000000)
         then (if (if T \<le> C then C - T else C + 2 ^ 64 - T) < 5000000000 then Qos_drop else Qos_render)
       else Qos_render)"
  proof -
    have "C + 5000000 < T \<Longrightarrow> unat (t - current) = T - C" using minus [of t current] by (simp add: C_def T_def cmp)
    then show ?thesis unfolding qos_decision_def cmp plus n by (simp add: minus cmp n C_def T_def) linarith
  qed
  have drop: "qos_decision current t = Qos_drop \<longleftrightarrow> T \<le> C \<and> C - T < 5000000000 \<and> (C < 100000000 \<or> 100000000 < C - T)"
    unfolding q using c [folded C_def T_def] by (cases "T \<le> C"; cases "100000000 \<le> C"; simp; linarith)
  have wait: "qos_decision current t = Qos_wait w \<longleftrightarrow> w = t - current \<and> C + 5000000 < T \<and> T - C < 5000000000" for w
    unfolding q by auto
  show ?thesis unfolding cmp using drop wait unfolding C_def T_def by blast
qed

text \<open>A source ghost pad leaves its proxy behind.  After a source pad (1) has been exposed through a ghost pad (2) with a
  proxy sink (3), setting the same target again fails, since the old proxy is still linked, and leaves
  the ghost pad without a target; and after the ghost pad has been destroyed, the source pad is still
  linked to the proxy, whose private pointer is the freed ghost pad.\<close>

lemma ghost_pad_leaves_proxy:
  "\<exists>g g1 g2. Option.bind (Some (snd (zst_pad_create None ZST_PAD_SRC (empty_graph [])))) (zst_ghost_pad_create quiet None 1) = Some (Some 2, g) \<and>
     zst_ghost_pad_set_target quiet 2 1 g = Some (ZST_ERROR, g1) \<and> map_option zst_ghost_pad_get_target (pads g1 2) = Some None \<and>
     pad_unref 2 g = Some g2 \<and> pads g2 2 = None \<and> map_option pd_peer (pads g2 1) = Some (Some 3) \<and>
     map_option pd_priv (pads g2 3) = Some (Proxy_priv 2)"
proof -
  let ?g0 = "zst_ghost_pad_create quiet None 1 (snd (zst_pad_create None ZST_PAD_SRC (empty_graph [])))"
  have "map_option fst ?g0 = Some (Some 2)" by code_simp
  then obtain g where g: "?g0 = Some (Some 2, g)" by auto
  have "map_option (\<lambda>(r, g1). (r, map_option zst_ghost_pad_get_target (pads g1 2)))
      (Option.bind ?g0 (\<lambda>(_, g). zst_ghost_pad_set_target quiet 2 1 g)) = Some (ZST_ERROR, Some None)" by code_simp
  moreover have "map_option (\<lambda>g2. (pads g2 2 = None, map_option pd_peer (pads g2 1), map_option pd_priv (pads g2 3)))
      (Option.bind ?g0 (\<lambda>(_, g). pad_unref 2 g)) = Some (True, Some (Some 3), Some (Proxy_priv 2))" by code_simp
  ultimately show ?thesis using g by auto
qed

end
