(* ===== verification/Zst_Graph.thy ===== *)
theory Zst_Graph
  imports Zst_Pad_Links
begin

text \<open>
  The walks of a pipeline over the graph of its elements (\<open>src/zst_pipeline.c\<close>): the topological sort, the
  ranks, and the count of the elements downstream on which the sizes of buffer pools depend.

  The elements are addresses, in the order of the array \<open>elements\<close>; their pads and links are the pad graph of
  \<open>Zst_Pad\<close>.  A walk takes references on the pads it looks at and drops them again; \<open>None\<close> means that it used a
  pad or an element that is gone, wrote outside of an array, or needed more than its fuel of nested calls.
\<close>

section \<open>Walking over the links\<close>

text \<open>The common frame: a snapshot of the source pads, the parent of the peer of each, release of the snapshot.
  Without memory for the snapshot no child is visited.\<close>

fun visit_pads :: "(addr \<Rightarrow> 's \<times> pad_graph \<Rightarrow> ('s \<times> pad_graph) option) \<Rightarrow> addr list \<Rightarrow> 's \<times> pad_graph \<Rightarrow> ('s \<times> pad_graph) option" where
  "visit_pads f [] sg = Some sg"
| "visit_pads f (p # ps) (s, g) =
     do { (peer, g1) \<leftarrow> zst_pad_get_peer p g;
          (case peer of None \<Rightarrow> visit_pads f ps (s, g1)
           | Some q \<Rightarrow>
               do { y \<leftarrow> pads g1 q;
                    g2 \<leftarrow> pad_unref q g1;
                    sg \<leftarrow> (case pd_parent y of None \<Rightarrow> Some (s, g2) | Some child \<Rightarrow> f child (s, g2));
                    visit_pads f ps sg }) }"

definition visit_children :: "(addr \<Rightarrow> 's \<times> pad_graph \<Rightarrow> ('s \<times> pad_graph) option) \<Rightarrow> addr \<Rightarrow> 's \<times> pad_graph \<Rightarrow> ('s \<times> pad_graph) option" where
  "visit_children f el = (\<lambda>(s, g).
     do { e \<leftarrow> elements g el;
          (snap, g1) \<leftarrow> snapshot_pads (pe_src_pads e) g;
          (case snap of None \<Rightarrow> Some (s, g1)
           | Some ps \<Rightarrow>
               do { (s2, g2) \<leftarrow> visit_pads f ps (s, g1);
                    g3 \<leftarrow> zst_element_pad_snapshot_free ps g2;
                    Some (s2, g3) }) })"

fun pipeline_element_index :: "addr list \<Rightarrow> addr \<Rightarrow> nat option" where
  "pipeline_element_index [] el = None"
| "pipeline_element_index (x # xs) el = (if x = el then Some 0 else map_option Suc (pipeline_element_index xs el))"

section \<open>Topological sort\<close>

text \<open>The scratch arrays; an entry of \<open>temp\<close> that was never written is \<open>None\<close>.\<close>

record sort_state =
  temp :: "addr option list"
  temp_idx :: nat
  visited :: "bool list"

primrec dfs_sort :: "nat \<Rightarrow> addr list \<Rightarrow> addr \<Rightarrow> sort_state \<times> pad_graph \<Rightarrow> (sort_state \<times> pad_graph) option" where
  "dfs_sort 0 els el sg = None"
| "dfs_sort (Suc n) els el sg =
     (case pipeline_element_index els el of None \<Rightarrow> Some sg
      | Some i \<Rightarrow>
          if visited (fst sg) ! i then Some sg
          else
            do { (s, g) \<leftarrow> visit_children (dfs_sort n els) el ((fst sg)\<lparr>visited := (visited (fst sg))[i := True]\<rparr>, snd sg);
                 if temp_idx s = 0 then None
                 else Some (s\<lparr>temp := (temp s)[temp_idx s - 1 := Some el], temp_idx := temp_idx s - 1\<rparr>, g) })"

text \<open>The two loops: first the elements without sink pads, then whatever is left.\<close>

fun sort_roots :: "nat \<Rightarrow> addr list \<Rightarrow> addr list \<Rightarrow> sort_state \<times> pad_graph \<Rightarrow> (sort_state \<times> pad_graph) option" where
  "sort_roots n els [] sg = Some sg"
| "sort_roots n els (x # xs) sg =
     do { e \<leftarrow> elements (snd sg) x;
          sg1 \<leftarrow> (if pe_sink_pads e = [] then dfs_sort n els x sg else Some sg);
          sort_roots n els xs sg1 }"

fun sort_rest :: "nat \<Rightarrow> addr list \<Rightarrow> nat \<Rightarrow> addr list \<Rightarrow> sort_state \<times> pad_graph \<Rightarrow> (sort_state \<times> pad_graph) option" where
  "sort_rest n els i [] sg = Some sg"
| "sort_rest n els i (x # xs) sg =
     do { sg1 \<leftarrow> (if \<not> visited (fst sg) ! i then dfs_sort n els x sg else Some sg);
          sort_rest n els (Suc i) xs sg1 }"

text \<open>\<open>pipeline_topological_sort_locked\<close>: the new contents of the array \<open>elements\<close>.  The nesting of calls is at
  most one more than the number of elements.\<close>

definition pipeline_topological_sort_locked :: "addr list \<Rightarrow> pad_graph \<Rightarrow> (addr option list \<times> pad_graph) option" where
  "pipeline_topological_sort_locked els g =
     (if length els \<le> 1 then Some (map Some els, g)
      else (case alloc (script (eheap g)) of
              (Some _, m) \<Rightarrow> Some (map Some els, set_script m g)
            | (None, m) \<Rightarrow>
                (case alloc m of
                   (Some _, m1) \<Rightarrow> Some (map Some els, set_script m1 g)
                 | (None, m1) \<Rightarrow>
                     (let n = Suc (length els);
                          s = \<lparr>temp = replicate (length els) None, temp_idx = length els, visited = replicate (length els) False\<rparr>
                      in do { sg1 \<leftarrow> sort_roots n els els (s, set_script m1 g);
                              sg2 \<leftarrow> sort_rest n els 0 els sg1;
                              Some (temp (fst sg2), snd sg2) }))))"

section \<open>Ranks\<close>

record rank_state =
  graph_rank :: "addr \<Rightarrow> u32"
  on_path :: "bool list"

primrec update_ranks_dfs :: "nat \<Rightarrow> addr list \<Rightarrow> addr \<Rightarrow> u32 \<Rightarrow> rank_state \<times> pad_graph \<Rightarrow> (rank_state \<times> pad_graph) option" where
  "update_ranks_dfs 0 els el current_rank sg = None"
| "update_ranks_dfs (Suc n) els el current_rank sg =
     (case pipeline_element_index els el of None \<Rightarrow> Some sg
      | Some i \<Rightarrow>
          (let s = fst sg;
               s1 = (if current_rank > graph_rank s el then s\<lparr>graph_rank := (graph_rank s)(el := current_rank)\<rparr> else s)
           in if on_path s1 ! i then Some (s1, snd sg)
              else
                do { (s2, g2) \<leftarrow> visit_children (\<lambda>child tg. update_ranks_dfs n els child (graph_rank (fst tg) el + 1) tg) el
                                    (s1\<lparr>on_path := (on_path s1)[i := True]\<rparr>, snd sg);
                     Some (s2\<lparr>on_path := (on_path s2)[i := False]\<rparr>, g2) }))"

definition zst_pipeline_update_ranks_from :: "addr list \<Rightarrow> addr \<Rightarrow> (addr \<Rightarrow> u32) \<times> pad_graph \<Rightarrow> ((addr \<Rightarrow> u32) \<times> pad_graph) option" where
  "zst_pipeline_update_ranks_from els start = (\<lambda>(rk, g).
     case alloc (script (eheap g)) of
       (Some _, m) \<Rightarrow> Some (rk, set_script m g)
     | (None, m) \<Rightarrow>
         do { (s, g1) \<leftarrow> update_ranks_dfs (Suc (length els)) els start (rk start)
                            (\<lparr>graph_rank = rk, on_path = replicate (length els) False\<rparr>, set_script m g);
              Some (graph_rank s, g1) })"

fun any_linked :: "addr list \<Rightarrow> pad_graph \<Rightarrow> bool option" where
  "any_linked [] g = Some False"
| "any_linked (p # ps) g = do { l \<leftarrow> zst_pad_is_linked p g; if l then Some True else any_linked ps g }"

text \<open>Whether an element counts as a source; without memory for the snapshot it does.\<close>

definition is_source :: "addr \<Rightarrow> pad_graph \<Rightarrow> (bool \<times> pad_graph) option" where
  "is_source el g =
     do { e \<leftarrow> elements g el;
          (snap, g1) \<leftarrow> snapshot_pads (pe_sink_pads e) g;
          (case snap of None \<Rightarrow> Some (True, g1)
           | Some ps \<Rightarrow>
               do { l \<leftarrow> any_linked ps g1;
                    g2 \<leftarrow> zst_element_pad_snapshot_free ps g1;
                    Some (\<not> l, g2) }) }"

fun rank_sources :: "addr list \<Rightarrow> addr list \<Rightarrow> (addr \<Rightarrow> u32) \<times> pad_graph \<Rightarrow> ((addr \<Rightarrow> u32) \<times> pad_graph) option" where
  "rank_sources els [] rg = Some rg"
| "rank_sources els (x # xs) rg =
     do { (src, g1) \<leftarrow> is_source x (snd rg);
          rg1 \<leftarrow> (if src then zst_pipeline_update_ranks_from els x (fst rg, g1) else Some (fst rg, g1));
          rank_sources els xs rg1 }"

definition pipeline_recalculate_ranks_locked :: "addr list \<Rightarrow> (addr \<Rightarrow> u32) \<times> pad_graph \<Rightarrow> ((addr \<Rightarrow> u32) \<times> pad_graph) option" where
  "pipeline_recalculate_ranks_locked els = (\<lambda>(rk, g). rank_sources els els (\<lambda>x. if x \<in> set els then 0 else rk x, g))"

section \<open>Counting downstream elements\<close>

text \<open>The name of an element's type: of its descriptor, else of its operation table.\<close>

record el_names =
  desc_name :: "string option"
  ops_name :: "string option"

definition pipeline_element_type_name :: "el_names \<Rightarrow> string option" where
  "pipeline_element_type_name e = (if desc_name e \<noteq> None then desc_name e else ops_name e)"

definition pipeline_element_is_type :: "el_names \<Rightarrow> string \<Rightarrow> bool" where
  "pipeline_element_is_type e ty = (pipeline_element_type_name e = Some ty)"

definition zst_pipeline_count_elements_of_type :: "(addr \<Rightarrow> el_names) \<Rightarrow> addr list \<Rightarrow> string \<Rightarrow> nat" where
  "zst_pipeline_count_elements_of_type names els ty = length (filter (\<lambda>el. pipeline_element_is_type (names el) ty) els)"

text \<open>The state of the walk is the count so far and the array \<open>visited\<close>.\<close>

primrec pipeline_count_downstream_type_dfs :: "nat \<Rightarrow> (addr \<Rightarrow> el_names) \<Rightarrow> addr list \<Rightarrow> string \<Rightarrow> addr
    \<Rightarrow> (nat \<times> bool list) \<times> pad_graph \<Rightarrow> ((nat \<times> bool list) \<times> pad_graph) option" where
  "pipeline_count_downstream_type_dfs 0 names els ty el cg = None"
| "pipeline_count_downstream_type_dfs (Suc n) names els ty el cg =
     visit_children (\<lambda>child ((count, vis), g).
       case pipeline_element_index els child of None \<Rightarrow> Some ((count, vis), g)
       | Some i \<Rightarrow>
           if vis ! i then Some ((count, vis), g)
           else pipeline_count_downstream_type_dfs n names els ty child
                  ((if pipeline_element_is_type (names child) ty then count + 1 else count, vis[i := True]), g)) el cg"

definition zst_pipeline_count_downstream_elements_of_type :: "(addr \<Rightarrow> el_names) \<Rightarrow> addr list \<Rightarrow> addr \<Rightarrow> string \<Rightarrow> pad_graph
    \<Rightarrow> (nat \<times> pad_graph) option" where
  "zst_pipeline_count_downstream_elements_of_type names els start ty g =
     (case alloc (script (eheap g)) of
        (Some _, m) \<Rightarrow> Some (0, set_script m g)
      | (None, m) \<Rightarrow>
          (let vis = replicate (length els) False;
               vis1 = (case pipeline_element_index els start of None \<Rightarrow> vis | Some i \<Rightarrow> vis[i := True])
           in do { ((count, _), g1) \<leftarrow> pipeline_count_downstream_type_dfs (Suc (length els)) names els ty start ((0, vis1), set_script m g);
                   Some (count, g1) }))"

section \<open>What the walks leave of the graph\<close>

text \<open>\<open>more_refs g h\<close>: \<open>h\<close> differs from \<open>g\<close> by further references on its pads and by the memory left.\<close>

definition add_refs :: "(addr \<Rightarrow> nat) \<Rightarrow> pad_graph \<Rightarrow> (addr \<rightharpoonup> zst_pad)" where
  "add_refs c g = (\<lambda>p. map_option (\<lambda>x. x\<lparr>pd_refcount := pd_refcount x + int (c p)\<rparr>) (pads g p))"

definition more_refs :: "pad_graph \<Rightarrow> pad_graph \<Rightarrow> bool" where
  "more_refs g h \<longleftrightarrow> elements h = elements g \<and> (\<exists>c. pads h = add_refs c g)"

definition live :: "pad_graph \<Rightarrow> addr \<Rightarrow> bool" where
  "live g p \<longleftrightarrow> (\<exists>x. pads g p = Some x \<and> 1 \<le> pd_refcount x)"

text \<open>The pads of an element and their peers are there.\<close>

definition walkable :: "pad_graph \<Rightarrow> addr \<Rightarrow> bool" where
  "walkable g el \<longleftrightarrow> (\<exists>e. elements g el = Some e \<and>
     (\<forall>p \<in> set (pe_src_pads e) \<union> set (pe_sink_pads e). live g p \<and> (\<forall>x q. pads g p = Some x \<longrightarrow> pd_peer x = Some q \<longrightarrow> live g q)))"

definition child_of :: "pad_graph \<Rightarrow> addr \<Rightarrow> addr option" where
  "child_of g p = do { x \<leftarrow> pads g p; q \<leftarrow> pd_peer x; y \<leftarrow> pads g q; pd_parent y }"

text \<open>The elements a walk goes to from an element, in order.\<close>

definition succs :: "pad_graph \<Rightarrow> addr \<Rightarrow> addr list" where
  "succs g el = (case elements g el of None \<Rightarrow> [] | Some e \<Rightarrow> List.map_filter (child_of g) (pe_src_pads e))"

lemma add_refs_0: "add_refs (\<lambda>_. 0) g = pads g"
  by (auto simp: add_refs_def option.map_ident)

lemma more_refs_refl [simp]: "more_refs g g"
  unfolding more_refs_def using add_refs_0 [of g] by metis

lemma more_refs_trans: "more_refs g h \<Longrightarrow> more_refs h k \<Longrightarrow> more_refs g k"
proof -
  assume "more_refs g h" "more_refs h k"
  then obtain c d where "pads h = add_refs c g" "pads k = add_refs d h" "elements k = elements g" by (auto simp: more_refs_def)
  then have "pads k = add_refs (\<lambda>p. c p + d p) g" by (auto simp: add_refs_def option.map_comp o_def add.assoc fun_eq_iff)
  then show ?thesis using \<open>elements k = elements g\<close> by (auto simp: more_refs_def)
qed

lemma more_refs_script [simp]: "more_refs g (set_script m h) = more_refs g h" "more_refs (set_script m g) h = more_refs g h"
  by (simp_all add: more_refs_def add_refs_def)

lemma more_refs_put:
  assumes "pads g p = Some x" shows "more_refs g (put_pad p (x\<lparr>pd_refcount := pd_refcount x + 1\<rparr>) g)"
proof -
  have "pads (put_pad p (x\<lparr>pd_refcount := pd_refcount x + 1\<rparr>) g) = add_refs (\<lambda>q. if q = p then 1 else 0) g"
    using assms by (auto simp: add_refs_def option.map_ident)
  then show ?thesis by (auto simp: more_refs_def)
qed

lemma live_more: "more_refs g h \<Longrightarrow> live g p \<Longrightarrow> live h p"
  by (auto simp: live_def more_refs_def add_refs_def)

lemma walkable_more: "more_refs g h \<Longrightarrow> walkable g el \<Longrightarrow> walkable h el"
  unfolding walkable_def by (fastforce simp: more_refs_def add_refs_def live_def)

lemma child_more: "more_refs g h \<Longrightarrow> child_of h p = child_of g p"
  by (cases "pads g p") (auto simp: child_of_def more_refs_def add_refs_def bind_eq_Some_conv map_option_case
      split: option.splits bind_splits intro!: bind_option_cong)

lemma succs_more: "more_refs g h \<Longrightarrow> succs h el = succs g el"
proof -
  assume m: "more_refs g h"
  then have "child_of h = child_of g" using child_more by blast
  with m show ?thesis by (simp add: succs_def more_refs_def split: option.split)
qed

text \<open>Taking a reference and dropping it.\<close>

lemma pad_ref_Some: "pads g p = Some x \<Longrightarrow> pad_ref p g = Some (put_pad p (x\<lparr>pd_refcount := pd_refcount x + 1\<rparr>) g)"
  by (simp add: pad_ref_def upd_pad_def)

lemma put_pad_twice: "pads g p = Some x \<Longrightarrow> put_pad p x (put_pad p y g) = g"
  by (cases g) (auto simp: put_pad_def)

lemma get_peer_unref:
  assumes "pads g p = Some x" and "pd_peer x = Some q" and "pads g q = Some y" and "1 \<le> pd_refcount y"
  shows "\<exists>g1. zst_pad_get_peer p g = Some (Some q, g1) \<and> map_option pd_parent (pads g1 q) = Some (pd_parent y) \<and> pad_unref q g1 = Some g"
proof -
  let ?y = "y\<lparr>pd_refcount := pd_refcount y + 1\<rparr>"
  have "pad_unref q (put_pad q ?y g) = Some (put_pad q y (put_pad q ?y g))"
    by (subst pad_unref.simps) (use assms(4) in \<open>simp add: Let_def\<close>)
  then show ?thesis using assms by (simp add: zst_pad_get_peer_def ref_peer_def pad_ref_Some put_pad_twice)
qed

lemma get_peer_none:
  assumes "pads g p = Some x" and "pd_peer x = None"
  shows "zst_pad_get_peer p g = Some (None, g)"
  using assms by (simp add: zst_pad_get_peer_def ref_peer_def)

abbreviation with_refs :: "(addr \<Rightarrow> nat) \<Rightarrow> pad_graph \<Rightarrow> pad_graph" where
  "with_refs c g \<equiv> g\<lparr>pads := add_refs c g\<rparr>"

lemma add_refs_pads [simp]: "add_refs c (g\<lparr>pads := add_refs d g\<rparr>) = add_refs (\<lambda>p. d p + c p) g"
  by (auto simp: add_refs_def option.map_comp o_def add.assoc)

lemma ref_with_refs:
  assumes "pads g p = Some x" shows "pad_ref p (with_refs c g) = Some (with_refs (c(p := Suc (c p))) g)"
  using assms by (auto simp: pad_ref_def upd_pad_def put_pad_def add_refs_def fun_eq_iff algebra_simps intro!: arg_cong2 [where f = "\<lambda>h f. pads_update f h"])

lemma unref_with_refs:
  assumes "live g p" and "0 < c p" shows "pad_unref p (with_refs c g) = Some (with_refs (c(p := c p - 1)) g)"
proof -
  obtain x where x: "pads g p = Some x" "1 \<le> pd_refcount x" using assms(1) by (auto simp: live_def)
  then have "pads (with_refs c g) p = Some (x\<lparr>pd_refcount := pd_refcount x + int (c p)\<rparr>)" by (simp add: add_refs_def)
  moreover have "pd_refcount x + int (c p) \<noteq> 1" using x assms(2) by simp
  moreover have "put_pad p (x\<lparr>pd_refcount := pd_refcount x + int (c p) - 1\<rparr>) (with_refs c g) = with_refs (c(p := c p - 1)) g"
    using x assms(2) by (auto simp: put_pad_def add_refs_def of_nat_diff fun_eq_iff algebra_simps intro!: arg_cong2 [where f = "\<lambda>h f. pads_update f h"])
  ultimately show ?thesis by (subst pad_unref.simps) (simp add: Let_def)
qed

lemma ref_pads_with_refs:
  "\<forall>p \<in> set ps. live g p \<Longrightarrow> ref_pads ps (with_refs c g) = Some (with_refs (\<lambda>p. c p + count_list ps p) g)"
proof (induction ps arbitrary: c)
  case (Cons p ps)
  then obtain x where "pads g p = Some x" by (auto simp: live_def)
  with Cons show ?case by (auto simp: ref_with_refs intro!: arg_cong [where f = "\<lambda>c. with_refs c g"])
qed simp

lemma free_with_refs:
  "\<forall>p \<in> set ps. live g p \<Longrightarrow> zst_element_pad_snapshot_free ps (with_refs (\<lambda>p. c p + count_list ps p) g) = Some (with_refs c g)"
proof (induction ps arbitrary: c)
  case (Cons p ps)
  have "(\<lambda>q. c q + count_list (p # ps) q)(p := c p + count_list (p # ps) p - 1) = (\<lambda>q. c q + count_list ps q)" by auto
  with unref_with_refs [of g p "\<lambda>q. c q + count_list (p # ps) q"] Cons.prems
  have "pad_unref p (with_refs (\<lambda>q. c q + count_list (p # ps) q) g) = Some (with_refs (\<lambda>q. c q + count_list ps q) g)" by simp
  with Cons show ?case by (simp del: count_list.simps)
qed simp

lemma with_refs_0 [simp]: "with_refs (\<lambda>_. 0) g = g"
  by (simp add: add_refs_0)

lemma snapshot_cases:
  assumes "\<forall>p \<in> set ps. live g p"
  obtains (none) m where "snapshot_pads ps g = Some (None, set_script m g)" "\<not> plenty (script (eheap g))"
  | (taken) m c where "snapshot_pads ps g = Some (Some ps, set_script m (with_refs c g))"
      "plenty (script (eheap g)) \<Longrightarrow> plenty m"
      "\<And>m'. zst_element_pad_snapshot_free ps (set_script m' (with_refs c g)) = Some (set_script m' g)"
proof (cases "alloc (script (eheap g))")
  case (Pair a m)
  have pl: "plenty (script (eheap g)) \<Longrightarrow> a = None \<and> plenty m" using Pair plenty_alloc by (metis prod.inject)
  have l: "\<forall>p \<in> set ps. live (set_script m' g) p" for m' using assms by (simp add: live_def)
  have sc: "set_script m' (with_refs c g) = with_refs c (set_script m' g)" for m' c by (simp add: add_refs_def)
  have rf: "ref_pads ps (set_script m' g) = Some (set_script m' (with_refs (count_list ps) g))" for m'
    unfolding sc using ref_pads_with_refs [OF l, of "\<lambda>_. 0"] by (simp only: with_refs_0 add_0)
  have fr: "zst_element_pad_snapshot_free ps (set_script m' (with_refs (count_list ps) g)) = Some (set_script m' g)" for m'
    unfolding sc using free_with_refs [OF l, of "\<lambda>_. 0"] by (simp only: with_refs_0 add_0)
  consider "ps = []" | "ps \<noteq> []" "a = None" | "ps \<noteq> []" "a \<noteq> None" by blast
  then show ?thesis
  proof cases
    case 1
    have "set_script (script (eheap g)) (with_refs (\<lambda>_. 0) g) = g" by (simp add: add_refs_0)
    with 1 taken [of "script (eheap g)" "\<lambda>_. 0"] show ?thesis by (simp add: snapshot_pads_def add_refs_0)
  next
    case 2
    with taken [of m "count_list ps"] rf fr Pair pl show ?thesis by (simp add: snapshot_pads_def)
  next
    case 3
    with pl have "\<not> plenty (script (eheap g))" by blast
    with 3 none [of m] Pair show ?thesis by (auto simp: snapshot_pads_def)
  qed
qed

text \<open>The rule for walks: what each visit keeps, for graphs that differ by references, the whole walk keeps.\<close>

lemma visit_pads_rule:
  assumes live: "\<forall>p \<in> set ps. live g p \<and> (\<forall>x q. pads g p = Some x \<longrightarrow> pd_peer x = Some q \<longrightarrow> live g q)"
    and step: "\<And>cs c s m. c \<in> set (List.map_filter (child_of g) ps) \<Longrightarrow> I cs s \<Longrightarrow> (b \<Longrightarrow> plenty m) \<Longrightarrow>
      \<exists>s' m'. f c (s, set_script m g) = Some (s', set_script m' g) \<and> (b \<longrightarrow> plenty m') \<and> I (cs @ [c]) s'"
    and I: "I cs s" and b: "b \<Longrightarrow> plenty m"
  shows "\<exists>s' m'. visit_pads f ps (s, set_script m g) = Some (s', set_script m' g) \<and> (b \<longrightarrow> plenty m') \<and>
    I (cs @ List.map_filter (child_of g) ps) s'"
  using assms
proof (induction ps arbitrary: cs s m)
  case Nil
  then show ?case by (auto simp: map_filter_simps)
next
  case (Cons p ps)
  let ?g = "set_script m g"
  obtain x where x: "pads g p = Some x" using Cons.prems(1) by (auto simp: live_def)
  have step: "\<exists>s' m'. f c (s, set_script m g) = Some (s', set_script m' g) \<and> (b \<longrightarrow> plenty m') \<and> I (cs @ [c]) s'"
    if "c \<in> set (List.map_filter (child_of g) ps)" "I cs s" "b \<Longrightarrow> plenty m" for cs c s m
    using Cons.prems(2) that by (auto simp: map_filter_simps split: option.splits)
  have rest: "\<exists>s' m'. visit_pads f ps (s1, set_script m1 g) = Some (s', set_script m' g) \<and> (b \<longrightarrow> plenty m') \<and>
      I (cs1 @ List.map_filter (child_of g) ps) s'" if "I cs1 s1" "b \<Longrightarrow> plenty m1" for cs1 s1 m1
    using Cons.IH [OF _ step that] Cons.prems(1) by simp
  show ?case
  proof (cases "pd_peer x")
    case None
    then have "child_of g p = None" using x by (simp add: child_of_def)
    moreover have "zst_pad_get_peer p ?g = Some (None, ?g)" using x None by (intro get_peer_none) simp_all
    ultimately show ?thesis using rest [of cs s m] Cons.prems(3,4) by (simp add: map_filter_simps)
  next
    case (Some q)
    then obtain y where y: "pads g q = Some y" "1 \<le> pd_refcount y" using Cons.prems(1) x by (auto simp: live_def)
    then obtain g1 where g1: "zst_pad_get_peer p ?g = Some (Some q, g1)" "map_option pd_parent (pads g1 q) = Some (pd_parent y)"
        "pad_unref q g1 = Some ?g" using get_peer_unref [of ?g p x q y] x Some by auto
    have c: "child_of g p = pd_parent y" using x Some y by (simp add: child_of_def)
    show ?thesis
    proof (cases "pd_parent y")
      case None
      with g1 c rest [of cs s m] Cons.prems(3,4) show ?thesis by (auto simp: map_filter_simps)
    next
      case (Some ch)
      with c obtain s1 m1 where s1: "f ch (s, ?g) = Some (s1, set_script m1 g)" "b \<longrightarrow> plenty m1" "I (cs @ [ch]) s1"
        using Cons.prems(2) [of ch cs s m] Cons.prems(3,4) by (auto simp: map_filter_simps)
      with g1 c Some rest [of "cs @ [ch]" s1 m1] show ?thesis by (auto simp: map_filter_simps)
    qed
  qed
qed

lemma visit_children_rule:
  assumes w: "walkable g el"
    and step: "\<And>cs c s h. c \<in> set (succs g el) \<Longrightarrow> more_refs g h \<Longrightarrow> (b \<Longrightarrow> plenty (script (eheap h))) \<Longrightarrow> I cs s \<Longrightarrow>
      \<exists>s' m. f c (s, h) = Some (s', set_script m h) \<and> (b \<longrightarrow> plenty m) \<and> I (cs @ [c]) s'"
    and b: "b \<Longrightarrow> plenty (script (eheap g))" and I: "I [] s"
  shows "\<exists>s' m cs. visit_children f el (s, g) = Some (s', set_script m g) \<and> (b \<longrightarrow> plenty m \<and> cs = succs g el) \<and> I cs s'"
proof -
  obtain e where e: "elements g el = Some e"
    and live: "\<forall>p \<in> set (pe_src_pads e). live g p \<and> (\<forall>x q. pads g p = Some x \<longrightarrow> pd_peer x = Some q \<longrightarrow> live g q)"
    using w by (auto simp: walkable_def)
  then have "\<forall>p \<in> set (pe_src_pads e). live g p" by blast
  then show ?thesis
  proof (cases rule: snapshot_cases)
    case (none m)
    then have "visit_children f el (s, g) = Some (s, set_script m g)" using e by (simp add: visit_children_def)
    with none b I show ?thesis by blast
  next
    case (taken m c)
    let ?h = "with_refs c g"
    have mr: "more_refs g (set_script m' ?h)" for m' by (auto simp: more_refs_def)
    have sc: "succs ?h el = succs g el" using succs_more [OF mr [of "script (eheap g)"]] by simp
    have ch: "List.map_filter (child_of ?h) (pe_src_pads e) = succs g el" using sc e by (simp add: succs_def)
    have live': "\<forall>p \<in> set (pe_src_pads e). live ?h p \<and> (\<forall>x q. pads ?h p = Some x \<longrightarrow> pd_peer x = Some q \<longrightarrow> live ?h q)"
      using live unfolding live_def add_refs_def by fastforce
    have st: "\<exists>s' m'. f c (s, set_script m ?h) = Some (s', set_script m' ?h) \<and> (b \<longrightarrow> plenty m') \<and> I (cs @ [c]) s'"
      if "c \<in> set (List.map_filter (child_of ?h) (pe_src_pads e))" "I cs s" "b \<Longrightarrow> plenty m" for cs c s m
      using step [of c "set_script m ?h" cs s] that mr unfolding ch by simp
    from visit_pads_rule [where I = I and f = f and b = b and g = ?h, OF live' st I, of m] taken(2) b obtain s' m' where
      v: "visit_pads f (pe_src_pads e) (s, set_script m ?h) = Some (s', set_script m' ?h)" "b \<longrightarrow> plenty m'" "I (succs g el) s'"
      unfolding ch by auto
    then have "visit_children f el (s, g) = Some (s', set_script m' g)" using e taken(1,3) by (simp add: visit_children_def)
    with v show ?thesis by blast
  qed
qed

section \<open>The sort\<close>

lemma index_None: "pipeline_element_index els el = None \<longleftrightarrow> el \<notin> set els"
  by (induction els) auto

lemma index_Some:
  assumes "distinct els"
  shows "pipeline_element_index els el = Some i \<longleftrightarrow> i < length els \<and> els ! i = el"
  using assms
proof (induction els arbitrary: i)
  case (Cons x xs)
  then show ?case by (cases i) (auto dest: nth_mem)
qed simp

text \<open>\<open>marks els vis V\<close>: the array \<open>visited\<close> marks the elements in \<open>V\<close>.\<close>

definition marks :: "addr list \<Rightarrow> bool list \<Rightarrow> addr set \<Rightarrow> bool" where
  "marks els vis V \<longleftrightarrow> length vis = length els \<and> V \<subseteq> set els \<and> (\<forall>i < length els. vis ! i \<longleftrightarrow> els ! i \<in> V)"

lemma marks_set:
  assumes "marks els vis V" and "distinct els" and "i < length els"
  shows "marks els (vis[i := True]) (insert (els ! i) V)" and "marks els (vis[i := False]) (V - {els ! i})"
  using assms by (auto simp: marks_def nth_list_update nth_eq_iff_index_eq)

lemma marks_empty: "marks els (replicate (length els) False) {}"
  by (simp add: marks_def)

text \<open>The links between elements of the pipeline.\<close>

definition links :: "addr list \<Rightarrow> pad_graph \<Rightarrow> (addr \<times> addr) set" where
  "links els g = {(u, v). u \<in> set els \<and> v \<in> set els \<and> v \<in> set (succs g u)}"

lemma links_more: "more_refs g h \<Longrightarrow> links els h = links els g"
  by (simp add: links_def succs_more)

fun forward :: "(addr \<times> addr) set \<Rightarrow> addr list \<Rightarrow> bool" where
  "forward E [] = True"
| "forward E (u # us) = (E `` {u} \<subseteq> set us \<and> forward E us)"

text \<open>\<open>out\<close> is what the array \<open>temp\<close> holds from \<open>temp_idx\<close> on.\<close>

definition sorted_part :: "addr list \<Rightarrow> sort_state \<Rightarrow> addr list \<Rightarrow> addr set \<Rightarrow> bool" where
  "sorted_part els s out V \<longleftrightarrow> marks els (visited s) V \<and> distinct out \<and> set out \<subseteq> V \<and> length (temp s) = length els \<and>
     temp_idx s + length out = length els \<and> drop (temp_idx s) (temp s) = map Some out"

lemma sorted_part_push:
  assumes s: "sorted_part els s out V" and el: "el \<in> V" "el \<notin> set out" and d: "distinct els"
  shows "0 < temp_idx s" and "sorted_part els (s\<lparr>temp := (temp s)[temp_idx s - 1 := Some el], temp_idx := temp_idx s - 1\<rparr>) (el # out) V"
proof -
  have "set (el # out) \<subseteq> set els" "distinct (el # out)" using s el by (auto simp: sorted_part_def marks_def)
  then have "length (el # out) \<le> length els" using d by (metis card_mono distinct_card finite_set)
  then show pos: "0 < temp_idx s" using s by (simp add: sorted_part_def)
  let ?k = "temp_idx s - 1"
  have "drop ?k ((temp s)[?k := Some el]) = Some el # drop (Suc ?k) (temp s)"
    using pos s by (subst Cons_nth_drop_Suc [symmetric]) (auto simp: sorted_part_def)
  then show "sorted_part els (s\<lparr>temp := (temp s)[?k := Some el], temp_idx := ?k\<rparr>) (el # out) V"
    using s el pos by (auto simp: sorted_part_def)
qed

text \<open>What a call of \<open>dfs_sort\<close> adds: the elements \<open>new\<close>, not seen before, in front of \<open>out\<close>; afterwards all of
  \<open>W\<close> is seen.  With \<open>ok\<close> all links from the new elements lead to the right.\<close>

definition adds :: "addr list \<Rightarrow> (addr \<times> addr) set \<Rightarrow> bool \<Rightarrow> addr list \<Rightarrow> addr set \<Rightarrow> addr set \<Rightarrow> addr list \<Rightarrow> sort_state \<Rightarrow> bool" where
  "adds els E ok out V W new s' \<longleftrightarrow> sorted_part els s' (new @ out) (V \<union> set new) \<and> set new \<inter> V = {} \<and>
     W \<inter> set els \<subseteq> V \<union> set new \<and> (ok \<longrightarrow> forward E out \<longrightarrow> forward E (new @ out))"

lemma adds_none: "sorted_part els s out V \<Longrightarrow> W \<inter> set els \<subseteq> V \<Longrightarrow> adds els E ok out V W [] s"
  by (simp add: adds_def)

lemma adds_trans:
  "adds els E ok out V W new t \<Longrightarrow> adds els E ok (new @ out) (V \<union> set new) W2 new2 s' \<Longrightarrow> adds els E ok out V (W \<union> W2) (new2 @ new) s'"
  unfolding adds_def by (auto simp: Un_assoc Un_left_commute Un_commute)

text \<open>The elements that are seen but not finished, on the way to \<open>el\<close>, reach \<open>el\<close>.\<close>

definition on_way :: "addr list \<Rightarrow> (addr \<times> addr) set \<Rightarrow> addr \<Rightarrow> addr list \<Rightarrow> addr set \<Rightarrow> bool" where
  "on_way els E el out V \<longleftrightarrow> (el \<in> set els \<longrightarrow> (\<forall>x \<in> V - set out. (x, el) \<in> E\<^sup>+))"

lemma on_way_child:
  assumes "on_way els E el out V" and "el \<in> set els" and "(el, c) \<in> E" and "set new \<inter> insert el V = {}"
  shows "on_way els E c (new @ out) (insert el V \<union> set new)"
  unfolding on_way_def
proof (intro impI ballI)
  fix x assume "x \<in> insert el V \<union> set new - set (new @ out)"
  then have "x = el \<or> x \<in> V - set out" by auto
  then show "(x, c) \<in> E\<^sup>+" using assms(1,2,3) unfolding on_way_def by (meson r_into_trancl' trancl.trancl_into_trancl)
qed

lemma adds_finish:
  assumes a: "adds els E ok out (insert el V) (set cs) new t" and d: "distinct els" and el: "el \<in> set els" "el \<notin> V"
    and out: "set out \<subseteq> V" and kids: "ok \<Longrightarrow> E `` {el} \<subseteq> set cs \<inter> set els" and ok: "ok \<Longrightarrow> acyclic E" "ok \<Longrightarrow> on_way els E el out V"
    and t': "t' = t\<lparr>temp := (temp t)[temp_idx t - 1 := Some el], temp_idx := temp_idx t - 1\<rparr>"
  shows "0 < temp_idx t \<and> adds els E ok out V {el} (el # new) t'"
proof -
  from a have new: "sorted_part els t (new @ out) (insert el V \<union> set new)" "set new \<inter> insert el V = {}"
    "set cs \<inter> set els \<subseteq> insert el V \<union> set new" "ok \<longrightarrow> forward E out \<longrightarrow> forward E (new @ out)" by (simp_all add: adds_def)
  have push: "0 < temp_idx t" "sorted_part els t' (el # new @ out) (insert el V \<union> set new)"
    using sorted_part_push [OF new(1) _ _ d, of el] new(2) el(2) out t' by auto
  have "E `` {el} \<subseteq> set (new @ out)" if o: "ok"
  proof
    fix v assume "v \<in> E `` {el}"
    then have v: "(el, v) \<in> E" by simp
    then have "v \<in> insert el V \<union> set new" using kids [OF o] new(3) by auto
    moreover have "v \<noteq> el" using v ok(1) [OF o] by (auto simp: acyclic_def)
    moreover have "(v, el) \<notin> E\<^sup>+" using v ok(1) [OF o] by (meson acyclic_def trancl_into_trancl2)
    then have "v \<notin> V - set out" using ok(2) [OF o] el(1) by (auto simp: on_way_def)
    ultimately show "v \<in> set (new @ out)" by auto
  qed
  with new push el show ?thesis by (auto simp: adds_def)
qed

text \<open>The contract of \<open>dfs_sort\<close> with \<open>n\<close> levels of calls left.\<close>

definition sorts :: "addr list \<Rightarrow> pad_graph \<Rightarrow> bool \<Rightarrow> nat \<Rightarrow> bool" where
  "sorts els g ok n \<longleftrightarrow> (\<forall>V h s out el. card (set els - V) < n \<longrightarrow> more_refs g h \<longrightarrow> sorted_part els s out V \<longrightarrow>
     (ok \<longrightarrow> plenty (script (eheap h)) \<and> on_way els (links els g) el out V) \<longrightarrow>
     (\<exists>s' m new. dfs_sort n els el (s, h) = Some (s', set_script m h) \<and> (ok \<longrightarrow> plenty m) \<and>
        adds els (links els g) ok out V {el} new s'))"

lemma sortsD:
  assumes "sorts els g ok n" "card (set els - V) < n" "more_refs g h" "sorted_part els s out V"
    "ok \<Longrightarrow> plenty (script (eheap h))" "ok \<Longrightarrow> on_way els (links els g) el out V"
  obtains s' m new where "dfs_sort n els el (s, h) = Some (s', set_script m h)" "ok \<longrightarrow> plenty m"
    "adds els (links els g) ok out V {el} new s'"
  using assms unfolding sorts_def by meson

lemma sort_children:
  assumes IH: "sorts els g ok n" and w: "walkable h el" and h: "more_refs g h" and el: "el \<in> set els"
    and sp: "sorted_part els s out (insert el V)" and fuel: "card (set els - insert el V) < n"
    and ok: "ok \<Longrightarrow> plenty (script (eheap h))" "ok \<Longrightarrow> on_way els (links els g) el out V"
  shows "\<exists>t m cs new. visit_children (dfs_sort n els) el (s, h) = Some (t, set_script m h) \<and> (ok \<longrightarrow> plenty m \<and> cs = succs h el) \<and>
    adds els (links els g) ok out (insert el V) (set cs) new t"
proof -
  let ?E = "links els g" and ?V = "insert el V"
  have step: "\<exists>s' m. dfs_sort n els c (t, k) = Some (s', set_script m k) \<and> (ok \<longrightarrow> plenty m) \<and>
      (\<exists>new. adds els ?E ok out ?V (set (cs @ [c])) new s')"
    if c: "c \<in> set (succs h el)" and k: "more_refs h k" "ok \<Longrightarrow> plenty (script (eheap k))" and I: "\<exists>new. adds els ?E ok out ?V (set cs) new t"
    for cs c t k
  proof -
    obtain new where new: "adds els ?E ok out ?V (set cs) new t" using I by blast
    have way: "on_way els ?E c (new @ out) (?V \<union> set new)" if "ok"
    proof (cases "c \<in> set els")
      case True
      then have "(el, c) \<in> ?E" using c el succs_more [OF h] by (simp add: links_def)
      with on_way_child [OF ok(2) [OF that] el] new show ?thesis by (simp add: adds_def)
    qed (simp add: on_way_def)
    have "card (set els - (?V \<union> set new)) < n" using fuel by (meson Diff_mono List.finite_set card_mono finite_Diff le_less_trans order_refl sup_ge1)
    moreover have "sorted_part els t (new @ out) (?V \<union> set new)" using new by (simp add: adds_def)
    ultimately obtain s' m new2 where "dfs_sort n els c (t, k) = Some (s', set_script m k)" "ok \<longrightarrow> plenty m"
        "adds els ?E ok (new @ out) (?V \<union> set new) {c} new2 s'"
      using sortsD [OF IH _ more_refs_trans [OF h k(1)] _ k(2) way] by blast
    with adds_trans [OF new] show ?thesis by (metis Un_insert_right sup_bot.right_neutral set_append list.simps(15) empty_set)
  qed
  have "\<exists>new. adds els ?E ok out ?V (set []) new s" using adds_none [OF sp] by auto
  from visit_children_rule [where I = "\<lambda>cs t. \<exists>new. adds els ?E ok out ?V (set cs) new t" and b = ok and f = "dfs_sort n els",
      OF w step ok(1) this] show ?thesis by blast
qed

lemma sorts_Suc:
  assumes d: "distinct els" and w: "\<forall>x \<in> set els. walkable g x" and ac: "ok \<Longrightarrow> acyclic (links els g)" and IH: "sorts els g ok n"
  shows "sorts els g ok (Suc n)"
  unfolding sorts_def
proof (intro allI impI)
  fix V h s out el
  assume fuel: "card (set els - V) < Suc n" and h: "more_refs g h" and sp: "sorted_part els s out V"
    and "ok \<longrightarrow> plenty (script (eheap h)) \<and> on_way els (links els g) el out V"
  then have ok: "ok \<Longrightarrow> plenty (script (eheap h))" "ok \<Longrightarrow> on_way els (links els g) el out V" by blast+
  let ?goal = "\<exists>s' m new. dfs_sort (Suc n) els el (s, h) = Some (s', set_script m h) \<and> (ok \<longrightarrow> plenty m) \<and> adds els (links els g) ok out V {el} new s'"
  have idle: ?goal if "dfs_sort (Suc n) els el (s, h) = Some (s, set_script (script (eheap h)) h)" "el \<in> set els \<longrightarrow> el \<in> V"
    using that adds_none [OF sp, of "{el}"] ok(1) by blast
  consider (out) "pipeline_element_index els el = None" | (seen) i where "pipeline_element_index els el = Some i" "visited s ! i"
    | (visit) i where "pipeline_element_index els el = Some i" "\<not> visited s ! i" by fastforce
  then show ?goal
  proof cases
    case out
    then show ?thesis using index_None [of els el] by (intro idle) simp_all
  next
    case seen
    then have "i < length els" "els ! i = el" by (simp_all add: index_Some [OF d])
    with seen sp have "el \<in> V" by (auto simp: sorted_part_def marks_def)
    with seen show ?thesis by (intro idle) simp_all
  next
    case visit
    then have i: "i < length els" "els ! i = el" by (simp_all add: index_Some [OF d])
    with visit sp have el: "el \<in> set els" "el \<notin> V" by (auto simp: sorted_part_def marks_def)
    have sp1: "sorted_part els (s\<lparr>visited := (visited s)[i := True]\<rparr>) out (insert el V)"
      using sp marks_set(1) [of els "visited s" V i] d i by (auto simp: sorted_part_def)
    have "card (set els - insert el V) < card (set els - V)" using el by (intro psubset_card_mono) auto
    with fuel have "card (set els - insert el V) < n" by simp
    from sort_children [OF IH walkable_more [OF h] h el(1) sp1 this ok] w el obtain t m cs new where
      t: "visit_children (dfs_sort n els) el (s\<lparr>visited := (visited s)[i := True]\<rparr>, h) = Some (t, set_script m h)"
        "ok \<longrightarrow> plenty m \<and> cs = succs h el" "adds els (links els g) ok out (insert el V) (set cs) new t" by blast
    have "links els g `` {el} \<subseteq> set cs \<inter> set els" if "ok" using t(2) that succs_more [OF h] by (auto simp: links_def)
    from adds_finish [OF t(3) d el _ this ac ok(2) refl] sp have
      "0 < temp_idx t" "adds els (links els g) ok out V {el} (el # new) (t\<lparr>temp := (temp t)[temp_idx t - 1 := Some el], temp_idx := temp_idx t - 1\<rparr>)"
      by (auto simp: sorted_part_def)
    with visit t show ?thesis by auto
  qed
qed

lemma sorts_all:
  assumes "distinct els" and "\<forall>x \<in> set els. walkable g x" and "ok \<Longrightarrow> acyclic (links els g)"
  shows "sorts els g ok n"
proof (induction n)
  case 0
  show ?case by (simp add: sorts_def)
next
  case (Suc n)
  then show ?case using sorts_Suc assms by blast
qed

text \<open>Between the calls of the two loops everything seen is finished.\<close>

definition between_roots :: "addr list \<Rightarrow> pad_graph \<Rightarrow> bool \<Rightarrow> addr set \<Rightarrow> sort_state \<times> pad_graph \<Rightarrow> bool" where
  "between_roots els g ok W sg \<longleftrightarrow> (\<exists>out m. snd sg = set_script m g \<and> (ok \<longrightarrow> plenty m \<and> forward (links els g) out) \<and>
     sorted_part els (fst sg) out (set out) \<and> W \<inter> set els \<subseteq> set out)"

lemma between_roots_mono: "between_roots els g ok W sg \<Longrightarrow> W' \<subseteq> W \<Longrightarrow> between_roots els g ok W' sg"
  unfolding between_roots_def by blast

lemma sort_from_root:
  assumes "sorts els g ok n" and "length els < n" and "between_roots els g ok W sg"
  shows "\<exists>sg'. dfs_sort n els el sg = Some sg' \<and> between_roots els g ok (insert el W) sg'"
proof -
  obtain out m where o: "snd sg = set_script m g" "ok \<longrightarrow> plenty m \<and> forward (links els g) out"
    "sorted_part els (fst sg) out (set out)" "W \<inter> set els \<subseteq> set out" using assms(3) by (auto simp: between_roots_def)
  have "card (set els - set out) \<le> length els" by (meson Diff_subset List.finite_set card_length card_mono le_trans)
  then have "card (set els - set out) < n" using assms(2) by simp
  moreover have "on_way els (links els g) el out (set out)" by (simp add: on_way_def)
  ultimately obtain s' m' new where d: "dfs_sort n els el (fst sg, snd sg) = Some (s', set_script m' (snd sg))" "ok \<longrightarrow> plenty m'"
      "adds els (links els g) ok out (set out) {el} new s'"
    using sortsD [OF assms(1) _ _ o(3), of "snd sg" el] o by auto
  then have "between_roots els g ok (insert el W) (s', set_script m' g)" unfolding between_roots_def
    using o by (intro exI [of _ "new @ out"] exI [of _ m']) (auto simp: adds_def Un_commute)
  moreover have "dfs_sort n els el sg = Some (s', set_script m' g)" using d(1) o(1) by (cases sg) simp
  ultimately show ?thesis by blast
qed

lemma sort_roots_ok:
  assumes "sorts els g ok n" and "length els < n" and "\<forall>x \<in> set xs. elements g x \<noteq> None" and "between_roots els g ok W sg"
  shows "\<exists>sg'. sort_roots n els xs sg = Some sg' \<and> between_roots els g ok W sg'"
  using assms(3,4)
proof (induction xs arbitrary: sg)
  case (Cons x xs)
  then obtain e where "elements g x = Some e" by auto
  then have e: "elements (snd sg) x = Some e" using Cons.prems(2) by (auto simp: between_roots_def)
  obtain sg1 where "(if pe_sink_pads e = [] then dfs_sort n els x sg else Some sg) = Some sg1" "between_roots els g ok W sg1"
  proof (cases "pe_sink_pads e = []")
    case True
    with sort_from_root [OF assms(1,2) Cons.prems(2), of x] that show ?thesis using between_roots_mono [of els g ok "insert x W" _ W] by auto
  qed (use Cons.prems(2) in auto)
  with Cons e show ?case by (simp del: if_split)
qed simp

lemma sort_rest_ok:
  assumes s: "sorts els g ok n" and n: "length els < n" and xs: "drop i els = xs" and b: "between_roots els g ok (set (take i els)) sg"
  shows "\<exists>sg'. sort_rest n els i xs sg = Some sg' \<and> between_roots els g ok (set els) sg'"
  using xs b
proof (induction xs arbitrary: i sg)
  case (Cons x xs)
  then have i: "i < length els" "els ! i = x" "drop (Suc i) els = xs"
    by (metis drop_all list.distinct(1) not_le, metis Cons_nth_drop_Suc drop_all list.inject list.distinct(1) not_le,
        metis Cons_nth_drop_Suc drop_all list.inject list.distinct(1) not_le)
  have t: "set (take (Suc i) els) = insert x (set (take i els))" using i by (simp add: take_Suc_conv_app_nth)
  obtain sg1 where sg1: "(if \<not> visited (fst sg) ! i then dfs_sort n els x sg else Some sg) = Some sg1"
    "between_roots els g ok (set (take (Suc i) els)) sg1"
  proof (cases "visited (fst sg) ! i")
    case True
    with Cons.prems(2) i have "between_roots els g ok (set (take (Suc i) els)) sg"
      unfolding t by (auto simp: between_roots_def sorted_part_def marks_def)
    with True that show ?thesis by simp
  next
    case False
    with sort_from_root [OF s n Cons.prems(2), of x] that t show ?thesis by auto
  qed
  with Cons.IH [OF i(3) sg1(2)] show ?case by (simp del: if_split)
next
  case Nil
  then have "take i els = els" by simp
  with Nil show ?case by simp
qed

lemma topological_sort_general:
  assumes d: "distinct els" and w: "\<forall>x \<in> set els. walkable g x" and ok: "ok \<Longrightarrow> acyclic (links els g) \<and> plenty (script (eheap g))"
  shows "\<exists>out m. pipeline_topological_sort_locked els g = Some (map Some out, set_script m g) \<and> distinct out \<and> set out = set els \<and>
    (ok \<longrightarrow> forward (links els g) out)"
proof -
  have same: ?thesis if "pipeline_topological_sort_locked els g = Some (map Some els, set_script m g)" "\<not> ok \<or> forward (links els g) els" for m
    using that d by blast
  obtain a m where a: "alloc (script (eheap g)) = (a, m)" by (rule prod.exhaust)
  obtain b m1 where b: "alloc m = (b, m1)" by (rule prod.exhaust)
  have mem: "a = None \<and> b = None \<and> plenty m1" if "ok"
    using ok [OF that] a b plenty_alloc by (metis prod.inject)
  consider (short) "length els \<le> 1" | (nomem) "\<not> length els \<le> 1" "\<not> (a = None \<and> b = None)" | (sort) "\<not> length els \<le> 1" "a = None" "b = None" by blast
  then show ?thesis
  proof cases
    case short
    have "forward (links els g) els" if "ok" using short ok [OF that] by (cases els) (auto simp: links_def acyclic_def)
    with short show ?thesis by (intro same [of "script (eheap g)"]) (auto simp: pipeline_topological_sort_locked_def)
  next
    case nomem
    with mem have "\<not> ok" by blast
    with nomem a b same show ?thesis by (cases a) (auto simp: pipeline_topological_sort_locked_def)
  next
    case sort
    let ?n = "Suc (length els)" and ?g = "set_script m1 g"
    let ?s = "\<lparr>temp = replicate (length els) None, temp_idx = length els, visited = replicate (length els) False\<rparr>"
    have S: "sorts els g ok ?n" using sorts_all [OF d w] ok by blast
    have "sorted_part els ?s [] (set [])" using marks_empty [of els] by (simp add: sorted_part_def)
    then have b0: "between_roots els g ok (set (take 0 els)) (?s, ?g)"
      unfolding between_roots_def using mem by (intro exI [of _ "[]"] exI [of _ m1]) auto
    have "\<forall>x \<in> set els. elements g x \<noteq> None" using w by (auto simp: walkable_def)
    from sort_roots_ok [OF S _ this b0] obtain sg1 where r1: "sort_roots ?n els els (?s, ?g) = Some sg1"
      "between_roots els g ok (set (take 0 els)) sg1" by auto
    from sort_rest_ok [OF S _ _ this(2), of els] obtain sg2 where r2: "sort_rest ?n els 0 els sg1 = Some sg2"
      "between_roots els g ok (set els) sg2" by auto
    then obtain out m' where o: "snd sg2 = set_script m' g" "ok \<longrightarrow> forward (links els g) out" "sorted_part els (fst sg2) out (set out)"
      "set els \<subseteq> set out" by (auto simp: between_roots_def)
    then have so: "set out = set els" "distinct out" by (auto simp: sorted_part_def marks_def)
    then have "length out = length els" using d by (metis distinct_card)
    then have "temp (fst sg2) = map Some out" using o(3) by (auto simp: sorted_part_def)
    with sort a b r1 r2 o so show ?thesis by (auto simp: pipeline_topological_sort_locked_def Let_def)
  qed
qed

end
