(* ===== verification/Zst_Graph_Walks.thy ===== *)
theory Zst_Graph_Walks
  imports Zst_Graph
begin

text \<open>
  What the walks of \<open>Zst_Graph\<close> compute: the ranks rise along the links, the count of downstream elements is that
  of the reachable ones, the sort puts the elements in the order of the links.
\<close>

section \<open>The ranks\<close>

text \<open>\<open>climbs E rk u\<close>: all links from \<open>u\<close> lead to a higher rank.  The ranks of a graph without cycles stay
  below the positions \<open>pos\<close> of a topological order.\<close>

definition climbs :: "(addr \<times> addr) set \<Rightarrow> (addr \<Rightarrow> u32) \<Rightarrow> addr \<Rightarrow> bool" where
  "climbs E rk u \<longleftrightarrow> (\<forall>v. (u, v) \<in> E \<longrightarrow> rk u < rk v)"

definition below :: "addr list \<Rightarrow> (addr \<Rightarrow> nat) \<Rightarrow> (addr \<Rightarrow> u32) \<Rightarrow> bool" where
  "below els pos rk \<longleftrightarrow> (\<forall>v \<in> set els. unat (rk v) \<le> pos v)"

definition order_of :: "addr list \<Rightarrow> (addr \<times> addr) set \<Rightarrow> (addr \<Rightarrow> nat) \<Rightarrow> bool" where
  "order_of els E pos \<longleftrightarrow> (\<forall>(u, v) \<in> E. pos u < pos v) \<and> (\<forall>v \<in> set els. pos v < length els)"

text \<open>What a visit of \<open>el\<close> with rank \<open>r\<close> does to the ranks.\<close>

definition raises :: "addr list \<Rightarrow> (addr \<times> addr) set \<Rightarrow> (addr \<Rightarrow> nat) \<Rightarrow> addr \<Rightarrow> u32 \<Rightarrow> (addr \<Rightarrow> u32) \<Rightarrow> (addr \<Rightarrow> u32) \<Rightarrow> bool" where
  "raises els E pos el r rk rk' \<longleftrightarrow> below els pos rk' \<and> (\<forall>v. rk v \<le> rk' v) \<and> r \<le> rk' el \<and>
     (\<forall>u. (el, u) \<notin> E\<^sup>* \<longrightarrow> rk' u = rk u) \<and> (\<forall>u. climbs E rk u \<or> (el, u) \<in> E\<^sup>* \<longrightarrow> climbs E rk' u)"

text \<open>The state of the visit of \<open>el\<close> after the children in \<open>C\<close>.\<close>

definition partly_raised :: "addr list \<Rightarrow> (addr \<times> addr) set \<Rightarrow> (addr \<Rightarrow> nat) \<Rightarrow> addr \<Rightarrow> addr set \<Rightarrow> (addr \<Rightarrow> u32) \<Rightarrow> (addr \<Rightarrow> u32) \<Rightarrow> bool" where
  "partly_raised els E pos el C rk rk' \<longleftrightarrow> below els pos rk' \<and> (\<forall>v. rk v \<le> rk' v) \<and> rk' el = rk el \<and>
     (\<forall>u. (el, u) \<notin> E\<^sup>* \<longrightarrow> rk' u = rk u) \<and> (\<forall>c \<in> C \<inter> set els. rk el < rk' c) \<and>
     (\<forall>u. u \<noteq> el \<longrightarrow> climbs E rk u \<or> (\<exists>c \<in> C \<inter> set els. (c, u) \<in> E\<^sup>*) \<longrightarrow> climbs E rk' u)"

lemma next_rank:
  fixes a :: u32
  assumes "unat a < p" and "p < 2 ^ 32"
  shows "unat (a + 1) = Suc (unat a)" and "a < a + 1"
proof -
  have "unat a + unat (1 :: u32) < 2 ^ LENGTH(32)" using assms by simp
  then show "unat (a + 1) = Suc (unat a)" by (simp add: unat_word_ariths)
  then show "a < a + 1" by (simp add: word_less_nat_alt)
qed

lemma partly_raised_child:
  assumes P: "partly_raised els E pos el C rk t" and R: "raises els E pos c (t el + 1) t t'" and ac: "acyclic E"
    and c: "(el, c) \<in> E" and lt: "t el < t el + 1"
  shows "partly_raised els E pos el (insert c C) rk t'"
proof -
  have "(c, el) \<notin> E\<^sup>*" using c ac by (meson acyclic_def rtrancl_into_trancl2)
  then have el: "t' el = rk el" "t el = rk el" using P R by (simp_all add: raises_def partly_raised_def)
  have up: "rk v \<le> t v" "t v \<le> t' v" for v using P R by (simp_all add: raises_def partly_raised_def)
  have c': "rk el < t' c" using R lt el(2) unfolding raises_def by (metis order_less_le_trans)
  have "rk el < t' x" if "x \<in> C \<inter> set els" for x
    using P that up(2) [of x] unfolding partly_raised_def by (metis order_less_le_trans)
  with c' have "\<forall>x \<in> insert c C \<inter> set els. rk el < t' x" by blast
  moreover have "t' u = rk u" if "(el, u) \<notin> E\<^sup>*" for u
  proof -
    have "(c, u) \<notin> E\<^sup>*" using that c by (meson converse_rtrancl_into_rtrancl)
    then show ?thesis using P R that by (simp add: raises_def partly_raised_def)
  qed
  moreover have "climbs E t' u" if "u \<noteq> el" "climbs E rk u \<or> (\<exists>x \<in> insert c C \<inter> set els. (x, u) \<in> E\<^sup>*)" for u
    using P R that unfolding raises_def partly_raised_def by blast
  ultimately show ?thesis using R el up order_trans [OF up]
    unfolding partly_raised_def raises_def by simp
qed

lemma partly_raised_all:
  assumes P: "partly_raised els E pos el C rk1 t" and C: "E `` {el} \<subseteq> C \<inter> set els" and el: "el \<in> set els"
    and rk1: "rk1 = (if r > rk el then rk(el := r) else rk)"
  shows "raises els E pos el r rk t"
proof -
  have le: "rk v \<le> rk1 v" "r \<le> rk1 el" for v using rk1 by auto
  have same: "rk1 v = rk v" if "v \<noteq> el" for v using rk1 that by simp
  have "climbs E t el" using P C unfolding climbs_def partly_raised_def by auto
  moreover have "climbs E rk1 u" if "u \<noteq> el" "climbs E rk u" for u
    using that le same unfolding climbs_def by (metis order_less_le_trans)
  moreover have "u = el \<or> (\<exists>c \<in> C \<inter> set els. (c, u) \<in> E\<^sup>*)" if "(el, u) \<in> E\<^sup>*" for u
    using that C by (cases rule: converse_rtranclE) auto
  ultimately have "climbs E t u" if "climbs E rk u \<or> (el, u) \<in> E\<^sup>*" for u
    using that P unfolding partly_raised_def by metis
  moreover have "rk v \<le> t v" for v using P le(1) [of v] unfolding partly_raised_def by (metis order_trans)
  moreover have "t u = rk u" if "(el, u) \<notin> E\<^sup>*" for u using P same [of u] that unfolding partly_raised_def by auto
  ultimately show ?thesis using P le(2) unfolding raises_def partly_raised_def by simp
qed

text \<open>The contract of \<open>update_ranks_dfs\<close> with \<open>n\<close> levels of calls left; \<open>V\<close> are the elements on the path.\<close>

definition ranks :: "addr list \<Rightarrow> pad_graph \<Rightarrow> (addr \<Rightarrow> nat) \<Rightarrow> nat \<Rightarrow> bool" where
  "ranks els g pos n \<longleftrightarrow> (\<forall>V h s el r. card (set els - V) < n \<longrightarrow> more_refs g h \<longrightarrow> plenty (script (eheap h)) \<longrightarrow>
     marks els (on_path s) V \<longrightarrow> el \<in> set els \<longrightarrow> (\<forall>x \<in> V. (x, el) \<in> (links els g)\<^sup>+) \<longrightarrow> unat r \<le> pos el \<longrightarrow> below els pos (graph_rank s) \<longrightarrow>
     (\<exists>s' m. update_ranks_dfs n els el r (s, h) = Some (s', set_script m h) \<and> plenty m \<and> marks els (on_path s') V \<and>
        raises els (links els g) pos el r (graph_rank s) (graph_rank s')))"

lemma ranksD:
  assumes "ranks els g pos n" "card (set els - V) < n" "more_refs g h" "plenty (script (eheap h))" "marks els (on_path s) V"
    "el \<in> set els" "\<forall>x \<in> V. (x, el) \<in> (links els g)\<^sup>+" "unat r \<le> pos el" "below els pos (graph_rank s)"
  obtains s' m where "update_ranks_dfs n els el r (s, h) = Some (s', set_script m h)" "plenty m" "marks els (on_path s') V"
    "raises els (links els g) pos el r (graph_rank s) (graph_rank s')"
  using assms unfolding ranks_def by meson

lemma rank_outside:
  assumes "el \<notin> set els" "0 < n"
  shows "update_ranks_dfs n els el r (s, h) = Some (s, set_script (script (eheap h)) h)"
proof -
  obtain k where "n = Suc k" using assms(2) by (cases n) auto
  moreover have "pipeline_element_index els el = None" using assms(1) by (simp add: index_None)
  ultimately show ?thesis by simp
qed

lemma rank_children:
  assumes IH: "ranks els g pos n" and w: "walkable h el" and h: "more_refs g h" and pl: "plenty (script (eheap h))" and el: "el \<in> set els"
    and mk: "marks els (on_path s) (insert el V)" and fuel: "card (set els - insert el V) < n"
    and way: "\<forall>x \<in> V. (x, el) \<in> (links els g)\<^sup>+" and ac: "acyclic (links els g)"
    and pos: "order_of els (links els g) pos" "length els < 2 ^ 32" and bl: "below els pos (graph_rank s)"
  shows "\<exists>t m. visit_children (\<lambda>child tg. update_ranks_dfs n els child (graph_rank (fst tg) el + 1) tg) el (s, h) = Some (t, set_script m h) \<and>
    plenty m \<and> marks els (on_path t) (insert el V) \<and> partly_raised els (links els g) pos el (set (succs g el)) (graph_rank s) (graph_rank t)"
proof -
  let ?E = "links els g" and ?f = "\<lambda>child tg. update_ranks_dfs n els child (graph_rank (fst tg) el + 1) tg"
  let ?I = "\<lambda>cs t. marks els (on_path t) (insert el V) \<and> partly_raised els ?E pos el (set cs) (graph_rank s) (graph_rank t)"
  have step: "\<exists>t' m. ?f c (t, k) = Some (t', set_script m k) \<and> (True \<longrightarrow> plenty m) \<and> ?I (cs @ [c]) t'"
    if c: "c \<in> set (succs h el)" and k: "more_refs h k" "True \<Longrightarrow> plenty (script (eheap k))" and I: "?I cs t" for cs c t k
  proof (cases "c \<in> set els")
    case False
    then have "?I (cs @ [c]) t" using I by (simp add: partly_raised_def)
    moreover have "?f c (t, k) = Some (t, set_script (script (eheap k)) k)" using rank_outside [OF False] fuel by simp
    ultimately show ?thesis using k(2) by blast
  next
    case True
    then have E: "(el, c) \<in> ?E" using c el succs_more [OF h] by (simp add: links_def)
    have P: "partly_raised els ?E pos el (set cs) (graph_rank s) (graph_rank t)" and bt: "below els pos (graph_rank t)"
      using I by (simp_all add: partly_raised_def)
    have "unat (graph_rank t el) < pos c" using bt E pos(1) el unfolding below_def order_of_def by fastforce
    moreover have "pos c < 2 ^ 32" using pos True unfolding order_of_def by fastforce
    ultimately have r: "unat (graph_rank t el + 1) \<le> pos c" "graph_rank t el < graph_rank t el + 1"
      using next_rank [of "graph_rank t el" "pos c"] by simp_all
    have "\<forall>x \<in> insert el V. (x, c) \<in> ?E\<^sup>+" using way E by (auto intro: trancl_into_trancl)
    then obtain t' m where "?f c (t, k) = Some (t', set_script m k)" "plenty m" "marks els (on_path t') (insert el V)"
        "raises els ?E pos c (graph_rank t el + 1) (graph_rank t) (graph_rank t')"
      using ranksD [OF IH fuel more_refs_trans [OF h k(1)] k(2) _ True _ r(1) bt] I by auto
    with partly_raised_child [OF P _ ac E r(2)] show ?thesis by fastforce
  qed
  have "?I [] s" using mk bl by (simp add: partly_raised_def)
  from visit_children_rule [where I = ?I and b = True and f = ?f, OF w step pl this]
  obtain t m cs where "visit_children ?f el (s, h) = Some (t, set_script m h)" "plenty m" "cs = succs h el" "?I cs t" by auto
  then show ?thesis using succs_more [OF h, of el] by auto
qed

lemma ranks_all:
  assumes d: "distinct els" and w: "\<forall>x \<in> set els. walkable g x" and ac: "acyclic (links els g)"
    and pos: "order_of els (links els g) pos" "length els < 2 ^ 32"
  shows "ranks els g pos n"
proof (induction n)
  case 0
  show ?case by (simp add: ranks_def)
next
  case (Suc n)
  show ?case unfolding ranks_def
  proof (intro allI impI)
    fix V h el and s :: rank_state and r :: u32
    assume fuel: "card (set els - V) < Suc n" and h: "more_refs g h" and pl: "plenty (script (eheap h))" and mk: "marks els (on_path s) V"
      and el: "el \<in> set els" and way: "\<forall>x \<in> V. (x, el) \<in> (links els g)\<^sup>+" and r: "unat r \<le> pos el" and bl: "below els pos (graph_rank s)"
    obtain i where i: "i < length els" "els ! i = el" using el by (auto simp: in_set_conv_nth)
    then have idx: "pipeline_element_index els el = Some i" by (simp add: index_Some [OF d])
    have nV: "el \<notin> V" using way ac by (auto simp: acyclic_def)
    define s1 where "s1 = (if r > graph_rank s el then s\<lparr>graph_rank := (graph_rank s)(el := r)\<rparr> else s)"
    have s1: "on_path s1 = on_path s" "graph_rank s1 = (if r > graph_rank s el then (graph_rank s)(el := r) else graph_rank s)"
      by (simp_all add: s1_def)
    have np: "\<not> on_path s1 ! i" using mk i nV s1 by (auto simp: marks_def)
    have b1: "below els pos (graph_rank (s1\<lparr>on_path := (on_path s1)[i := True]\<rparr>))" using bl r s1 by (auto simp: below_def)
    have m1: "marks els (on_path (s1\<lparr>on_path := (on_path s1)[i := True]\<rparr>)) (insert el V)" using marks_set(1) [OF mk d i(1)] i s1 by simp
    have "card (set els - insert el V) < card (set els - V)" using el nV by (intro psubset_card_mono) auto
    with fuel have "card (set els - insert el V) < n" by simp
    from rank_children [OF Suc walkable_more [OF h] h pl el m1 this way ac pos b1] w el obtain t m where
      t: "visit_children (\<lambda>child tg. update_ranks_dfs n els child (graph_rank (fst tg) el + 1) tg) el (s1\<lparr>on_path := (on_path s1)[i := True]\<rparr>, h) = Some (t, set_script m h)"
        "plenty m" "marks els (on_path t) (insert el V)" "partly_raised els (links els g) pos el (set (succs g el)) (graph_rank s1) (graph_rank t)"
      by auto
    have "raises els (links els g) pos el r (graph_rank s) (graph_rank t)"
      by (rule partly_raised_all [OF t(4) _ el s1(2)]) (auto simp: links_def)
    moreover have "marks els ((on_path t)[i := False]) V" using marks_set(2) [OF t(3) d i(1)] i nV by simp
    moreover have "update_ranks_dfs (Suc n) els el r (s, h) = Some (t\<lparr>on_path := (on_path t)[i := False]\<rparr>, set_script m h)"
      using idx np t(1) by (simp add: Let_def flip: s1_def)
    ultimately show "\<exists>s' m. update_ranks_dfs (Suc n) els el r (s, h) = Some (s', set_script m h) \<and> plenty m \<and> marks els (on_path s') V \<and>
        raises els (links els g) pos el r (graph_rank s) (graph_rank s')" using t(2) by auto
  qed
qed

lemma index_inside: "v \<in> set xs \<Longrightarrow> \<exists>j < length xs. pipeline_element_index xs v = Some j"
  by (induction xs) auto

lemma forward_closed: "forward E xs \<Longrightarrow> u \<in> set xs \<Longrightarrow> (u, v) \<in> E \<Longrightarrow> v \<in> set xs"
  by (induction xs) auto

text \<open>A topological order bounds the ranks; the sort itself provides one.\<close>

lemma forward_order:
  assumes "forward E out" and "distinct out" and "\<And>u v. (u, v) \<in> E \<Longrightarrow> u \<in> set out"
  shows "order_of out E (\<lambda>v. the (pipeline_element_index out v))"
proof -
  have bound: "the (pipeline_element_index xs v) < length xs" if "v \<in> set xs" for v xs
    using index_inside [OF that] by auto
  have "the (pipeline_element_index out u) < the (pipeline_element_index out v)" if "(u, v) \<in> E" for u v
    using assms(1,2) assms(3) [OF that] that
  proof (induction out)
    case (Cons x xs)
    have v: "x \<notin> set xs" using Cons.prems by simp
    show ?case
    proof (cases "u = x")
      case True
      with Cons.prems v have "v \<in> set xs" by auto
      then obtain j where "pipeline_element_index xs v = Some j" using index_None [of xs v] by auto
      with True v \<open>v \<in> set xs\<close> show ?thesis by auto
    next
      case False
      with Cons.prems have u: "u \<in> set xs" by simp
      then have "v \<in> set xs" using Cons.prems(1,4) using forward_closed [of E xs u v] u by simp
      then obtain j k where "pipeline_element_index xs v = Some j" "pipeline_element_index xs u = Some k"
        using index_None u by (metis not_Some_eq)
      with Cons u False v \<open>v \<in> set xs\<close> show ?thesis by auto
    qed
  qed simp
  with bound show ?thesis by (auto simp: order_of_def)
qed

lemma forward_index:
  assumes "forward E out" and "distinct out" and "i < length out" and "j < length out" and "(out ! i, out ! j) \<in> E"
  shows "i < j"
  using assms
proof (induction out arbitrary: i j)
  case (Cons x xs)
  show ?case
  proof (cases i)
    case 0
    then have "out \<in> set xs" if "out = (x # xs) ! j" for out using Cons.prems that by auto
    with 0 Cons.prems show ?thesis by (cases j) auto
  next
    case (Suc i')
    then have "xs ! i' \<in> set xs" "((x # xs) ! j) \<in> set xs"
      using Cons.prems forward_closed [of E xs "xs ! i'" "(x # xs) ! j"] by auto
    then obtain j' where "j = Suc j'" using Cons.prems(2) by (cases j) auto
    with Suc Cons show ?thesis by simp
  qed
qed simp

definition linked_in :: "pad_graph \<Rightarrow> addr \<Rightarrow> bool" where
  "linked_in g el \<longleftrightarrow> (\<exists>e p x. elements g el = Some e \<and> p \<in> set (pe_sink_pads e) \<and> pads g p = Some x \<and> pd_linked x)"

lemma any_linked_live:
  "\<forall>p \<in> set ps. live g p \<Longrightarrow> any_linked ps g = Some (\<exists>p \<in> set ps. \<exists>x. pads g p = Some x \<and> pd_linked x)"
  by (induction ps) (auto simp: zst_pad_is_linked_def live_def)

lemma is_source_ok:
  assumes "walkable g el" and "plenty (script (eheap g))"
  shows "\<exists>m. is_source el g = Some (\<not> linked_in g el, set_script m g) \<and> plenty m"
proof -
  obtain e where e: "elements g el = Some e" "\<forall>p \<in> set (pe_sink_pads e). live g p" using assms(1) by (auto simp: walkable_def)
  from e(2) show ?thesis
  proof (cases rule: snapshot_cases)
    case (taken m c)
    let ?h = "set_script m (with_refs c g)"
    have "\<forall>p \<in> set (pe_sink_pads e). live ?h p" using e(2) by (auto simp: live_def add_refs_def)
    moreover have "(\<exists>p \<in> set (pe_sink_pads e). \<exists>x. pads ?h p = Some x \<and> pd_linked x) = linked_in g el"
      using e(1) by (fastforce simp: linked_in_def add_refs_def)
    ultimately have "any_linked (pe_sink_pads e) ?h = Some (linked_in g el)" using any_linked_live [of "pe_sink_pads e" ?h] by simp
    with taken e(1) assms(2) show ?thesis by (auto simp: is_source_def)
  qed (use assms(2) in simp)
qed

lemma update_ranks_from_ok:
  assumes R: "ranks els g pos (Suc (length els))" and el: "el \<in> set els" and pl: "plenty (script (eheap g))" and bl: "below els pos rk"
  shows "\<exists>rk' m. zst_pipeline_update_ranks_from els el (rk, g) = Some (rk', set_script m g) \<and> plenty m \<and> raises els (links els g) pos el (rk el) rk rk'"
proof -
  obtain m where m: "alloc (script (eheap g)) = (None, m)" "plenty m" using pl by (rule plenty_alloc)
  let ?s = "\<lparr>graph_rank = rk, on_path = replicate (length els) False\<rparr>"
  have "card (set els - {}) < Suc (length els)" using card_length [of els] by simp
  moreover have "unat (rk el) \<le> pos el" using bl el by (simp add: below_def)
  ultimately obtain s' m' where
    "update_ranks_dfs (Suc (length els)) els el (rk el) (?s, set_script m g) = Some (s', set_script m' (set_script m g))" "plenty m'"
    "raises els (links els g) pos el (rk el) (graph_rank ?s) (graph_rank s')"
    using ranksD [OF R, of "{}" "set_script m g" ?s el "rk el"] m(2) el bl marks_empty [of els]
    by (simp del: update_ranks_dfs.simps) blast
  with m show ?thesis by (auto simp: zst_pipeline_update_ranks_from_def simp del: update_ranks_dfs.simps)
qed

lemma rank_sources_ok:
  assumes R: "ranks els g pos (Suc (length els))" and w: "\<forall>x \<in> set els. walkable g x"
  shows "set xs \<subseteq> set els \<Longrightarrow> plenty m \<Longrightarrow> below els pos rk \<Longrightarrow>
    \<exists>rk' m'. rank_sources els xs (rk, set_script m g) = Some (rk', set_script m' g) \<and> plenty m' \<and> below els pos rk' \<and>
      (\<forall>u. climbs (links els g) rk u \<or> (\<exists>x \<in> set xs. \<not> linked_in g x \<and> (x, u) \<in> (links els g)\<^sup>*) \<longrightarrow> climbs (links els g) rk' u)"
proof (induction xs arbitrary: m rk)
  case (Cons x xs)
  let ?g = "set_script m g"
  have wx: "walkable ?g x" using w Cons.prems(1) walkable_more [of g ?g x] by simp
  have li: "linked_in ?g x = linked_in g x" by (simp add: linked_in_def)
  obtain m1 where m1: "is_source x ?g = Some (\<not> linked_in g x, set_script m1 g)" "plenty m1"
    using is_source_ok [OF wx] Cons.prems(2) li by auto
  show ?case
  proof (cases "linked_in g x")
    case True
    with m1 Cons.IH [of m1 rk] Cons.prems show ?thesis by fastforce
  next
    case False
    have sl: "links els (set_script m1 g) = links els g" by (rule links_more) simp
    have "ranks els (set_script m1 g) pos (Suc (length els))" using R unfolding ranks_def sl by simp
    from update_ranks_from_ok [OF this _ _ Cons.prems(3), of x] m1(2) Cons.prems(1) obtain rk1 m2 where
      r: "zst_pipeline_update_ranks_from els x (rk, set_script m1 g) = Some (rk1, set_script m2 g)" "plenty m2"
        "raises els (links els g) pos x (rk x) rk rk1" unfolding sl by auto
    then have "below els pos rk1" "\<forall>u. climbs (links els g) rk u \<or> (x, u) \<in> (links els g)\<^sup>* \<longrightarrow> climbs (links els g) rk1 u"
      by (simp_all add: raises_def)
    with m1 r False Cons.IH [OF _ r(2), of rk1] Cons.prems(1) show ?thesis by fastforce
  qed
qed auto

lemma recalculate_ranks_general:
  assumes d: "distinct els" and w: "\<forall>x \<in> set els. walkable g x" and ac: "acyclic (links els g)" and pl: "plenty (script (eheap g))"
    and len: "length els < 2 ^ 32" and fed: "\<forall>v \<in> set els. linked_in g v \<longrightarrow> (\<exists>u. (u, v) \<in> links els g)"
  shows "\<exists>rk' m. pipeline_recalculate_ranks_locked els (rk, g) = Some (rk', set_script m g) \<and> plenty m \<and>
    (\<forall>(u, v) \<in> links els g. rk' u < rk' v) \<and> (\<forall>v \<in> set els. unat (rk' v) < length els)"
proof -
  let ?E = "links els g"
  have inE: "u \<in> set els \<and> v \<in> set els" if "(u, v) \<in> ?E" for u v using that by (simp add: links_def)
  obtain out where out: "distinct out" "set out = set els" "forward ?E out" using topological_sort_general [OF d w, of True] ac pl by auto
  define pos where "pos = (\<lambda>v. the (pipeline_element_index out v))"
  have "length out = length els" using d out by (metis distinct_card)
  moreover have "order_of out ?E pos" unfolding pos_def using forward_order [OF out(3,1)] inE out(2) by blast
  ultimately have pos: "order_of els ?E pos" using out(2) by (simp add: order_of_def)
  have "ranks els g pos (Suc (length els))" by (rule ranks_all [OF d w ac pos len])
  from rank_sources_ok [OF this w, of els "script (eheap g)" "\<lambda>x. if x \<in> set els then 0 else rk x"] pl obtain rk' m where
    r: "pipeline_recalculate_ranks_locked els (rk, g) = Some (rk', set_script m g)" "below els pos rk'" "plenty m"
      "\<forall>u. (\<exists>x \<in> set els. \<not> linked_in g x \<and> (x, u) \<in> ?E\<^sup>*) \<longrightarrow> climbs ?E rk' u"
    by (auto simp: pipeline_recalculate_ranks_locked_def below_def)
  have "?E \<subseteq> set els \<times> set els" by (auto simp: links_def)
  then have "wf ?E" using ac by (meson finite_acyclic_wf finite_SigmaI finite_set finite_subset)
  then have "u \<in> set els \<longrightarrow> (\<exists>x \<in> set els. \<not> linked_in g x \<and> (x, u) \<in> ?E\<^sup>*)" for u
  proof (induction u rule: wf_induct_rule)
    case (less u)
    then show ?case using fed inE by (metis rtrancl.rtrancl_refl rtrancl.rtrancl_into_rtrancl)
  qed
  with r(4) inE have "\<forall>(u, v) \<in> ?E. rk' u < rk' v" unfolding climbs_def by fast
  moreover have "\<forall>v \<in> set els. unat (rk' v) < length els" using r(2) pos unfolding below_def order_of_def by fastforce
  ultimately show ?thesis using r(1,3) by blast
qed

section \<open>The count\<close>

definition downstream :: "addr list \<Rightarrow> pad_graph \<Rightarrow> (addr \<times> addr) set" where
  "downstream els g = {(u, v). v \<in> set els \<and> v \<in> set (succs g u)}"

text \<open>A walk from \<open>el\<close> has newly seen \<open>new\<close>, all of them downstream; all of \<open>W\<close> is seen, and with \<open>ok\<close> all children of new elements are.\<close>

definition explored :: "bool \<Rightarrow> addr list \<Rightarrow> (addr \<times> addr) set \<Rightarrow> (addr \<Rightarrow> bool) \<Rightarrow> addr \<Rightarrow> addr set \<Rightarrow> addr set \<Rightarrow> nat \<times> bool list \<Rightarrow> nat \<times> bool list \<Rightarrow> bool" where
  "explored ok els E ty el W V cv cv' \<longleftrightarrow> (\<exists>new. distinct new \<and> set new \<inter> V = {} \<and> marks els (snd cv') (V \<union> set new) \<and>
     fst cv' = fst cv + length (filter ty new) \<and> set new \<subseteq> E\<^sup>+ `` {el} \<and> W \<inter> set els \<subseteq> V \<union> set new \<and> (ok \<longrightarrow> E `` set new \<subseteq> V \<union> set new))"

lemma marks_unique: "marks els vis V \<Longrightarrow> marks els vis V' \<Longrightarrow> V = V'"
  unfolding marks_def by (metis in_set_conv_nth subset_antisym subsetI subsetD)

lemma explored_skip:
  assumes "explored ok els E ty el W V cv cv'" and "marks els (snd cv') V1" and "c \<in> set els \<longrightarrow> c \<in> V1"
  shows "explored ok els E ty el (insert c W) V cv cv'"
proof -
  obtain new where n: "distinct new" "set new \<inter> V = {}" "marks els (snd cv') (V \<union> set new)" "fst cv' = fst cv + length (filter ty new)"
    "set new \<subseteq> E\<^sup>+ `` {el}" "W \<inter> set els \<subseteq> V \<union> set new" "ok \<longrightarrow> E `` set new \<subseteq> V \<union> set new" using assms(1) by (auto simp: explored_def)
  then have "V1 = V \<union> set new" using marks_unique assms(2) by blast
  with n assms(3) show ?thesis unfolding explored_def by (intro exI [of _ new]) auto
qed

lemma explored_child:
  assumes 1: "explored ok els E ty el W V cv (c, vis)" and marked: "marks els vis V1" and d: "distinct els" and i: "i < length els" "\<not> vis ! i"
    and E: "(el, els ! i) \<in> E" and R: "\<And>u v. (u, v) \<in> E \<Longrightarrow> v \<in> set els"
    and 2: "explored ok els E ty (els ! i) (if ok then E `` {els ! i} else {}) (insert (els ! i) V1) (if ty (els ! i) then c + 1 else c, vis[i := True]) cv'"
  shows "explored ok els E ty el (insert (els ! i) W) V cv cv'"
proof -
  let ?x = "els ! i"
  obtain new where n: "distinct new" "set new \<inter> V = {}" "marks els vis (V \<union> set new)" "c = fst cv + length (filter ty new)"
    "set new \<subseteq> E\<^sup>+ `` {el}" "W \<inter> set els \<subseteq> V \<union> set new" "ok \<longrightarrow> E `` set new \<subseteq> V \<union> set new" using 1 by (auto simp: explored_def)
  have V1: "V1 = V \<union> set new" using marks_unique [OF marked n(3)] .
  obtain new2 where n2: "distinct new2" "set new2 \<inter> insert ?x V1 = {}" "marks els (snd cv') (insert ?x V1 \<union> set new2)"
    "fst cv' = (if ty ?x then c + 1 else c) + length (filter ty new2)" "set new2 \<subseteq> E\<^sup>+ `` {?x}"
    "ok \<longrightarrow> E `` {?x} \<inter> set els \<subseteq> insert ?x V1 \<union> set new2" "ok \<longrightarrow> E `` set new2 \<subseteq> insert ?x V1 \<union> set new2"
    using 2 unfolding explored_def by (cases ok) auto
  have x: "?x \<notin> V1" using marked i by (simp add: marks_def)
  show ?thesis unfolding explored_def
  proof (intro exI conjI)
    show "distinct (?x # new @ new2)" "set (?x # new @ new2) \<inter> V = {}" using n(1,2) n2(1,2) x V1 by auto
    show "marks els (snd cv') (V \<union> set (?x # new @ new2))" using n2(3) V1 by (simp add: Un_assoc)
    show "fst cv' = fst cv + length (filter ty (?x # new @ new2))" using n(4) n2(4) by simp
    show "set (?x # new @ new2) \<subseteq> E\<^sup>+ `` {el}" using n(5) n2(5) E by (auto intro: trancl_into_trancl2)
    show "insert ?x W \<inter> set els \<subseteq> V \<union> set (?x # new @ new2)" using n(6) by auto
    show "ok \<longrightarrow> E `` set (?x # new @ new2) \<subseteq> V \<union> set (?x # new @ new2)" using n(7) n2(6,7) V1 R by auto
  qed
qed

text \<open>The contract of the walk with \<open>n\<close> levels of calls left.\<close>

definition counts :: "bool \<Rightarrow> (addr \<Rightarrow> el_names) \<Rightarrow> addr list \<Rightarrow> string \<Rightarrow> pad_graph \<Rightarrow> nat \<Rightarrow> bool" where
  "counts ok names els ty g n \<longleftrightarrow> (\<forall>V h cv el. card (set els - V) < n \<longrightarrow> more_refs g h \<longrightarrow> (ok \<longrightarrow> plenty (script (eheap h))) \<longrightarrow>
     marks els (snd cv) V \<longrightarrow> walkable g el \<longrightarrow>
     (\<exists>cv' m. pipeline_count_downstream_type_dfs n names els ty el (cv, h) = Some (cv', set_script m h) \<and> (ok \<longrightarrow> plenty m) \<and>
        explored ok els (downstream els g) (\<lambda>x. pipeline_element_is_type (names x) ty) el (if ok then downstream els g `` {el} else {}) V cv cv'))"

lemma countsD:
  assumes "counts ok names els ty g n" "card (set els - V) < n" "more_refs g h" "ok \<Longrightarrow> plenty (script (eheap h))" "marks els (snd cv) V" "walkable g el"
  obtains cv' m where "pipeline_count_downstream_type_dfs n names els ty el (cv, h) = Some (cv', set_script m h)" "ok \<longrightarrow> plenty m"
    "explored ok els (downstream els g) (\<lambda>x. pipeline_element_is_type (names x) ty) el (if ok then downstream els g `` {el} else {}) V cv cv'"
  using assms unfolding counts_def by meson

text \<open>The body of the loop over the children.\<close>

definition count_child :: "nat \<Rightarrow> (addr \<Rightarrow> el_names) \<Rightarrow> addr list \<Rightarrow> string \<Rightarrow> addr \<Rightarrow> (nat \<times> bool list) \<times> pad_graph \<Rightarrow> ((nat \<times> bool list) \<times> pad_graph) option" where
  "count_child n names els ty = (\<lambda>child ((count, vis), g). case pipeline_element_index els child of None \<Rightarrow> Some ((count, vis), g)
       | Some i \<Rightarrow> if vis ! i then Some ((count, vis), g)
           else pipeline_count_downstream_type_dfs n names els ty child
                  ((if pipeline_element_is_type (names child) ty then count + 1 else count, vis[i := True]), g))"

lemma count_child_ok:
  assumes d: "distinct els" and w: "\<forall>x \<in> set els. walkable g x" and IH: "counts ok names els ty g n"
    and fuel: "card (set els - V) < Suc n" and k: "more_refs g k" "ok \<Longrightarrow> plenty (script (eheap k))"
    and c: "c \<in> set (succs g el)"
    and I: "explored ok els (downstream els g) (\<lambda>x. pipeline_element_is_type (names x) ty) el W V cv t"
  shows "\<exists>t' m. count_child n names els ty c (t, k) = Some (t', set_script m k) \<and> (ok \<longrightarrow> plenty m) \<and>
    explored ok els (downstream els g) (\<lambda>x. pipeline_element_is_type (names x) ty) el (insert c W) V cv t'"
proof -
  let ?E = "downstream els g" and ?ty = "\<lambda>x. pipeline_element_is_type (names x) ty"
  obtain cnt vis where t: "t = (cnt, vis)" by (rule prod.exhaust)
  obtain V1 where V1: "marks els vis V1" "V \<subseteq> V1" using I t by (auto simp: explored_def)
  have idle: ?thesis if "count_child n names els ty c (t, k) = Some (t, set_script (script (eheap k)) k)" "c \<in> set els \<longrightarrow> c \<in> V1"
  proof -
    have "explored ok els ?E ?ty el (insert c W) V cv t" using explored_skip [OF I _ that(2)] V1(1) t by simp
    with that(1) k(2) show ?thesis by blast
  qed
  consider (out) "pipeline_element_index els c = None" | (seen) i where "pipeline_element_index els c = Some i" "vis ! i"
    | (visit) i where "pipeline_element_index els c = Some i" "\<not> vis ! i" by fastforce
  then show ?thesis
  proof cases
    case out
    then show ?thesis using index_None [of els c] t by (intro idle) (simp_all add: count_child_def)
  next
    case seen
    then have "i < length els" "els ! i = c" by (simp_all add: index_Some [OF d])
    with seen V1 have "c \<in> V1" by (auto simp: marks_def)
    with seen t show ?thesis by (intro idle) (simp_all add: count_child_def)
  next
    case visit
    then have i: "i < length els" "els ! i = c" by (simp_all add: index_Some [OF d])
    then have c': "c \<in> set els" "c \<notin> V1" using visit V1 by (auto simp: marks_def)
    have "set els - insert c V1 \<subset> set els - V" using c' V1 by auto
    then have "card (set els - insert c V1) < n" using fuel psubset_card_mono [of "set els - V" "set els - insert c V1"] by simp
    moreover have "marks els (vis[i := True]) (insert c V1)" using marks_set(1) [OF V1(1) d i(1)] i by simp
    ultimately obtain cv' m where r: "pipeline_count_downstream_type_dfs n names els ty c ((if ?ty c then cnt + 1 else cnt, vis[i := True]), k) = Some (cv', set_script m k)"
        "ok \<longrightarrow> plenty m" "explored ok els ?E ?ty c (if ok then ?E `` {c} else {}) (insert c V1) (if ?ty c then cnt + 1 else cnt, vis[i := True]) cv'"
      using countsD [OF IH _ k, of "insert c V1" "(if ?ty c then cnt + 1 else cnt, vis[i := True])" c] w c' by auto
    have "(el, els ! i) \<in> ?E" using c c' i by (simp add: downstream_def)
    moreover have "v \<in> set els" if "(u, v) \<in> ?E" for u v using that by (simp add: downstream_def)
    ultimately have "explored ok els ?E ?ty el (insert c W) V cv cv'"
      using explored_child [OF I [unfolded t] V1(1) d i(1) visit(2), of cv', unfolded i(2)] r(3) i(2) by metis
    with r visit t show ?thesis by (auto simp: count_child_def)
  qed
qed

lemma counts_all:
  assumes d: "distinct els" and w: "\<forall>x \<in> set els. walkable g x"
  shows "counts ok names els ty g n"
proof (induction n)
  case 0
  show ?case by (simp add: counts_def)
next
  case (Suc n)
  show ?case unfolding counts_def
  proof (intro allI impI)
    fix V h el and cv :: "nat \<times> bool list"
    assume fuel: "card (set els - V) < Suc n" and h: "more_refs g h" and ok: "ok \<longrightarrow> plenty (script (eheap h))" and mk: "marks els (snd cv) V" and wl: "walkable g el"
    let ?E = "downstream els g" and ?ty = "\<lambda>x. pipeline_element_is_type (names x) ty"
    from ok have pl: "ok \<Longrightarrow> plenty (script (eheap h))" by blast
    let ?I = "\<lambda>cs cv'. explored ok els ?E ?ty el (set cs) V cv cv'"
    have step: "\<exists>t' m. count_child n names els ty c (t, k) = Some (t', set_script m k) \<and> (ok \<longrightarrow> plenty m) \<and> ?I (cs @ [c]) t'"
      if "c \<in> set (succs h el)" and k: "more_refs h k" "ok \<Longrightarrow> plenty (script (eheap k))" and I: "?I cs t" for cs c t k
      using count_child_ok [OF d w Suc fuel more_refs_trans [OF h k(1)] k(2) _ I, of c] that(1) succs_more [OF h, of el] by simp
    have "?I [] cv" using mk by (auto simp: explored_def intro!: exI [of _ "[]"])
    from visit_children_rule [where I = ?I and b = ok and f = "count_child n names els ty", OF walkable_more [OF h wl] step pl this]
    obtain t m cs where v: "visit_children (count_child n names els ty) el (cv, h) = Some (t, set_script m h)" "ok \<longrightarrow> plenty m \<and> cs = succs h el" "?I cs t" by blast
    moreover have "explored ok els ?E ?ty el (if ok then ?E `` {el} else {}) V cv t"
      using v(2,3) succs_more [OF h, of el] by (cases ok) (fastforce simp: explored_def downstream_def)+
    ultimately show "\<exists>cv' m. pipeline_count_downstream_type_dfs (Suc n) names els ty el (cv, h) = Some (cv', set_script m h) \<and> (ok \<longrightarrow> plenty m) \<and>
        explored ok els ?E ?ty el (if ok then ?E `` {el} else {}) V cv cv'" by (auto simp: count_child_def simp del: if_split)
  qed
qed

lemma explored_all:
  assumes x: "explored True els (downstream els g) ty start (downstream els g `` {start}) ({start} \<inter> set els) (0, vis) cv"
  shows "fst cv = card {v. v \<noteq> start \<and> (start, v) \<in> (downstream els g)\<^sup>+ \<and> ty v}"
proof -
  let ?E = "downstream els g" and ?V = "{start} \<inter> set els"
  obtain new where n: "distinct new" "set new \<inter> ?V = {}" "fst cv = length (filter ty new)" "set new \<subseteq> ?E\<^sup>+ `` {start}"
    "?E `` {start} \<inter> set els \<subseteq> ?V \<union> set new" "?E `` set new \<subseteq> ?V \<union> set new" using x by (auto simp: explored_def)
  have "v \<in> ?V \<union> set new" if "(start, v) \<in> ?E\<^sup>+" for v
    using that
  proof (induction v rule: trancl_induct)
    case (base y)
    then show ?case using n(5) by (auto simp: downstream_def)
  next
    case (step y z)
    then have "y = start \<or> y \<in> set new" by auto
    then show ?case using step(2) n(5,6) by (auto simp: downstream_def)
  qed
  moreover have "start \<notin> set new" using n(2,4) by (auto simp: downstream_def elim: tranclE)
  ultimately have "{v. v \<noteq> start \<and> (start, v) \<in> ?E\<^sup>+ \<and> ty v} = set (filter ty new)" using n(4) by auto
  then show ?thesis using n(3) distinct_card [of "filter ty new"] n(1) by simp
qed

lemma start_marked:
  assumes "distinct els"
  shows "marks els (case pipeline_element_index els start of None \<Rightarrow> replicate (length els) False
      | Some i \<Rightarrow> (replicate (length els) False)[i := True]) ({start} \<inter> set els)"
proof (cases "pipeline_element_index els start")
  case None
  then show ?thesis using marks_empty [of els] index_None [of els start] by simp
next
  case (Some i)
  then have "i < length els" "els ! i = start" by (simp_all add: index_Some [OF assms])
  with Some marks_set(1) [OF marks_empty assms this(1)] show ?thesis by auto
qed

lemma count_downstream_general:
  assumes d: "distinct els" and w: "\<forall>x \<in> set els. walkable g x" and start: "walkable g start" and pl: "ok \<Longrightarrow> plenty (script (eheap g))"
  shows "\<exists>k m. zst_pipeline_count_downstream_elements_of_type names els start ty g = Some (k, set_script m g) \<and>
    (ok \<longrightarrow> plenty m \<and> k = card {v. v \<noteq> start \<and> (start, v) \<in> (downstream els g)\<^sup>+ \<and> pipeline_element_is_type (names v) ty})"
proof -
  let ?E = "downstream els g" and ?ty = "\<lambda>x. pipeline_element_is_type (names x) ty" and ?V = "{start} \<inter> set els"
  obtain a m where m: "alloc (script (eheap g)) = (a, m)" by (rule prod.exhaust)
  have mem: "a = None \<and> plenty m" if "ok" using pl [OF that] m plenty_alloc by (metis prod.inject)
  show ?thesis
  proof (cases a)
    case (Some x)
    with mem m show ?thesis by (auto simp: zst_pipeline_count_downstream_elements_of_type_def)
  next
    case None
    define vis where "vis = (case pipeline_element_index els start of None \<Rightarrow> replicate (length els) False
      | Some i \<Rightarrow> (replicate (length els) False)[i := True])"
    have "card (set els - ?V) \<le> length els" by (meson Diff_subset List.finite_set card_length card_mono le_trans)
    then obtain cv m' where c: "pipeline_count_downstream_type_dfs (Suc (length els)) names els ty start ((0, vis), set_script m g) = Some (cv, set_script m' g)"
        "ok \<longrightarrow> plenty m'" "explored ok els ?E ?ty start (if ok then ?E `` {start} else {}) ?V (0, vis) cv"
      using countsD [OF counts_all [OF d w], of ?V "Suc (length els)" "set_script m g" ok "(0, vis)" start names ty] mem start_marked [OF d, of start] start
      by (simp del: pipeline_count_downstream_type_dfs.simps add: vis_def) blast
    have "fst cv = card {v. v \<noteq> start \<and> (start, v) \<in> ?E\<^sup>+ \<and> ?ty v}" if "ok" using c(3) that explored_all by simp
    with c(1,2) m None show ?thesis
      by (auto simp: zst_pipeline_count_downstream_elements_of_type_def vis_def Let_def split: prod.splits simp del: pipeline_count_downstream_type_dfs.simps)
  qed
qed

section \<open>Properties\<close>

text \<open>An example: the elements 4, 3 and 2 in a row, in an array that has them in another order.\<close>

definition demo_pad :: "pad_direction \<Rightarrow> addr \<Rightarrow> addr \<Rightarrow> zst_pad" where
  "demo_pad dir peer el = (new_pad None dir)\<lparr>pd_peer := Some peer, pd_linked := True, pd_parent := Some el, pd_refcount := 2\<rparr>"

definition demo_row :: pad_graph where
  "demo_row = (empty_graph [])\<lparr>
     pads := [10 \<mapsto> demo_pad ZST_PAD_SRC 11 4, 11 \<mapsto> demo_pad ZST_PAD_SINK 10 3, 12 \<mapsto> demo_pad ZST_PAD_SRC 13 3, 13 \<mapsto> demo_pad ZST_PAD_SINK 12 2],
     elements := [4 \<mapsto> \<lparr>pe_src_pads = [10], pe_sink_pads = [], pe_pipeline = None, pe_bus = None, pe_clock = None, pe_parent_bin = None\<rparr>,
                  2 \<mapsto> \<lparr>pe_src_pads = [], pe_sink_pads = [13], pe_pipeline = None, pe_bus = None, pe_clock = None, pe_parent_bin = None\<rparr>,
                  3 \<mapsto> \<lparr>pe_src_pads = [12], pe_sink_pads = [11], pe_pipeline = None, pe_bus = None, pe_clock = None, pe_parent_bin = None\<rparr>]\<rparr>"

lemma demo_row_simps:
  "walkable demo_row 4" "walkable demo_row 2" "walkable demo_row 3"
  "succs demo_row 4 = [3]" "succs demo_row 2 = []" "succs demo_row 3 = [2]" "plenty (script (eheap demo_row))"
  by (simp_all add: demo_row_def demo_pad_def walkable_def live_def succs_def child_of_def map_filter_simps empty_graph_def)

lemma demo_row_links: "links [2, 3, 4] demo_row = {(4, 3), (3, 2)}" "downstream [2, 3, 4] demo_row = {(4, 3), (3, 2)}"
proof -
  have other: "succs demo_row u = []" if "u \<noteq> 4" "u \<noteq> 2" "u \<noteq> 3" for u
    using that by (simp add: demo_row_def succs_def)
  have "v \<in> set (succs demo_row u) \<longleftrightarrow> (u, v) \<in> {(4, 3), (3, 2)}" for u v
    using other [of u] demo_row_simps(4-6) by (cases "u = 4"; cases "u = 2"; cases "u = 3"; simp)
  then show "links [2, 3, 4] demo_row = {(4, 3), (3, 2)}" "downstream [2, 3, 4] demo_row = {(4, 3), (3, 2)}"
    by (auto simp: links_def downstream_def)
qed

lemma demo_row_acyclic: "acyclic (links [2, 3, 4] demo_row)"
  by (rule wf_acyclic, rule wf_subset [OF wf_measure [of "\<lambda>u. if u = 4 then 0 else if u = 3 then 1 else (2 :: nat)"]])
    (simp add: demo_row_links)

text \<open>C26: whatever allocations fail and whatever the links, cycles included, the topological sort returns, writes inside
  of its arrays, leaves the pads as they were and rearranges the elements: none is lost, none is doubled.\<close>

theorem topological_sort_permutes:
  assumes "distinct els" and "\<forall>x \<in> set els. walkable g x"
  shows "\<exists>out m. pipeline_topological_sort_locked els g = Some (map Some out, set_script m g) \<and> distinct out \<and> set out = set els"
  using topological_sort_general [OF assms, of False] by auto

theorem topological_sort_permutes_witness:
  "\<exists>out m. pipeline_topological_sort_locked [2, 3, 4] demo_row = Some (map Some out, set_script m demo_row) \<and> distinct out \<and> set out = {2, 3, 4}"
  using topological_sort_permutes [of "[2, 3, 4]" demo_row] demo_row_simps by auto

text \<open>C27: when the links between the elements form no cycle and memory suffices, every link leads from an element to
  one further right in the sorted array: sources come first, sinks last.\<close>

theorem topological_sort_orders_links:
  assumes "distinct els" and "\<forall>x \<in> set els. walkable g x" and "acyclic (links els g)" and "plenty (script (eheap g))"
  shows "\<exists>out m. pipeline_topological_sort_locked els g = Some (map Some out, set_script m g) \<and> set out = set els \<and>
    (\<forall>i < length out. \<forall>j < length out. (out ! i, out ! j) \<in> links els g \<longrightarrow> i < j)"
proof -
  obtain out m where out: "pipeline_topological_sort_locked els g = Some (map Some out, set_script m g)" "distinct out" "set out = set els"
    "forward (links els g) out" using topological_sort_general [OF assms(1,2), of True] assms(3,4) by auto
  with forward_index [OF out(4,2)] show ?thesis by blast
qed

theorem topological_sort_orders_links_witness:
  "\<exists>out m. pipeline_topological_sort_locked [2, 3, 4] demo_row = Some (map Some out, set_script m demo_row) \<and> set out = {2, 3, 4} \<and>
    (\<forall>i < length out. \<forall>j < length out. (out ! i, out ! j) \<in> {(4, 3), (3, 2)} \<longrightarrow> i < j)"
  using topological_sort_orders_links [of "[2, 3, 4]" demo_row, OF _ _ demo_row_acyclic demo_row_simps(7)] demo_row_simps
  unfolding demo_row_links by (simp add: insert_commute)

text \<open>C29: the recalculated ranks rise along every link between elements and are smaller than the number of elements,
  when there is no cycle, memory suffices and linked elements are linked to elements of the pipeline.\<close>

theorem ranks_rise_along_links:
  assumes "distinct els" and "\<forall>x \<in> set els. walkable g x" and "acyclic (links els g)" and "plenty (script (eheap g))"
    and "length els < 2 ^ 32" and "\<forall>v \<in> set els. linked_in g v \<longrightarrow> (\<exists>u. (u, v) \<in> links els g)"
  shows "\<exists>rk' m. pipeline_recalculate_ranks_locked els (rk, g) = Some (rk', set_script m g) \<and>
    (\<forall>(u, v) \<in> links els g. rk' u < rk' v) \<and> (\<forall>v \<in> set els. unat (rk' v) < length els)"
  using recalculate_ranks_general [OF assms, of rk] by blast

theorem ranks_rise_along_links_witness:
  "\<exists>rk' m. pipeline_recalculate_ranks_locked [2, 3, 4] (\<lambda>_. 7, demo_row) = Some (rk', set_script m demo_row) \<and>
    (\<forall>(u, v) \<in> {(4, 3), (3, 2)}. rk' u < rk' v) \<and> (\<forall>v \<in> {2, 3, 4}. unat (rk' v) < 3)"
proof -
  have "\<not> linked_in demo_row 4" by (simp add: linked_in_def demo_row_def)
  then have "\<forall>v \<in> set [2, 3, 4]. linked_in demo_row v \<longrightarrow> (\<exists>u. (u, v) \<in> links [2, 3, 4] demo_row)" unfolding demo_row_links by auto
  from ranks_rise_along_links [of "[2, 3, 4]" demo_row "\<lambda>_. 7", OF _ _ demo_row_acyclic demo_row_simps(7) _ this] demo_row_simps(1-3)
  show ?thesis unfolding demo_row_links by auto
qed

text \<open>C32: the number of queues found downstream of an element is the number of elements of that type that can be
  reached from it over links inside the pipeline, itself excluded, each counted once however many ways lead to it.\<close>

theorem downstream_count_exact:
  assumes "distinct els" and "\<forall>x \<in> set els. walkable g x" and "walkable g start" and "plenty (script (eheap g))"
  shows "\<exists>m. zst_pipeline_count_downstream_elements_of_type names els start ty g =
    Some (card {v. v \<noteq> start \<and> (start, v) \<in> (downstream els g)\<^sup>+ \<and> pipeline_element_is_type (names v) ty}, set_script m g)"
  using count_downstream_general [OF assms(1-3), of True names ty] assms(4) by auto

theorem downstream_count_exact_witness:
  "\<exists>m. zst_pipeline_count_downstream_elements_of_type (\<lambda>x. \<lparr>desc_name = None, ops_name = Some ''queue''\<rparr>) [2, 3, 4] 4 ''queue'' demo_row =
    Some (2, set_script m demo_row)"
proof -
  let ?names = "\<lambda>x :: addr. \<lparr>desc_name = None, ops_name = Some ''queue''\<rparr>"
  have "{v. v \<noteq> 4 \<and> (4, v) \<in> {(4 :: addr, 3 :: addr), (3, 2)}\<^sup>+ \<and> pipeline_element_is_type (?names v) ''queue''} = {3, 2}"
    by (auto simp: pipeline_element_is_type_def pipeline_element_type_name_def elim: tranclE intro: trancl_into_trancl2)
  then show ?thesis
    using downstream_count_exact [of "[2, 3, 4]" demo_row 4 ?names "''queue''"] demo_row_simps unfolding demo_row_links by (simp add: numeral_2_eq_2)
qed

end
