(* ===== verification/Zst_Element.thy ===== *)
theory Zst_Element
  imports Zst_Bus "HOL-Library.Monad_Syntax"
begin

text \<open>
  The life cycle of elements and bins: \<open>zst_element_set_state\<close> of \<open>src/zst_element.c\<close> and the state
  handling of \<open>src/zst_bin.c\<close>, which carries a bin's transition to its children and rolls it back
  when a child fails.

  An element is a value: a plain element, or a bin with the list of its children.  An element is meant
  to be in one bin at most, so the children of a bin are a tree.  What the code does beyond the
  elements is a log of actions, oldest first: hooks of the element's operation table, stores to the
  element's state (other threads read it), events given to the bus, wake-ups of the scheduler and
  references on clocks; new clocks and changes of a pipeline's state are actions of a pipeline.  The result of
  a hook is an arbitrary function of the log so far.  The bus itself is theory \<open>Zst_Bus\<close>.

  The recursion of \<open>zst_element_set_state\<close> through intermediate states and through the children has a
  fuel argument; \<open>None\<close> means that it ran out, which \<open>state_fuel\<close> rules out.
\<close>

section \<open>Elements\<close>

fun state_rank :: "zst_state \<Rightarrow> nat" where
  "state_rank ZST_STATE_NULL = 0"
| "state_rank ZST_STATE_READY = 1"
| "state_rank ZST_STATE_PAUSED = 2"
| "state_rank ZST_STATE_PLAYING = 3"

lemma state_rank_inj: "state_rank a = state_rank b \<Longrightarrow> a = b"
  by (cases a; cases b) auto

instantiation zst_state :: linorder
begin

definition less_eq_zst_state :: "zst_state \<Rightarrow> zst_state \<Rightarrow> bool" where
  "less_eq_zst_state a b \<longleftrightarrow> state_rank a \<le> state_rank b"

definition less_zst_state :: "zst_state \<Rightarrow> zst_state \<Rightarrow> bool" where
  "less_zst_state a b \<longleftrightarrow> state_rank a < state_rank b"

instance
  by standard (auto simp: less_eq_zst_state_def less_zst_state_def dest: state_rank_inj)

end

lemmas state_order = less_eq_zst_state_def less_zst_state_def

record el_info =
  el_id :: addr
  el_state :: zst_state
  el_bus :: "addr option"
  el_pipeline :: "addr option"
  el_clock :: "addr option"
  el_parent_bin :: "addr option"

text \<open>The private data of a bin; \<open>ghost_eos\<close> has the \<open>eos_seen\<close> flag of each of its sink ghost pads.\<close>

record bin_data =
  eos_posted :: bool
  eos_forwarded :: bool
  ghost_eos :: "bool list"
  cap_children :: u32

datatype element = Elem el_info | Bin el_info bin_data "element list"

fun info :: "element \<Rightarrow> el_info" where
  "info (Elem i) = i"
| "info (Bin i b cs) = i"

fun upd_info :: "(el_info \<Rightarrow> el_info) \<Rightarrow> element \<Rightarrow> element" where
  "upd_info f (Elem i) = Elem (f i)"
| "upd_info f (Bin i b cs) = Bin (f i) b cs"

fun zst_bin_element_is_bin :: "element \<Rightarrow> bool" where
  "zst_bin_element_is_bin (Elem i) = False"
| "zst_bin_element_is_bin (Bin i b cs) = True"

section \<open>Actions\<close>

datatype hook = Hook_open | Hook_close | Hook_start | Hook_stop | Hook_preroll | Hook_unpreroll

datatype action =
    Hook_called addr hook zst_result
  | State_stored addr zst_state zst_state
  | Post_state_changed addr addr zst_state zst_state
  | Post_child_error addr addr zst_result
  | Scheduler_wake addr
  | Clock_ref addr
  | Clock_unref addr
  | Clock_new addr
  | Post_pipeline_state addr zst_state zst_state

text \<open>
  The operation tables (a missing hook is \<open>None\<close>), and which pipelines have a scheduler while the
  calling thread is not the one that reconfigures the pipeline.
\<close>

record el_env =
  el_ops :: "addr \<Rightarrow> hook \<Rightarrow> (action list \<Rightarrow> zst_result) option"
  sched_wakes :: "addr \<Rightarrow> bool"

definition call_hook :: "el_env \<Rightarrow> addr \<Rightarrow> hook option \<Rightarrow> action list \<Rightarrow> zst_result \<times> action list" where
  "call_hook E i h acts =
     (case h of None \<Rightarrow> (ZST_OK, acts)
      | Some k \<Rightarrow> (case el_ops E i k of None \<Rightarrow> (ZST_OK, acts)
          | Some f \<Rightarrow> (f acts, acts @ [Hook_called i k (f acts)])))"

text \<open>The hook of a single step; the one that undoes it is the hook of the step back.\<close>

fun step_hook :: "zst_state \<Rightarrow> zst_state \<Rightarrow> hook option" where
  "step_hook ZST_STATE_NULL ZST_STATE_READY = Some Hook_open"
| "step_hook ZST_STATE_READY ZST_STATE_PAUSED = Some Hook_preroll"
| "step_hook ZST_STATE_PAUSED ZST_STATE_PLAYING = Some Hook_start"
| "step_hook ZST_STATE_PLAYING ZST_STATE_PAUSED = Some Hook_stop"
| "step_hook ZST_STATE_PAUSED ZST_STATE_READY = Some Hook_unpreroll"
| "step_hook ZST_STATE_READY ZST_STATE_NULL = Some Hook_close"
| "step_hook _ _ = None"

section \<open>Bins\<close>

definition zst_element_set_clock :: "addr option \<Rightarrow> element \<times> action list \<Rightarrow> element \<times> action list" where
  "zst_element_set_clock c = (\<lambda>(el, acts).
     if el_clock (info el) = c then (el, acts)
     else (upd_info (\<lambda>i. i\<lparr>el_clock := c\<rparr>) el,
           acts @ (case el_clock (info el) of None \<Rightarrow> [] | Some k \<Rightarrow> [Clock_unref k])
               @ (case c of None \<Rightarrow> [] | Some k \<Rightarrow> [Clock_ref k])))"

definition bin_sync_child_context :: "el_info \<Rightarrow> element \<Rightarrow> action list \<Rightarrow> element \<times> action list" where
  "bin_sync_child_context bin child acts =
     zst_element_set_clock (el_clock bin)
       (upd_info (\<lambda>i. i\<lparr>el_bus := el_bus bin, el_pipeline := el_pipeline bin\<rparr>) child, acts)"

fun bin_sync_all_children :: "el_info \<Rightarrow> element list \<Rightarrow> action list \<Rightarrow> element list \<times> action list" where
  "bin_sync_all_children bin [] acts = ([], acts)"
| "bin_sync_all_children bin (c # cs) acts =
     (case bin_sync_child_context bin c acts of (c', acts1) \<Rightarrow>
        (case bin_sync_all_children bin cs acts1 of (cs', acts2) \<Rightarrow> (c' # cs', acts2)))"

definition bin_reset_eos :: "bin_data \<Rightarrow> bin_data" where
  "bin_reset_eos b = b\<lparr>eos_posted := False, eos_forwarded := False, ghost_eos := map (\<lambda>_. False) (ghost_eos b)\<rparr>"

type_synonym set_state_fn = "element \<Rightarrow> zst_state \<Rightarrow> action list \<Rightarrow> (zst_result \<times> element \<times> action list) option"

text \<open>The inner loop of \<open>bin_change_state\<close>: back to the old state, whatever the results.\<close>

fun restore_children :: "set_state_fn \<Rightarrow> zst_state \<Rightarrow> element list \<Rightarrow> action list \<Rightarrow> (element list \<times> action list) option" where
  "restore_children chg st [] acts = Some ([], acts)"
| "restore_children chg st (c # cs) acts =
     do { (_, c', acts1) \<leftarrow> chg c st acts;
          (cs', acts2) \<leftarrow> restore_children chg st cs acts1;
          Some (c' # cs', acts2) }"

text \<open>The outer loop; \<open>before\<close> holds the children that have already made the transition.\<close>

fun change_children :: "set_state_fn \<Rightarrow> addr option \<Rightarrow> zst_state \<Rightarrow> zst_state \<Rightarrow> element list \<Rightarrow> element list
    \<Rightarrow> action list \<Rightarrow> (zst_result \<times> element list \<times> action list) option" where
  "change_children chg bus old new before [] acts = Some (ZST_OK, before, acts)"
| "change_children chg bus old new before (c # cs) acts =
     do { (r, c', acts1) \<leftarrow> chg c new acts;
          if r = ZST_OK then change_children chg bus old new (before @ [c']) cs acts1
          else do { (before', acts2) \<leftarrow> restore_children chg old before acts1;
                    Some (r, before' @ c' # cs,
                          acts2 @ (case bus of None \<Rightarrow> [] | Some b \<Rightarrow> [Post_child_error b (el_id (info c')) r])) } }"

fun bin_change_state :: "set_state_fn \<Rightarrow> element \<Rightarrow> zst_state \<Rightarrow> zst_state \<Rightarrow> action list
    \<Rightarrow> (zst_result \<times> element \<times> action list) option" where
  "bin_change_state chg (Elem i) old new acts = Some (ZST_ERROR, Elem i, acts)"
| "bin_change_state chg (Bin i b cs) old new acts =
     (case bin_sync_all_children i cs acts of (cs1, acts1) \<Rightarrow>
        do { (r, cs2, acts2) \<leftarrow> change_children chg (el_bus i) old new [] cs1 acts1;
             Some (r, Bin i (if new \<ge> ZST_STATE_READY then bin_reset_eos b else b) cs2, acts2) })"

section \<open>State transitions\<close>

text \<open>What \<open>zst_element_set_state\<close> does once the hooks and the children have made a single step.\<close>

definition store_state :: "el_env \<Rightarrow> zst_state \<Rightarrow> element \<Rightarrow> action list \<Rightarrow> element \<times> action list" where
  "store_state E st el acts =
     (let i = info el
      in (upd_info (\<lambda>i. i\<lparr>el_state := st\<rparr>) el,
          acts @ [State_stored (el_id i) (el_state i) st]
              @ (case el_pipeline i of None \<Rightarrow> []
                 | Some p \<Rightarrow> if st = ZST_STATE_PLAYING \<and> sched_wakes E p then [Scheduler_wake p] else [])
              @ (case el_bus i of None \<Rightarrow> [] | Some b \<Rightarrow> [Post_state_changed b (el_id i) (el_state i) st])))"

definition single_step :: "set_state_fn \<Rightarrow> el_env \<Rightarrow> set_state_fn" where
  "single_step chg E el st acts =
     (let cur = el_state (info el); i = el_id (info el)
      in case call_hook E i (step_hook cur st) acts of (r, acts1) \<Rightarrow>
           if r \<noteq> ZST_OK then Some (r, el, acts1)
           else if zst_bin_element_is_bin el then
             do { (r, el1, acts2) \<leftarrow> bin_change_state chg el cur st acts1;
                  if r \<noteq> ZST_OK then Some (r, el1, snd (call_hook E i (step_hook st cur) acts2))
                  else (case store_state E st el1 acts2 of (el2, acts3) \<Rightarrow> Some (ZST_OK, el2, acts3)) }
           else (case store_state E st el acts1 of (el2, acts3) \<Rightarrow> Some (ZST_OK, el2, acts3)))"

text \<open>A transition by way of an intermediate state; going up, a failure of the second half is rolled back.\<close>

definition two_steps :: "set_state_fn \<Rightarrow> bool \<Rightarrow> zst_state \<Rightarrow> set_state_fn" where
  "two_steps chg rollback mid el st acts =
     do { (r, el1, acts1) \<leftarrow> chg el mid acts;
          if r \<noteq> ZST_OK then Some (r, el1, acts1)
          else do { (r, el2, acts2) \<leftarrow> chg el1 st acts1;
                    if r \<noteq> ZST_OK \<and> rollback
                    then do { (_, el3, acts3) \<leftarrow> chg el2 (el_state (info el)) acts2; Some (r, el3, acts3) }
                    else Some (r, el2, acts2) } }"

primrec zst_element_set_state :: "nat \<Rightarrow> el_env \<Rightarrow> set_state_fn" where
  "zst_element_set_state 0 E el st acts = None"
| "zst_element_set_state (Suc n) E el st acts =
     (let chg = zst_element_set_state n E; cur = el_state (info el)
      in if cur = st then Some (ZST_OK, el, acts)
         else if cur < ZST_STATE_READY \<and> st > ZST_STATE_READY then two_steps chg True ZST_STATE_READY el st acts
         else if cur = ZST_STATE_READY \<and> st = ZST_STATE_PLAYING then two_steps chg True ZST_STATE_PAUSED el st acts
         else if cur = ZST_STATE_PLAYING \<and> st < ZST_STATE_PAUSED then two_steps chg False ZST_STATE_PAUSED el st acts
         else if cur = ZST_STATE_PAUSED \<and> st < ZST_STATE_READY then two_steps chg False ZST_STATE_READY el st acts
         else single_step chg E el st acts)"

text \<open>The depth of the tree of bins, and the fuel that is enough for it: three levels of recursion per element.\<close>

fun depth :: "element \<Rightarrow> nat" where
  "depth (Elem i) = 1"
| "depth (Bin i b cs) = Suc (foldr max (map depth cs) 0)"

definition state_fuel :: "element \<Rightarrow> nat" where
  "state_fuel el = 3 * depth el"

section \<open>Adding and removing children\<close>

definition zst_bin_add :: "el_env \<Rightarrow> alloc_script \<Rightarrow> element \<Rightarrow> element \<Rightarrow> action list
    \<Rightarrow> (zst_result \<times> element \<times> element \<times> action list) option" where
  "zst_bin_add E m bin child acts =
     (case bin of Elem i \<Rightarrow> Some (ZST_ERROR, bin, child, acts)
      | Bin i b cs \<Rightarrow>
          if \<exists>c \<in> set cs. el_id (info c) = el_id (info child) then Some (ZST_ERROR, bin, child, acts)
          else if of_nat (length cs) = cap_children b \<and> fst (alloc m) \<noteq> None then Some (ZST_ERROR, bin, child, acts)
          else
            (let b1 = (if of_nat (length cs) = cap_children b
                       then b\<lparr>cap_children := (if cap_children b \<noteq> 0 then cap_children b * 2 else 4)\<rparr> else b)
             in case bin_sync_child_context i (upd_info (\<lambda>j. j\<lparr>el_parent_bin := Some (el_id i)\<rparr>) child) acts of
                  (child1, acts1) \<Rightarrow>
                    if el_state i = ZST_STATE_NULL then Some (ZST_OK, Bin i b1 (cs @ [child1]), child1, acts1)
                    else
                      do { (r, child2, acts2) \<leftarrow> zst_element_set_state (state_fuel child1) E child1 (el_state i) acts1;
                           if r = ZST_OK then Some (ZST_OK, Bin i b1 (cs @ [child2]), child2, acts2)
                           else
                             (case zst_element_set_clock None
                                     (upd_info (\<lambda>j. j\<lparr>el_bus := None, el_pipeline := None, el_parent_bin := None\<rparr>) child2, acts2) of
                                (child3, acts3) \<Rightarrow> Some (r, Bin i b1 cs, child3, acts3)) }))"

fun remove_child :: "addr \<Rightarrow> element list \<Rightarrow> (element \<times> element list) option" where
  "remove_child a [] = None"
| "remove_child a (c # cs) =
     (if el_id (info c) = a then Some (c, cs)
      else map_option (\<lambda>(x, rest). (x, c # rest)) (remove_child a cs))"

definition zst_bin_remove :: "el_env \<Rightarrow> element \<Rightarrow> addr \<Rightarrow> action list
    \<Rightarrow> (zst_result \<times> element \<times> element option \<times> action list) option" where
  "zst_bin_remove E bin child acts =
     (case bin of Elem i \<Rightarrow> Some (ZST_ERROR, bin, None, acts)
      | Bin i b cs \<Rightarrow>
          (case remove_child child cs of None \<Rightarrow> Some (ZST_ERROR, bin, None, acts)
           | Some (c, rest) \<Rightarrow>
               do { (_, c1, acts1) \<leftarrow> zst_element_set_state (state_fuel c) E c ZST_STATE_NULL acts;
                    (case zst_element_set_clock None
                            (upd_info (\<lambda>j. j\<lparr>el_bus := None, el_pipeline := None, el_parent_bin := None\<rparr>) c1, acts1) of
                       (c2, acts2) \<Rightarrow> Some (ZST_OK, Bin i b rest, Some c2, acts2)) }))"

definition zst_bin_get_child_count :: "element \<Rightarrow> nat" where
  "zst_bin_get_child_count bin = (case bin of Elem i \<Rightarrow> 0 | Bin i b cs \<Rightarrow> length cs)"

definition zst_bin_get_child :: "element \<Rightarrow> nat \<Rightarrow> element option" where
  "zst_bin_get_child bin k = (case bin of Elem i \<Rightarrow> None | Bin i b cs \<Rightarrow> if k < length cs then Some (cs ! k) else None)"

section \<open>Shape of the tree\<close>

lemma info_upd_info [simp]: "info (upd_info f el) = f (info el)"
  by (cases el) auto

lemma depth_upd_info [simp]: "depth (upd_info f el) = depth el"
  by (cases el) auto

lemma depth_pos [simp]: "0 < depth el"
  by (cases el) auto

lemma foldr_max_le: "foldr max xs 0 \<le> (d :: nat) \<longleftrightarrow> (\<forall>x \<in> set xs. x \<le> d)"
  by (induction xs) auto

lemma depth_Bin_le: "depth (Bin i b cs) \<le> Suc d \<longleftrightarrow> (\<forall>c \<in> set cs. depth c \<le> d)"
  by (auto simp: foldr_max_le)

lemma depth_Bin_cong: "map depth cs = map depth cs' \<Longrightarrow> depth (Bin i b cs) = depth (Bin i' b' cs')"
  by simp

fun uniform :: "zst_state \<Rightarrow> element \<Rightarrow> bool" where
  "uniform s (Elem i) = (el_state i = s)"
| "uniform s (Bin i b cs) = (el_state i = s \<and> (\<forall>c \<in> set cs. uniform s c))"

lemma uniform_state: "uniform s el \<Longrightarrow> el_state (info el) = s"
  by (cases el) auto

lemma uniform_upd_info [simp]:
  "(\<And>i. el_state (f i) = el_state i) \<Longrightarrow> uniform s (upd_info f el) = uniform s el"
  by (cases el) auto

lemma set_clock_keeps:
  assumes "zst_element_set_clock c (el, acts) = (el', acts')"
  shows "depth el' = depth el" "el_state (info el') = el_state (info el)" "uniform s el' = uniform s el"
    "el_id (info el') = el_id (info el)"
  using assms by (auto simp: zst_element_set_clock_def split: if_splits)

lemma sync_child_keeps:
  assumes "bin_sync_child_context i c acts = (c', acts')"
  shows "depth c' = depth c" "el_state (info c') = el_state (info c)" "uniform s c' = uniform s c"
    "el_id (info c') = el_id (info c)"
  using set_clock_keeps [OF assms [unfolded bin_sync_child_context_def]] by auto

lemma sync_all_keeps:
  assumes "bin_sync_all_children i cs acts = (cs', acts')"
  shows "map depth cs' = map depth cs" and "(\<forall>c \<in> set cs'. uniform s c) = (\<forall>c \<in> set cs. uniform s c)"
proof -
  have "map depth cs' = map depth cs \<and> map (uniform s) cs' = map (uniform s) cs"
    using assms
    by (induction cs arbitrary: acts cs') (auto split: prod.splits dest: sync_child_keeps(1) sync_child_keeps(3))
  then have "map depth cs' = map depth cs" "list_all (\<lambda>x. x) (map (uniform s) cs') = list_all (\<lambda>x. x) (map (uniform s) cs)"
    by simp_all
  then show "map depth cs' = map depth cs" "(\<forall>c \<in> set cs'. uniform s c) = (\<forall>c \<in> set cs. uniform s c)"
    by (auto simp: list.pred_map list_all_iff o_def)
qed

section \<open>Transitions return\<close>

text \<open>
  \<open>outcome_ok strict s t r el'\<close> is what a transition from \<open>s\<close> to \<open>t\<close> with result \<open>r\<close> promises: on success
  the element is in the new state; on failure it has not reached it.  With \<open>strict\<close> the promise covers the
  whole tree: on success all of it is in the new state, on failure all of it is back in the old one.
\<close>

definition short_of :: "zst_state \<Rightarrow> zst_state \<Rightarrow> zst_state \<Rightarrow> bool" where
  "short_of s t x \<longleftrightarrow> s \<le> x \<and> x < t \<or> t < x \<and> x \<le> s"

definition outcome_ok :: "bool \<Rightarrow> zst_state \<Rightarrow> zst_state \<Rightarrow> zst_result \<Rightarrow> element \<Rightarrow> bool" where
  "outcome_ok strict s t r el' \<longleftrightarrow>
     (if r = ZST_OK then el_state (info el') = t \<and> (strict \<longrightarrow> uniform t el')
      else short_of s t (el_state (info el')) \<and> (strict \<longrightarrow> uniform s el' \<and> s < t))"

definition makes_transition :: "set_state_fn \<Rightarrow> bool \<Rightarrow> element \<Rightarrow> zst_state \<Rightarrow> action list \<Rightarrow> bool" where
  "makes_transition chg strict el t acts \<longleftrightarrow>
     (\<exists>r el' acts'. chg el t acts = Some (r, el', acts') \<and> depth el' = depth el \<and>
        outcome_ok strict (el_state (info el)) t r el')"

text \<open>
  The contract a bin relies on: the setter makes every transition of the elements up to a depth.
\<close>

locale state_setter =
  fixes chg :: set_state_fn and strict :: bool and d :: nat
  assumes transition: "depth el \<le> d \<Longrightarrow> (strict \<Longrightarrow> uniform (el_state (info el)) el) \<Longrightarrow> makes_transition chg strict el t acts"
begin

lemma restore_children_return:
  assumes "\<forall>c \<in> set cs. depth c \<le> d \<and> (strict \<longrightarrow> uniform new c)" and "strict \<Longrightarrow> old < new"
  shows "\<exists>cs' acts'. restore_children chg old cs acts = Some (cs', acts') \<and> map depth cs' = map depth cs \<and>
    (strict \<longrightarrow> (\<forall>c \<in> set cs'. uniform old c))"
  using assms(1)
proof (induction cs arbitrary: acts)
  case (Cons c cs)
  have u: "strict \<Longrightarrow> uniform (el_state (info c)) c" using Cons.prems by (auto dest: uniform_state)
  obtain r c' a1 where c': "chg c old acts = Some (r, c', a1)" "depth c' = depth c"
      "outcome_ok strict (el_state (info c)) old r c'"
    using transition [of c old acts] u Cons.prems by (auto simp: makes_transition_def)
  have "strict \<longrightarrow> uniform old c'"
    using c'(3) assms(2) Cons.prems by (auto simp: outcome_ok_def dest: uniform_state split: if_splits)
  moreover obtain cs' a2 where "restore_children chg old cs a1 = Some (cs', a2)" "map depth cs' = map depth cs"
      "strict \<longrightarrow> (\<forall>c \<in> set cs'. uniform old c)"
    using Cons.IH [of a1] Cons.prems by auto
  ultimately show ?case using c' by auto
qed simp

lemma change_children_return:
  assumes "\<forall>c \<in> set before. depth c \<le> d \<and> (strict \<longrightarrow> uniform new c)"
    and "\<forall>c \<in> set cs. depth c \<le> d \<and> (strict \<longrightarrow> uniform old c)"
  shows "\<exists>r cs' acts'. change_children chg bus old new before cs acts = Some (r, cs', acts') \<and>
    map depth cs' = map depth (before @ cs) \<and>
    (strict \<longrightarrow> (\<forall>c \<in> set cs'. uniform (if r = ZST_OK then new else old) c) \<and> (r = ZST_OK \<or> old < new))"
  using assms
proof (induction cs arbitrary: before acts)
  case Nil
  then show ?case by simp
next
  case (Cons c cs)
  have u: "strict \<Longrightarrow> uniform (el_state (info c)) c" and s: "strict \<Longrightarrow> el_state (info c) = old"
    using Cons.prems by (auto dest: uniform_state)
  obtain r c' a1 where c': "chg c new acts = Some (r, c', a1)" "depth c' = depth c"
      "outcome_ok strict (el_state (info c)) new r c'"
    using transition [of c new acts] u Cons.prems by (auto simp: makes_transition_def)
  show ?case
  proof (cases "r = ZST_OK")
    case True
    with c' Cons.prems have "\<forall>x \<in> set (before @ [c']). depth x \<le> d \<and> (strict \<longrightarrow> uniform new x)"
      by (auto simp: outcome_ok_def)
    with Cons.IH [OF this, of a1] Cons.prems c' True show ?thesis by auto
  next
    case False
    with c'(3) s have o: "strict \<longrightarrow> uniform old c' \<and> old < new" by (auto simp: outcome_ok_def)
    with restore_children_return [of before new old a1] Cons.prems(1)
    obtain cs' a2 where "restore_children chg old before a1 = Some (cs', a2)" "map depth cs' = map depth before"
      "strict \<longrightarrow> (\<forall>c \<in> set cs'. uniform old c)" by blast
    with False c' o Cons.prems show ?thesis by auto
  qed
qed

lemma bin_change_state_return:
  assumes "depth (Bin i b cs) \<le> Suc d" and "strict \<Longrightarrow> \<forall>c \<in> set cs. uniform old c"
  shows "\<exists>r b' cs' acts'. bin_change_state chg (Bin i b cs) old new acts = Some (r, Bin i b' cs', acts') \<and>
    map depth cs' = map depth cs \<and>
    (strict \<longrightarrow> (\<forall>c \<in> set cs'. uniform (if r = ZST_OK then new else old) c) \<and> (r = ZST_OK \<or> old < new))"
proof -
  obtain cs1 a1 where s: "bin_sync_all_children i cs acts = (cs1, a1)" by (rule prod.exhaust)
  note k = sync_all_keeps [OF s]
  have "depth (Bin i b cs1) \<le> Suc d" using assms(1) k(1) by simp
  then have "\<forall>c \<in> set cs1. depth c \<le> d" unfolding depth_Bin_le .
  with k(2) assms(2) have "\<forall>c \<in> set cs1. depth c \<le> d \<and> (strict \<longrightarrow> uniform old c)" by blast
  from change_children_return [of "[]", OF _ this, of new "el_bus i" a1] obtain r cs' a2
    where c: "change_children chg (el_bus i) old new [] cs1 a1 = Some (r, cs', a2)" "map depth cs' = map depth cs1"
      "strict \<longrightarrow> (\<forall>c \<in> set cs'. uniform (if r = ZST_OK then new else old) c) \<and> (r = ZST_OK \<or> old < new)" by auto
  have "bin_change_state chg (Bin i b cs) old new acts =
      Some (r, Bin i (if new \<ge> ZST_STATE_READY then bin_reset_eos b else b) cs', a2)" using s c(1) by simp
  with c k(1) show ?thesis by (metis (no_types, lifting))
qed

end

text \<open>The levels of recursion a transition of one element takes.\<close>

definition levels :: "zst_state \<Rightarrow> zst_state \<Rightarrow> nat" where
  "levels s t = max 1 (max (state_rank s - state_rank t) (state_rank t - state_rank s))"

lemma levels_bounds: "1 \<le> levels s t" "levels s t \<le> 3"
  by (cases s; cases t; simp add: levels_def)+

text \<open>Hooks that undo a step never fail.\<close>

definition undo_hooks_succeed :: "el_env \<Rightarrow> bool" where
  "undo_hooks_succeed E \<longleftrightarrow>
     (\<forall>i k f acts. k \<in> {Hook_close, Hook_stop, Hook_unpreroll} \<longrightarrow> el_ops E i k = Some f \<longrightarrow> f acts = ZST_OK)"

lemma undo_step_succeeds:
  assumes "undo_hooks_succeed E" and "t < s" and "call_hook E i (step_hook s t) acts = (r, acts')"
  shows "r = ZST_OK"
proof -
  have "\<forall>k. step_hook s t = Some k \<longrightarrow> k \<in> {Hook_close, Hook_stop, Hook_unpreroll}"
    using assms(2) by (cases s; cases t; simp add: state_order)
  then show ?thesis
    using assms(1,3) unfolding call_hook_def undo_hooks_succeed_def
    by (cases "step_hook s t"; cases "el_ops E i (the (step_hook s t))"; fastforce)
qed

lemma store_state_keeps:
  assumes "store_state E st el acts = (el', acts')"
  shows "depth el' = depth el" "el_state (info el') = st"
    "uniform st el' \<longleftrightarrow> (case el of Elem i \<Rightarrow> True | Bin i b cs \<Rightarrow> \<forall>c \<in> set cs. uniform st c)"
  using assms by (cases el; auto simp: store_state_def Let_def)+

lemma single_step_return:
  assumes S: "state_setter chg strict d" and "depth el \<le> Suc d" and "s = el_state (info el)" and "levels s t = 1" and "s \<noteq> t"
    and u: "strict \<Longrightarrow> uniform s el" and E: "strict \<Longrightarrow> undo_hooks_succeed E"
  shows "makes_transition (single_step chg E) strict el t acts"
proof -
  obtain r a1 where h: "call_hook E (el_id (info el)) (step_hook s t) acts = (r, a1)" by (rule prod.exhaust)
  have fail: "outcome_ok strict s t q x" if "q \<noteq> ZST_OK" "el_state (info x) = s" "strict \<Longrightarrow> uniform s x \<and> s < t" for q x
    using that assms(5) by (auto simp: outcome_ok_def short_of_def)
  consider (hook) "r \<noteq> ZST_OK" | (elem) i where "r = ZST_OK" "el = Elem i" | (bin) i b cs where "r = ZST_OK" "el = Bin i b cs"
    by (cases el) auto
  then show ?thesis
  proof cases
    case hook
    then have "strict \<Longrightarrow> s < t" using undo_step_succeeds [OF E _ h] assms(5) by (meson not_less_iff_gr_or_eq)
    with hook h fail [OF hook, of el] assms(3) u show ?thesis by (auto simp: makes_transition_def single_step_def)
  next
    case elem
    obtain e2 a3 where "store_state E t el a1 = (e2, a3)" by (rule prod.exhaust)
    with elem h store_state_keeps [OF this] assms(3) show ?thesis
      by (auto simp: makes_transition_def single_step_def outcome_ok_def)
  next
    case bin
    from u bin have "strict \<Longrightarrow> \<forall>c \<in> set cs. uniform s c" by simp
    with state_setter.bin_change_state_return [OF S, of i b cs s t a1] assms(2) bin
    obtain r2 b' cs' a2 where c: "bin_change_state chg el s t a1 = Some (r2, Bin i b' cs', a2)" "map depth cs' = map depth cs"
      "strict \<longrightarrow> (\<forall>c \<in> set cs'. uniform (if r2 = ZST_OK then t else s) c) \<and> (r2 = ZST_OK \<or> s < t)" by blast
    then have dp: "depth (Bin i b' cs') = depth el" using bin by simp
    obtain e2 a3 where st: "store_state E t (Bin i b' cs') a2 = (e2, a3)" by (rule prod.exhaust)
    show ?thesis
    proof (cases "r2 = ZST_OK")
      case True
      with bin h c st dp store_state_keeps [OF st] assms(3) show ?thesis
        by (auto simp: makes_transition_def single_step_def outcome_ok_def simp del: depth.simps)
    next
      case False
      with bin h c dp fail [OF False, of "Bin i b' cs'"] assms(3) show ?thesis
        by (auto simp: makes_transition_def single_step_def simp del: depth.simps)
    qed
  qed
qed

lemma two_steps_return:
  assumes "\<And>x y acts'. depth x = depth el \<Longrightarrow> (strict \<Longrightarrow> uniform (el_state (info x)) x) \<Longrightarrow>
        levels (el_state (info x)) y < levels s t \<Longrightarrow> makes_transition chg strict x y acts'"
    and s: "s = el_state (info el)" and mid: "short_of s t mid" "mid \<noteq> s"
    and up: "rollback \<longleftrightarrow> s < t" and u: "strict \<Longrightarrow> uniform s el"
  shows "makes_transition (two_steps chg rollback mid) strict el t acts"
proof -
  have lv: "levels s mid < levels s t" "levels mid t < levels s t"
    using mid by (cases s; cases mid; cases t; simp add: levels_def short_of_def state_order)+
  have undo: "levels x s < levels s t" if "short_of mid t x" for x
    using mid that by (cases s; cases mid; cases t; cases x; simp add: levels_def short_of_def state_order)
  from assms(1) [OF refl, of mid acts] u lv(1) s obtain r1 e1 a1
    where 1: "chg el mid acts = Some (r1, e1, a1)" "depth e1 = depth el" "outcome_ok strict s mid r1 e1"
    by (auto simp: makes_transition_def)
  show ?thesis
  proof (cases "r1 = ZST_OK")
    case False
    with 1 mid have "outcome_ok strict s t r1 e1"
      by (auto simp: outcome_ok_def short_of_def)
    with 1 False s show ?thesis by (auto simp: makes_transition_def two_steps_def)
  next
    case True
    with 1 have e1: "el_state (info e1) = mid" "strict \<Longrightarrow> uniform mid e1" by (auto simp: outcome_ok_def)
    with assms(1) [OF 1(2), of t a1] lv(2) obtain r2 e2 a2
      where 2: "chg e1 t a1 = Some (r2, e2, a2)" "depth e2 = depth el" "outcome_ok strict mid t r2 e2"
      by (auto simp: makes_transition_def 1(2))
    consider (ok) "r2 = ZST_OK" | (down) "r2 \<noteq> ZST_OK" "\<not> rollback" | (roll) "r2 \<noteq> ZST_OK" "rollback" by blast
    then show ?thesis
    proof cases
      case ok
      with 1 2 True show ?thesis by (auto simp: makes_transition_def two_steps_def outcome_ok_def)
    next
      case down
      with 2 mid up have "outcome_ok strict s t r2 e2" by (auto simp: outcome_ok_def short_of_def)
      with 1 2 True down s show ?thesis by (auto simp: makes_transition_def two_steps_def)
    next
      case roll
      with 2 have e2: "short_of mid t (el_state (info e2))" "strict \<Longrightarrow> uniform mid e2" by (auto simp: outcome_ok_def)
      then have "strict \<Longrightarrow> uniform (el_state (info e2)) e2" by (auto dest: uniform_state)
      with assms(1) [OF 2(2), of s a2] undo [OF e2(1)] obtain r3 e3 a3
        where 3: "chg e2 s a2 = Some (r3, e3, a3)" "depth e3 = depth el" "outcome_ok strict (el_state (info e2)) s r3 e3"
        by (auto simp: makes_transition_def 2(2))
      have "outcome_ok strict s t r2 e3"
        using 3(3) e2 mid up roll by (auto simp: outcome_ok_def short_of_def dest: uniform_state split: if_splits)
      with 1 2 3 True roll s show ?thesis by (auto simp: makes_transition_def two_steps_def)
    qed
  qed
qed

lemma set_state_return:
  assumes E: "strict \<Longrightarrow> undo_hooks_succeed E"
  shows "levels (el_state (info el)) t + 3 * (depth el - 1) \<le> n \<Longrightarrow> (strict \<Longrightarrow> uniform (el_state (info el)) el) \<Longrightarrow>
    makes_transition (zst_element_set_state n E) strict el t acts"
proof (induction n arbitrary: el t acts)
  case 0
  then show ?case using levels_bounds(1) [of "el_state (info el)" t] by simp
next
  case (Suc n el t acts)
  let ?s = "el_state (info el)" and ?chg = "zst_element_set_state n E"
  have eq: "makes_transition (zst_element_set_state (Suc n) E) strict el t acts"
    if "makes_transition f strict el t acts" "zst_element_set_state (Suc n) E el t acts = f el t acts" for f
    using that by (simp add: makes_transition_def)
  have two: "makes_transition (two_steps ?chg (?s < t) mid) strict el t acts" if "short_of ?s t mid" "mid \<noteq> ?s" for mid
    using Suc.IH Suc.prems by (intro two_steps_return [OF _ refl that refl]) auto
  have "depth c \<le> depth el - 1 \<Longrightarrow> levels u v + 3 * (depth c - 1) \<le> n" for c u v
    using levels_bounds(2) [of u v] levels_bounds(1) [of ?s t] depth_pos [of c] Suc.prems(1) by linarith
  then have S: "state_setter ?chg strict (depth el - 1)"
    using Suc.IH by (simp add: state_setter_def)
  have one: "makes_transition (single_step ?chg E) strict el t acts" if "levels ?s t = 1" "?s \<noteq> t"
    by (rule single_step_return [OF S _ refl that]) (use Suc.prems(2) E in auto)
  consider "?s = t" | "levels ?s t = 1" "?s \<noteq> t"
    | "?s = ZST_STATE_NULL" "t > ZST_STATE_READY" | "?s = ZST_STATE_READY" "t = ZST_STATE_PLAYING"
    | "?s = ZST_STATE_PLAYING" "t < ZST_STATE_PAUSED" | "?s = ZST_STATE_PAUSED" "t = ZST_STATE_NULL"
    by (cases ?s; cases t; simp add: levels_def state_order)
  then show ?case
  proof cases
    case 1
    then show ?thesis using Suc.prems(2) by (auto simp: makes_transition_def outcome_ok_def)
  next
    case 2
    then show ?thesis
      by (intro eq [OF one]) (cases ?s; cases t; simp add: levels_def state_order)+
  next
    case 3
    then show ?thesis
      by (intro eq [OF two [of ZST_STATE_READY]]) (cases t; simp add: short_of_def state_order)+
  next
    case 4
    then show ?thesis by (intro eq [OF two [of ZST_STATE_PAUSED]]) (simp_all add: short_of_def state_order)
  next
    case 5
    then show ?thesis
      by (intro eq [OF two [of ZST_STATE_PAUSED]]) (cases t; simp add: short_of_def state_order)+
  next
    case 6
    then show ?thesis by (intro eq [OF two [of ZST_STATE_READY]]) (simp_all add: short_of_def state_order)
  qed
qed

lemma set_state_fuel:
  assumes "state_fuel el \<le> n" and "strict \<Longrightarrow> undo_hooks_succeed E" and "strict \<Longrightarrow> uniform (el_state (info el)) el"
  shows "makes_transition (zst_element_set_state n E) strict el t acts"
proof -
  have "levels (el_state (info el)) t + 3 * (depth el - 1) \<le> n"
    using assms(1) levels_bounds(2) [of "el_state (info el)" t] depth_pos [of el] unfolding state_fuel_def by linarith
  then show ?thesis using set_state_return assms(2,3) by blast
qed

text \<open>The setter of the library meets the contract bins rely on, for trees of every depth.\<close>

interpretation element_setter: state_setter "zst_element_set_state (3 * d) E" False d for d E
  by unfold_locales (rule set_state_fuel; simp add: state_fuel_def)

section \<open>The order of hooks and state changes\<close>

text \<open>
  \<open>replay\<close> reads the log as the story of one element: a hook is only called in the state it belongs to, a
  new state is next to the old one, it is stored right after the hook of the step succeeded (when the
  element has that hook), and after a hook that succeeded the state is stored.
\<close>

fun hook_from :: "hook \<Rightarrow> zst_state" where
  "hook_from Hook_open = ZST_STATE_NULL"
| "hook_from Hook_preroll = ZST_STATE_READY"
| "hook_from Hook_start = ZST_STATE_PAUSED"
| "hook_from Hook_stop = ZST_STATE_PLAYING"
| "hook_from Hook_unpreroll = ZST_STATE_PAUSED"
| "hook_from Hook_close = ZST_STATE_READY"

fun replay :: "el_env \<Rightarrow> addr \<Rightarrow> zst_state \<Rightarrow> hook option \<Rightarrow> action list \<Rightarrow> zst_state option" where
  "replay E i s pending [] = (if pending = None then Some s else None)"
| "replay E i s pending (Hook_called j h r # acts) =
     (if j \<noteq> i then replay E i s pending acts
      else if pending = None \<and> hook_from h = s then replay E i s (if r = ZST_OK then Some h else None) acts
      else None)"
| "replay E i s pending (State_stored j a b # acts) =
     (if j \<noteq> i then replay E i s pending acts
      else if a = s \<and> step_hook a b \<noteq> None \<and>
        pending = (if el_ops E i (the (step_hook a b)) = None then None else step_hook a b)
      then replay E i b None acts else None)"
| "replay E i s pending (_ # acts) = replay E i s pending acts"

fun touched :: "action list \<Rightarrow> addr set" where
  "touched [] = {}"
| "touched (Hook_called j h r # acts) = insert j (touched acts)"
| "touched (State_stored j a b # acts) = insert j (touched acts)"
| "touched (_ # acts) = touched acts"

lemma touched_append [simp]: "touched (xs @ ys) = touched xs \<union> touched ys"
  by (induction xs rule: touched.induct) auto

lemma replay_frame: "i \<notin> touched xs \<Longrightarrow> replay E i s p (xs @ ys) = replay E i s p ys"
  by (induction xs rule: touched.induct) auto

lemma replay_untouched [simp]: "i \<notin> touched xs \<Longrightarrow> replay E i s None xs = Some s"
  using replay_frame [of i xs E s None "[]"] by simp

lemma replay_append: "replay E i s p xs = Some s' \<Longrightarrow> replay E i s p (xs @ ys) = replay E i s' None ys"
  by (induction E i s p xs rule: replay.induct) (auto split: if_splits)

fun ids :: "element \<Rightarrow> addr list" where
  "ids (Elem i) = [el_id i]"
| "ids (Bin i b cs) = el_id i # concat (map ids cs)"

fun leaves :: "element \<Rightarrow> el_info list" where
  "leaves (Elem i) = [i]"
| "leaves (Bin i b cs) = concat (map leaves cs)"

lemma leaf_ids: "l \<in> set (leaves el) \<Longrightarrow> el_id l \<in> set (ids el)"
  by (induction el) auto

text \<open>Each plain element of the first tree went, by the actions, to its counterpart in the second.\<close>

definition leaf_rel :: "el_env \<Rightarrow> action list \<Rightarrow> el_info \<Rightarrow> el_info \<Rightarrow> bool" where
  "leaf_rel E acts l l' \<longleftrightarrow> el_id l' = el_id l \<and> replay E (el_id l) (el_state l) None acts = Some (el_state l')"

definition traced :: "el_env \<Rightarrow> element list \<Rightarrow> element list \<Rightarrow> action list \<Rightarrow> bool" where
  "traced E es es' acts \<longleftrightarrow> map ids es' = map ids es \<and> touched acts \<subseteq> set (concat (map ids es)) \<and>
     list_all2 (leaf_rel E acts) (concat (map leaves es)) (concat (map leaves es'))"

lemma leaf_rel_trans: "leaf_rel E xs a b \<Longrightarrow> leaf_rel E ys b c \<Longrightarrow> leaf_rel E (xs @ ys) a c"
  by (auto simp: leaf_rel_def replay_append)

lemma leaf_rels_trans:
  "list_all2 (leaf_rel E xs) as bs \<Longrightarrow> list_all2 (leaf_rel E ys) bs cs \<Longrightarrow> list_all2 (leaf_rel E (xs @ ys)) as cs"
  by (rule list_all2_trans [of "leaf_rel E xs" "leaf_rel E ys"]) (rule leaf_rel_trans)

lemma traced_trans: "traced E es es1 xs \<Longrightarrow> traced E es1 es2 ys \<Longrightarrow> traced E es es2 (xs @ ys)"
  unfolding traced_def by (auto dest: leaf_rels_trans)

lemma leaf_rel_frame:
  assumes "\<forall>l \<in> set ls. el_id l \<notin> touched xs"
  shows "list_all2 (leaf_rel E xs) ls ls"
  using assms by (auto simp: list_all2_same leaf_rel_def)

lemma untouched_leaves: "touched xs \<inter> set (concat (map ids es)) = {} \<Longrightarrow> \<forall>l \<in> set (concat (map leaves es)). el_id l \<notin> touched xs"
  using leaf_ids by fastforce

lemma traced_refl: "touched xs = {} \<Longrightarrow> traced E es es xs"
  by (simp add: traced_def leaf_rel_frame)

lemma traced_context:
  assumes "traced E [c] [c'] xs" and "distinct (concat (map ids (bs @ c # cs)))"
  shows "traced E (bs @ c # cs) (bs @ c' # cs) xs"
proof -
  have "touched xs \<inter> set (concat (map ids bs)) = {}" "touched xs \<inter> set (concat (map ids cs)) = {}"
    using assms by (auto simp: traced_def)
  from untouched_leaves [OF this(1), THEN leaf_rel_frame] untouched_leaves [OF this(2), THEN leaf_rel_frame] assms(1)
  show ?thesis by (auto simp: traced_def intro!: list_all2_appendI)
qed

lemma traced_Bin:
  assumes "traced E cs cs' m" and "el_id i' = el_id i" and "el_id i \<notin> set (concat (map ids cs))"
    and "touched h \<subseteq> {el_id i}" and "touched u \<subseteq> {el_id i}"
  shows "traced E [Bin i b cs] [Bin i' b' cs'] (h @ m @ u)"
proof -
  have h: "list_all2 (leaf_rel E h) (concat (map leaves cs)) (concat (map leaves cs))"
    by (rule leaf_rel_frame [OF untouched_leaves]) (use assms(3,4) in auto)
  have ids: "map ids cs' = map ids cs" and t: "touched m \<subseteq> set (concat (map ids cs))"
    and m: "list_all2 (leaf_rel E m) (concat (map leaves cs)) (concat (map leaves cs'))"
    using assms(1) by (simp_all add: traced_def)
  have "list_all2 (leaf_rel E u) (concat (map leaves cs')) (concat (map leaves cs'))"
    by (intro leaf_rel_frame [OF untouched_leaves]) (use assms(3,5) ids in auto)
  with h m have "list_all2 (leaf_rel E (h @ m @ u)) (concat (map leaves cs)) (concat (map leaves cs'))"
    by (intro leaf_rels_trans)
  moreover have "map ids [Bin i' b' cs'] = map ids [Bin i b cs]" using ids assms(2) by simp
  moreover have "touched (h @ m @ u) \<subseteq> set (concat (map ids [Bin i b cs]))" using t assms(4,5) by auto
  ultimately show ?thesis by (simp add: traced_def)
qed

text \<open>Actions on clocks and posts tell nothing about the states.\<close>

lemma set_clock_actions:
  assumes "zst_element_set_clock c (el, acts) = (el', acts')"
  shows "\<exists>xs. acts' = acts @ xs \<and> touched xs = {}" "ids el' = ids el"
    "list_all2 (leaf_rel E []) (leaves el) (leaves el')"
  using assms
  by (cases el; cases c; cases "el_clock (info el)";
      auto simp: zst_element_set_clock_def leaf_rel_def list_all2_same split: if_splits)+

lemma sync_child_traced:
  assumes "bin_sync_child_context i c acts = (c', acts')"
  shows "\<exists>xs. acts' = acts @ xs \<and> traced E [c] [c'] xs"
proof -
  let ?c = "upd_info (\<lambda>j. j\<lparr>el_bus := el_bus i, el_pipeline := el_pipeline i\<rparr>) c"
  note s = set_clock_actions [OF assms [unfolded bin_sync_child_context_def]]
  obtain xs where xs: "acts' = acts @ xs" "touched xs = {}" using s(1) by blast
  have "list_all2 (leaf_rel E []) (leaves c) (leaves ?c)" "ids ?c = ids c"
    by (cases c; simp add: leaf_rel_def list_all2_same)+
  then have "traced E [c] [c'] []"
    using s(2) s(3) [of E] leaf_rels_trans [of E "[]" "leaves c" "leaves ?c" "[]" "leaves c'"] by (auto simp: traced_def)
  from traced_trans [OF this traced_refl [OF xs(2), of E]] xs(1) show ?thesis by auto
qed

text \<open>The contract for the loops over the children: the setter only appends what the trees tell.\<close>

locale tracing_setter =
  fixes chg :: set_state_fn and E :: el_env
  assumes traces: "chg el st acts = Some (r, el', acts') \<Longrightarrow> distinct (ids el) \<Longrightarrow>
    \<exists>xs. acts' = acts @ xs \<and> traced E [el] [el'] xs"
begin

lemma sync_all_traced:
  assumes "bin_sync_all_children i cs acts = (cs', acts')" and "distinct (concat (map ids (bs @ cs)))"
  shows "\<exists>xs. acts' = acts @ xs \<and> traced E (bs @ cs) (bs @ cs') xs"
  using assms
proof (induction cs arbitrary: bs acts cs')
  case Nil
  then show ?case by (simp add: traced_refl)
next
  case (Cons c cs)
  obtain c1 a1 cs1 where c: "bin_sync_child_context i c acts = (c1, a1)" "bin_sync_all_children i cs a1 = (cs1, acts')" "cs' = c1 # cs1"
    using Cons.prems(1) by (auto split: prod.splits)
  obtain xs where xs: "a1 = acts @ xs" "traced E [c] [c1] xs" using sync_child_traced [OF c(1)] by blast
  note t = traced_context [OF xs(2) Cons.prems(2)]
  then have "distinct (concat (map ids ((bs @ [c1]) @ cs)))" using Cons.prems(2) by (auto simp: traced_def)
  from Cons.IH [OF c(2) this] traced_trans [OF t] xs(1) c(3) show ?case by fastforce
qed

lemma restore_children_traced:
  assumes "restore_children chg st cs acts = Some (cs', acts')" and "distinct (concat (map ids (bs @ cs @ ds)))"
  shows "\<exists>xs. acts' = acts @ xs \<and> traced E (bs @ cs @ ds) (bs @ cs' @ ds) xs"
  using assms
proof (induction cs arbitrary: bs acts cs')
  case Nil
  then show ?case by (simp add: traced_refl)
next
  case (Cons c cs)
  obtain r c1 a1 cs1 where c: "chg c st acts = Some (r, c1, a1)" "restore_children chg st cs a1 = Some (cs1, acts')" "cs' = c1 # cs1"
    using Cons.prems(1) by (auto simp: bind_eq_Some_conv split: prod.splits)
  have "distinct (ids c)" using Cons.prems(2) by simp
  with traces [OF c(1)] obtain xs where xs: "a1 = acts @ xs" "traced E [c] [c1] xs" by blast
  have d: "distinct (concat (map ids (bs @ c # (cs @ ds))))" using Cons.prems(2) by simp
  note t = traced_context [OF xs(2) d]
  then have "distinct (concat (map ids ((bs @ [c1]) @ cs @ ds)))" using Cons.prems(2) by (auto simp: traced_def)
  from Cons.IH [OF c(2) this] traced_trans [OF t] xs(1) c(3) show ?case by fastforce
qed

lemma change_children_traced:
  assumes "change_children chg bus old new before cs acts = Some (r, cs', acts')" and "distinct (concat (map ids (before @ cs)))"
  shows "\<exists>xs. acts' = acts @ xs \<and> traced E (before @ cs) cs' xs"
  using assms
proof (induction cs arbitrary: before acts)
  case Nil
  then show ?case by (simp add: traced_refl)
next
  case (Cons c cs)
  obtain q c1 a1 where c: "chg c new acts = Some (q, c1, a1)"
    using Cons.prems(1) by (auto simp: bind_eq_Some_conv)
  have "distinct (ids c)" using Cons.prems(2) by simp
  with traces [OF c] obtain xs where xs: "a1 = acts @ xs" "traced E [c] [c1] xs" by blast
  note t = traced_context [OF xs(2) Cons.prems(2)]
  then have d: "distinct (concat (map ids ((before @ [c1]) @ cs)))" using Cons.prems(2) by (auto simp: traced_def)
  show ?case
  proof (cases "q = ZST_OK")
    case True
    then have "change_children chg bus old new (before @ [c1]) cs a1 = Some (r, cs', acts')" using Cons.prems(1) c by simp
    from Cons.IH [OF this d] traced_trans [OF t] xs(1) show ?thesis by fastforce
  next
    case False
    with Cons.prems(1) c obtain b' a2 where b: "restore_children chg old before a1 = Some (b', a2)"
      "cs' = b' @ c1 # cs" "acts' = a2 @ (case bus of None \<Rightarrow> [] | Some b \<Rightarrow> [Post_child_error b (el_id (info c1)) q])"
      by (auto simp: bind_eq_Some_conv)
    have "distinct (concat (map ids ([] @ before @ (c1 # cs))))" using d by simp
    from restore_children_traced [OF b(1) this] obtain ys
      where ys: "a2 = a1 @ ys" "traced E (before @ c1 # cs) (b' @ c1 # cs) ys" by auto
    let ?z = "case bus of None \<Rightarrow> [] | Some b \<Rightarrow> [Post_child_error b (el_id (info c1)) q]"
    have "touched ?z = {}" by (cases bus) auto
    from traced_trans [OF traced_trans [OF t ys(2)] traced_refl [OF this]] b xs ys show ?thesis by auto
  qed
qed

end

lemma call_hook_actions:
  assumes "call_hook E i h acts = (r, acts')"
  shows "\<exists>xs. acts' = acts @ xs \<and> touched xs \<subseteq> {i}"
  using assms by (auto simp: call_hook_def split: option.splits)

lemma store_state_actions:
  assumes "store_state E st el acts = (el', acts')"
  shows "\<exists>xs. acts' = acts @ xs \<and> touched xs \<subseteq> {el_id (info el)}"
  using assms by (auto simp: store_state_def Let_def split: option.splits if_splits)

lemma step_hook_from: "step_hook s t = Some k \<Longrightarrow> hook_from k = s"
  by (cases s; cases t; simp)

text \<open>A plain element: the hook, and when it succeeds the store.\<close>

lemma plain_step_traced:
  assumes "single_step chg E (Elem i) st acts = Some (r, el', acts')" and "step_hook (el_state i) st \<noteq> None"
  shows "\<exists>xs. acts' = acts @ xs \<and> traced E [Elem i] [el'] xs"
proof -
  obtain k where k: "step_hook (el_state i) st = Some k" using assms(2) by blast
  show ?thesis
    using assms(1) k step_hook_from [OF k]
    by (cases "el_ops E (el_id i) k"; cases "el_bus i"; cases "el_pipeline i")
      (auto simp: single_step_def call_hook_def store_state_def Let_def traced_def leaf_rel_def split: if_splits)
qed

context tracing_setter
begin

lemma bin_step_traced:
  assumes "single_step chg E (Bin i b cs) st acts = Some (r, el', acts')" and d: "distinct (ids (Bin i b cs))"
  shows "\<exists>xs. acts' = acts @ xs \<and> traced E [Bin i b cs] [el'] xs"
proof -
  let ?s = "el_state i"
  obtain q a1 where h: "call_hook E (el_id i) (step_hook ?s st) acts = (q, a1)" by (rule prod.exhaust)
  obtain hs where hs: "a1 = acts @ hs" "touched hs \<subseteq> {el_id i}" using call_hook_actions [OF h] by blast
  have i: "el_id i \<notin> set (concat (map ids cs))" and dc: "distinct (concat (map ids ([] @ cs)))" using d by auto
  show ?thesis
  proof (cases "q = ZST_OK")
    case False
    then have "el' = Bin i b cs" "acts' = acts @ hs" using assms(1) h hs by (auto simp: single_step_def)
    with traced_Bin [OF traced_refl [of "[]" E] refl i hs(2), of "[]" b b] show ?thesis by auto
  next
    case True
    obtain cs1 a2 where s: "bin_sync_all_children i cs a1 = (cs1, a2)" by (rule prod.exhaust)
    obtain q2 cs2 a3 where c: "change_children chg (el_bus i) ?s st [] cs1 a2 = Some (q2, cs2, a3)"
      using assms(1) h True s by (auto simp: single_step_def Let_def bind_eq_Some_conv)
    let ?b = "if st \<ge> ZST_STATE_READY then bin_reset_eos b else b"
    obtain xs where xs: "a2 = a1 @ xs" "traced E cs cs1 xs" using sync_all_traced [OF s dc] by auto
    then have "distinct (concat (map ids ([] @ cs1)))" using dc by (simp add: traced_def)
    from change_children_traced [OF c this] obtain ys where ys: "a3 = a2 @ ys" "traced E cs1 cs2 ys" by auto
    note t = traced_trans [OF xs(2) ys(2)]
    obtain i' us where us: "el' = Bin i' ?b cs2" "el_id i' = el_id i" "acts' = a3 @ us" "touched us \<subseteq> {el_id i}"
    proof (cases "q2 = ZST_OK")
      case True
      obtain e4 a4 where st: "store_state E st (Bin i ?b cs2) a3 = (e4, a4)" by (rule prod.exhaust)
      then have "el' = e4" "acts' = a4" using assms(1) h \<open>q = ZST_OK\<close> s c True by (auto simp: single_step_def Let_def)
      moreover have "e4 = Bin (i\<lparr>el_state := st\<rparr>) ?b cs2" using st by (auto simp: store_state_def Let_def)
      moreover obtain us where "a4 = a3 @ us" "touched us \<subseteq> {el_id i}" using store_state_actions [OF st] by auto
      ultimately show ?thesis by (intro that [of "i\<lparr>el_state := st\<rparr>"]) auto
    next
      case False
      obtain q4 a4 where u: "call_hook E (el_id i) (step_hook st ?s) a3 = (q4, a4)" by (rule prod.exhaust)
      then have "el' = Bin i ?b cs2" "acts' = a4" using assms(1) h \<open>q = ZST_OK\<close> s c False by (auto simp: single_step_def Let_def)
      with call_hook_actions [OF u] show ?thesis using that by blast
    qed
    with traced_Bin [OF t us(2) i hs(2) us(4), of b ?b] hs xs ys show ?thesis by auto
  qed
qed

lemma two_steps_traced:
  assumes "two_steps chg rollback mid el st acts = Some (r, el', acts')" and d: "distinct (ids el)"
  shows "\<exists>xs. acts' = acts @ xs \<and> traced E [el] [el'] xs"
proof -
  have next_step: "\<exists>zs. a2 = acts @ zs \<and> traced E [el] [y] zs"
    if "chg x t a1 = Some (q, y, a2)" "a1 = acts @ xs" "traced E [el] [x] xs" for x y t q a1 a2 xs
  proof -
    have "distinct (ids x)" using that(3) d by (simp add: traced_def)
    with traces [OF that(1)] traced_trans [OF that(3)] that(2) show ?thesis by fastforce
  qed
  obtain r1 e1 a1 where 1: "chg el mid acts = Some (r1, e1, a1)"
    using assms(1) by (auto simp: two_steps_def bind_eq_Some_conv)
  obtain xs where xs: "a1 = acts @ xs" "traced E [el] [e1] xs" using traces [OF 1 d] by blast
  show ?thesis
  proof (cases "r1 = ZST_OK")
    case False
    with assms(1) 1 xs show ?thesis by (auto simp: two_steps_def)
  next
    case True
    obtain r2 e2 a2 where 2: "chg e1 st a1 = Some (r2, e2, a2)"
      using assms(1) 1 True by (auto simp: two_steps_def bind_eq_Some_conv)
    obtain ys where ys: "a2 = acts @ ys" "traced E [el] [e2] ys" using next_step [OF 2 xs] by blast
    show ?thesis
    proof (cases "r2 \<noteq> ZST_OK \<and> rollback")
      case False
      with assms(1) 1 2 True ys show ?thesis by (auto simp: two_steps_def)
    next
      case r: True
      obtain r3 e3 a3 where 3: "chg e2 (el_state (info el)) a2 = Some (r3, e3, a3)"
        using assms(1) 1 2 True r by (auto simp: two_steps_def bind_eq_Some_conv)
      with assms(1) 1 2 True r have "el' = e3" "acts' = a3" by (auto simp: two_steps_def)
      with next_step [OF 3 ys] show ?thesis by blast
    qed
  qed
qed

end

lemma set_state_traced:
  "zst_element_set_state n E el st acts = Some (r, el', acts') \<Longrightarrow> distinct (ids el) \<Longrightarrow>
    \<exists>xs. acts' = acts @ xs \<and> traced E [el] [el'] xs"
proof (induction n arbitrary: el st acts r el' acts')
  case (Suc n)
  have T: "tracing_setter (zst_element_set_state n E) E" by unfold_locales (rule Suc.IH)
  consider "el_state (info el) = st" "el' = el" "acts' = acts"
    | rb mid where "two_steps (zst_element_set_state n E) rb mid el st acts = Some (r, el', acts')"
    | "single_step (zst_element_set_state n E) E el st acts = Some (r, el', acts')" "step_hook (el_state (info el)) st \<noteq> None"
    using Suc.prems(1) by (cases "el_state (info el)"; cases st; simp add: state_order)
  then show ?case
  proof cases
    case 1
    then show ?thesis by (simp add: traced_refl)
  next
    case 2
    then show ?thesis using tracing_setter.two_steps_traced [OF T] Suc.prems(2) by blast
  next
    case 3
    then show ?thesis
      using plain_step_traced tracing_setter.bin_step_traced [OF T] Suc.prems(2) by (cases el) auto
  qed
qed simp

interpretation element_tracer: tracing_setter "zst_element_set_state n E" E for n E
  by unfold_locales (rule set_state_traced)

section \<open>Properties\<close>

definition demo_info :: "addr \<Rightarrow> el_info" where
  "demo_info a = \<lparr>el_id = a, el_state = ZST_STATE_NULL, el_bus = None, el_pipeline = None, el_clock = None, el_parent_bin = None\<rparr>"

definition demo_data :: bin_data where
  "demo_data = \<lparr>eos_posted = False, eos_forwarded = False, ghost_eos = [], cap_children = 4\<rparr>"

definition demo_bin :: element where
  "demo_bin = Bin (demo_info 1) demo_data [Elem (demo_info 2), Bin (demo_info 3) demo_data [Elem (demo_info 4)], Elem (demo_info 5)]"

text \<open>All hooks are there, and only the start of one element fails.\<close>

definition demo_env :: "addr \<Rightarrow> el_env" where
  "demo_env a = \<lparr>el_ops = (\<lambda>i k. Some (\<lambda>_. if i = a \<and> k = Hook_start then ZST_ERROR else ZST_OK)), sched_wakes = (\<lambda>_. False)\<rparr>"

lemma demo_undo: "undo_hooks_succeed (demo_env a)"
  by (auto simp: undo_hooks_succeed_def demo_env_def)

lemma demo_uniform: "uniform ZST_STATE_NULL demo_bin" "distinct (ids demo_bin)"
  by (simp_all add: demo_bin_def demo_info_def)

text \<open>C21: \<open>zst_element_set_state\<close> always comes back, whatever the tree of bins, the state of each element in it
  and the results of the hooks: a fuel of three levels of recursion per level of the tree is enough.  On
  success the element is in the requested state; on failure it is short of it, between the old state and
  the requested one.\<close>

theorem set_state_returns:
  "\<exists>r el' acts'. zst_element_set_state (state_fuel el + k) E el t acts = Some (r, el', acts') \<and>
     (if r = ZST_OK then el_state (info el') = t else short_of (el_state (info el)) t (el_state (info el')))"
  using set_state_fuel [of el "state_fuel el + k" False E t acts]
  by (fastforce simp: makes_transition_def outcome_ok_def)

text \<open>C19: a state change of a bin is all or nothing.  When the whole tree is in one state and the hooks that
  undo a step (close, stop, unpreroll) do not fail, then after success every element of the tree is in
  the new state, after an error every element is back in the old one, and going down never fails.\<close>

theorem set_state_all_or_nothing:
  assumes "undo_hooks_succeed E" and "uniform s el"
  shows "\<exists>r el' acts'. zst_element_set_state (state_fuel el) E el t acts = Some (r, el', acts') \<and>
    uniform (if r = ZST_OK then t else s) el' \<and> (t \<le> s \<longrightarrow> r = ZST_OK)"
  using set_state_fuel [of el "state_fuel el" True E t acts] assms uniform_state [OF assms(2)]
  by (fastforce simp: makes_transition_def outcome_ok_def)

theorem set_state_all_or_nothing_witness:
  "\<exists>el' acts'. zst_element_set_state 9 (demo_env 4) demo_bin ZST_STATE_PLAYING [] = Some (ZST_ERROR, el', acts') \<and>
    uniform ZST_STATE_NULL el'"
proof -
  have f: "state_fuel demo_bin = 9" by (simp add: state_fuel_def demo_bin_def)
  have "map_option fst (zst_element_set_state 9 (demo_env 4) demo_bin ZST_STATE_PLAYING []) = Some ZST_ERROR" by code_simp
  with set_state_all_or_nothing [OF demo_undo demo_uniform(1), of 4 ZST_STATE_PLAYING "[]"] show ?thesis
    by (auto simp: f)
qed

text \<open>C20: whatever the hooks answer, the log of a state change tells for every plain element of the tree a story
  that leads from its old state to its new one: hooks are only called in the state they belong to, states
  change by single steps, a new state is stored exactly when the hook of the step succeeded.\<close>

theorem set_state_hook_order:
  assumes "zst_element_set_state n E el t acts = Some (r, el', acts')" and "distinct (ids el)"
  shows "\<exists>xs. acts' = acts @ xs \<and>
    list_all2 (\<lambda>l l'. el_id l' = el_id l \<and> replay E (el_id l) (el_state l) None xs = Some (el_state l')) (leaves el) (leaves el')"
proof -
  obtain xs where "acts' = acts @ xs" "traced E [el] [el'] xs" using element_tracer.traces [OF assms] by blast
  moreover have "leaf_rel E xs = (\<lambda>l l'. el_id l' = el_id l \<and> replay E (el_id l) (el_state l) None xs = Some (el_state l'))"
    by (auto simp: leaf_rel_def fun_eq_iff)
  ultimately show ?thesis by (auto simp: traced_def)
qed

theorem set_state_hook_order_witness:
  "\<exists>el' xs. zst_element_set_state 9 (demo_env 5) demo_bin ZST_STATE_PLAYING [] = Some (ZST_ERROR, el', xs) \<and>
    Hook_called 4 Hook_start ZST_OK \<in> set xs \<and> Hook_called 5 Hook_start ZST_ERROR \<in> set xs \<and>
    list_all2 (\<lambda>l l'. el_id l' = el_id l \<and> replay (demo_env 5) (el_id l) (el_state l) None xs = Some (el_state l'))
      (leaves demo_bin) (leaves el')"
proof -
  have "map_option (\<lambda>(r, e, xs). r = ZST_ERROR \<and> Hook_called 4 Hook_start ZST_OK \<in> set xs \<and> Hook_called 5 Hook_start ZST_ERROR \<in> set xs)
    (zst_element_set_state 9 (demo_env 5) demo_bin ZST_STATE_PLAYING []) = Some True" by code_simp
  then obtain el' xs where r: "zst_element_set_state 9 (demo_env 5) demo_bin ZST_STATE_PLAYING [] = Some (ZST_ERROR, el', xs)"
    "Hook_called 4 Hook_start ZST_OK \<in> set xs" "Hook_called 5 Hook_start ZST_ERROR \<in> set xs" by auto
  with set_state_hook_order [OF r(1) demo_uniform(2)] show ?thesis by auto
qed

text \<open>An element in state NULL that joins a bin whose tree is in one state either reaches that state and becomes
  its last child, or is left in NULL, without bus, pipeline, clock and parent, and the bin keeps its
  children.  (Closing, stopping and unprerolling are assumed not to fail.)\<close>

lemma bin_add_joins_or_leaves:
  assumes "undo_hooks_succeed E" and "uniform s (Bin i b cs)" and "uniform ZST_STATE_NULL child"
  shows "\<exists>r i' b' cs' child' acts'. zst_bin_add E m (Bin i b cs) child acts = Some (r, Bin i' b' cs', child', acts') \<and>
    (if r = ZST_OK then cs' = cs @ [child'] \<and> uniform s (Bin i' b' cs')
     else cs' = cs \<and> uniform ZST_STATE_NULL child' \<and>
       (child' = child \<or> el_bus (info child') = None \<and> el_pipeline (info child') = None \<and>
          el_clock (info child') = None \<and> el_parent_bin (info child') = None))"
proof -
  obtain c1 a1 where s1: "bin_sync_child_context i (upd_info (\<lambda>j. j\<lparr>el_parent_bin := Some (el_id i)\<rparr>) child) acts = (c1, a1)"
    by (rule prod.exhaust)
  have u: "uniform ZST_STATE_NULL c1" using sync_child_keeps(3) [OF s1] assms(3) by simp
  have st: "el_state i = s" using assms(2) by simp
  from set_state_fuel [of c1 "state_fuel c1" True E s a1] assms(1) u uniform_state [OF u] obtain r c2 a2
    where c2: "zst_element_set_state (state_fuel c1) E c1 s a1 = Some (r, c2, a2)"
      "uniform (if r = ZST_OK then s else ZST_STATE_NULL) c2" by (fastforce simp: makes_transition_def outcome_ok_def)
  obtain c3 a3 where c3: "zst_element_set_clock None
      (upd_info (\<lambda>j. j\<lparr>el_bus := None, el_pipeline := None, el_parent_bin := None\<rparr>) c2, a2) = (c3, a3)" by (rule prod.exhaust)
  have "uniform ZST_STATE_NULL c3 = uniform ZST_STATE_NULL c2" using set_clock_keeps(3) [OF c3] by simp
  moreover have "el_bus (info c3) = None" "el_pipeline (info c3) = None" "el_clock (info c3) = None" "el_parent_bin (info c3) = None"
    using c3 by (auto simp: zst_element_set_clock_def split: if_splits)
  ultimately show ?thesis
    using s1 c2 c3 u assms(2,3) st by (auto simp: zst_bin_add_def Let_def)
qed

end
