(* ===== verification/Zst_Pipeline.thy ===== *)
theory Zst_Pipeline
  imports Zst_Graph_Walks Zst_Element
begin

text \<open>
  The pipeline of \<open>src/zst_pipeline.c\<close>: its array of elements, the propagation of states with rollback, the choice
  of a clock, the sizes of buffer pools by the queues downstream, and changes of the graph while it runs.

  The elements are the trees of \<open>Zst_Element\<close>; their pads are the pad graph, where an element is known by its
  address.  An element is in the array at most once: the code does not check this, and an operation that would add
  it a second time has no counterpart (\<open>None\<close>).  \<open>None\<close> is also what it is in \<open>Zst_Graph\<close>, and a wait for another
  thread that does not end.  Destruction, the scheduler's tokens and its counter of running tasks are not modelled.
\<close>

section \<open>State\<close>

text \<open>What the sizing of pools remembers in each element.\<close>

record pool_seen =
  seen_pool :: "addr option"
  seen_generation :: u64
  seen_min_buffers :: nat
  seen_max_buffers :: nat
  seen_buffer_size :: u64
  seen_buffer_type :: u32

text \<open>\<open>pl_reconf\<close> is the thread that reconfigures the graph, while one does; \<open>pl_rank\<close> and \<open>pl_seen\<close> are fields of
  the elements.\<close>

record pipeline =
  pl_id :: addr
  pl_elements :: "element list"
  pl_capacity :: u32
  pl_state :: zst_state
  pl_priv :: "addr option"
  pl_bus :: "addr option"
  pl_clock :: "addr option"
  pl_clock_sync :: bool
  pl_base_time :: zst_time
  pl_graph_version :: u64
  pl_sizing_dirty :: bool
  pl_reconf :: "nat option"
  pl_rank :: "addr \<Rightarrow> u32"
  pl_seen :: "addr \<Rightarrow> pool_seen"

text \<open>The operations of the elements, the clock constructors (a new clock, or no memory), the system time, and what
  other threads do while this one waits.\<close>

record pipe_env =
  pv_el :: el_env
  pv_pad :: pad_env
  pv_provide_clock :: "addr \<Rightarrow> (action list \<Rightarrow> addr option) option"
  pv_system_clock :: "action list \<Rightarrow> addr option"
  pv_slave_clock :: "action list \<Rightarrow> addr option"
  pv_monotonic :: "action list \<Rightarrow> zst_time"
  pv_get_pool :: "addr \<Rightarrow> (world \<Rightarrow> addr option) option"
  pv_names :: "addr \<Rightarrow> el_names"

record pipe_state =
  pipe :: pipeline
  graph :: pad_graph
  acts :: "action list"

abbreviation el_ids :: "element list \<Rightarrow> addr list" where
  "el_ids els \<equiv> map (\<lambda>el. el_id (info el)) els"

definition set_el_state :: "pipe_env \<Rightarrow> set_state_fn" where
  "set_el_state E el = zst_element_set_state (state_fuel el) (pv_el E) el"

definition zst_pipeline_create :: "addr \<Rightarrow> addr option \<Rightarrow> pool_seen \<Rightarrow> alloc_script \<Rightarrow> pipeline option \<times> alloc_script" where
  "zst_pipeline_create a bus unseen m =
     (case alloc m of (Some _, m1) \<Rightarrow> (None, m1)
      | (None, m1) \<Rightarrow>
          (Some \<lparr>pl_id = a, pl_elements = [], pl_capacity = 0, pl_state = ZST_STATE_NULL, pl_priv = None, pl_bus = bus,
                 pl_clock = None, pl_clock_sync = False, pl_base_time = 0, pl_graph_version = 1, pl_sizing_dirty = True,
                 pl_reconf = None, pl_rank = (\<lambda>_. 0), pl_seen = (\<lambda>_. unseen)\<rparr>, m1))"

definition zst_pipeline_mark_buffer_pool_sizing_dirty :: "pipeline \<Rightarrow> pipeline" where
  "zst_pipeline_mark_buffer_pool_sizing_dirty pl = pl\<lparr>pl_graph_version := pl_graph_version pl + 1, pl_sizing_dirty := True\<rparr>"

definition zst_pipeline_set_clock_sync :: "bool \<Rightarrow> pipeline \<Rightarrow> pipeline" where
  "zst_pipeline_set_clock_sync enabled pl = pl\<lparr>pl_clock_sync := enabled\<rparr>"

section \<open>The array of elements\<close>

text \<open>The bus, the pipeline and the clock of an element as its pads see them.\<close>

definition sync_view :: "element \<Rightarrow> pad_graph \<Rightarrow> pad_graph" where
  "sync_view el g =
     (case elements g (el_id (info el)) of None \<Rightarrow> g
      | Some e \<Rightarrow> g\<lparr>elements := (elements g)(el_id (info el) \<mapsto>
          e\<lparr>pe_pipeline := el_pipeline (info el), pe_bus := el_bus (info el), pe_clock := el_clock (info el)\<rparr>)\<rparr>)"

definition pipeline_add_locked :: "element \<Rightarrow> pipe_state \<Rightarrow> (zst_result \<times> element \<times> pipe_state) option" where
  "pipeline_add_locked el s =
     (let pl = pipe s; g = graph s; full = (of_nat (length (pl_elements pl)) \<ge> pl_capacity pl)
      in if el_id (info el) \<in> set (el_ids (pl_elements pl)) then None
         else (case (if full then alloc (script (eheap g)) else (None, script (eheap g))) of
                 (Some _, m) \<Rightarrow> Some (ZST_ERROR, el, s\<lparr>graph := set_script m g\<rparr>)
               | (None, m) \<Rightarrow>
                   (case zst_element_set_clock (pl_clock pl)
                           (upd_info (\<lambda>i. i\<lparr>el_bus := pl_bus pl, el_pipeline := Some (pl_id pl)\<rparr>) el, acts s) of
                      (el1, acts1) \<Rightarrow>
                        Some (ZST_OK, el1,
                          \<lparr>pipe = zst_pipeline_mark_buffer_pool_sizing_dirty
                             (pl\<lparr>pl_elements := pl_elements pl @ [el1],
                                 pl_capacity := (if full then if pl_capacity pl = 0 then 8 else pl_capacity pl * 2 else pl_capacity pl)\<rparr>),
                           graph = sync_view el1 (set_script m g), acts = acts1\<rparr>))))"

definition pipeline_remove_locked :: "addr \<Rightarrow> pipe_state \<Rightarrow> zst_result \<times> element option \<times> pipe_state" where
  "pipeline_remove_locked a s =
     (case remove_child a (pl_elements (pipe s)) of
        None \<Rightarrow> (ZST_ERROR, None, s)
      | Some (el, rest) \<Rightarrow>
          (let el1 = upd_info (\<lambda>i. i\<lparr>el_bus := None, el_pipeline := None\<rparr>) el
           in (ZST_OK, Some el1,
               s\<lparr>pipe := zst_pipeline_mark_buffer_pool_sizing_dirty ((pipe s)\<lparr>pl_elements := rest\<rparr>),
                 graph := sync_view el1 (graph s)\<rparr>)))"

definition zst_pipeline_add :: "element \<Rightarrow> pipe_state \<Rightarrow> (zst_result \<times> element \<times> pipe_state) option" where
  "zst_pipeline_add = pipeline_add_locked"

definition zst_pipeline_remove :: "addr \<Rightarrow> pipe_state \<Rightarrow> zst_result \<times> element option \<times> pipe_state" where
  "zst_pipeline_remove = pipeline_remove_locked"

section \<open>Clocks\<close>

fun set_clocks :: "addr option \<Rightarrow> element list \<times> action list \<Rightarrow> element list \<times> action list" where
  "set_clocks c ([], a) = ([], a)"
| "set_clocks c (el # els, a) =
     (case zst_element_set_clock c (el, a) of (el1, a1) \<Rightarrow> (case set_clocks c (els, a1) of (els1, a2) \<Rightarrow> (el1 # els1, a2)))"

definition zst_pipeline_set_clock :: "addr option \<Rightarrow> pipe_state \<Rightarrow> pipe_state" where
  "zst_pipeline_set_clock c s =
     (if pl_clock (pipe s) = c then s
      else (case set_clocks c (pl_elements (pipe s),
                   acts s @ (case pl_clock (pipe s) of None \<Rightarrow> [] | Some k \<Rightarrow> [Clock_unref k])
                     @ (case c of None \<Rightarrow> [] | Some k \<Rightarrow> [Clock_ref k])) of
              (els, a) \<Rightarrow> \<lparr>pipe = (pipe s)\<lparr>pl_clock := c, pl_elements := els\<rparr>, graph = foldr sync_view els (graph s), acts = a\<rparr>))"

text \<open>The first clock an element provides; the caller gets a reference.\<close>

fun first_clock :: "pipe_env \<Rightarrow> addr list \<Rightarrow> action list \<Rightarrow> addr option \<times> action list" where
  "first_clock E [] a = (None, a)"
| "first_clock E (x # xs) a =
     (case Option.bind (pv_provide_clock E x) (\<lambda>f. f a) of
        None \<Rightarrow> first_clock E xs a
      | Some k \<Rightarrow> (Some k, a @ [Clock_ref k]))"

text \<open>The choice of a clock on the way to PLAYING: a provided clock slaved to the system clock, else the system clock.\<close>

definition select_clock :: "pipe_env \<Rightarrow> pipe_state \<Rightarrow> pipe_state" where
  "select_clock E s =
     (case first_clock E (el_ids (pl_elements (pipe s))) (acts s) of (master, a1) \<Rightarrow>
        (let sys = pv_system_clock E a1;
             a2 = a1 @ (case sys of None \<Rightarrow> [] | Some k \<Rightarrow> [Clock_new k]);
             s2 = s\<lparr>acts := a2\<rparr>;
             s3 = (case (master, sys) of
                     (Some k, Some y) \<Rightarrow>
                       (case pv_slave_clock E a2 of
                          None \<Rightarrow> zst_pipeline_set_clock (Some y) s2
                        | Some sl \<Rightarrow>
                            (let s3 = zst_pipeline_set_clock (Some sl) (s2\<lparr>acts := a2 @ [Clock_ref k, Clock_ref y, Clock_new sl]\<rparr>)
                             in s3\<lparr>acts := acts s3 @ [Clock_unref sl]\<rparr>))
                   | (None, Some y) \<Rightarrow> zst_pipeline_set_clock (Some y) s2
                   | (_, None) \<Rightarrow> s2);
             s4 = s3\<lparr>acts := acts s3 @ (case master of None \<Rightarrow> [] | Some k \<Rightarrow> [Clock_unref k])
                               @ (case sys of None \<Rightarrow> [] | Some y \<Rightarrow> [Clock_unref y])\<rparr>
         in s4\<lparr>pipe := (pipe s4)\<lparr>pl_base_time := pv_monotonic E (acts s4)\<rparr>\<rparr>))"

section \<open>Sizes of buffer pools\<close>

definition pool_config_default_size_for_queue_count :: "nat \<Rightarrow> pool_config \<Rightarrow> pool_config" where
  "pool_config_default_size_for_queue_count n c =
     (if n = 0 then c
      else if min_buffers c < n + 2 then
        (let c1 = c\<lparr>min_buffers := n + 2\<rparr>
         in if max_buffers c1 < min_buffers c1 then c1\<lparr>max_buffers := min_buffers c1 * 2\<rparr> else c1)
      else c)"

definition seen_of :: "addr option \<Rightarrow> pool_config \<Rightarrow> world \<Rightarrow> pool_seen" where
  "seen_of po c w =
     \<lparr>seen_pool = po, seen_generation = zst_buffer_pool_get_generation po w, seen_min_buffers = min_buffers c,
      seen_max_buffers = max_buffers c, seen_buffer_size = buffer_size c, seen_buffer_type = buffer_type c\<rparr>"

text \<open>The configuration of \<open>NULL\<close> is all zero, as \<open>pipeline_cache_pool_snapshot\<close> stores it.\<close>

definition pipeline_cache_pool_snapshot :: "addr \<Rightarrow> addr option \<Rightarrow> pipe_state \<Rightarrow> pipe_state" where
  "pipeline_cache_pool_snapshot el po s =
     s\<lparr>pipe := (pipe s)\<lparr>pl_seen := (pl_seen (pipe s))(el := seen_of po (zst_buffer_pool_get_config po (mem (graph s))) (mem (graph s)))\<rparr>\<rparr>"

definition zst_element_get_pool :: "pipe_env \<Rightarrow> addr \<Rightarrow> world \<Rightarrow> addr option" where
  "zst_element_get_pool E el w = Option.bind (pv_get_pool E el) (\<lambda>f. f w)"

definition pipeline_element_pool_snapshot_changed :: "pipe_env \<Rightarrow> addr \<Rightarrow> pipe_state \<Rightarrow> bool" where
  "pipeline_element_pool_snapshot_changed E el s =
     (let w = mem (graph s); seen = pl_seen (pipe s) el
      in if pv_get_pool E el = None then False
         else (case zst_element_get_pool E el w of
                 None \<Rightarrow> seen_pool seen \<noteq> None
               | Some pa \<Rightarrow> seen_pool seen \<noteq> Some pa \<or> zst_buffer_pool_get_generation (Some pa) w \<noteq> seen_generation seen))"

definition apply_pool_config_cb :: "pipe_env \<Rightarrow> addr \<Rightarrow> pipe_state \<Rightarrow> pipe_state option" where
  "apply_pool_config_cb E el s =
     (case zst_element_get_pool E el (mem (graph s)) of
        None \<Rightarrow> Some (pipeline_cache_pool_snapshot el None s)
      | Some pa \<Rightarrow>
          do { let old = zst_buffer_pool_get_config (Some pa) (mem (graph s));
               (n, g1) \<leftarrow> zst_pipeline_count_downstream_elements_of_type (pv_names E) (el_ids (pl_elements (pipe s))) el ''queue'' (graph s);
               let new = pool_config_default_size_for_queue_count n old;
               let (cfg, w) = (if min_buffers new \<noteq> min_buffers old \<or> max_buffers new \<noteq> max_buffers old
                               then (case zst_buffer_pool_set_config (Some pa) (Some new) (mem g1) of
                                       (ZST_OK, w) \<Rightarrow> (new, w)
                                     | (_, w) \<Rightarrow> (zst_buffer_pool_get_config (Some pa) w, w))
                               else (old, mem g1));
               Some (s\<lparr>graph := g1\<lparr>mem := w\<rparr>, pipe := (pipe s)\<lparr>pl_seen := (pl_seen (pipe s))(el := seen_of (Some pa) cfg w)\<rparr>\<rparr>) })"

fun zst_pipeline_foreach_element :: "(addr \<Rightarrow> pipe_state \<Rightarrow> pipe_state option) \<Rightarrow> addr list \<Rightarrow> pipe_state \<Rightarrow> pipe_state option" where
  "zst_pipeline_foreach_element f [] s = Some s"
| "zst_pipeline_foreach_element f (x # xs) s = do { s1 \<leftarrow> f x s; zst_pipeline_foreach_element f xs s1 }"

definition zst_pipeline_update_buffer_pool_sizing :: "pipe_env \<Rightarrow> pipe_state \<Rightarrow> pipe_state option" where
  "zst_pipeline_update_buffer_pool_sizing E s =
     zst_pipeline_foreach_element (apply_pool_config_cb E) (el_ids (pl_elements (pipe s)))
       (s\<lparr>pipe := (pipe s)\<lparr>pl_sizing_dirty := False\<rparr>\<rparr>)"

definition zst_pipeline_update_buffer_pool_sizing_if_needed :: "pipe_env \<Rightarrow> addr \<Rightarrow> pipe_state \<Rightarrow> pipe_state option" where
  "zst_pipeline_update_buffer_pool_sizing_if_needed E changed s =
     (if pl_sizing_dirty (pipe s) \<or> pipeline_element_pool_snapshot_changed E changed s
      then zst_pipeline_update_buffer_pool_sizing E s else Some s)"

section \<open>States\<close>

text \<open>The loop over the elements, those that made the step so far last first; on failure they are taken back in
  this order.  The result names the element that failed.\<close>

fun advance :: "set_state_fn \<Rightarrow> zst_state \<Rightarrow> zst_state \<Rightarrow> element list \<Rightarrow> element list \<Rightarrow> action list
    \<Rightarrow> ((zst_result \<times> addr) option \<times> element list \<times> action list) option" where
  "advance chg old new moved [] a = Some (None, moved, a)"
| "advance chg old new moved (el # els) a =
     do { (r, el1, a1) \<leftarrow> chg el new a;
          if r = ZST_OK then advance chg old new (el1 # moved) els a1
          else do { (moved1, a2) \<leftarrow> restore_children chg old moved a1;
                    Some (Some (r, el_id (info el1)), rev els @ el1 # moved1, a2) } }"

text \<open>Up in the order of the array, down from its end.  \<open>advance\<close> returns the elements in the opposite order.\<close>

definition propagate :: "set_state_fn \<Rightarrow> zst_state \<Rightarrow> zst_state \<Rightarrow> element list \<Rightarrow> action list
    \<Rightarrow> ((zst_result \<times> addr) option \<times> element list \<times> action list) option" where
  "propagate chg old new els a =
     (if new > old then map_option (\<lambda>(f, xs, a1). (f, rev xs, a1)) (advance chg old new [] els a)
      else advance chg old new [] (rev els) a)"

text \<open>What precedes the step to PLAYING.\<close>

definition prepare_playing :: "pipe_env \<Rightarrow> zst_state \<Rightarrow> pipe_state \<Rightarrow> pipe_state option" where
  "prepare_playing E new s =
     (if pl_state (pipe s) < ZST_STATE_PLAYING \<and> new = ZST_STATE_PLAYING
      then map_option (\<lambda>s1. if pl_clock (pipe s1) = None then select_clock E s1 else s1) (zst_pipeline_update_buffer_pool_sizing E s)
      else Some s)"

definition pipe_step :: "pipe_env \<Rightarrow> zst_state \<Rightarrow> pipe_state \<Rightarrow> (zst_result \<times> pipe_state) option" where
  "pipe_step E new s =
     do { s1 \<leftarrow> prepare_playing E new s;
          let old = pl_state (pipe s);
          (failed, els, a) \<leftarrow> propagate (set_el_state E) old new (pl_elements (pipe s1)) (acts s1);
          Some (case failed of
                  Some (r, el) \<Rightarrow>
                    (r, s1\<lparr>pipe := (pipe s1)\<lparr>pl_elements := els\<rparr>,
                           acts := a @ (case pl_bus (pipe s1) of None \<Rightarrow> [] | Some b \<Rightarrow> [Post_child_error b el r])\<rparr>)
                | None \<Rightarrow>
                    (ZST_OK, s1\<lparr>pipe := (pipe s1)\<lparr>pl_elements := els, pl_state := new\<rparr>,
                                acts := a @ (case pl_bus (pipe s1) of None \<Rightarrow> [] | Some b \<Rightarrow> [Post_pipeline_state b old new])\<rparr>)) }"

fun next_state :: "bool \<Rightarrow> zst_state \<Rightarrow> zst_state" where
  "next_state True ZST_STATE_NULL = ZST_STATE_READY"
| "next_state True ZST_STATE_READY = ZST_STATE_PAUSED"
| "next_state True _ = ZST_STATE_PLAYING"
| "next_state False ZST_STATE_PLAYING = ZST_STATE_PAUSED"
| "next_state False ZST_STATE_PAUSED = ZST_STATE_READY"
| "next_state False _ = ZST_STATE_NULL"

text \<open>The nesting of calls is at most three, one per step.\<close>

primrec pipe_set_state :: "nat \<Rightarrow> pipe_env \<Rightarrow> zst_state \<Rightarrow> pipe_state \<Rightarrow> (zst_result \<times> pipe_state) option" where
  "pipe_set_state 0 E st s = None"
| "pipe_set_state (Suc n) E st s =
     (let old = pl_state (pipe s); mid = next_state (st > old) old
      in if old = st then Some (ZST_OK, s)
         else if mid \<noteq> st then
           do { (r, s1) \<leftarrow> pipe_set_state n E mid s;
                if r \<noteq> ZST_OK then Some (r, s1)
                else do { (r, s2) \<leftarrow> pipe_set_state n E st s1;
                          if r \<noteq> ZST_OK then do { (_, s3) \<leftarrow> pipe_set_state n E old s2; Some (r, s3) }
                          else Some (r, s2) } }
         else pipe_step E st s)"

definition zst_pipeline_set_state :: "pipe_env \<Rightarrow> zst_state \<Rightarrow> pipe_state \<Rightarrow> (zst_result \<times> pipe_state) option" where
  "zst_pipeline_set_state = pipe_set_state 3"

definition zst_pipeline_start :: "pipe_env \<Rightarrow> pipe_state \<Rightarrow> (zst_result \<times> pipe_state) option" where
  "zst_pipeline_start E = zst_pipeline_set_state E ZST_STATE_PLAYING"

definition zst_pipeline_stop :: "pipe_env \<Rightarrow> pipe_state \<Rightarrow> (zst_result \<times> pipe_state) option" where
  "zst_pipeline_stop E = zst_pipeline_set_state E ZST_STATE_NULL"

section \<open>Changing the graph of a running pipeline\<close>

text \<open>Threads are numbers.  The wait polls until no other thread reconfigures; the list has what the others did
  before each poll.\<close>

definition pipeline_reconfiguration_owned_by_current_thread :: "nat \<Rightarrow> pipeline \<Rightarrow> bool" where
  "pipeline_reconfiguration_owned_by_current_thread self pl = (pl_reconf pl = Some self)"

fun pipeline_wait_for_foreign_reconfiguration :: "nat \<Rightarrow> (pipe_state \<Rightarrow> pipe_state) list \<Rightarrow> pipe_state \<Rightarrow> pipe_state option" where
  "pipeline_wait_for_foreign_reconfiguration self polls s =
     (if pl_reconf (pipe s) = None \<or> pipeline_reconfiguration_owned_by_current_thread self (pipe s) then Some s
      else (case polls of [] \<Rightarrow> None | f # fs \<Rightarrow> pipeline_wait_for_foreign_reconfiguration self fs (f s)))"

definition enter :: "nat \<Rightarrow> (pipe_state \<Rightarrow> pipe_state) list \<Rightarrow> pipe_state \<Rightarrow> pipe_state option" where
  "enter self polls s =
     (if pipeline_reconfiguration_owned_by_current_thread self (pipe s) then Some s
      else pipeline_wait_for_foreign_reconfiguration self polls s)"

text \<open>The pad code reports a changed topology as requests; those for this pipeline are served.\<close>

definition serve_requests :: "pad_graph \<Rightarrow> pipe_state \<Rightarrow> pipe_state" where
  "serve_requests before s =
     s\<lparr>pipe := fold (\<lambda>q pl. if q = Sizing_dirty (pl_id pl) then zst_pipeline_mark_buffer_pool_sizing_dirty pl else pl)
                  (drop (length (requests before)) (requests (graph s))) (pipe s)\<rparr>"

definition find_el :: "element list \<Rightarrow> addr \<Rightarrow> element option" where
  "find_el els a = find (\<lambda>el. el_id (info el) = a) els"

definition pipeline_reconfiguration_finish_locked :: "pipe_env \<Rightarrow> pipe_state \<Rightarrow> pipe_state option" where
  "pipeline_reconfiguration_finish_locked E s =
     do { let pl = pipe s;
          (rk, g1) \<leftarrow> pipeline_recalculate_ranks_locked (el_ids (pl_elements pl)) (pl_rank pl, graph s);
          (order, g2) \<leftarrow> pipeline_topological_sort_locked (el_ids (pl_elements pl)) g1;
          els \<leftarrow> those (map (\<lambda>x. Option.bind x (find_el (pl_elements pl))) order);
          zst_pipeline_update_buffer_pool_sizing E
            \<lparr>pipe = zst_pipeline_mark_buffer_pool_sizing_dirty (pl\<lparr>pl_elements := els, pl_rank := rk\<rparr>), graph = g2,
             acts = acts s @ (case pl_priv pl of None \<Rightarrow> [] | Some _ \<Rightarrow> [Scheduler_wake (pl_id pl)])\<rparr> }"

definition zst_pipeline_reconfigure_begin :: "nat \<Rightarrow> (pipe_state \<Rightarrow> pipe_state) list \<Rightarrow> pipe_state \<Rightarrow> (zst_result \<times> pipe_state) option" where
  "zst_pipeline_reconfigure_begin self polls s =
     (if pipeline_reconfiguration_owned_by_current_thread self (pipe s) then Some (ZST_ERROR, s)
      else do { s1 \<leftarrow> pipeline_wait_for_foreign_reconfiguration self polls s;
                Some (ZST_OK, s1\<lparr>pipe := (pipe s1)\<lparr>pl_reconf := Some self\<rparr>\<rparr>) })"

definition zst_pipeline_reconfigure_end :: "pipe_env \<Rightarrow> nat \<Rightarrow> pipe_state \<Rightarrow> (zst_result \<times> pipe_state) option" where
  "zst_pipeline_reconfigure_end E self s =
     (if \<not> pipeline_reconfiguration_owned_by_current_thread self (pipe s) then Some (ZST_ERROR, s)
      else do { s1 \<leftarrow> pipeline_reconfiguration_finish_locked E (s\<lparr>pipe := (pipe s)\<lparr>pl_reconf := None\<rparr>\<rparr>); Some (ZST_OK, s1) })"

text \<open>\<open>put_el\<close>: the element, wherever it is in the array, has changed.\<close>

definition put_el :: "element \<Rightarrow> pipe_state \<Rightarrow> pipe_state" where
  "put_el el s = s\<lparr>pipe := (pipe s)\<lparr>pl_elements := map (\<lambda>x. if el_id (info x) = el_id (info el) then el else x) (pl_elements (pipe s))\<rparr>\<rparr>"

definition change_el :: "pipe_env \<Rightarrow> element \<Rightarrow> zst_state \<Rightarrow> pipe_state \<Rightarrow> (zst_result \<times> element \<times> pipe_state) option" where
  "change_el E el st s =
     do { (r, el1, a) \<leftarrow> set_el_state E el st (acts s); Some (r, el1, put_el el1 (s\<lparr>acts := a\<rparr>)) }"

definition finish_unless :: "bool \<Rightarrow> pipe_env \<Rightarrow> pipe_state \<Rightarrow> pipe_state option" where
  "finish_unless inside E s = (if inside then Some s else pipeline_reconfiguration_finish_locked E s)"

definition zst_pipeline_add_element_dynamic :: "pipe_env \<Rightarrow> nat \<Rightarrow> (pipe_state \<Rightarrow> pipe_state) list \<Rightarrow> element \<Rightarrow> pipe_state
    \<Rightarrow> (zst_result \<times> element \<times> pipe_state) option" where
  "zst_pipeline_add_element_dynamic E self polls el s =
     do { let inside = pipeline_reconfiguration_owned_by_current_thread self (pipe s);
          s0 \<leftarrow> enter self polls s;
          (r, el1, s1) \<leftarrow> pipeline_add_locked el s0;
          if r \<noteq> ZST_OK then Some (r, el1, s1)
          else
            do { let st = pl_state (pipe s1);
                 (r, el2, s2) \<leftarrow> (if st > ZST_STATE_NULL then change_el E el1 ZST_STATE_READY s1 else Some (ZST_OK, el1, s1));
                 if r \<noteq> ZST_OK then
                   (let (_, el3, s3) = pipeline_remove_locked (el_id (info el2)) s2 in Some (r, case el3 of None \<Rightarrow> el2 | Some x \<Rightarrow> x, s3))
                 else
                   do { (r, el3, s3) \<leftarrow> (if st = ZST_STATE_PLAYING then change_el E el2 ZST_STATE_PLAYING s2 else Some (ZST_OK, el2, s2));
                        if r \<noteq> ZST_OK then
                          do { (_, el4, s4) \<leftarrow> change_el E el3 ZST_STATE_NULL s3;
                               let (_, el5, s5) = pipeline_remove_locked (el_id (info el4)) s4;
                               Some (r, case el5 of None \<Rightarrow> el4 | Some x \<Rightarrow> x, s5) }
                        else do { s4 \<leftarrow> finish_unless inside E s3; Some (ZST_OK, el3, s4) } } } }"

definition unlink_pads :: "addr list \<Rightarrow> pad_graph \<Rightarrow> pad_graph option" where
  "unlink_pads = each_pad (\<lambda>p g. do { g1 \<leftarrow> zst_pad_unlink p g; Some (ZST_OK, g1) })"

text \<open>\<open>el\<close> is the element as it is; when it is in the array, the entry of the array.\<close>

definition zst_pipeline_remove_element_dynamic :: "pipe_env \<Rightarrow> nat \<Rightarrow> (pipe_state \<Rightarrow> pipe_state) list \<Rightarrow> element \<Rightarrow> pipe_state
    \<Rightarrow> (zst_result \<times> element \<times> pipe_state) option" where
  "zst_pipeline_remove_element_dynamic E self polls el s =
     do { let inside = pipeline_reconfiguration_owned_by_current_thread self (pipe s);
          (_, el1, s1) \<leftarrow> (if el_state (info el) = ZST_STATE_PLAYING then change_el E el ZST_STATE_PAUSED s else Some (ZST_OK, el, s));
          s2 \<leftarrow> enter self polls s1;
          (_, el2, s3) \<leftarrow> change_el E el1 ZST_STATE_NULL s2;
          e \<leftarrow> elements (graph s3) (el_id (info el));
          g1 \<leftarrow> unlink_pads (pe_sink_pads e) (graph s3);
          e1 \<leftarrow> elements g1 (el_id (info el));
          g2 \<leftarrow> unlink_pads (pe_src_pads e1) g1;
          let s4 = serve_requests (graph s3) (s3\<lparr>graph := g2\<rparr>);
          let (r, el3, s5) = pipeline_remove_locked (el_id (info el2)) s4;
          s6 \<leftarrow> finish_unless inside E s5;
          Some (r, case el3 of None \<Rightarrow> el2 | Some x \<Rightarrow> x, s6) }"

definition zst_pipeline_link_pads_dynamic :: "pipe_env \<Rightarrow> nat \<Rightarrow> (pipe_state \<Rightarrow> pipe_state) list \<Rightarrow> addr \<Rightarrow> addr \<Rightarrow> pipe_state
    \<Rightarrow> (zst_result \<times> pipe_state) option" where
  "zst_pipeline_link_pads_dynamic E self polls src sink s =
     do { let inside = pipeline_reconfiguration_owned_by_current_thread self (pipe s);
          s1 \<leftarrow> enter self polls s;
          (r, g1) \<leftarrow> zst_pad_link (pv_pad E) src sink (graph s1);
          let s2 = serve_requests (graph s1) (s1\<lparr>graph := g1\<rparr>);
          if r \<noteq> ZST_OK then Some (r, s2)
          else
            do { x \<leftarrow> pads g1 src;
                 (rk, g2) \<leftarrow> (case pd_parent x of None \<Rightarrow> Some (pl_rank (pipe s2), g1)
                             | Some u \<Rightarrow> zst_pipeline_update_ranks_from (el_ids (pl_elements (pipe s2))) u (pl_rank (pipe s2), g1));
                 s3 \<leftarrow> finish_unless inside E
                   (s2\<lparr>pipe := zst_pipeline_mark_buffer_pool_sizing_dirty ((pipe s2)\<lparr>pl_rank := rk\<rparr>), graph := g2\<rparr>);
                 Some (ZST_OK, s3) } }"

definition zst_pipeline_unlink_pads_dynamic :: "pipe_env \<Rightarrow> nat \<Rightarrow> (pipe_state \<Rightarrow> pipe_state) list \<Rightarrow> addr \<Rightarrow> addr \<Rightarrow> pipe_state
    \<Rightarrow> (zst_result \<times> pipe_state) option" where
  "zst_pipeline_unlink_pads_dynamic E self polls src sink s =
     do { let inside = pipeline_reconfiguration_owned_by_current_thread self (pipe s);
          s1 \<leftarrow> enter self polls s;
          (peer, g1) \<leftarrow> zst_pad_get_peer src (graph s1);
          g2 \<leftarrow> (case peer of None \<Rightarrow> Some g1 | Some q \<Rightarrow> pad_unref q g1);
          if peer \<noteq> Some sink then Some (ZST_ERROR, s1\<lparr>graph := g2\<rparr>)
          else
            do { g3 \<leftarrow> zst_pad_unlink src g2;
                 let s2 = serve_requests (graph s1) (s1\<lparr>graph := g3\<rparr>);
                 (rk, g4) \<leftarrow> pipeline_recalculate_ranks_locked (el_ids (pl_elements (pipe s2))) (pl_rank (pipe s2), g3);
                 s3 \<leftarrow> finish_unless inside E
                   (s2\<lparr>pipe := zst_pipeline_mark_buffer_pool_sizing_dirty ((pipe s2)\<lparr>pl_rank := rk\<rparr>), graph := g4\<rparr>);
                 Some (ZST_OK, s3) } }"

end
