(* ===== verification/Zst_Pipeline_Laws.thy ===== *)
theory Zst_Pipeline_Laws
  imports Zst_Pipeline
begin

text \<open>
  What pipelines guarantee: state changes are all or nothing, pools get enough buffers for the queues downstream, a
  reconfiguration ends with a sorted graph, and an element that joins a running pipeline joins it or leaves no trace.
\<close>

section \<open>The states of the elements\<close>

lemma bin_change_state_id: "bin_change_state chg el old new a = Some (r, el', a') \<Longrightarrow> info el' = info el"
  by (cases el) (auto split: prod.splits bind_splits)

text \<open>Of the element itself only the state changes.\<close>

definition only_state :: "element \<Rightarrow> element \<Rightarrow> bool" where
  "only_state el el' \<longleftrightarrow> (\<exists>q. info el' = (info el)\<lparr>el_state := q\<rparr>)"

lemma only_state_refl [simp]: "only_state el el" "info el' = info el \<Longrightarrow> only_state el el'"
  unfolding only_state_def by (rule exI [of _ "el_state (info el)"], simp)+

lemma only_state_trans: "only_state a b \<Longrightarrow> only_state b c \<Longrightarrow> only_state a c"
  by (auto simp: only_state_def)

lemma only_stateD: "only_state el el' \<Longrightarrow> el_id (info el') = el_id (info el)"
  "only_state el el' \<Longrightarrow> el_bus (info el') = el_bus (info el)" "only_state el el' \<Longrightarrow> el_pipeline (info el') = el_pipeline (info el)"
  by (auto simp: only_state_def)

lemma set_state_only: "zst_element_set_state n E el st a = Some (r, el', a') \<Longrightarrow> only_state el el'"
proof (induction n arbitrary: el st a r el' a')
  case (Suc n)
  have two: "only_state el el'" if "two_steps (zst_element_set_state n E) rb mid el st a = Some (r, el', a')" for rb mid
    using that unfolding two_steps_def by (auto split: bind_splits if_splits dest!: Suc.IH) (blast intro: only_state_trans)+
  have one: "only_state el el'" if "single_step (zst_element_set_state n E) E el st a = Some (r, el', a')"
  proof -
    have "only_state el (upd_info (\<lambda>i. i\<lparr>el_state := st\<rparr>) x)" if "info x = info el" for x using that by (auto simp: only_state_def)
    with that show ?thesis unfolding single_step_def store_state_def
      by (auto simp: Let_def split: bind_splits if_splits prod.splits dest!: bin_change_state_id)
  qed
  show ?case using Suc.prems two one by (auto simp: Let_def split: if_splits)
qed simp

lemma set_el_state_only: "set_el_state E el st a = Some (r, el', a') \<Longrightarrow> only_state el el'"
  unfolding set_el_state_def by (rule set_state_only)

lemma set_el_state_setter:
  assumes "strict \<Longrightarrow> undo_hooks_succeed (pv_el E)"
  shows "state_setter (set_el_state E) strict d"
proof
  fix el t a assume "strict \<Longrightarrow> uniform (el_state (info el)) el"
  then have "makes_transition (zst_element_set_state (state_fuel el) (pv_el E)) strict el t a" using set_state_fuel assms by blast
  then show "makes_transition (set_el_state E) strict el t a" by (simp add: makes_transition_def set_el_state_def)
qed

text \<open>The setter the pipeline uses meets the contract of the loops, for elements of every depth.\<close>

interpretation pipeline_setter: state_setter "set_el_state E" False d for E d
  by (rule set_el_state_setter) simp

context state_setter
begin

lemma advance_return:
  assumes "\<forall>c \<in> set moved. depth c \<le> d \<and> (strict \<longrightarrow> uniform new c)" and "\<forall>c \<in> set els. depth c \<le> d \<and> (strict \<longrightarrow> uniform old c)"
  shows "\<exists>f xs a'. advance chg old new moved els a = Some (f, xs, a') \<and> (\<forall>r i. f = Some (r, i) \<longrightarrow> r \<noteq> ZST_OK) \<and>
    (strict \<longrightarrow> (\<forall>c \<in> set xs. uniform (if f = None then new else old) c) \<and> (f = None \<or> old < new))"
  using assms
proof (induction els arbitrary: moved a)
  case (Cons c cs)
  have u: "strict \<Longrightarrow> uniform (el_state (info c)) c" and s: "strict \<Longrightarrow> el_state (info c) = old"
    using Cons.prems by (auto dest: uniform_state)
  obtain r c' a1 where c': "chg c new a = Some (r, c', a1)" "depth c' = depth c" "outcome_ok strict (el_state (info c)) new r c'"
    using transition [of c new a] u Cons.prems by (auto simp: makes_transition_def)
  show ?case
  proof (cases "r = ZST_OK")
    case True
    with c' Cons.prems have "\<forall>x \<in> set (c' # moved). depth x \<le> d \<and> (strict \<longrightarrow> uniform new x)" by (auto simp: outcome_ok_def)
    with Cons.IH [OF this, of a1] Cons.prems c' True show ?thesis by auto
  next
    case False
    with c'(3) s have o: "strict \<longrightarrow> uniform old c' \<and> old < new" by (auto simp: outcome_ok_def)
    with restore_children_return [of moved new old a1] Cons.prems(1)
    obtain ms a2 where "restore_children chg old moved a1 = Some (ms, a2)" "strict \<longrightarrow> (\<forall>c \<in> set ms. uniform old c)" by blast
    with False c' o Cons.prems show ?thesis by auto
  qed
qed simp

lemma propagate_return:
  assumes "\<forall>c \<in> set els. depth c \<le> d \<and> (strict \<longrightarrow> uniform old c)"
  shows "\<exists>f xs a'. propagate chg old new els a = Some (f, xs, a') \<and> (\<forall>r i. f = Some (r, i) \<longrightarrow> r \<noteq> ZST_OK) \<and>
    (strict \<longrightarrow> (\<forall>c \<in> set xs. uniform (if f = None then new else old) c) \<and> (f = None \<or> old < new))"
  using advance_return [of "[]" new els old a] advance_return [of "[]" new "rev els" old a] assms
  unfolding propagate_def by (cases "old < new") fastforce+

end

text \<open>The elements stay who they are.\<close>

definition keeps_ids :: "set_state_fn \<Rightarrow> bool" where
  "keeps_ids chg \<longleftrightarrow> (\<forall>el st a r el' a'. chg el st a = Some (r, el', a') \<longrightarrow> el_id (info el') = el_id (info el))"

lemma keeps_idsD: "keeps_ids chg \<Longrightarrow> chg el st a = Some (r, el', a') \<Longrightarrow> el_id (info el') = el_id (info el)"
  unfolding keeps_ids_def by blast

lemma set_el_state_keeps_ids: "keeps_ids (set_el_state E)"
  unfolding keeps_ids_def using set_el_state_only only_stateD(1) by blast

lemma restore_children_ids:
  "keeps_ids chg \<Longrightarrow> restore_children chg st els a = Some (els', a') \<Longrightarrow> el_ids els' = el_ids els"
proof (induction els arbitrary: a els' a')
  case (Cons c cs)
  obtain r c' a1 where c': "chg c st a = Some (r, c', a1)" using Cons.prems(2) by (auto split: bind_splits)
  obtain cs' a2 where cs': "restore_children chg st cs a1 = Some (cs', a2)" using Cons.prems(2) c' by (auto split: bind_splits)
  show ?case using Cons.IH [OF Cons.prems(1) cs'] keeps_idsD [OF Cons.prems(1) c'] Cons.prems(2) c' cs' by auto
qed simp

lemma advance_ids:
  assumes k: "keeps_ids chg"
  shows "advance chg old new moved els a = Some (f, xs, a') \<Longrightarrow> el_ids xs = rev (el_ids els) @ el_ids moved"
proof (induction els arbitrary: moved a)
  case (Cons c cs)
  obtain r c' a1 where c': "chg c new a = Some (r, c', a1)" using Cons.prems by (auto split: bind_splits)
  note id = keeps_idsD [OF k c']
  show ?case
  proof (cases "r = ZST_OK")
    case True
    then show ?thesis using Cons.IH [of "c' # moved" a1] Cons.prems c' id by simp
  next
    case False
    then obtain ms a2 where ms: "restore_children chg old moved a1 = Some (ms, a2)" "xs = rev cs @ c' # ms"
      using Cons.prems c' by (auto split: bind_splits)
    show ?thesis using restore_children_ids [OF k ms(1)] ms(2) id by (simp add: rev_map)
  qed
qed simp

lemma propagate_ids:
  assumes "propagate (set_el_state E) old new els a = Some (f, xs, a')"
  shows "el_ids xs = el_ids els"
proof (cases "old < new")
  case True
  then obtain ys where "advance (set_el_state E) old new [] els a = Some (f, ys, a')" "xs = rev ys" using assms by (auto simp: propagate_def)
  then show ?thesis using advance_ids [OF set_el_state_keeps_ids] by (simp flip: rev_map)
next
  case False
  then show ?thesis using assms advance_ids [OF set_el_state_keeps_ids, of E old new "[]" "rev els" a f xs a'] by (simp add: propagate_def rev_map)
qed

section \<open>Sizing of pools and clocks\<close>

text \<open>What sizing and the choice of a clock leave as it is.\<close>

definition steady :: "pipe_state \<Rightarrow> pipe_state \<Rightarrow> bool" where
  "steady s s' \<longleftrightarrow> pl_state (pipe s') = pl_state (pipe s) \<and> el_ids (pl_elements (pipe s')) = el_ids (pl_elements (pipe s)) \<and>
     (\<forall>q. (\<forall>el \<in> set (pl_elements (pipe s)). uniform q el) \<longrightarrow> (\<forall>el \<in> set (pl_elements (pipe s')). uniform q el)) \<and>
     (\<forall>x. walkable (graph s) x \<longrightarrow> walkable (graph s') x) \<and> succs (graph s') = succs (graph s)"

lemma steady_refl [simp]: "steady s s"
  by (simp add: steady_def)

lemma steady_trans: "steady a b \<Longrightarrow> steady b c \<Longrightarrow> steady a c"
  unfolding steady_def by (elim conjE, intro conjI) (simp, simp, blast, blast, simp)

lemma walkable_mem [simp]: "walkable (g\<lparr>mem := w\<rparr>) x = walkable g x"
  by (simp add: walkable_def live_def)

lemma succs_cong:
  assumes "pads h = pads g" and "\<And>x. map_option pe_src_pads (elements h x) = map_option pe_src_pads (elements g x)"
  shows "succs h = succs g"
proof
  fix x
  have "child_of h = child_of g" using assms(1) by (simp add: child_of_def fun_eq_iff)
  then show "succs h x = succs g x" using assms(2) [of x] by (auto simp: succs_def split: option.splits)
qed

lemma succs_mem [simp]: "succs (g\<lparr>mem := w\<rparr>) = succs g" "succs (set_script m g) = succs g"
  by (rule succs_cong; simp)+

lemma walkable_script [simp]: "walkable (set_script m g) x = walkable g x"
  by (simp add: walkable_def live_def)

lemma apply_pool_config_steady:
  assumes "distinct (el_ids (pl_elements (pipe s)))" and "\<forall>x \<in> set (el_ids (pl_elements (pipe s))). walkable (graph s) x" and "walkable (graph s) el"
  shows "\<exists>s'. apply_pool_config_cb E el s = Some s' \<and> steady s s' \<and> pl_elements (pipe s') = pl_elements (pipe s)"
proof (cases "zst_element_get_pool E el (mem (graph s))")
  case None
  then show ?thesis by (simp add: apply_pool_config_cb_def pipeline_cache_pool_snapshot_def steady_def)
next
  case (Some pa)
  obtain k m where "zst_pipeline_count_downstream_elements_of_type (pv_names E) (el_ids (pl_elements (pipe s))) el ''queue'' (graph s) = Some (k, set_script m (graph s))"
    using count_downstream_general [OF assms, of False "pv_names E" "''queue''"] by auto
  with Some show ?thesis by (auto simp: apply_pool_config_cb_def Let_def steady_def split: prod.splits zst_result.splits)
qed

lemma foreach_steady:
  assumes "distinct (el_ids (pl_elements (pipe s)))" and "\<forall>x \<in> set (el_ids (pl_elements (pipe s))). walkable (graph s) x"
  shows "set xs \<subseteq> set (el_ids (pl_elements (pipe s))) \<Longrightarrow>
    \<exists>s'. zst_pipeline_foreach_element (apply_pool_config_cb E) xs s = Some s' \<and> steady s s' \<and> pl_elements (pipe s') = pl_elements (pipe s)"
  using assms
proof (induction xs arbitrary: s)
  case (Cons x xs)
  then obtain s1 where s1: "apply_pool_config_cb E x s = Some s1" "steady s s1" "pl_elements (pipe s1) = pl_elements (pipe s)"
    using apply_pool_config_steady [of s x E] by auto
  moreover from s1 Cons.prems have "\<forall>x \<in> set (el_ids (pl_elements (pipe s1))). walkable (graph s1) x" by (auto simp: steady_def)
  ultimately show ?case using Cons.IH [of s1] Cons.prems by (auto intro: steady_trans)
qed simp

lemma sizing_steady:
  assumes "distinct (el_ids (pl_elements (pipe s)))" and "\<forall>x \<in> set (el_ids (pl_elements (pipe s))). walkable (graph s) x"
  shows "\<exists>s'. zst_pipeline_update_buffer_pool_sizing E s = Some s' \<and> steady s s'"
proof -
  let ?s = "s\<lparr>pipe := (pipe s)\<lparr>pl_sizing_dirty := False\<rparr>\<rparr>"
  have "steady s ?s" by (simp add: steady_def)
  then show ?thesis using foreach_steady [of ?s "el_ids (pl_elements (pipe s))" E] assms steady_trans
    by (auto simp: zst_pipeline_update_buffer_pool_sizing_def)
qed

lemma set_clocks_steady:
  "set_clocks c (els, a) = (els', a') \<Longrightarrow> el_ids els' = el_ids els \<and> (\<forall>q. (\<forall>el \<in> set els. uniform q el) \<longrightarrow> (\<forall>el \<in> set els'. uniform q el))"
proof (induction els arbitrary: a els' a')
  case (Cons el els)
  obtain el1 a1 where 1: "zst_element_set_clock c (el, a) = (el1, a1)" by (rule prod.exhaust)
  obtain els1 a2 where 2: "set_clocks c (els, a1) = (els1, a2)" by (rule prod.exhaust)
  show ?case using Cons.IH [OF 2] Cons.prems 1 2 set_clock_keeps(3,4) [OF 1] by auto
qed simp

lemma sync_view_walkable [simp]: "walkable (sync_view el g) x = walkable g x"
proof (cases "elements g (el_id (info el))")
  case None
  then show ?thesis by (simp add: sync_view_def)
next
  case (Some e)
  then show ?thesis by (cases "x = el_id (info el)") (simp_all add: sync_view_def walkable_def live_def)
qed

lemma sync_view_succs [simp]: "succs (sync_view el g) = succs g"
  by (rule succs_cong) (auto simp: sync_view_def split: option.splits)

lemma foldr_sync_walkable [simp]: "walkable (foldr sync_view els g) x = walkable g x" "succs (foldr sync_view els g) = succs g"
  by (induction els) auto

lemma set_clock_steady: "steady s (zst_pipeline_set_clock c s)"
  unfolding zst_pipeline_set_clock_def
  by (auto simp: steady_def dest: set_clocks_steady split: prod.splits)

lemma steady_update:
  "steady s (t\<lparr>acts := a\<rparr>) = steady s t" "steady (s\<lparr>acts := a\<rparr>) t = steady s t"
  "steady s (t\<lparr>pipe := (pipe t)\<lparr>pl_base_time := x\<rparr>\<rparr>) = steady s t"
  unfolding steady_def by simp_all

lemma select_clock_steady: "steady s (select_clock E s)"
proof -
  obtain master a1 where m: "first_clock E (el_ids (pl_elements (pipe s))) (acts s) = (master, a1)" by (rule prod.exhaust)
  have c: "steady s (zst_pipeline_set_clock c (s\<lparr>acts := a\<rparr>))" for c a using set_clock_steady [of "s\<lparr>acts := a\<rparr>" c] by (simp only: steady_update)
  show ?thesis unfolding select_clock_def m Let_def prod.case steady_update
    by (cases master; cases "pv_system_clock E a1"; simp only: option.case prod.case)
       (auto simp: steady_update c split: option.split)
qed

section \<open>State changes of the whole pipeline\<close>

definition pipe_uniform :: "zst_state \<Rightarrow> pipe_state \<Rightarrow> bool" where
  "pipe_uniform q s \<longleftrightarrow> pl_state (pipe s) = q \<and> (\<forall>el \<in> set (pl_elements (pipe s)). uniform q el)"

definition walks :: "addr list \<Rightarrow> pad_graph \<Rightarrow> bool" where
  "walks els g \<longleftrightarrow> distinct els \<and> (\<forall>x \<in> set els. walkable g x)"

abbreviation pipe_ready :: "pipe_state \<Rightarrow> bool" where
  "pipe_ready s \<equiv> walks (el_ids (pl_elements (pipe s))) (graph s)"

text \<open>What a change to \<open>t\<close> promises; with \<open>strict\<close> it is all or nothing.\<close>

definition pipe_outcome :: "bool \<Rightarrow> zst_state \<Rightarrow> zst_state \<Rightarrow> zst_result \<Rightarrow> pipe_state \<Rightarrow> bool" where
  "pipe_outcome strict q t r s' \<longleftrightarrow>
     (if r = ZST_OK then pl_state (pipe s') = t \<and> (strict \<longrightarrow> pipe_uniform t s')
      else short_of q t (pl_state (pipe s')) \<and> (strict \<longrightarrow> pipe_uniform q s' \<and> q < t))"

definition pipe_moves :: "(zst_state \<Rightarrow> pipe_state \<Rightarrow> (zst_result \<times> pipe_state) option) \<Rightarrow> bool \<Rightarrow> zst_state \<Rightarrow> pipe_state \<Rightarrow> bool" where
  "pipe_moves f strict t s \<longleftrightarrow> (\<exists>r s'. f t s = Some (r, s') \<and> pipe_ready s' \<and> el_ids (pl_elements (pipe s')) = el_ids (pl_elements (pipe s)) \<and>
     pipe_outcome strict (pl_state (pipe s)) t r s')"

lemma steady_ready: "steady s s' \<Longrightarrow> pipe_ready s \<Longrightarrow> pipe_ready s'"
  unfolding steady_def walks_def by simp

lemma prepare_playing_steady:
  assumes "pipe_ready s" shows "\<exists>s1. prepare_playing E t s = Some s1 \<and> steady s s1"
proof (cases "pl_state (pipe s) < ZST_STATE_PLAYING \<and> t = ZST_STATE_PLAYING")
  case True
  obtain s1 where s1: "zst_pipeline_update_buffer_pool_sizing E s = Some s1" "steady s s1" using sizing_steady [of s E] assms unfolding walks_def by blast
  with True steady_trans [OF s1(2) select_clock_steady [of s1 E]] show ?thesis by (simp add: prepare_playing_def)
next
  case False
  then show ?thesis by (auto simp: prepare_playing_def)
qed

lemma pipe_step_moves:
  assumes E: "strict \<Longrightarrow> undo_hooks_succeed (pv_el E)" and rd: "pipe_ready s" and u: "strict \<Longrightarrow> pipe_uniform (pl_state (pipe s)) s"
    and ne: "pl_state (pipe s) \<noteq> t"
  shows "pipe_moves (pipe_step E) strict t s"
proof -
  let ?q = "pl_state (pipe s)"
  obtain s1 where s1: "prepare_playing E t s = Some s1" "steady s s1" using prepare_playing_steady [OF rd] by blast
  then have st: "pl_state (pipe s1) = ?q" and ids1: "el_ids (pl_elements (pipe s1)) = el_ids (pl_elements (pipe s))"
    and un: "strict \<longrightarrow> (\<forall>el \<in> set (pl_elements (pipe s1)). uniform ?q el)"
    using u by (auto simp: steady_def pipe_uniform_def)
  let ?d = "foldr max (map depth (pl_elements (pipe s1))) 0"
  have "\<forall>c \<in> set (pl_elements (pipe s1)). depth c \<le> ?d \<and> (strict \<longrightarrow> uniform ?q c)"
    using un foldr_max_le [of "map depth (pl_elements (pipe s1))" ?d] by auto
  from state_setter.propagate_return [OF set_el_state_setter [OF E] this, of t "acts s1"] obtain f els a where
    p: "propagate (set_el_state E) ?q t (pl_elements (pipe s1)) (acts s1) = Some (f, els, a)" "\<forall>r i. f = Some (r, i) \<longrightarrow> r \<noteq> ZST_OK"
      "strict \<longrightarrow> (\<forall>c \<in> set els. uniform (if f = None then t else ?q) c) \<and> (f = None \<or> ?q < t)" by blast
  have ids: "el_ids els = el_ids (pl_elements (pipe s))" using propagate_ids [OF p(1)] ids1 by simp
  have "short_of ?q t ?q" using ne by (auto simp: short_of_def)
  moreover have "walks (el_ids els) (graph s1)" using steady_ready [OF s1(2) rd] ids ids1 by simp
  ultimately show ?thesis
    unfolding pipe_moves_def pipe_step_def s1(1) bind.bind_lunit Let_def p(1) prod.case using p(2,3) ids st
    by (cases f) (auto simp: pipe_outcome_def pipe_uniform_def)
qed

text \<open>A change by way of an intermediate state, given that the two halves and the way back keep their promise.\<close>

lemma pipe_two_moves:
  assumes IH: "\<And>s t. levels (pl_state (pipe s)) t \<le> n \<Longrightarrow> pipe_ready s \<Longrightarrow> (strict \<Longrightarrow> pipe_uniform (pl_state (pipe s)) s) \<Longrightarrow>
      pipe_moves (pipe_set_state n E) strict t s"
    and rd: "pipe_ready s" and u: "strict \<Longrightarrow> pipe_uniform (pl_state (pipe s)) s"
    and q: "q = pl_state (pipe s)" and mid: "mid = next_state (t > q) q" "mid \<noteq> t" "q \<noteq> t" and n: "levels q t \<le> Suc n"
  shows "pipe_moves (pipe_set_state (Suc n) E) strict t s"
proof -
  have lv: "levels q mid \<le> n" "levels mid t \<le> n" and m: "short_of q t mid" "q < t \<longleftrightarrow> q < mid" "mid \<noteq> q"
    using mid n by (cases q; cases t; simp add: levels_def short_of_def state_order)+
  have undo: "levels x q \<le> n" if "short_of mid t x" for x
    using that mid n by (cases q; cases t; cases x; simp add: levels_def short_of_def state_order)
  obtain r1 s1 where 1: "pipe_set_state n E mid s = Some (r1, s1)" "pipe_ready s1" "el_ids (pl_elements (pipe s1)) = el_ids (pl_elements (pipe s))"
    "pipe_outcome strict q mid r1 s1" using IH [of s mid] lv(1) rd u q by (auto simp: pipe_moves_def)
  show ?thesis
  proof (cases "r1 = ZST_OK")
    case False
    with 1 m mid q show ?thesis by (auto simp: pipe_moves_def pipe_outcome_def short_of_def Let_def)
  next
    case True
    with 1(4) have st1: "pl_state (pipe s1) = mid" "strict \<Longrightarrow> pipe_uniform (pl_state (pipe s1)) s1" by (auto simp: pipe_outcome_def)
    obtain r2 s2 where 2: "pipe_set_state n E t s1 = Some (r2, s2)" "pipe_ready s2" "el_ids (pl_elements (pipe s2)) = el_ids (pl_elements (pipe s))"
      "pipe_outcome strict mid t r2 s2" using IH [of s1 t] lv(2) 1(2,3) st1 by (auto simp: pipe_moves_def)
    show ?thesis
    proof (cases "r2 = ZST_OK")
      case ok: True
      with True 1 2 mid q show ?thesis by (auto simp: pipe_moves_def pipe_outcome_def Let_def)
    next
      case bad: False
      with 2(4) have st2: "short_of mid t (pl_state (pipe s2))" "strict \<Longrightarrow> pipe_uniform mid s2 \<and> mid < t" by (auto simp: pipe_outcome_def)
      then have un: "strict \<Longrightarrow> pipe_uniform (pl_state (pipe s2)) s2" by (auto simp: pipe_uniform_def)
      obtain r3 s3 where 3: "pipe_set_state n E q s2 = Some (r3, s3)" "pipe_ready s3" "el_ids (pl_elements (pipe s3)) = el_ids (pl_elements (pipe s))"
        "pipe_outcome strict (pl_state (pipe s2)) q r3 s3" using IH [OF undo [OF st2(1)] 2(2) un] 2(3) by (auto simp: pipe_moves_def)
      have "pipe_outcome strict q t r2 s3"
        using 3(4) st2 m bad mid(2,3) by (auto simp: pipe_outcome_def pipe_uniform_def short_of_def split: if_splits)
      with True 1 2 3 bad mid q show ?thesis by (auto simp: pipe_moves_def Let_def)
    qed
  qed
qed

lemma pipe_set_state_moves:
  assumes E: "strict \<Longrightarrow> undo_hooks_succeed (pv_el E)"
  shows "levels (pl_state (pipe s)) t \<le> n \<Longrightarrow> pipe_ready s \<Longrightarrow> (strict \<Longrightarrow> pipe_uniform (pl_state (pipe s)) s) \<Longrightarrow>
    pipe_moves (pipe_set_state n E) strict t s"
proof (induction n arbitrary: s t)
  case 0
  then show ?case using levels_bounds(1) [of "pl_state (pipe s)" t] by simp
next
  case (Suc n)
  let ?q = "pl_state (pipe s)" let ?mid = "next_state (t > ?q) ?q"
  consider "?q = t" | "?q \<noteq> t" "?mid = t" | "?q \<noteq> t" "?mid \<noteq> t" by blast
  then show ?case
  proof cases
    case 1
    then show ?thesis using Suc.prems by (auto simp: pipe_moves_def pipe_outcome_def)
  next
    case 2
    with pipe_step_moves [where t = t, OF E Suc.prems(2,3)] show ?thesis by (simp add: pipe_moves_def Let_def)
  next
    case 3
    show ?thesis by (rule pipe_two_moves [OF Suc.IH Suc.prems(2,3) refl refl 3(2,1) Suc.prems(1)])
  qed
qed

section \<open>Pools and queues\<close>

lemma pool_grow_config:
  "pool_inv pa out w \<Longrightarrow> get_pool w pa = Some p \<Longrightarrow> n \<le> max_buffers (config p) - total_allocated p \<Longrightarrow> pool_grow n pa w = (ok, w') \<Longrightarrow>
    \<exists>p'. get_pool w' pa = Some p' \<and> config p' = config p \<and> generation p' = generation p"
proof (induction n arbitrary: w p)
  case (Suc n)
  have inv: "heap_ok w" "structs w pa = Some (Pool p)" "pool_ok pa p out w"
    using pool_inv_get [OF Suc.prems(1)] Suc.prems(2) by auto
  obtain r w1 where mk: "pool_make_buffer p w = (r, w1)" by fastforce
  show ?case
  proof (cases r)
    case None
    with mk Suc.prems pool_make_buffer_failed [OF mk [unfolded None] inv(1,3)] inv(2) show ?thesis by auto
  next
    case (Some b)
    have room: "length (idle p) < capacity p" using inv(3) Suc.prems(3) by (auto simp: pool_ok_def)
    note add = pool_inv_add_idle [OF inv mk [unfolded Some] room]
    show ?thesis using Suc.IH [OF add] Suc.prems mk Some by auto
  qed
qed simp

text \<open>Raising the limits of a pool: no idle buffer goes, and with room for the new array the configuration is taken.\<close>

lemma set_config_raised:
  assumes inv: "pool_inv pa out w" and p: "get_pool w pa = Some p" and m: "\<forall>n. malloc_ok w n"
    and c: "max_buffers (config p) \<le> max_buffers c" "min_buffers c \<le> max_buffers c" "0 < max_buffers c"
    and call: "zst_buffer_pool_set_config (Some pa) (Some c) w = (r, w')"
  shows "pool_inv pa out w' \<and> (\<exists>p'. get_pool w' pa = Some p' \<and> config p' = c)"
proof -
  have i: "heap_ok w" "structs w pa = Some (Pool p)" "pool_ok pa p out w" using pool_inv_get [OF inv] p by auto
  have nc: "normalize_config c = c" using c by (simp add: normalize_config_def)
  have "length (idle p) \<le> max_buffers c" using i(3) c(1) by (auto simp: pool_ok_def)
  then have ap: "pool_apply_config pa c w = (r, w')" using call p nc by (simp add: zst_buffer_pool_set_config_def Let_def)
  obtain arr w2 where arr: "(if max_buffers c \<noteq> max_buffers (config p) then malloc (PtrArray (max_buffers c)) w else (Some (array p), w)) = (Some arr, w2)"
    using m by (cases "max_buffers c = max_buffers (config p)") (auto simp: malloc_def Let_def)
  define w3 where "w3 = (if max_buffers c \<noteq> max_buffers (config p) then free_addr (array p) w2 else w2)"
  define p2 where "p2 = p\<lparr>array := arr, capacity := max_buffers c, config := c, generation := generation p + 1\<rparr>"
  define n where "n = (if active p2 then min_buffers c - total_allocated p2 else 0)"
  obtain ok w5 where g: "pool_grow n pa (put_pool pa p2 w3) = (ok, w5)" by fastforce
  have w4: "pool_inv pa out (put_pool pa p2 w3)"
    unfolding p2_def by (rule pool_inv_replace_array [OF i arr \<open>length (idle p) \<le> _\<close> c(2) w3_def])
  have "w' = w5" using ap p arr g
    by (simp add: pool_apply_config_def Let_def w3_def p2_def n_def cong: if_cong split: prod.splits)
  have "n \<le> max_buffers (config p2) - total_allocated p2" using c(2) by (auto simp: n_def p2_def intro: diff_le_mono)
  from pool_grow_config [OF w4 _ this g] \<open>w' = w5\<close> have "\<exists>p'. get_pool w' pa = Some p' \<and> config p' = c" by (auto simp: p2_def)
  with zst_buffer_pool_set_config_inv [OF inv call] show ?thesis by simp
qed

lemma default_size_fits:
  assumes "min_buffers c \<le> max_buffers c" and "c' = pool_config_default_size_for_queue_count n c"
  shows "max_buffers c \<le> max_buffers c'" "min_buffers c' \<le> max_buffers c'" "0 < n \<Longrightarrow> n + 2 \<le> min_buffers c'" "min_buffers c \<le> min_buffers c'"
  using assms by (auto simp: pool_config_default_size_for_queue_count_def Let_def)

lemma default_size_same:
  assumes "c' = pool_config_default_size_for_queue_count n c" and "min_buffers c' = min_buffers c" and "max_buffers c' = max_buffers c"
  shows "c' = c"
  using assms by (auto simp: pool_config_default_size_for_queue_count_def Let_def split: if_splits)

lemma apply_pool_config_fits:
  assumes rd: "pipe_ready s" and el: "walkable (graph s) el" and pl: "plenty (script (eheap (graph s)))"
    and pool: "zst_element_get_pool E el (mem (graph s)) = Some pa" and inv: "pool_inv pa out (mem (graph s))" and m: "\<forall>n. malloc_ok (mem (graph s)) n"
  shows "\<exists>s' p'. apply_pool_config_cb E el s = Some s' \<and> pool_inv pa out (mem (graph s')) \<and> get_pool (mem (graph s')) pa = Some p' \<and>
    (let k = card {v. v \<noteq> el \<and> (el, v) \<in> (downstream (el_ids (pl_elements (pipe s))) (graph s))\<^sup>+ \<and> pipeline_element_is_type (pv_names E v) ''queue''}
     in 0 < k \<longrightarrow> k + 2 \<le> min_buffers (config p')) \<and>
    pl_seen (pipe s') el = seen_of (Some pa) (config p') (mem (graph s'))"
proof -
  let ?els = "el_ids (pl_elements (pipe s))" and ?w = "mem (graph s)"
  define k where "k = card {v. v \<noteq> el \<and> (el, v) \<in> (downstream ?els (graph s))\<^sup>+ \<and> pipeline_element_is_type (pv_names E v) ''queue''}"
  obtain m1 where cnt: "zst_pipeline_count_downstream_elements_of_type (pv_names E) ?els el ''queue'' (graph s) = Some (k, set_script m1 (graph s))"
    using count_downstream_general [OF _ _ el, of ?els True "pv_names E" "''queue''"] rd pl unfolding walks_def k_def by auto
  obtain p where p: "get_pool ?w pa = Some p" "min_buffers (config p) \<le> max_buffers (config p)"
    using pool_inv_get [OF inv] by (auto simp: pool_ok_def)
  then have old: "zst_buffer_pool_get_config (Some pa) ?w = config p" by (simp add: zst_buffer_pool_get_config_def)
  define new where "new = pool_config_default_size_for_queue_count k (config p)"
  note fit = default_size_fits [OF p(2) new_def]
  show ?thesis
  proof (cases "min_buffers new = min_buffers (config p) \<and> max_buffers new = max_buffers (config p)")
    case True
    then have "new = config p" using default_size_same [OF new_def] by blast
    with fit(3) p pool old cnt inv show ?thesis by (auto simp: apply_pool_config_cb_def Let_def new_def simp flip: k_def)
  next
    case False
    obtain r w' where call: "zst_buffer_pool_set_config (Some pa) (Some new) ?w = (r, w')" by fastforce
    have pos: "0 < max_buffers new" using False fit by (auto simp: new_def pool_config_default_size_for_queue_count_def Let_def split: if_splits)
    from set_config_raised [OF inv p(1) m fit(1,2) pos call] obtain p' where p': "pool_inv pa out w'" "get_pool w' pa = Some p'" "config p' = new" by blast
    then have "zst_buffer_pool_get_config (Some pa) w' = new" by (simp add: zst_buffer_pool_get_config_def)
    with False p' fit(3) pool old cnt call show ?thesis
      by (cases r) (auto simp: apply_pool_config_cb_def Let_def simp flip: k_def new_def)
  qed
qed

section \<open>The end of a reconfiguration\<close>

lemma apply_pool_config_frame:
  "apply_pool_config_cb E el s = Some s' \<Longrightarrow> \<exists>x. pipe s' = (pipe s)\<lparr>pl_seen := x\<rparr>"
  unfolding apply_pool_config_cb_def pipeline_cache_pool_snapshot_def by (auto simp: Let_def split: option.splits bind_splits prod.splits)

lemma foreach_frame:
  "zst_pipeline_foreach_element (apply_pool_config_cb E) xs s = Some s' \<Longrightarrow> \<exists>x. pipe s' = (pipe s)\<lparr>pl_seen := x\<rparr>"
proof (induction xs arbitrary: s)
  case Nil
  then show ?case by (auto intro: exI [of _ "pl_seen (pipe s)"])
next
  case (Cons x xs)
  then obtain s1 where "apply_pool_config_cb E x s = Some s1" "zst_pipeline_foreach_element (apply_pool_config_cb E) xs s1 = Some s'"
    by (auto split: bind_splits)
  with Cons.IH apply_pool_config_frame [of E x s s1] show ?case by fastforce
qed

lemma sizing_frame:
  assumes "zst_pipeline_update_buffer_pool_sizing E s = Some s'"
  shows "\<exists>x. pipe s' = (pipe s)\<lparr>pl_sizing_dirty := False, pl_seen := x\<rparr>"
  using foreach_frame [OF assms [unfolded zst_pipeline_update_buffer_pool_sizing_def]] by simp

text \<open>The array of elements in the order of their sorted addresses.\<close>

lemma find_el_member:
  assumes "distinct (el_ids els)" and "el \<in> set els"
  shows "find_el els (el_id (info el)) = Some el"
  using assms by (induction els) (auto simp: find_el_def)

lemma those_map_Some: "(\<And>x. x \<in> set xs \<Longrightarrow> f x = Some (h x)) \<Longrightarrow> those (map f xs) = Some (map h xs)"
  by (induction xs) auto

lemma reorder_elements:
  assumes d: "distinct (el_ids els)" and out: "distinct out" "set out = set (el_ids els)"
  shows "\<exists>els'. those (map (\<lambda>x. Option.bind x (find_el els)) (map Some out)) = Some els' \<and> el_ids els' = out \<and> set els' = set els"
proof -
  define h where "h = (\<lambda>a. the (find_el els a))"
  have h: "find_el els a = Some (h a) \<and> el_id (info (h a)) = a \<and> h a \<in> set els" if "a \<in> set out" for a
    using that out(2) find_el_member [OF d] unfolding h_def by auto
  have "those (map (\<lambda>x. Option.bind x (find_el els)) (map Some out)) = Some (map h out)"
    using h by (simp add: o_def) (rule those_map_Some, simp)
  moreover have "el_ids (map h out) = out" using h by (simp add: map_idI)
  moreover have "set els \<subseteq> set (map h out)"
  proof
    fix el assume el: "el \<in> set els"
    then have "el_id (info el) \<in> set out" using out(2) by simp
    moreover from el have "h (el_id (info el)) = el" using find_el_member [OF d] by (simp add: h_def)
    ultimately show "el \<in> set (map h out)" by force
  qed
  ultimately show ?thesis using h by (metis (no_types, lifting) image_subsetI set_map subset_antisym)
qed

definition forward_array :: "pipe_state \<Rightarrow> bool" where
  "forward_array s \<longleftrightarrow> (let els = el_ids (pl_elements (pipe s)) in
     \<forall>i < length els. \<forall>j < length els. (els ! i, els ! j) \<in> links els (graph s) \<longrightarrow> i < j \<and> pl_rank (pipe s) (els ! i) < pl_rank (pipe s) (els ! j))"

lemma finish_sorts:
  assumes rd: "pipe_ready s" and ac: "acyclic (links (el_ids (pl_elements (pipe s))) (graph s))" and pl: "plenty (script (eheap (graph s)))"
    and len: "length (pl_elements (pipe s)) < 2 ^ 32"
    and fed: "\<forall>v \<in> set (el_ids (pl_elements (pipe s))). linked_in (graph s) v \<longrightarrow> (\<exists>u. (u, v) \<in> links (el_ids (pl_elements (pipe s))) (graph s))"
  shows "\<exists>s'. pipeline_reconfiguration_finish_locked E s = Some s' \<and> set (pl_elements (pipe s')) = set (pl_elements (pipe s)) \<and>
    length (pl_elements (pipe s')) = length (pl_elements (pipe s)) \<and> pl_reconf (pipe s') = pl_reconf (pipe s) \<and> forward_array s' \<and> pipe_ready s'"
proof -
  let ?pl = "pipe s" and ?g = "graph s" let ?els = "el_ids (pl_elements ?pl)" let ?E = "links ?els ?g"
  have d: "distinct ?els" and w: "\<forall>x \<in> set ?els. walkable ?g x" using rd unfolding walks_def by blast+
  obtain rk m where rk: "pipeline_recalculate_ranks_locked ?els (pl_rank ?pl, ?g) = Some (rk, set_script m ?g)" "\<forall>(u, v) \<in> ?E. rk u < rk v" "plenty m"
    using recalculate_ranks_general [OF d w ac pl _ fed, of "pl_rank ?pl"] len unfolding length_map by blast
  let ?h = "set_script m ?g"
  have w': "\<forall>x \<in> set ?els. walkable ?h x" using w by simp
  have E: "links ?els ?h = ?E" by (rule links_more) simp
  obtain out m2 where out: "pipeline_topological_sort_locked ?els ?h = Some (map Some out, set_script m2 ?h)" "distinct out" "set out = set ?els" "forward ?E out"
    using topological_sort_general [OF d w', of True] ac rk(3) unfolding E by auto
  obtain els' where els': "those (map (\<lambda>x. Option.bind x (find_el (pl_elements ?pl))) (map Some out)) = Some els'" "el_ids els' = out" "set els' = set (pl_elements ?pl)"
    using reorder_elements [OF d out(2,3)] by blast
  let ?s1 = "\<lparr>pipe = zst_pipeline_mark_buffer_pool_sizing_dirty (?pl\<lparr>pl_elements := els', pl_rank := rk\<rparr>), graph = set_script m2 ?g,
      acts = acts s @ (case pl_priv ?pl of None \<Rightarrow> [] | Some _ \<Rightarrow> [Scheduler_wake (pl_id ?pl)])\<rparr>"
  have e1: "pl_elements (pipe ?s1) = els'" by (simp add: zst_pipeline_mark_buffer_pool_sizing_dirty_def)
  have rd1: "pipe_ready ?s1" unfolding e1 els'(2) using out(2,3) w by (simp add: walks_def)
  obtain s' where s': "zst_pipeline_update_buffer_pool_sizing E ?s1 = Some s'" "steady ?s1 s'"
    using sizing_steady [of ?s1 E] rd1 unfolding walks_def by blast
  then obtain x where x: "pipe s' = (pipe ?s1)\<lparr>pl_sizing_dirty := False, pl_seen := x\<rparr>" using sizing_frame by blast
  then have f: "pl_elements (pipe s') = els'" "pl_rank (pipe s') = rk" "pl_reconf (pipe s') = pl_reconf ?pl"
    by (simp_all add: zst_pipeline_mark_buffer_pool_sizing_dirty_def)
  have "links out (graph s') = ?E" using s'(2) out(3) unfolding steady_def links_def by simp
  moreover have "i < j" if "i < length out" "j < length out" "(out ! i, out ! j) \<in> ?E" for i j
    using forward_index [OF out(4,2) that] .
  ultimately have "forward_array s'" unfolding forward_array_def f els'(2) Let_def using rk(2) by auto
  moreover have "length els' = length (pl_elements ?pl)" using els'(2) out(2,3) d by (metis distinct_card length_map)
  moreover have "pipeline_reconfiguration_finish_locked E s = Some s'"
    unfolding pipeline_reconfiguration_finish_locked_def Let_def rk(1) bind.bind_lunit prod.case out(1) els'(1) using s'(1) by simp
  moreover have "pipe_ready s'" by (rule steady_ready [OF s'(2) rd1])
  ultimately show ?thesis using f els'(3) by auto
qed

section \<open>Elements that join a running pipeline\<close>

text \<open>\<open>last_el els el s\<close>: the elements of the pipeline are \<open>els\<close>, and \<open>el\<close>, attached to it, as the last one.\<close>

definition last_el :: "pipeline \<Rightarrow> element list \<Rightarrow> element \<Rightarrow> pipe_state \<Rightarrow> bool" where
  "last_el pl els el s \<longleftrightarrow> pl_elements (pipe s) = els @ [el] \<and> el_id (info el) \<notin> set (el_ids els) \<and> pl_state (pipe s) = pl_state pl \<and>
     pl_reconf (pipe s) = pl_reconf pl \<and> el_pipeline (info el) = Some (pl_id pl) \<and> el_bus (info el) = pl_bus pl"

lemma change_last:
  assumes E: "undo_hooks_succeed (pv_el E)" and u: "uniform q el" and l: "last_el pl els el s"
  shows "\<exists>r el' s'. change_el E el t s = Some (r, el', s') \<and> uniform (if r = ZST_OK then t else q) el' \<and> (t \<le> q \<longrightarrow> r = ZST_OK) \<and> last_el pl els el' s'"
proof -
  obtain r el' a where c: "zst_element_set_state (state_fuel el) (pv_el E) el t (acts s) = Some (r, el', a)"
      "uniform (if r = ZST_OK then t else q) el'" "t \<le> q \<longrightarrow> r = ZST_OK"
  proof -
    have "makes_transition (zst_element_set_state (state_fuel el) (pv_el E)) True el t (acts s)"
      using set_state_fuel [of el "state_fuel el" True "pv_el E" t "acts s"] E u uniform_state [OF u] by simp
    then obtain r el' a where "zst_element_set_state (state_fuel el) (pv_el E) el t (acts s) = Some (r, el', a)" "outcome_ok True q t r el'"
      using uniform_state [OF u] by (auto simp: makes_transition_def)
    then show ?thesis by (intro that) (auto simp: outcome_ok_def split: if_splits)
  qed
  note o = only_stateD [OF set_state_only [OF c(1)]]
  have "map (\<lambda>x. if el_id (info x) = el_id (info el') then el' else x) (els @ [el]) = els @ [el']"
    using l o(1) by (auto simp: last_el_def image_iff intro!: map_idI)
  then have "last_el pl els el' (put_el el' (s\<lparr>acts := a\<rparr>))" using l o by (simp add: last_el_def put_el_def)
  with c show ?thesis by (simp add: change_el_def set_el_state_def)
qed

lemma remove_last:
  assumes "last_el pl els el s"
  shows "\<exists>s'. pipeline_remove_locked (el_id (info el)) s = (ZST_OK, Some (upd_info (\<lambda>i. i\<lparr>el_bus := None, el_pipeline := None\<rparr>) el), s') \<and>
    pl_elements (pipe s') = els"
proof -
  have "remove_child (el_id (info el)) (els @ [el]) = Some (el, els)" if "el_id (info el) \<notin> set (el_ids els)"
    using that by (induction els) auto
  with assms show ?thesis
    by (simp add: pipeline_remove_locked_def last_el_def Let_def zst_pipeline_mark_buffer_pool_sizing_dirty_def)
qed

lemma add_last:
  assumes "el_id (info el) \<notin> set (el_ids (pl_elements (pipe s)))" and "uniform q el"
  shows "(\<exists>m. pipeline_add_locked el s = Some (ZST_ERROR, el, s\<lparr>graph := set_script m (graph s)\<rparr>)) \<or>
    (\<exists>el' s'. pipeline_add_locked el s = Some (ZST_OK, el', s') \<and> last_el (pipe s) (pl_elements (pipe s)) el' s' \<and> uniform q el')"
proof -
  let ?el = "upd_info (\<lambda>i. i\<lparr>el_bus := pl_bus (pipe s), el_pipeline := Some (pl_id (pipe s))\<rparr>) el"
  obtain el1 a1 where c: "zst_element_set_clock (pl_clock (pipe s)) (?el, acts s) = (el1, a1)" by (rule prod.exhaust)
  have k: "uniform q el1" "el_id (info el1) = el_id (info el)" using set_clock_keeps [OF c] assms(2) by simp_all
  have "el_pipeline (info el1) = Some (pl_id (pipe s))" "el_bus (info el1) = pl_bus (pipe s)"
    using c by (auto simp: zst_element_set_clock_def split: if_splits)
  with k c assms(1) show ?thesis
    by (auto simp: pipeline_add_locked_def Let_def last_el_def zst_pipeline_mark_buffer_pool_sizing_dirty_def split: option.splits prod.splits)
qed

definition joined_state :: "zst_state \<Rightarrow> zst_state" where
  "joined_state q = (if q = ZST_STATE_PAUSED then ZST_STATE_READY else q)"

text \<open>An element that joins changes nothing of the graph that the sort looks at.\<close>

definition same_graph :: "pipe_state \<Rightarrow> pipe_state \<Rightarrow> bool" where
  "same_graph s s' \<longleftrightarrow> (\<forall>x. walkable (graph s') x = walkable (graph s) x) \<and> succs (graph s') = succs (graph s) \<and>
     linked_in (graph s') = linked_in (graph s) \<and> (plenty (script (eheap (graph s))) \<longrightarrow> plenty (script (eheap (graph s'))))"

lemma sync_view_linked [simp]: "linked_in (sync_view el g) = linked_in g"
  by (auto simp: linked_in_def sync_view_def fun_eq_iff split: option.splits if_splits)

lemma sync_view_script [simp]: "eheap (sync_view el g) = eheap g"
  by (simp add: sync_view_def split: option.split)

lemma set_script_linked [simp]: "linked_in (set_script m g) = linked_in g"
  by (simp add: linked_in_def fun_eq_iff)

lemma change_el_graph: "change_el E el t s = Some (r, el', s') \<Longrightarrow> graph s' = graph s"
  by (auto simp: change_el_def put_el_def split: bind_splits)

lemma add_locked_graph:
  assumes "pipeline_add_locked el s = Some (ZST_OK, el', s')"
  shows "same_graph s s'"
proof -
  have "graph s' = sync_view el' (graph s) \<or>
      (\<exists>m. graph s' = sync_view el' (set_script m (graph s)) \<and> alloc (script (eheap (graph s))) = (None, m))"
    using assms by (auto simp: pipeline_add_locked_def Let_def split: if_splits option.splits prod.splits)
  moreover have "plenty m" if "plenty m1" "alloc m1 = (None, m)" for m1 m
    using plenty_alloc [OF that(1)] that(2) by (metis prod.inject)
  ultimately show ?thesis by (auto simp: same_graph_def)
qed

lemma add_locked_id: "pipeline_add_locked el s = Some (ZST_OK, el', s') \<Longrightarrow> el_id (info el') = el_id (info el)"
  by (auto simp: pipeline_add_locked_def Let_def dest!: set_clock_keeps(4) split: if_splits option.splits prod.splits)

text \<open>What the sort after the joining of an element needs: live pads, no cycle, memory, and sinks that are fed by the pipeline.\<close>

definition sortable_with :: "addr \<Rightarrow> pipe_state \<Rightarrow> bool" where
  "sortable_with a s \<longleftrightarrow> (let els = el_ids (pl_elements (pipe s)) @ [a] in
     (\<forall>x \<in> set els. walkable (graph s) x) \<and> distinct els \<and> acyclic (links els (graph s)) \<and> plenty (script (eheap (graph s))) \<and>
     length els < 2 ^ 32 \<and> (\<forall>v \<in> set els. linked_in (graph s) v \<longrightarrow> (\<exists>u. (u, v) \<in> links els (graph s))))"

lemma finish_with_last:
  assumes "sortable_with (el_id (info el)) s" and "same_graph s s'" and "last_el (pipe s) (pl_elements (pipe s)) el s'"
  shows "\<exists>s2. pipeline_reconfiguration_finish_locked E s' = Some s2 \<and> set (pl_elements (pipe s2)) = insert el (set (pl_elements (pipe s))) \<and>
    length (pl_elements (pipe s2)) = Suc (length (pl_elements (pipe s))) \<and> forward_array s2"
proof -
  have e: "pl_elements (pipe s') = pl_elements (pipe s) @ [el]" using assms(3) by (simp add: last_el_def)
  then have ids: "el_ids (pl_elements (pipe s')) = el_ids (pl_elements (pipe s)) @ [el_id (info el)]" by simp
  have l: "links els (graph s') = links els (graph s)" for els using assms(2) by (simp add: same_graph_def links_def)
  have rd: "pipe_ready s'" using assms(1,2) unfolding ids by (simp add: walks_def sortable_with_def same_graph_def Let_def)
  have ac: "acyclic (links (el_ids (pl_elements (pipe s'))) (graph s'))" and pl: "plenty (script (eheap (graph s')))"
    and len: "length (pl_elements (pipe s')) < 2 ^ 32"
    and fed: "\<forall>v \<in> set (el_ids (pl_elements (pipe s'))). linked_in (graph s') v \<longrightarrow> (\<exists>u. (u, v) \<in> links (el_ids (pl_elements (pipe s'))) (graph s'))"
    using assms(1,2) unfolding ids l e by (auto simp: sortable_with_def same_graph_def Let_def)
  obtain s2 where "pipeline_reconfiguration_finish_locked E s' = Some s2" "set (pl_elements (pipe s2)) = set (pl_elements (pipe s'))"
      "length (pl_elements (pipe s2)) = length (pl_elements (pipe s'))" "forward_array s2"
    using finish_sorts [OF rd ac pl len fed, of E] by blast
  then show ?thesis by (auto simp: e)
qed

definition joined :: "bool \<Rightarrow> element \<Rightarrow> pipe_state \<Rightarrow> pipe_state \<Rightarrow> bool" where
  "joined inside el s s' \<longleftrightarrow> el_pipeline (info el) = Some (pl_id (pipe s)) \<and> el_bus (info el) = pl_bus (pipe s) \<and>
     (if inside then pl_elements (pipe s') = pl_elements (pipe s) @ [el]
      else set (pl_elements (pipe s')) = insert el (set (pl_elements (pipe s))) \<and>
        length (pl_elements (pipe s')) = Suc (length (pl_elements (pipe s))) \<and> forward_array s')"

lemma finish_joined:
  assumes "inside \<or> sortable_with (el_id (info el)) s" and "same_graph s s'" and "last_el (pipe s) (pl_elements (pipe s)) el s'"
  shows "\<exists>s2. finish_unless inside E s' = Some s2 \<and> joined inside el s s2"
  using assms finish_with_last [of el s s' E] by (cases inside) (auto simp: finish_unless_def joined_def last_el_def)

lemma add_dynamic_cases:
  assumes E: "undo_hooks_succeed (pv_el E)" and u: "uniform ZST_STATE_NULL el" and "enter self polls s = Some s0"
    and new: "el_id (info el) \<notin> set (el_ids (pl_elements (pipe s0)))"
    and own: "pl_reconf (pipe s) = Some self \<or> sortable_with (el_id (info el)) s0"
  shows "\<exists>r el' s'. zst_pipeline_add_element_dynamic E self polls el s = Some (r, el', s') \<and> el_id (info el') = el_id (info el) \<and>
    (if r = ZST_OK then uniform (joined_state (pl_state (pipe s0))) el' \<and> joined (pl_reconf (pipe s) = Some self) el' s0 s'
     else uniform ZST_STATE_NULL el' \<and> pl_elements (pipe s') = pl_elements (pipe s0) \<and> (el' = el \<or> el_bus (info el') = None \<and> el_pipeline (info el') = None))"
proof -
  let ?in = "pl_reconf (pipe s) = Some self"
  let ?pl = "pipe s0" let ?els = "pl_elements ?pl" let ?q = "pl_state ?pl"
  note start = zst_pipeline_add_element_dynamic_def assms(3) pipeline_reconfiguration_owned_by_current_thread_def Let_def
  have drop: "uniform ZST_STATE_NULL (upd_info (\<lambda>i. i\<lparr>el_bus := None, el_pipeline := None\<rparr>) x)" if "uniform ZST_STATE_NULL x" for x using that by simp
  have fin: "\<exists>s2. finish_unless ?in E s' = Some s2 \<and> joined ?in x s0 s2"
    if "same_graph s0 s'" "last_el ?pl ?els x s'" "el_id (info x) = el_id (info el)" for x s'
    using finish_joined [of ?in x s0 s' E] own that by simp
  from add_last [OF new u] show ?thesis
  proof (elim disjE exE conjE)
    fix m assume "pipeline_add_locked el s0 = Some (ZST_ERROR, el, s0\<lparr>graph := set_script m (graph s0)\<rparr>)"
    then show ?thesis using u by (simp add: start)
  next
    fix el1 s1 assume 1: "pipeline_add_locked el s0 = Some (ZST_OK, el1, s1)" "last_el ?pl ?els el1 s1" "uniform ZST_STATE_NULL el1"
    have g1: "same_graph s0 s1" by (rule add_locked_graph [OF 1(1)])
    have i1: "el_id (info el1) = el_id (info el)" by (rule add_locked_id [OF 1(1)])
    have st: "pl_state (pipe s1) = ?q" using 1(2) by (simp add: last_el_def)
    have keep: "el_id (info x') = el_id (info x)" if c: "change_el E x t z = Some (r, x', z')" for x t z r x' z'
    proof -
      obtain a where "zst_element_set_state (state_fuel x) (pv_el E) x t (acts z) = Some (r, x', a)"
        using c by (cases "set_el_state E x t (acts z)") (auto simp: change_el_def set_el_state_def)
      from only_stateD [OF set_state_only [OF this]] show ?thesis by simp
    qed
    show ?thesis
    proof (cases "?q = ZST_STATE_NULL")
      case True
      then show ?thesis using fin [OF g1 1(2) i1] i1 1 st by (auto simp add: start joined_state_def)
    next
      case False
      then have up: "ZST_STATE_NULL < ?q" by (cases ?q) (simp_all add: state_order)
      obtain r2 el2 s2 where 2: "change_el E el1 ZST_STATE_READY s1 = Some (r2, el2, s2)" "uniform (if r2 = ZST_OK then ZST_STATE_READY else ZST_STATE_NULL) el2"
        "last_el ?pl ?els el2 s2" using change_last [OF E 1(3,2)] by blast
      have g2: "same_graph s0 s2" using g1 change_el_graph [OF 2(1)] by (simp add: same_graph_def)
      have i2: "el_id (info el2) = el_id (info el)" using keep [OF 2(1)] i1 by simp
      consider (fail) "r2 \<noteq> ZST_OK" | (join) "r2 = ZST_OK" "?q \<noteq> ZST_STATE_PLAYING" | (play) "r2 = ZST_OK" "?q = ZST_STATE_PLAYING" by blast
      then show ?thesis
      proof cases
        case fail
        obtain s3 where "pipeline_remove_locked (el_id (info el2)) s2 = (ZST_OK, Some (upd_info (\<lambda>i. i\<lparr>el_bus := None, el_pipeline := None\<rparr>) el2), s3)"
          "pl_elements (pipe s3) = ?els" using remove_last [OF 2(3)] by blast
        with fail 1 2 st up drop [of el2] i2 show ?thesis by (simp add: start)
      next
        case join
        have "joined_state ?q = ZST_STATE_READY" using False join(2) by (cases ?q) (simp_all add: joined_state_def)
        with join 1 2 st up fin [OF g2 2(3) i2] i2 show ?thesis by (auto simp add: start)
      next
        case play
        with 2(2) have u2: "uniform ZST_STATE_READY el2" by simp
        obtain r3 el3 s3 where 3: "change_el E el2 ZST_STATE_PLAYING s2 = Some (r3, el3, s3)"
          "uniform (if r3 = ZST_OK then ZST_STATE_PLAYING else ZST_STATE_READY) el3" "last_el ?pl ?els el3 s3" using change_last [OF E u2 2(3)] by blast
        have g3: "same_graph s0 s3" using g2 change_el_graph [OF 3(1)] by (simp add: same_graph_def)
        have i3: "el_id (info el3) = el_id (info el)" using keep [OF 3(1)] i2 by simp
        show ?thesis
        proof (cases "r3 = ZST_OK")
          case True
          with play 1 2 3 st fin [OF g3 3(3) i3] i3 show ?thesis by (auto simp add: start joined_state_def state_order)
        next
          case False
          with 3(2) have u3: "uniform ZST_STATE_READY el3" by simp
          obtain r4 el4 s4 where 4: "change_el E el3 ZST_STATE_NULL s3 = Some (r4, el4, s4)" "r4 = ZST_OK" "uniform ZST_STATE_NULL el4" "last_el ?pl ?els el4 s4"
            using change_last [OF E u3 3(3), of ZST_STATE_NULL] by (auto simp: state_order)
          obtain s5 where "pipeline_remove_locked (el_id (info el4)) s4 = (ZST_OK, Some (upd_info (\<lambda>i. i\<lparr>el_bus := None, el_pipeline := None\<rparr>) el4), s5)"
            "pl_elements (pipe s5) = ?els" using remove_last [OF 4(4)] by blast
          with False play 1 2 3 4 st drop [of el4] keep [OF 4(1)] i3 show ?thesis by (simp add: start state_order)
        qed
      qed
    qed
  qed
qed


section \<open>Properties\<close>

text \<open>An example: the three elements of \<open>demo_row\<close> in a pipeline; the hooks of one element fail on the way up.\<close>

definition demo_seen :: pool_seen where
  "demo_seen = \<lparr>seen_pool = None, seen_generation = 0, seen_min_buffers = 0, seen_max_buffers = 0, seen_buffer_size = 0, seen_buffer_type = 0\<rparr>"

definition demo_pipe :: pipe_state where
  "demo_pipe =
     \<lparr>pipe = (the (fst (zst_pipeline_create 90 (Some 91) demo_seen [])))\<lparr>pl_elements := [Elem (demo_info 2), Elem (demo_info 3), Elem (demo_info 4)]\<rparr>,
      graph = demo_row, acts = []\<rparr>"

definition demo_pipe_env :: "addr \<Rightarrow> pipe_env" where
  "demo_pipe_env bad =
     \<lparr>pv_el = demo_env bad, pv_pad = quiet, pv_provide_clock = (\<lambda>_. None), pv_system_clock = (\<lambda>_. Some 92), pv_slave_clock = (\<lambda>_. None),
      pv_monotonic = (\<lambda>_. 5), pv_get_pool = (\<lambda>_. None), pv_names = (\<lambda>_. \<lparr>desc_name = None, ops_name = Some ''queue''\<rparr>)\<rparr>"

lemma demo_pipe_simps:
  "pl_elements (pipe demo_pipe) = [Elem (demo_info 2), Elem (demo_info 3), Elem (demo_info 4)]" "graph demo_pipe = demo_row"
  "pl_state (pipe demo_pipe) = ZST_STATE_NULL" "el_ids (pl_elements (pipe demo_pipe)) = [2, 3, 4]"
  by (simp_all add: demo_pipe_def zst_pipeline_create_def demo_info_def)

lemma demo_pipe_ready: "pipe_ready demo_pipe" "pipe_uniform ZST_STATE_NULL demo_pipe" "undo_hooks_succeed (pv_el (demo_pipe_env bad))"
  using demo_row_simps demo_undo by (simp_all add: demo_pipe_simps walks_def pipe_uniform_def demo_info_def demo_pipe_env_def)

text \<open>C25: a state change of a pipeline is all or nothing.  When all its elements are in its state and the hooks that
  undo a step do not fail, then \<open>zst_pipeline_set_state\<close> returns; after success the pipeline and every element,
  children of bins included, are in the new state, after an error all are back in the old one, through any
  intermediate states; going down never fails, and no element is lost, added or moved.\<close>

theorem pipeline_set_state_all_or_nothing:
  assumes "undo_hooks_succeed (pv_el E)" and "pipe_uniform q s" and "pipe_ready s"
  shows "\<exists>r s'. zst_pipeline_set_state E t s = Some (r, s') \<and> pipe_uniform (if r = ZST_OK then t else q) s' \<and>
    (t \<le> q \<longrightarrow> r = ZST_OK) \<and> el_ids (pl_elements (pipe s')) = el_ids (pl_elements (pipe s))"
proof -
  have q: "pl_state (pipe s) = q" using assms(2) by (simp add: pipe_uniform_def)
  have "pipe_moves (pipe_set_state 3 E) True t s"
    by (rule pipe_set_state_moves) (use assms levels_bounds(2) q in auto)
  then show ?thesis unfolding pipe_moves_def pipe_outcome_def zst_pipeline_set_state_def q by (fastforce split: if_splits)
qed

theorem pipeline_set_state_all_or_nothing_witness:
  "\<exists>s'. zst_pipeline_set_state (demo_pipe_env 4) ZST_STATE_PLAYING demo_pipe = Some (ZST_ERROR, s') \<and> pipe_uniform ZST_STATE_NULL s' \<and>
    el_ids (pl_elements (pipe s')) = [2, 3, 4]"
proof -
  have "map_option fst (zst_pipeline_set_state (demo_pipe_env 4) ZST_STATE_PLAYING demo_pipe) = Some ZST_ERROR" by code_simp
  with pipeline_set_state_all_or_nothing [OF demo_pipe_ready(3,2,1), of 4 ZST_STATE_PLAYING] show ?thesis
    unfolding demo_pipe_simps(4) by (fastforce simp: state_order)
qed

text \<open>C31: the step that sizes the pool of an element gives it two buffers more than there are queues downstream of the
  element, when there is a queue and memory suffices, keeps the books of the pool, and remembers the configuration
  and the generation of the pool as they are then, so that the next check finds nothing to do.\<close>

theorem pool_sizing_fits_queues:
  assumes "pipe_ready s" and "walkable (graph s) el" and "plenty (script (eheap (graph s)))"
    and "zst_element_get_pool E el (mem (graph s)) = Some pa" and "pool_inv pa out (mem (graph s))" and "\<forall>n. malloc_ok (mem (graph s)) n"
  shows "\<exists>s' p'. apply_pool_config_cb E el s = Some s' \<and> pool_inv pa out (mem (graph s')) \<and> get_pool (mem (graph s')) pa = Some p' \<and>
    (let k = card {v. v \<noteq> el \<and> (el, v) \<in> (downstream (el_ids (pl_elements (pipe s))) (graph s))\<^sup>+ \<and> pipeline_element_is_type (pv_names E v) ''queue''}
     in 0 < k \<longrightarrow> k + 2 \<le> min_buffers (config p')) \<and>
    pl_seen (pipe s') el = seen_of (Some pa) (config p') (mem (graph s'))"
  by (rule apply_pool_config_fits [OF assms])

definition demo_pool_pipe :: pipe_state where
  "demo_pool_pipe = demo_pipe\<lparr>graph := demo_row\<lparr>mem := snd (zst_buffer_pool_create None (Some demo_config) demo_world)\<rparr>\<rparr>"

definition demo_pool_env :: pipe_env where
  "demo_pool_env = (demo_pipe_env 0)\<lparr>pv_get_pool := (\<lambda>x. if x = 4 then Some (\<lambda>_. Some 0) else None)\<rparr>"

theorem pool_sizing_fits_queues_witness:
  "\<exists>s' p'. apply_pool_config_cb demo_pool_env 4 demo_pool_pipe = Some s' \<and> get_pool (mem (graph s')) 0 = Some p' \<and> 4 \<le> min_buffers (config p')"
proof -
  have "{v. v \<noteq> 4 \<and> (4, v) \<in> {(4 :: addr, 3 :: addr), (3, 2)}\<^sup>+} = {3, 2}" by (auto elim: tranclE intro: trancl_into_trancl2)
  moreover have e: "downstream (el_ids (pl_elements (pipe demo_pool_pipe))) (graph demo_pool_pipe) = {(4, 3), (3, 2)}"
  proof -
    have "el_ids (pl_elements (pipe demo_pool_pipe)) = [2, 3, 4]" using demo_pipe_simps(4) by (simp add: demo_pool_pipe_def)
    moreover have "downstream els (graph demo_pool_pipe) = downstream els demo_row" for els by (simp add: demo_pool_pipe_def downstream_def)
    ultimately show ?thesis using demo_row_links(2) by metis
  qed
  moreover have "pipeline_element_is_type (pv_names demo_pool_env v) ''queue''" for v
    by (simp add: demo_pool_env_def demo_pipe_env_def pipeline_element_is_type_def pipeline_element_type_name_def)
  ultimately have k: "card {v. v \<noteq> 4 \<and> (4, v) \<in> (downstream (el_ids (pl_elements (pipe demo_pool_pipe))) (graph demo_pool_pipe))\<^sup>+ \<and>
      pipeline_element_is_type (pv_names demo_pool_env v) ''queue''} = 2"
    by (simp add: e)
  have inv: "pool_inv 0 {} (mem (graph demo_pool_pipe))" using demo_pool_live by (simp add: demo_pool_pipe_def pool_live_def)
  have mal: "\<forall>n. malloc_ok (mem (graph demo_pool_pipe)) n"
    by (simp add: demo_pool_pipe_def pool_eval)
  have rd: "pipe_ready demo_pool_pipe" "walkable (graph demo_pool_pipe) 4" "plenty (script (eheap (graph demo_pool_pipe)))"
    "zst_element_get_pool demo_pool_env 4 (mem (graph demo_pool_pipe)) = Some 0"
    using demo_pipe_ready(1) demo_row_simps by (simp_all add: demo_pool_pipe_def demo_pipe_simps walks_def demo_pool_env_def zst_element_get_pool_def)
  from pool_sizing_fits_queues [OF rd(1-4) inv mal] k show ?thesis by (auto simp: Let_def)
qed

text \<open>C28: at the end of a reconfiguration the elements stand in the order of their links and their ranks rise along the
  links, when there is no cycle, memory suffices and linked elements are linked to elements of the pipeline; the
  same elements are in the array, and the transaction is over.\<close>

theorem reconfigure_end_sorts:
  assumes "pl_reconf (pipe s) = Some self" and "pipe_ready s" and "acyclic (links (el_ids (pl_elements (pipe s))) (graph s))"
    and "plenty (script (eheap (graph s)))" and "length (pl_elements (pipe s)) < 2 ^ 32"
    and "\<forall>v \<in> set (el_ids (pl_elements (pipe s))). linked_in (graph s) v \<longrightarrow> (\<exists>u. (u, v) \<in> links (el_ids (pl_elements (pipe s))) (graph s))"
  shows "\<exists>s'. zst_pipeline_reconfigure_end E self s = Some (ZST_OK, s') \<and> forward_array s' \<and> set (pl_elements (pipe s')) = set (pl_elements (pipe s)) \<and>
    length (pl_elements (pipe s')) = length (pl_elements (pipe s)) \<and> pl_reconf (pipe s') = None"
proof -
  let ?s = "s\<lparr>pipe := (pipe s)\<lparr>pl_reconf := None\<rparr>\<rparr>"
  obtain s' where "pipeline_reconfiguration_finish_locked E ?s = Some s'" "set (pl_elements (pipe s')) = set (pl_elements (pipe s))"
    "length (pl_elements (pipe s')) = length (pl_elements (pipe s))" "pl_reconf (pipe s') = None" "forward_array s'"
    using finish_sorts [of ?s E] assms(2-6) by (simp add: del: set_map) blast
  then show ?thesis using assms(1) by (simp add: zst_pipeline_reconfigure_end_def pipeline_reconfiguration_owned_by_current_thread_def)
qed

theorem reconfigure_end_sorts_witness:
  "\<exists>s'. zst_pipeline_reconfigure_end (demo_pipe_env 0) 1 (demo_pipe\<lparr>pipe := (pipe demo_pipe)\<lparr>pl_reconf := Some 1\<rparr>\<rparr>) = Some (ZST_OK, s') \<and> forward_array s'"
proof -
  let ?s = "demo_pipe\<lparr>pipe := (pipe demo_pipe)\<lparr>pl_reconf := Some 1\<rparr>\<rparr>"
  have e: "el_ids (pl_elements (pipe ?s)) = [2, 3, 4]" "graph ?s = demo_row" "length (pl_elements (pipe ?s)) = 3" using demo_pipe_simps by simp_all
  have "\<not> linked_in demo_row 4" by (simp add: linked_in_def demo_row_def)
  then have fed: "\<forall>v \<in> set (el_ids (pl_elements (pipe ?s))). linked_in (graph ?s) v \<longrightarrow> (\<exists>u. (u, v) \<in> links (el_ids (pl_elements (pipe ?s))) (graph ?s))"
    unfolding e demo_row_links by auto
  have rd: "pipe_ready ?s" using demo_pipe_ready(1) by simp
  have "acyclic (links (el_ids (pl_elements (pipe ?s))) (graph ?s))" "plenty (script (eheap (graph ?s)))" unfolding e by (rule demo_row_acyclic, rule demo_row_simps)
  from reconfigure_end_sorts [OF _ rd this _ fed, of 1 "demo_pipe_env 0"] show ?thesis unfolding e(3) by auto
qed

text \<open>C30: an element in state NULL that is added to a running pipeline, by the thread that owns a transaction or by one that waits for its turn
  and then sorts by itself, either joins the pipeline, attached to it and in its state (but READY in a pipeline that is PAUSED), or it is in NULL
  again and detached, and the pipeline has the elements it had.  Inside a transaction the element becomes the last one; otherwise the array with the new
  element is sorted along the links, with ranks that rise along them.  The hooks that undo a step must succeed, since the code ignores
  a failure of the way back to NULL; and a caller outside a transaction needs what the sort needs: memory, no cycle, and linked elements linked to elements of the pipeline.\<close>

theorem add_dynamic_joins_or_leaves:
  assumes "undo_hooks_succeed (pv_el E)" and "uniform ZST_STATE_NULL el" and "enter self polls s = Some s0"
    and "el_id (info el) \<notin> set (el_ids (pl_elements (pipe s0)))" and "pl_reconf (pipe s) = Some self \<or> sortable_with (el_id (info el)) s0"
  shows "\<exists>r el' s'. zst_pipeline_add_element_dynamic E self polls el s = Some (r, el', s') \<and> el_id (info el') = el_id (info el) \<and>
    (if r = ZST_OK then uniform (joined_state (pl_state (pipe s0))) el' \<and> joined (pl_reconf (pipe s) = Some self) el' s0 s'
     else uniform ZST_STATE_NULL el' \<and> pl_elements (pipe s') = pl_elements (pipe s0) \<and> (el' = el \<or> el_bus (info el') = None \<and> el_pipeline (info el') = None))"
  by (rule add_dynamic_cases [OF assms])

text \<open>Another thread is reconfiguring; its transaction ends at the second look.  The pipeline plays, and an element joins that is not linked.\<close>

theorem add_dynamic_joins_or_leaves_witness:
  "\<exists>el' s'. zst_pipeline_add_element_dynamic (demo_pipe_env 0) 1 [\<lambda>s. s, \<lambda>s. s\<lparr>pipe := (pipe s)\<lparr>pl_reconf := None\<rparr>\<rparr>] (Elem (demo_info 4))
      (demo_pipe\<lparr>pipe := (pipe demo_pipe)\<lparr>pl_reconf := Some 2, pl_state := ZST_STATE_PLAYING, pl_elements := [Elem (demo_info 2), Elem (demo_info 3)]\<rparr>\<rparr>) = Some (ZST_OK, el', s') \<and>
    uniform ZST_STATE_PLAYING el' \<and> set (el_ids (pl_elements (pipe s'))) = {2, 3, 4} \<and> forward_array s'"
proof -
  let ?polls = "[\<lambda>s. s, \<lambda>s. s\<lparr>pipe := (pipe s)\<lparr>pl_reconf := None\<rparr>\<rparr>]"
  let ?s = "demo_pipe\<lparr>pipe := (pipe demo_pipe)\<lparr>pl_reconf := Some 2, pl_state := ZST_STATE_PLAYING, pl_elements := [Elem (demo_info 2), Elem (demo_info 3)]\<rparr>\<rparr>"
  let ?after = "?s\<lparr>pipe := (pipe ?s)\<lparr>pl_reconf := None\<rparr>\<rparr>"
  have e: "enter 1 ?polls ?s = Some ?after" by (simp add: enter_def pipeline_reconfiguration_owned_by_current_thread_def)
  have ids: "el_ids (pl_elements (pipe ?after)) @ [el_id (info (Elem (demo_info 4)))] = [2, 3, 4]" "graph ?after = demo_row"
    by (simp_all add: demo_info_def demo_pipe_simps)
  have "\<not> linked_in demo_row 4" by (simp add: linked_in_def demo_row_def)
  then have fed: "\<forall>v \<in> set [2, 3, 4]. linked_in demo_row v \<longrightarrow> (\<exists>u. (u, v) \<in> links [2, 3, 4] demo_row)"
    unfolding demo_row_links by auto
  have rd: "walks [2, 3, 4] demo_row" using demo_pipe_ready(1) demo_pipe_simps by simp
  have s: "sortable_with (el_id (info (Elem (demo_info 4)))) ?after"
    unfolding sortable_with_def ids Let_def using rd fed demo_row_acyclic demo_row_simps by (simp add: walks_def)
  have u: "uniform ZST_STATE_NULL (Elem (demo_info 4))" "el_id (info (Elem (demo_info 4))) \<notin> set (el_ids (pl_elements (pipe ?after)))"
    by (simp_all add: demo_info_def)
  have r: "map_option fst (zst_pipeline_add_element_dynamic (demo_pipe_env 0) 1 ?polls (Elem (demo_info 4)) ?s) = Some ZST_OK" by code_simp
  from add_dynamic_joins_or_leaves [OF demo_pipe_ready(3) u(1) e u(2) disjI2 [OF s], of 0] obtain r0 el' s' where
    j: "zst_pipeline_add_element_dynamic (demo_pipe_env 0) 1 ?polls (Elem (demo_info 4)) ?s = Some (r0, el', s')" "el_id (info el') = el_id (info (Elem (demo_info 4)))"
      "if r0 = ZST_OK then uniform (joined_state (pl_state (pipe ?after))) el' \<and> joined (pl_reconf (pipe ?s) = Some 1) el' ?after s'
       else uniform ZST_STATE_NULL el' \<and> pl_elements (pipe s') = pl_elements (pipe ?after) \<and> (el' = Elem (demo_info 4) \<or> el_bus (info el') = None \<and> el_pipeline (info el') = None)"
    by (elim exE conjE) (rule that)
  have r0: "r0 = ZST_OK" using r j(1) by simp
  have "uniform ZST_STATE_PLAYING el'" "forward_array s'" "set (pl_elements (pipe s')) = {el', Elem (demo_info 2), Elem (demo_info 3)}"
    using j(3) r0 by (auto simp: joined_def joined_state_def)
  moreover from this(3) have "set (el_ids (pl_elements (pipe s'))) = {2, 3, 4}" using j(2) by (auto simp: demo_info_def)
  moreover note j(1) [unfolded r0]
  ultimately show ?thesis by blast
qed

end
