(* ===== verification/Zst_Scheduler.thy ===== *)
theory Zst_Scheduler
  imports Zst_Graph_Walks Zst_Queue
begin

text \<open>
  The scheduler of \<open>src/zst_scheduler.c\<close>: worker threads that take task tokens of elements from a ready queue and
  call \<open>process\<close>.

  The threads are interleaved.  A thread is the list of the instructions it still has to execute; an instruction
  is one access to shared memory, one call of the ready queue or one callback, and executing it may put further
  instructions in front.  The shared state has the ready queue of \<open>Zst_Queue\<close> with the heap its tokens live in,
  and of each element the flag \<open>is_queued\<close>, the counter \<open>sched_task_refs\<close> and the state.  What a thread reads of the
  pipeline and what callbacks answer is an argument of the instruction; effects outside of the scheduler are logged.
  The token of an element points back to it all the time, as long as the element is not taken out of the pipeline.

  A push runs \<open>process\<close> of the elements it reaches in the thread that pushes (\<open>default_sink_pad_push\<close> of \<open>src/zst_pad.c\<close>), whether \<open>process\<close>
  of an element pushes by itself or the scheduler pushes what it returned: \<open>In_push\<close> is such a call, and the elements reached are an argument.
  An element without a sink pad is not reached.
\<close>

section \<open>The elements that drive the pipeline\<close>

text \<open>Whether an element has a linked sink pad; when the snapshot of its pads cannot be taken, it counts as one that has.\<close>

definition scheduler_element_has_linked_sink_pad :: "addr \<Rightarrow> pad_graph \<Rightarrow> (bool \<times> pad_graph) option" where
  "scheduler_element_has_linked_sink_pad el g =
     do { e \<leftarrow> elements g el;
          (case pe_sink_pads e of
             [] \<Rightarrow> Some (False, g)
           | [p] \<Rightarrow> do { g1 \<leftarrow> pad_ref p g; l \<leftarrow> zst_pad_is_linked p g1; g2 \<leftarrow> pad_unref p g1; Some (l, g2) }
           | ps \<Rightarrow>
               do { (snap, g1) \<leftarrow> snapshot_pads ps g;
                    (case snap of None \<Rightarrow> Some (True, g1)
                     | Some qs \<Rightarrow> do { l \<leftarrow> any_linked qs g1; g2 \<leftarrow> zst_element_pad_snapshot_free qs g1; Some (l, g2) }) }) }"

fun collect_roots :: "addr list \<Rightarrow> pad_graph \<Rightarrow> (addr list \<times> pad_graph) option" where
  "collect_roots [] g = Some ([], g)"
| "collect_roots (x # xs) g =
     do { (l, g1) \<leftarrow> scheduler_element_has_linked_sink_pad x g;
          (rs, g2) \<leftarrow> collect_roots xs g1;
          Some (if l then rs else x # rs, g2) }"

record root_cache =
  source_roots :: "addr list"
  source_roots_capacity :: nat
  source_roots_graph_version :: u64

definition scheduler_refresh_source_roots_locked ::
    "u64 \<Rightarrow> addr list \<Rightarrow> root_cache \<times> pad_graph \<Rightarrow> (bool \<times> root_cache \<times> pad_graph) option" where
  "scheduler_refresh_source_roots_locked version els = (\<lambda>(c, g).
     if source_roots_graph_version c = version then Some (True, c, g)
     else
       (case (if source_roots_capacity c < length els then alloc (script (eheap g)) else (None, script (eheap g))) of
          (Some _, m) \<Rightarrow> Some (False, c, set_script m g)
        | (None, m) \<Rightarrow>
            do { (rs, g1) \<leftarrow> collect_roots els (set_script m g);
                 Some (True, \<lparr>source_roots = rs, source_roots_capacity = max (source_roots_capacity c) (length els),
                              source_roots_graph_version = version\<rparr>, g1) }))"

text \<open>The elements \<open>scheduler_queue_source_roots\<close> goes through, in order: from the cache, or one by one when the cache
  cannot grow.\<close>

definition scheduler_source_roots ::
    "u64 \<Rightarrow> addr list \<Rightarrow> root_cache \<times> pad_graph \<Rightarrow> (addr list \<times> root_cache \<times> pad_graph) option" where
  "scheduler_source_roots version els cg =
     do { (ok, c, g) \<leftarrow> scheduler_refresh_source_roots_locked version els cg;
          if ok then Some (source_roots c, c, g)
          else do { (rs, g1) \<leftarrow> collect_roots els g; Some (rs, c, g1) } }"

section \<open>Instructions\<close>

datatype sched_action =
    Sort_pipeline | Size_all_pools | Size_pools addr | Clock_wait addr u64 | Push_out addr | Push_eos addr
  | Post_eos addr | Post_fault addr zst_result | Nap

datatype instr =
    Queue_task addr | Exchange addr | Ref_token addr addr | Count_task addr addr | Push_task addr addr
  | Clear_queued addr | Uncount_task addr | Unref_token addr
  | Queue_roots bool | Root_task bool addr
  | Check_state addr | Call_process addr bool | In_process addr bool | In_push addr | Set_ready addr | Do sched_action
  | Worker_loop | Pop_task
  | Run_sched | Start_workers | Spawn | Stop_sched | Join_workers | Drain | Wake

record sched =
  sc_running :: bool
  sc_ready :: qstate
  sc_queued :: "addr \<Rightarrow> bool"
  sc_refs :: "addr \<Rightarrow> u32"
  sc_state :: "addr \<Rightarrow> zst_state"
  sc_threads :: "instr list list"
  sc_workers :: "nat list"
  sc_log :: "sched_action list"

datatype sched_mode = ZST_SCHEDULER_SINGLE_THREAD | ZST_SCHEDULER_MULTI_THREAD

text \<open>\<open>se_token\<close> is the \<open>sched_token\<close> of an element, \<open>se_owner\<close> the element in the token's \<open>memory.priv\<close>; \<open>se_takes\<close> is whether an
  element has a sink pad.\<close>

record sched_env =
  se_token :: "addr \<Rightarrow> addr option"
  se_owner :: "addr \<Rightarrow> addr option"
  se_process :: "addr \<Rightarrow> bool"
  se_takes :: "addr \<Rightarrow> bool"
  se_bus :: "addr \<Rightarrow> bool"
  se_attached :: bool
  se_mode :: sched_mode
  se_worker_threads :: nat

text \<open>A buffer that \<open>process\<close> returns: its time stamp, and whether it is flagged as end of stream or to be dropped.\<close>

record out_buf =
  ob_pts :: u64
  ob_eos_or_drop :: bool

text \<open>What a step finds: the elements of the pipeline, those among them that \<open>scheduler_source_roots\<close> gives, the pads, the
  elements a push reaches, the clock, and the answer of \<open>process\<close>.\<close>

record view =
  v_elements :: "addr list"
  v_roots :: "addr list"
  v_sink_pads :: "addr \<Rightarrow> nat"
  v_src_pad :: "addr \<Rightarrow> bool"
  v_pushed :: "addr list"
  v_ret :: zst_result
  v_out :: "out_buf option"
  v_clock_sync :: bool
  v_clock :: "bool option"
  v_now :: u64
  v_base_time :: u64
  v_malloc_ok :: bool

section \<open>The functions\<close>

definition zst_scheduler_release_task_buffer :: "sched_env \<Rightarrow> addr \<Rightarrow> bool \<Rightarrow> instr list" where
  "zst_scheduler_release_task_buffer E t reset_queued =
     (case se_owner E t of None \<Rightarrow> []
      | Some el \<Rightarrow> (if reset_queued then [Clear_queued el] else []) @ [Uncount_task el]) @ [Unref_token t]"

text \<open>How long a source is held back before its buffer goes out.\<close>

definition source_wait :: "view \<Rightarrow> out_buf \<Rightarrow> u64 option" where
  "source_wait v b =
     (if \<not> v_clock_sync v \<or> ob_eos_or_drop b then None
      else (case v_clock v of None \<Rightarrow> None
            | Some is_ptp \<Rightarrow>
                if is_ptp then (if v_now v < ob_pts b then Some (ob_pts b - v_now v) else None)
                else if v_base_time v > 0 then
                  (let run_time = (if v_now v > v_base_time v then v_now v - v_base_time v else 0)
                   in if ob_pts b > run_time + 5000000 then Some (ob_pts b - run_time) else None)
                else None))"

text \<open>What follows the return of \<open>process\<close>.\<close>

definition after_process :: "sched_env \<Rightarrow> view \<Rightarrow> addr \<Rightarrow> bool \<Rightarrow> instr list" where
  "after_process E v el src =
     (case v_ret v of
        ZST_OK \<Rightarrow>
          Do (Size_pools el) #
          (case v_out v of None \<Rightarrow> []
           | Some b \<Rightarrow> if v_src_pad v el
                       then (case source_wait v b of None \<Rightarrow> [] | Some ns \<Rightarrow> [Do (Clock_wait el ns)]) @ [Do (Push_out el)]
                       else []) @
          Clear_queued el # (if src then [Queue_task el] else [])
      | ZST_EOF \<Rightarrow>
          (if v_malloc_ok v then (if v_src_pad v el then [Do (Push_eos el)] else if se_bus E el then [Do (Post_eos el)] else [])
           else []) @ [Set_ready el, Clear_queued el]
      | ZST_AGAIN \<Rightarrow> [Do Nap, Clear_queued el, Queue_task el]
      | ZST_TIMEOUT \<Rightarrow> [Do Nap, Clear_queued el, Queue_task el]
      | r \<Rightarrow> (if se_bus E el then [Do (Post_fault el r)] else []) @ [Clear_queued el])"

text \<open>The calls of \<open>process\<close> that a push makes.\<close>

definition pushed :: "sched_env \<Rightarrow> view \<Rightarrow> instr list" where
  "pushed E v = map In_push (filter (se_takes E) (v_pushed v))"

fun exec :: "sched_env \<Rightarrow> view \<Rightarrow> instr \<Rightarrow> sched \<Rightarrow> instr list \<times> sched" where
  "exec E v (Queue_task el) s = (if sc_running s then [Exchange el] else [], s)"
| "exec E v (Exchange el) s =
     (if sc_queued s el then []
      else (case se_token E el of Some t \<Rightarrow> [Ref_token el t] | None \<Rightarrow> [Clear_queued el]),
      s\<lparr>sc_queued := (sc_queued s)(el := True)\<rparr>)"
| "exec E v (Ref_token el t) s =
     ([Count_task el t], s\<lparr>sc_ready := (fst (sc_ready s), snd (zst_buffer_ref (Some t) (snd (sc_ready s))))\<rparr>)"
| "exec E v (Count_task el t) s = ([Push_task el t], s\<lparr>sc_refs := (sc_refs s)(el := sc_refs s el + 1)\<rparr>)"
| "exec E v (Push_task el t) s =
     (case zst_queue_push (Some t) 0 [] (sc_ready s) of
        (r, q) \<Rightarrow> (if r = Done ZST_OK () then [Unref_token t] else [Uncount_task el, Unref_token t, Clear_queued el],
                   s\<lparr>sc_ready := q\<rparr>))"
| "exec E v (Clear_queued el) s = ([], s\<lparr>sc_queued := (sc_queued s)(el := False)\<rparr>)"
| "exec E v (Uncount_task el) s = ([], s\<lparr>sc_refs := (sc_refs s)(el := sc_refs s el - 1)\<rparr>)"
| "exec E v (Unref_token t) s = ([], s\<lparr>sc_ready := (fst (sc_ready s), zst_buffer_unref (Some t) (snd (sc_ready s)))\<rparr>)"
| "exec E v (Queue_roots playing_only) s = (if se_attached E then map (Root_task playing_only) (v_roots v) else [], s)"
| "exec E v (Root_task playing_only el) s =
     (if \<not> playing_only \<or> sc_state s el = ZST_STATE_PLAYING then [Queue_task el] else [], s)"
| "exec E v (Check_state el) s =
     (if sc_state s el \<noteq> ZST_STATE_PLAYING \<or> \<not> se_process E el then [Clear_queued el]
      else [Do (Size_pools el), Call_process el (v_sink_pads v el = 0)], s)"
| "exec E v (Call_process el src) s = ([In_process el src], s)"
| "exec E v (In_process el src) s = (if pushed E v = [] then after_process E v el src else pushed E v @ [In_process el src], s)"
| "exec E v (Set_ready el) s = ([], s\<lparr>sc_state := (sc_state s)(el := ZST_STATE_READY)\<rparr>)"
| "exec E v (Do a) s = (case a of Push_out el \<Rightarrow> pushed E v | Push_eos el \<Rightarrow> pushed E v | _ \<Rightarrow> [], s\<lparr>sc_log := sc_log s @ [a]\<rparr>)"
| "exec E v Worker_loop s = (if sc_running s then [Pop_task] else [], s)"
| "exec E v Pop_task s =
     (case zst_queue_pop 2 [(\<lambda>x. x, True)] (sc_ready s) of
        (Done ZST_OK (Some t), q) \<Rightarrow>
          ((case se_owner E t of Some el \<Rightarrow> if se_attached E then [Check_state el] else [] | None \<Rightarrow> []) @
           zst_scheduler_release_task_buffer E t False @ [Worker_loop], s\<lparr>sc_ready := q\<rparr>)
      | (_, q) \<Rightarrow> ([Queue_roots True, Worker_loop], s\<lparr>sc_ready := q\<rparr>))"
| "exec E v Run_sched s =
     (if sc_running s then [] else (if se_attached E then [Do Sort_pipeline, Do Size_all_pools] else []) @ [Start_workers], s)"
| "exec E v Start_workers s =
     ((if se_attached E then map Queue_task (filter (\<lambda>el. v_sink_pads v el = 0) (v_elements v)) else []) @ [Spawn],
      s\<lparr>sc_running := True\<rparr>)"
| "exec E v Spawn s =
     (let n = (if se_mode E = ZST_SCHEDULER_MULTI_THREAD then se_worker_threads E else 1); k = length (sc_threads s)
      in ([], s\<lparr>sc_threads := sc_threads s @ replicate n [Worker_loop], sc_workers := [k..<k + n]\<rparr>))"
| "exec E v Stop_sched s = (if sc_running s then ([Join_workers], s\<lparr>sc_running := False\<rparr>) else ([], s))"
| "exec E v Join_workers s = ([Drain], s\<lparr>sc_workers := []\<rparr>)"
| "exec E v Drain s =
     (case zst_queue_pop 0 [] (sc_ready s) of
        (Done ZST_OK (Some t), q) \<Rightarrow> (zst_scheduler_release_task_buffer E t True @ [Drain], s\<lparr>sc_ready := q\<rparr>)
      | (_, q) \<Rightarrow> ([], s\<lparr>sc_ready := q\<rparr>))"
| "exec E v Wake s = (if sc_running s then [Queue_roots True] else [], s)"
| "exec E v (In_push el) s = (if pushed E v = [] then [] else pushed E v @ [In_push el], s)"

text \<open>Joining waits until the workers have returned.\<close>

definition ready_to_run :: "sched \<Rightarrow> instr \<Rightarrow> bool" where
  "ready_to_run s ins \<longleftrightarrow> ins = Join_workers \<longrightarrow> list_all (\<lambda>i. sc_threads s ! i = []) (sc_workers s)"

text \<open>A step: a thread executes its next instruction; the application, in thread 0, runs or stops the scheduler; any
  other thread that is not a worker wakes it; an element changes its state.\<close>

inductive sched_step :: "sched_env \<Rightarrow> sched \<Rightarrow> sched \<Rightarrow> bool" for E where
  execute: "i < length (sc_threads s) \<Longrightarrow> sc_threads s ! i = ins # rest \<Longrightarrow> ready_to_run s ins \<Longrightarrow> exec E v ins s = (new, s1) \<Longrightarrow>
     sched_step E s (s1\<lparr>sc_threads := (sc_threads s1)[i := new @ rest]\<rparr>)"
| control: "0 < length (sc_threads s) \<Longrightarrow> sc_threads s ! 0 = [] \<Longrightarrow> c \<in> {Run_sched, Stop_sched} \<Longrightarrow>
     sched_step E s (s\<lparr>sc_threads := (sc_threads s)[0 := [c]]\<rparr>)"
| wake: "i < length (sc_threads s) \<Longrightarrow> i \<notin> set (sc_workers s) \<Longrightarrow> sc_threads s ! i = [] \<Longrightarrow>
     sched_step E s (s\<lparr>sc_threads := (sc_threads s)[i := [Wake]]\<rparr>)"
| change: "sched_step E s (s\<lparr>sc_state := st\<rparr>)"

text \<open>\<open>zst_scheduler_create\<close>, with \<open>n\<close> threads of the application around it and the tokens in the heap \<open>w\<close>.  The
  booleans are the outcomes of the two allocations the code checks; memory for the ready queue is taken for granted.\<close>

definition zst_scheduler_create :: "bool \<Rightarrow> bool \<Rightarrow> nat \<Rightarrow> (addr \<Rightarrow> zst_state) \<Rightarrow> world \<Rightarrow> sched option" where
  "zst_scheduler_create sched_ok priv_ok n st w =
     (if \<not> sched_ok \<or> \<not> priv_ok then None
      else map_option (\<lambda>q. \<lparr>sc_running = False, sc_ready = (q, w), sc_queued = (\<lambda>_. False), sc_refs = (\<lambda>_. 0), sc_state = st,
                            sc_threads = replicate n [], sc_workers = [], sc_log = []\<rparr>)
             (zst_queue_create (Some \<lparr>qc_mode = ZST_QUEUE_SYNC, qc_max_buffers = 2048, qc_max_bytes = 0, qc_max_duration = 0\<rparr>)
                True True))"

inductive sched_reach :: "sched_env \<Rightarrow> sched \<Rightarrow> sched \<Rightarrow> bool" for E s0 where
  start: "sched_reach E s0 s0"
| step: "sched_reach E s0 s \<Longrightarrow> sched_step E s s' \<Longrightarrow> sched_reach E s0 s'"

end
