(* ===== verification/Zst_Scheduler_Laws.thy ===== *)
theory Zst_Scheduler_Laws
  imports Zst_Scheduler
begin

text \<open>
  What holds of the scheduler in every interleaving.  The invariant says of each element who has its flag
  \<open>is_queued\<close>, who has a count in \<open>sched_task_refs\<close> and who has a reference on its token: its place in the ready queue, or
  an instruction that a thread still has to execute.  An instruction is shown to keep the balance once for all
  threads and places (\<open>balanced_inv\<close>), and then each instruction to be balanced.
\<close>

section \<open>The elements that drive the pipeline\<close>

lemma live_script [simp]: "live (set_script m g) p = live g p"
  by (simp add: live_def)

lemma linked_in_script [simp]: "linked_in (set_script m g) el = linked_in g el"
  by (simp add: linked_in_def)

lemma has_linked_ok:
  assumes "walkable g el" and "plenty (script (eheap g))"
  shows "\<exists>m. scheduler_element_has_linked_sink_pad el g = Some (linked_in g el, set_script m g) \<and> plenty m"
proof -
  obtain e where e: "elements g el = Some e" "\<forall>p \<in> set (pe_sink_pads e). live g p" using assms(1) by (auto simp: walkable_def)
  have self: "set_script (script (eheap g)) g = g" by simp
  consider (none) "pe_sink_pads e = []" | (one) p where "pe_sink_pads e = [p]" | (more) p q ps where "pe_sink_pads e = p # q # ps"
    by (cases "pe_sink_pads e" rule: remdups_adj.cases) auto
  then show ?thesis
  proof cases
    case none
    then show ?thesis using e(1) self assms(2)
      by (auto simp: scheduler_element_has_linked_sink_pad_def linked_in_def intro!: exI [of _ "script (eheap g)"])
  next
    case one
    then obtain x where x: "pads g p = Some x" "1 \<le> pd_refcount x" using e(2) by (auto simp: live_def)
    let ?x = "x\<lparr>pd_refcount := pd_refcount x + 1\<rparr>"
    have "pad_unref p (put_pad p ?x g) = Some (put_pad p x (put_pad p ?x g))"
      by (subst pad_unref.simps) (use x(2) in \<open>simp add: Let_def\<close>)
    then have "pad_unref p (put_pad p ?x g) = Some g" using put_pad_twice [OF x(1)] by simp
    moreover have "zst_pad_is_linked p (put_pad p ?x g) = Some (linked_in g el)" using x(1) e(1) one by (auto simp: zst_pad_is_linked_def linked_in_def)
    ultimately show ?thesis using e(1) one self assms(2)
      by (auto simp: scheduler_element_has_linked_sink_pad_def pad_ref_Some [OF x(1)] intro!: exI [of _ "script (eheap g)"])
  next
    case more
    from e(2) show ?thesis
    proof (cases rule: snapshot_cases)
      case (taken m c)
      let ?h = "set_script m (with_refs c g)"
      have "\<forall>p \<in> set (pe_sink_pads e). live ?h p" using e(2) by (auto simp: live_def add_refs_def)
      moreover have "(\<exists>p \<in> set (pe_sink_pads e). \<exists>x. pads ?h p = Some x \<and> pd_linked x) = linked_in g el"
        using e(1) by (fastforce simp: linked_in_def add_refs_def)
      ultimately have "any_linked (pe_sink_pads e) ?h = Some (linked_in g el)" using any_linked_live [of "pe_sink_pads e" ?h] by simp
      with taken e(1) assms(2) more show ?thesis
        by (auto simp: scheduler_element_has_linked_sink_pad_def simp del: any_linked.simps zst_element_pad_snapshot_free.simps)
    qed (use assms(2) in simp)
  qed
qed

lemma collect_roots_ok:
  "\<forall>x \<in> set xs. walkable g x \<Longrightarrow> plenty (script (eheap g)) \<Longrightarrow>
     \<exists>m. collect_roots xs g = Some (filter (\<lambda>x. \<not> linked_in g x) xs, set_script m g) \<and> plenty m"
proof (induction xs arbitrary: g)
  case Nil
  have "set_script (script (eheap g)) g = g" by simp
  with Nil show ?case by (auto intro!: exI [of _ "script (eheap g)"])
next
  case (Cons x xs)
  obtain m where m: "scheduler_element_has_linked_sink_pad x g = Some (linked_in g x, set_script m g)" "plenty m"
    using has_linked_ok Cons.prems by (metis list.set_intros(1))
  have "\<forall>x \<in> set xs. walkable (set_script m g) x" using Cons.prems walkable_more [of g "set_script m g"] by simp
  with Cons.IH [of "set_script m g"] m show ?case by auto
qed

lemma source_roots_ok:
  assumes "\<forall>x \<in> set els. walkable g x" and "plenty (script (eheap g))" and "source_roots_graph_version c \<noteq> version"
  shows "\<exists>c' m. scheduler_source_roots version els (c, g) = Some (filter (\<lambda>x. \<not> linked_in g x) els, c', set_script m g) \<and>
    scheduler_source_roots version els (c', set_script m g) = Some (filter (\<lambda>x. \<not> linked_in g x) els, c', set_script m g)"
proof -
  obtain m0 where m0: "(if source_roots_capacity c < length els then alloc (script (eheap g)) else (None, script (eheap g))) = (None, m0)" "plenty m0"
    using plenty_alloc [OF assms(2)] assms(2) by metis
  have "\<forall>x \<in> set els. walkable (set_script m0 g) x" using assms(1) walkable_more [of g "set_script m0 g"] by simp
  with collect_roots_ok [of els "set_script m0 g"] m0(2) obtain m where
    m: "collect_roots els (set_script m0 g) = Some (filter (\<lambda>x. \<not> linked_in g x) els, set_script m g)" by auto
  let ?c = "\<lparr>source_roots = filter (\<lambda>x. \<not> linked_in g x) els, source_roots_capacity = max (source_roots_capacity c) (length els),
     source_roots_graph_version = version\<rparr>"
  have "scheduler_refresh_source_roots_locked version els (c, g) = Some (True, ?c, set_script m g)"
    unfolding scheduler_refresh_source_roots_locked_def prod.case m0(1) using assms(3) m by simp
  moreover have "scheduler_refresh_source_roots_locked version els (?c, h) = Some (True, ?c, h)" for h
    by (simp add: scheduler_refresh_source_roots_locked_def)
  ultimately have "scheduler_source_roots version els (c, g) = Some (filter (\<lambda>x. \<not> linked_in g x) els, ?c, set_script m g)"
    "scheduler_source_roots version els (?c, set_script m g) = Some (filter (\<lambda>x. \<not> linked_in g x) els, ?c, set_script m g)"
    by (simp_all add: scheduler_source_roots_def)
  then show ?thesis by blast
qed

section \<open>Who owns what\<close>

text \<open>What the next instructions of the threads will give back: the flag \<open>is_queued\<close>, a count in
  \<open>sched_task_refs\<close>, a reference on a token.\<close>

fun owns_flag :: "addr \<Rightarrow> instr \<Rightarrow> nat" where
  "owns_flag x (Ref_token el t) = of_bool (el = x)"
| "owns_flag x (Count_task el t) = of_bool (el = x)"
| "owns_flag x (Push_task el t) = of_bool (el = x)"
| "owns_flag x (Clear_queued el) = of_bool (el = x)"
| "owns_flag x (Check_state el) = of_bool (el = x)"
| "owns_flag x (Call_process el src) = of_bool (el = x)"
| "owns_flag x (In_process el src) = of_bool (el = x)"
| "owns_flag x _ = 0"

fun owns_count :: "addr \<Rightarrow> instr \<Rightarrow> nat" where
  "owns_count x (Push_task el t) = of_bool (el = x)"
| "owns_count x (Uncount_task el) = of_bool (el = x)"
| "owns_count x _ = 0"

fun owns_ref :: "addr \<Rightarrow> instr \<Rightarrow> nat" where
  "owns_ref x (Count_task el t) = of_bool (t = x)"
| "owns_ref x (Push_task el t) = of_bool (t = x)"
| "owns_ref x (Unref_token t) = of_bool (t = x)"
| "owns_ref x _ = 0"

definition weight :: "(instr \<Rightarrow> nat) \<Rightarrow> instr list \<Rightarrow> nat" where
  "weight f p = sum_list (map f p)"

definition total :: "(instr \<Rightarrow> nat) \<Rightarrow> instr list list \<Rightarrow> nat" where
  "total f ps = sum_list (map (weight f) ps)"

lemma weight_simps [simp]:
  "weight f [] = 0" "weight f (i # p) = f i + weight f p" "weight f (p @ q) = weight f p + weight f q"
  by (simp_all add: weight_def)

lemma total_simps [simp]:
  "total f [] = 0" "total f (p # ps) = weight f p + total f ps" "total f (ps @ qs) = total f ps + total f qs"
  "total f (replicate n p) = n * weight f p"
  by (simp_all add: total_def sum_list_replicate)

lemma total_update:
  "i < length ps \<Longrightarrow> total f (ps[i := p]) + weight f (ps ! i) = total f ps + weight f p"
proof (induction ps arbitrary: i)
  case (Cons q ps)
  then show ?case by (cases i) (auto simp: algebra_simps)
qed simp


abbreviation ready :: "sched \<Rightarrow> addr list" where
  "ready s \<equiv> contents (fst (sc_ready s))"

definition in_queue :: "sched_env \<Rightarrow> sched \<Rightarrow> addr \<Rightarrow> nat" where
  "in_queue E s el = (case se_token E el of None \<Rightarrow> 0 | Some t \<Rightarrow> count_list (ready s) t)"

definition env_ok :: "sched_env \<Rightarrow> bool" where
  "env_ok E \<longleftrightarrow> se_attached E \<and> (\<forall>el t. se_token E el = Some t \<longrightarrow> se_owner E t = Some el)"

fun well_typed :: "sched_env \<Rightarrow> instr \<Rightarrow> bool" where
  "well_typed E (Ref_token el t) = (se_token E el = Some t)"
| "well_typed E (Count_task el t) = (se_token E el = Some t)"
| "well_typed E (Push_task el t) = (se_token E el = Some t)"
| "well_typed E (Unref_token t) = (\<exists>el. se_token E el = Some t)"
| "well_typed E _ = True"

definition token_ok :: "sched \<Rightarrow> addr \<Rightarrow> bool" where
  "token_ok s t \<longleftrightarrow> (\<exists>b. get_buffer (snd (sc_ready s)) t = Some b \<and> pool b = None \<and>
     refcount b = 1 + int (total (owns_ref t) (sc_threads s) + count_list (ready s) t))"

definition sched_inv :: "sched_env \<Rightarrow> sched \<Rightarrow> bool" where
  "sched_inv E s \<longleftrightarrow>
     queue_ok 11 (fst (sc_ready s)) \<and> \<not> has_extra_limits (fst (sc_ready s)) \<and>
     (\<forall>el. of_bool (sc_queued s el) = total (owns_flag el) (sc_threads s) + in_queue E s el) \<and>
     (\<forall>el. sc_refs s el = of_nat (total (owns_count el) (sc_threads s) + in_queue E s el)) \<and>
     (\<forall>el t. se_token E el = Some t \<longrightarrow> token_ok s t) \<and>
     (\<forall>t \<in> set (ready s). \<exists>el. se_token E el = Some t) \<and>
     (\<forall>p \<in> set (sc_threads s). list_all (well_typed E) p)"

section \<open>Balance\<close>

lemma total_exec:
  "i < length ps \<Longrightarrow> ps ! i = ins # rest \<Longrightarrow> total f (ps[i := new @ rest]) + f ins = total f ps + weight f new"
  using total_update [of i ps f "new @ rest"] by simp

lemma total_head: "i < length ps \<Longrightarrow> ps ! i = ins # rest \<Longrightarrow> f ins \<le> total f ps"
  using total_update [of i ps f "[]"] by simp

text \<open>\<open>balanced\<close>: what an instruction takes from the shared state it leaves to the instructions that follow it.\<close>

definition balanced :: "sched_env \<Rightarrow> sched \<Rightarrow> instr \<Rightarrow> instr list \<Rightarrow> sched \<Rightarrow> bool" where
  "balanced E s ins new s1 \<longleftrightarrow>
     queue_ok 11 (fst (sc_ready s1)) \<and> \<not> has_extra_limits (fst (sc_ready s1)) \<and>
     (\<forall>el. of_bool (sc_queued s1 el) + owns_flag el ins + in_queue E s el =
        of_bool (sc_queued s el) + weight (owns_flag el) new + in_queue E s1 el) \<and>
     (\<forall>el. sc_refs s1 el + of_nat (owns_count el ins + in_queue E s el) =
        sc_refs s el + of_nat (weight (owns_count el) new + in_queue E s1 el)) \<and>
     (\<forall>el t b. se_token E el = Some t \<longrightarrow> get_buffer (snd (sc_ready s)) t = Some b \<longrightarrow> pool b = None \<longrightarrow>
        (\<exists>b1. get_buffer (snd (sc_ready s1)) t = Some b1 \<and> pool b1 = None \<and>
           refcount b1 + int (owns_ref t ins + count_list (ready s) t) =
           refcount b + int (weight (owns_ref t) new + count_list (ready s1) t))) \<and>
     (\<forall>t \<in> set (ready s1). \<exists>el. se_token E el = Some t) \<and> list_all (well_typed E) new \<and>
     (\<exists>n. sc_threads s1 = sc_threads s @ replicate n [Worker_loop])"

lemma balancedI:
  assumes "queue_ok 11 (fst (sc_ready s1))" "\<not> has_extra_limits (fst (sc_ready s1))"
    and "\<And>el. of_bool (sc_queued s1 el) + owns_flag el ins + in_queue E s el =
        of_bool (sc_queued s el) + weight (owns_flag el) new + in_queue E s1 el"
    and "\<And>el. sc_refs s1 el + of_nat (owns_count el ins + in_queue E s el) =
        sc_refs s el + of_nat (weight (owns_count el) new + in_queue E s1 el)"
    and "\<And>el t b. se_token E el = Some t \<Longrightarrow> get_buffer (snd (sc_ready s)) t = Some b \<Longrightarrow> pool b = None \<Longrightarrow>
        \<exists>b1. get_buffer (snd (sc_ready s1)) t = Some b1 \<and> pool b1 = None \<and>
           refcount b1 + int (owns_ref t ins + count_list (ready s) t) =
           refcount b + int (weight (owns_ref t) new + count_list (ready s1) t)"
    and "\<And>t. t \<in> set (ready s1) \<Longrightarrow> \<exists>el. se_token E el = Some t" and "list_all (well_typed E) new"
    and "sc_threads s1 = sc_threads s @ replicate n [Worker_loop]"
  shows "balanced E s ins new s1"
  unfolding balanced_def by (intro conjI allI impI ballI) (use assms in \<open>blast+\<close>)

lemma balanced_inv:
  assumes inv: "sched_inv E s" and i: "i < length (sc_threads s)" "sc_threads s ! i = ins # rest" and b: "balanced E s ins new s1"
  shows "sched_inv E (s1\<lparr>sc_threads := (sc_threads s1)[i := new @ rest]\<rparr>)"
proof -
  obtain n where n: "sc_threads s1 = sc_threads s @ replicate n [Worker_loop]" using b by (auto simp: balanced_def)
  let ?s = "s1\<lparr>sc_threads := (sc_threads s1)[i := new @ rest]\<rparr>"
  have t: "total f (sc_threads ?s) + f ins = total f (sc_threads s) + weight f new" if "f Worker_loop = 0" for f
    using total_exec [OF i, of f new] that i(1) by (simp add: n list_update_append)
  have q: "in_queue E ?s el = in_queue E s1 el" for el by (simp add: in_queue_def split: option.split)
  have flag: "of_bool (sc_queued s1 el) = total (owns_flag el) (sc_threads ?s) + in_queue E s1 el" for el
  proof -
    have "of_bool (sc_queued s1 el) + owns_flag el ins + in_queue E s el =
        of_bool (sc_queued s el) + weight (owns_flag el) new + in_queue E s1 el"
      "of_bool (sc_queued s el) = total (owns_flag el) (sc_threads s) + in_queue E s el"
      using b inv by (auto simp: balanced_def sched_inv_def)
    with t [of "owns_flag el"] show ?thesis by simp
  qed
  have count: "sc_refs s1 el = of_nat (total (owns_count el) (sc_threads ?s) + in_queue E s1 el)" for el
  proof -
    have "sc_refs s1 el + of_nat (owns_count el ins + in_queue E s el) =
        sc_refs s el + of_nat (weight (owns_count el) new + in_queue E s1 el)"
      "sc_refs s el = of_nat (total (owns_count el) (sc_threads s) + in_queue E s el)"
      using b inv by (auto simp: balanced_def sched_inv_def)
    moreover have "of_nat (total (owns_count el) (sc_threads ?s)) + of_nat (owns_count el ins) =
        (of_nat (total (owns_count el) (sc_threads s)) + of_nat (weight (owns_count el) new) :: u32)"
      using arg_cong [OF t [of "owns_count el"], of "of_nat :: nat \<Rightarrow> u32"] by simp
    moreover have "x = w + q1" if "x + (c + q) = r + (d + q1)" "r = p + q" "w + c = p + d" for x w q1 r c q d p :: u32
    proof -
      have "x + c + q = p + d + q1 + q" using that(1,2) by (simp add: algebra_simps)
      then have "x + c = w + c + q1" using that(3) by simp
      then show ?thesis by (simp add: algebra_simps)
    qed
    ultimately show ?thesis unfolding of_nat_add by blast
  qed
  have token: "token_ok ?s t" if tk: "se_token E el = Some t" for el t
  proof -
    obtain b0 where b0: "get_buffer (snd (sc_ready s)) t = Some b0" "pool b0 = None"
      "refcount b0 = 1 + int (total (owns_ref t) (sc_threads s) + count_list (ready s) t)"
      using inv tk unfolding sched_inv_def token_ok_def by blast
    obtain b1 where "get_buffer (snd (sc_ready s1)) t = Some b1" "pool b1 = None"
      "refcount b1 + int (owns_ref t ins + count_list (ready s) t) = refcount b0 + int (weight (owns_ref t) new + count_list (ready s1) t)"
      using b tk b0(1,2) unfolding balanced_def by blast
    with b0(3) t [of "owns_ref t"] show ?thesis by (auto simp: token_ok_def)
  qed
  have "list_all (well_typed E) p" if "p \<in> set (sc_threads ?s)" for p
  proof -
    have old: "\<forall>p \<in> set (sc_threads s). list_all (well_typed E) p" using inv by (simp add: sched_inv_def)
    moreover have "sc_threads s ! i \<in> set (sc_threads s)" using i(1) by simp
    ultimately have "list_all (well_typed E) rest" using i(2) by auto
    moreover have "p \<in> set (sc_threads s) \<or> p = new @ rest \<or> p = [Worker_loop]"
      using that set_update_subset_insert [of "sc_threads s1" i "new @ rest"] by (auto simp: n split: if_splits)
    ultimately show ?thesis using old b by (auto simp: balanced_def)
  qed
  with b flag count token show ?thesis unfolding sched_inv_def q by (simp add: balanced_def)
qed

lemma balanced_quiet:
  assumes "sched_inv E s" and "sc_ready s1 = sc_ready s" "sc_queued s1 = sc_queued s" "sc_refs s1 = sc_refs s" "sc_threads s1 = sc_threads s"
    and "\<And>x. weight (owns_flag x) new = owns_flag x ins" "\<And>x. weight (owns_count x) new = owns_count x ins"
    "\<And>x. weight (owns_ref x) new = owns_ref x ins" and "list_all (well_typed E) new"
  shows "balanced E s ins new s1"
proof -
  have "in_queue E s1 el = in_queue E s el" for el using assms(2) by (simp add: in_queue_def split: option.split)
  moreover have "\<exists>n. sc_threads s1 = sc_threads s @ replicate n [Worker_loop]" using assms(5) by (intro exI [of _ 0]) simp
  ultimately show ?thesis using assms by (simp add: balanced_def sched_inv_def)
qed

lemma get_buffer_ref: "get_buffer (snd (zst_buffer_ref (Some t) w)) x =
    (if x = t then map_option (\<lambda>b. b\<lparr>refcount := refcount b + 1\<rparr>) (get_buffer w t) else get_buffer w x)"
  by (auto simp: zst_buffer_ref_def get_buffer_def put_buffer_def split: option.splits cell.splits)

lemma get_buffer_unref:
  assumes "get_buffer w t = Some b" and "refcount b \<noteq> 1"
  shows "get_buffer (zst_buffer_unref (Some t) w) x = (if x = t then Some (b\<lparr>refcount := refcount b - 1\<rparr>) else get_buffer w x)"
  using assms by (auto simp: zst_buffer_unref_def Let_def get_buffer_def put_buffer_def split: option.splits cell.splits)

lemma weight_map_0: "(\<And>x. x \<in> set xs \<Longrightarrow> f (g x) = 0) \<Longrightarrow> weight f (map g xs) = 0"
  by (induction xs) auto

lemma owned_flag:
  assumes "sched_inv E s" and "i < length (sc_threads s)" "sc_threads s ! i = ins # rest"
  shows "owns_flag el ins \<le> of_bool (sc_queued s el)"
  using assms total_head [OF assms(2,3), of "owns_flag el"] by (simp add: sched_inv_def)

lemma env_okD: "env_ok E \<Longrightarrow> se_token E el = Some t \<Longrightarrow> se_owner E t = Some el"
  by (simp add: env_ok_def)

lemma token_inj: "env_ok E \<Longrightarrow> se_token E el = Some t \<Longrightarrow> se_token E el' = Some t \<longleftrightarrow> el' = el"
  by (metis env_okD option.inject)

lemma in_queue_snoc:
  assumes "env_ok E" and "se_token E el = Some t" and "ready s1 = ready s @ [t]"
  shows "in_queue E s1 x = in_queue E s x + of_bool (x = el)"
  using assms token_inj [OF assms(1,2), of x] by (auto simp: in_queue_def split: option.split)

lemma in_queue_cons:
  assumes "env_ok E" and "se_token E el = Some t" and "ready s = t # ready s1"
  shows "in_queue E s x = in_queue E s1 x + of_bool (x = el)"
  using assms token_inj [OF assms(1,2), of x] by (auto simp: in_queue_def split: option.split)

lemma in_queue_same: "ready s1 = ready s \<Longrightarrow> in_queue E s1 = in_queue E s"
  by (rule ext) (simp add: in_queue_def split: option.split)

lemma in_queue_upd [simp]:
  "in_queue E (s\<lparr>sc_queued := a\<rparr>) = in_queue E s" "in_queue E (s\<lparr>sc_refs := b\<rparr>) = in_queue E s"
  "in_queue E (s\<lparr>sc_threads := c\<rparr>) = in_queue E s" "in_queue E (s\<lparr>sc_workers := d\<rparr>) = in_queue E s"
  "in_queue E (s\<lparr>sc_ready := (fst (sc_ready s), w)\<rparr>) = in_queue E s" "in_queue E (s\<lparr>sc_state := e\<rparr>) = in_queue E s"
  by (rule in_queue_same, simp)+

lemma sched_invD:
  assumes "sched_inv E s"
  shows "queue_ok 11 (fst (sc_ready s))" "\<not> has_extra_limits (fst (sc_ready s))" "t \<in> set (ready s) \<Longrightarrow> \<exists>el. se_token E el = Some t"
    "se_token E el = Some t \<Longrightarrow> token_ok s t"
  using assms by (auto simp: sched_inv_def)

lemma balanced_exchange:
  assumes "sched_inv E s" and "exec E v (Exchange el) s = (new, s1)"
  shows "balanced E s (Exchange el) new s1"
proof -
  have s1: "s1 = s\<lparr>sc_queued := (sc_queued s)(el := True)\<rparr>"
    and new: "new = (if sc_queued s el then [] else (case se_token E el of Some t \<Rightarrow> [Ref_token el t] | None \<Rightarrow> [Clear_queued el]))"
    using assms(2) by auto
  then have q: "in_queue E s1 x = in_queue E s x" for x by simp
  show ?thesis
  proof (rule balancedI [where n = 0], goal_cases)
    case (3 x)
    show ?case unfolding q by (simp add: s1 new split: option.split)
  qed (use sched_invD(1-3) [OF assms(1)] in \<open>simp_all add: s1 new split: option.split\<close>)
qed

lemma balanced_ref:
  assumes "sched_inv E s" and "se_token E el = Some t" and "exec E v (Ref_token el t) s = (new, s1)"
  shows "balanced E s (Ref_token el t) new s1"
proof -
  have s1: "s1 = s\<lparr>sc_ready := (fst (sc_ready s), snd (zst_buffer_ref (Some t) (snd (sc_ready s))))\<rparr>" "new = [Count_task el t]"
    using assms(3) by auto
  show ?thesis
    by (rule balancedI [where n = 0]) (use assms(2) sched_invD(1-3) [OF assms(1)] in \<open>auto simp: s1 get_buffer_ref\<close>)
qed

lemma balanced_unref:
  assumes inv: "sched_inv E s" and i: "i < length (sc_threads s)" "sc_threads s ! i = Unref_token t # rest"
    and tk: "se_token E el = Some t" and ex: "exec E v (Unref_token t) s = (new, s1)"
  shows "balanced E s (Unref_token t) new s1"
proof -
  have s1: "s1 = s\<lparr>sc_ready := (fst (sc_ready s), zst_buffer_unref (Some t) (snd (sc_ready s)))\<rparr>" "new = []" using ex by auto
  obtain b where b: "get_buffer (snd (sc_ready s)) t = Some b"
    "refcount b = 1 + int (total (owns_ref t) (sc_threads s) + count_list (ready s) t)"
    using sched_invD(4) [OF inv tk] by (auto simp: token_ok_def)
  have "refcount b \<noteq> 1" using b(2) total_head [OF i, of "owns_ref t"] by simp
  note u = get_buffer_unref [OF b(1) this]
  show ?thesis by (rule balancedI [where n = 0]) (use sched_invD(1-3) [OF inv] b(1) in \<open>auto simp: s1 u\<close>)
qed

lemma balanced_clear:
  assumes inv: "sched_inv E s" and i: "i < length (sc_threads s)" "sc_threads s ! i = Clear_queued el # rest"
    and ex: "exec E v (Clear_queued el) s = (new, s1)"
  shows "balanced E s (Clear_queued el) new s1"
proof -
  have s1: "s1 = s\<lparr>sc_queued := (sc_queued s)(el := False)\<rparr>" "new = []" using ex by auto
  have "sc_queued s el" using owned_flag [OF inv i, of el] by (cases "sc_queued s el") auto
  then show ?thesis by (intro balancedI [where n = 0]) (use sched_invD(1-3) [OF inv] in \<open>auto simp: s1\<close>)
qed

lemma balanced_count:
  assumes "sched_inv E s" and "se_token E el = Some t" and "exec E v (Count_task el t) s = (new, s1)"
  shows "balanced E s (Count_task el t) new s1"
  by (rule balancedI [where n = 0]) (use assms sched_invD(1-3) [OF assms(1)] in \<open>auto\<close>)

lemma balanced_uncount:
  assumes "sched_inv E s" and "exec E v (Uncount_task el) s = (new, s1)"
  shows "balanced E s (Uncount_task el) new s1"
  by (rule balancedI [where n = 0]) (use assms sched_invD(1-3) [OF assms(1)] in \<open>auto\<close>)

lemma balanced_spawn:
  assumes "sched_inv E s" and "exec E v Spawn s = (new, s1)" shows "balanced E s Spawn new s1"
  by (rule balancedI [where n = "if se_mode E = ZST_SCHEDULER_MULTI_THREAD then se_worker_threads E else 1"])
    (use assms(2) sched_invD(1-3) [OF assms(1)] in \<open>auto simp: Let_def\<close>)

lemma queue_keeps_limits:
  "has_extra_limits (fst (queue_store p a x)) = has_extra_limits (fst x)"
  "has_extra_limits (fst (snd (queue_fetch p x))) = has_extra_limits (fst x)"
  by (cases x; simp add: queue_store_def queue_fetch_def Let_def split: option.split)+

lemma store_heap: "get_buffer (snd x) a \<noteq> None \<Longrightarrow> snd (queue_store p a x) = snd (zst_buffer_ref (Some a) (snd x))"
  by (cases x) (auto simp: queue_store_def split: option.split)

text \<open>The two calls of the ready queue.\<close>

lemma push_ready:
  assumes inv: "sched_inv E s" and tk: "se_token E el = Some t" and p: "zst_queue_push (Some t) 0 [] (sc_ready s) = (r, q)"
  shows "queue_ok 11 (fst q) \<and> \<not> has_extra_limits (fst q) \<and>
    (if r = Done ZST_OK () then contents (fst q) = ready s @ [t] \<and> snd q = snd (zst_buffer_ref (Some t) (snd (sc_ready s)))
     else q = sc_ready s)"
proof -
  obtain z w where zw: "sc_ready s = (z, w)" by fastforce
  have z: "queue_ok 11 z" "\<not> has_extra_limits z" using sched_invD(1,2) [OF inv] zw by simp_all
  obtain b where b: "get_buffer w t = Some b" using sched_invD(4) [OF inv tk] zw by (auto simp: token_ok_def)
  show ?thesis
  proof (cases "queue_room z")
    case True
    then have q: "r = Done ZST_OK ()" "q = queue_store (q_tail z) t (z, w)"
      using push_room [OF z(1) True, of w t 0 "[]"] b p zw by (auto simp del: zst_queue_push.simps)
    from q(2) have "queue_ok 11 (fst q)" "contents (fst q) = contents z @ [t]"
      using queue_store_contents [OF z(1) True b, of "fst q" "snd q"] by simp_all
    then show ?thesis
      using queue_keeps_limits(1) [of "q_tail z" t "(z, w)"] z(2) b store_heap [of "(z, w)" t "q_tail z"] zw q by simp
  next
    case False
    then have "r \<noteq> Done ZST_OK ()" "q = (z, w)"
      using push_no_room [OF z(1) False, of w t 0 "[]"] b p zw by (auto simp del: zst_queue_push.simps split: if_splits)
    then show ?thesis using z zw by simp
  qed
qed

lemma pop_ready:
  assumes inv: "sched_inv E s" and p: "zst_queue_pop ms env (sc_ready s) = (c, q)"
    and e: "ms = 0 \<and> env = [] \<or> ms = 2 \<and> env = [(\<lambda>x. x, True)]"
  shows "queue_ok 11 (fst q) \<and> \<not> has_extra_limits (fst q) \<and> snd q = snd (sc_ready s) \<and>
    (if ready s = [] then (\<exists>r. c = Done r None \<and> r \<noteq> ZST_OK) \<and> q = sc_ready s
     else c = Done ZST_OK (Some (hd (ready s))) \<and> ready s = hd (ready s) # contents (fst q))"
proof -
  obtain z w where zw: "sc_ready s = (z, w)" by fastforce
  have z: "queue_ok 11 z" "\<not> has_extra_limits z" using sched_invD(1,2) [OF inv] zw by simp_all
  show ?thesis
  proof (cases "queue_len z = 0")
    case True
    then have "ready s = []" using zw length_contents [of z] by (simp del: length_contents)
    moreover have "\<exists>r. c = Done r None \<and> r \<noteq> ZST_OK" "q = (z, w)"
      using pop_none [OF z(1) True, of ms env w] p zw e by (auto simp del: zst_queue_pop.simps)
    ultimately show ?thesis using z zw by simp
  next
    case False
    then have ne: "ready s \<noteq> []" using zw length_contents [of z] by (auto simp del: length_contents)
    obtain q' where "zst_queue_pop ms env (z, w) = (Done ZST_OK (Some (hd (contents z))), (q', w))"
      "queue_fetch (q_head z) (z, w) = (Some (hd (contents z)), (q', w))" "queue_ok 11 q'" "contents z = hd (contents z) # contents q'"
      using pop_some [OF z(1), of ms env w] False by blast
    moreover from this(2) have "has_extra_limits q' = has_extra_limits z" using queue_keeps_limits(2) [of "q_head z" "(z, w)"] by simp
    ultimately show ?thesis using p zw z ne by (auto simp del: zst_queue_pop.simps)
  qed
qed

lemma balanced_push:
  assumes env: "env_ok E" and inv: "sched_inv E s" and tk: "se_token E el = Some t" and ex: "exec E v (Push_task el t) s = (new, s1)"
  shows "balanced E s (Push_task el t) new s1"
proof -
  obtain r q where p: "zst_queue_push (Some t) 0 [] (sc_ready s) = (r, q)" by (rule prod.exhaust)
  note f = push_ready [OF inv tk p]
  have s1: "s1 = s\<lparr>sc_ready := q\<rparr>" and new: "new = (if r = Done ZST_OK () then [Unref_token t] else [Uncount_task el, Unref_token t, Clear_queued el])"
    using ex p by (auto simp del: zst_queue_push.simps)
  show ?thesis
  proof (cases "r = Done ZST_OK ()")
    case True
    then have rd: "ready s1 = ready s @ [t]" and w: "snd (sc_ready s1) = snd (zst_buffer_ref (Some t) (snd (sc_ready s)))" using f s1 by simp_all
    note q = in_queue_snoc [OF env tk rd]
    show ?thesis
    proof (rule balancedI [where n = 0], goal_cases)
      case (5 x t' b)
      then show ?case using True by (auto simp: w rd get_buffer_ref new)
    next
      case (6 t')
      then show ?case using rd sched_invD(3) [OF inv] tk by auto
    qed (use f True tk in \<open>auto simp: s1 new q [unfolded s1]\<close>)
  next
    case False
    then have "q = sc_ready s" using f by simp
    then have "s1 = s" using s1 by simp
    with False show ?thesis
      by (intro balancedI [where n = 0]) (use sched_invD(1-3) [OF inv] tk in \<open>auto simp: new\<close>)
  qed
qed

text \<open>What a pop leaves to do gives back what the token had in the queue.\<close>

lemma balanced_pop:
  assumes env: "env_ok E" and inv: "sched_inv E s" and rd: "ready s = t # contents (fst q)"
    and q: "queue_ok 11 (fst q)" "\<not> has_extra_limits (fst q)" "snd q = snd (sc_ready s)"
    and ins: "\<And>x. owns_flag x ins = 0 \<and> owns_count x ins = 0 \<and> owns_ref x ins = 0"
    and tk: "se_token E el = Some t"
    and new: "\<And>x. weight (owns_flag x) new = of_bool (x = el)" "\<And>x. weight (owns_count x) new = of_bool (x = el)"
      "\<And>x. weight (owns_ref x) new = of_bool (x = t)" "list_all (well_typed E) new"
  shows "balanced E s ins new (s\<lparr>sc_ready := q\<rparr>)"
proof -
  have i: "in_queue E s x = in_queue E (s\<lparr>sc_ready := q\<rparr>) x + of_bool (x = el)" for x
    by (rule in_queue_cons [OF env tk]) (simp add: rd)
  show ?thesis
    by (rule balancedI [where n = 0]) (use sched_invD(3) [OF inv] in \<open>auto simp: rd q ins new i\<close>)
qed

lemma hd_ready_token: "sched_inv E s \<Longrightarrow> ready s \<noteq> [] \<Longrightarrow> \<exists>el. se_token E el = Some (hd (ready s))"
  using sched_invD(3) hd_in_set by blast

lemma balanced_pop_task:
  assumes env: "env_ok E" and inv: "sched_inv E s" and ex: "exec E v Pop_task s = (new, s1)"
  shows "balanced E s Pop_task new s1"
proof -
  obtain c q where p: "zst_queue_pop 2 [(\<lambda>x. x, True)] (sc_ready s) = (c, q)" by (rule prod.exhaust)
  note f = pop_ready [OF inv p]
  show ?thesis
  proof (cases "ready s = []")
    case True
    then have "q = sc_ready s" "new = [Queue_roots True, Worker_loop]" "s1 = s\<lparr>sc_ready := q\<rparr>"
      using f ex p by (auto simp del: zst_queue_pop.simps split: zst_result.splits)
    then show ?thesis using inv by (intro balanced_quiet) auto
  next
    case False
    let ?t = "hd (ready s)"
    obtain el where tk: "se_token E el = Some ?t" using hd_ready_token [OF inv False] by blast
    then have "new = [Check_state el, Uncount_task el, Unref_token ?t, Worker_loop]" "s1 = s\<lparr>sc_ready := q\<rparr>"
      using f ex p False env env_okD [OF env tk]
      by (auto simp: zst_scheduler_release_task_buffer_def env_ok_def simp del: zst_queue_pop.simps)
    then show ?thesis using balanced_pop [OF env inv, of ?t q Pop_task el new] f False tk by (auto simp: eq_commute)
  qed
qed

lemma balanced_drain:
  assumes env: "env_ok E" and inv: "sched_inv E s" and ex: "exec E v Drain s = (new, s1)"
  shows "balanced E s Drain new s1"
proof -
  obtain c q where p: "zst_queue_pop 0 [] (sc_ready s) = (c, q)" by (rule prod.exhaust)
  note f = pop_ready [OF inv p]
  show ?thesis
  proof (cases "ready s = []")
    case True
    then have "q = sc_ready s" "new = []" "s1 = s\<lparr>sc_ready := q\<rparr>"
      using f ex p by (auto simp del: zst_queue_pop.simps split: zst_result.splits)
    then show ?thesis using inv by (intro balanced_quiet) auto
  next
    case False
    let ?t = "hd (ready s)"
    obtain el where tk: "se_token E el = Some ?t" using hd_ready_token [OF inv False] by blast
    then have "new = [Clear_queued el, Uncount_task el, Unref_token ?t, Drain]" "s1 = s\<lparr>sc_ready := q\<rparr>"
      using f ex p False env_okD [OF env tk]
      by (auto simp: zst_scheduler_release_task_buffer_def simp del: zst_queue_pop.simps)
    then show ?thesis using balanced_pop [OF env inv, of ?t q Drain el new] f False tk by (auto simp: eq_commute)
  qed
qed

lemma after_process_owns:
  "weight (owns_flag x) (after_process E v el src) = of_bool (el = x)" "weight (owns_count x) (after_process E v el src) = 0"
  "weight (owns_ref x) (after_process E v el src) = 0" "list_all (well_typed E) (after_process E v el src)"
  by (auto simp: after_process_def split: zst_result.split option.split)

lemma pushed_owns [simp]:
  "weight (owns_flag x) (pushed E v) = 0" "weight (owns_count x) (pushed E v) = 0" "weight (owns_ref x) (pushed E v) = 0"
  "list_all (well_typed E) (pushed E v)"
  by (auto simp: pushed_def list_all_iff intro: weight_map_0)

lemma exec_balanced:
  assumes env: "env_ok E" and inv: "sched_inv E s" and i: "i < length (sc_threads s)" "sc_threads s ! i = ins # rest"
    and ex: "exec E v ins s = (new, s1)"
  shows "balanced E s ins new s1"
proof -
  have "list_all (well_typed E) (sc_threads s ! i)" using inv i(1) by (simp add: sched_inv_def)
  then have wt: "well_typed E ins" using i(2) by simp
  note quiet = balanced_quiet [OF inv]
  note maps = weight_map_0 list_all_iff
  show ?thesis
  proof (cases ins)
    case (Exchange el)
    then show ?thesis using balanced_exchange [OF inv] ex by blast
  next
    case (Ref_token el t)
    then show ?thesis using balanced_ref [OF inv] ex wt by (simp del: exec.simps)
  next
    case (Count_task el t)
    then show ?thesis using balanced_count [OF inv] ex wt by (simp del: exec.simps)
  next
    case (Push_task el t)
    then show ?thesis using balanced_push [OF env inv] ex wt by (simp del: exec.simps)
  next
    case (Clear_queued el)
    then show ?thesis using balanced_clear [OF inv i(1)] i(2) ex by blast
  next
    case (Uncount_task el)
    then show ?thesis using balanced_uncount [OF inv] ex by blast
  next
    case (Unref_token t)
    then show ?thesis using balanced_unref [OF inv i(1)] i(2) ex wt by (auto simp del: exec.simps)
  next
    case Pop_task
    then show ?thesis using balanced_pop_task [OF env inv] ex by blast
  next
    case Spawn
    then show ?thesis using balanced_spawn [OF inv] ex by blast
  next
    case Drain
    then show ?thesis using balanced_drain [OF env inv] ex by blast
  next
    case (In_process el src)
    then show ?thesis using ex by (intro quiet) (auto simp: after_process_owns)
  next
    case (Do a)
    then show ?thesis using ex by (intro quiet) (auto split: sched_action.splits)
  next
    case (Queue_roots po)
    then show ?thesis using ex by (intro quiet) (auto simp: maps split: if_splits)
  next
    case Start_workers
    then show ?thesis using ex by (intro quiet) (auto simp: maps split: if_splits)
  qed (use ex in \<open>(intro quiet; force split: if_splits)+\<close>)
qed

lemma sched_step_inv:
  assumes "env_ok E" and "sched_step E s s'" and "sched_inv E s" shows "sched_inv E s'"
  using assms(2)
proof cases
  case (execute i ins rest v new s1)
  then show ?thesis using balanced_inv [OF assms(3)] exec_balanced [OF assms(1,3)] by blast
next
  case (control c)
  have "total f ((sc_threads s)[0 := [c]]) = total f (sc_threads s)" if "f c = 0" for f
    using total_update [OF control(2), of f "[c]"] control(3) that by simp
  moreover have "in_queue E s' = in_queue E s" using control by simp
  ultimately show ?thesis using control assms(3)
    by (auto simp: sched_inv_def token_ok_def dest: set_update_subset_insert [THEN subsetD])
next
  case (wake i)
  have "total f ((sc_threads s)[i := [Wake]]) = total f (sc_threads s)" if "f Wake = 0" for f
    using total_update [OF wake(2), of f "[Wake]"] wake(4) that by simp
  moreover have "in_queue E s' = in_queue E s" using wake by simp
  ultimately show ?thesis using wake assms(3)
    by (auto simp: sched_inv_def token_ok_def dest: set_update_subset_insert [THEN subsetD])
next
  case (change st)
  then show ?thesis using assms(3) by (simp add: sched_inv_def token_ok_def)
qed

lemma sched_reach_inv:
  assumes "sched_reach E s0 s" and "env_ok E" and "sched_inv E s0" shows "sched_inv E s"
  using assms by (induction rule: sched_reach.induct) (auto intro: sched_step_inv)

text \<open>A new scheduler, when every element's token has the one reference of its element.\<close>

definition tokens_unused :: "sched_env \<Rightarrow> world \<Rightarrow> bool" where
  "tokens_unused E w \<longleftrightarrow> (\<forall>el t. se_token E el = Some t \<longrightarrow> (\<exists>b. get_buffer w t = Some b \<and> refcount b = 1 \<and> pool b = None))"

lemma ready_queue_created:
  assumes "zst_queue_create (Some \<lparr>qc_mode = ZST_QUEUE_SYNC, qc_max_buffers = 2048, qc_max_bytes = 0, qc_max_duration = 0\<rparr>) True True = Some q"
  shows "queue_ok 11 q \<and> \<not> has_extra_limits q \<and> contents q = []"
proof -
  have n: "next_power_of_two 2048 = 2048" by code_simp
  obtain k where k: "queue_ok k q" "contents q = []" by (rule queue_create_ok [OF assms]) auto
  have q: "q_capacity q = 2048" "\<not> has_extra_limits q" using assms by (auto simp: zst_queue_create_def n Let_def)
  have "unat (2 ^ k :: u32) = 2 ^ k" "k \<le> 31" using k(1) unat_exp [of k, where ?'a = 32] by (simp_all add: queue_ok_def ring_ok_def)
  moreover have "(2048 :: u32) = 2 ^ k" using k(1) q(1) by (simp add: queue_ok_def ring_ok_def)
  ultimately have "(2 :: nat) ^ k = 2 ^ 11" by simp
  then have "k = 11" using power_inject_exp [of "2 :: nat" k 11] by simp
  then show ?thesis using k q by simp
qed

lemma created_inv:
  assumes "zst_scheduler_create sched_ok priv_ok n st w = Some s" and "tokens_unused E w"
  shows "sched_inv E s"
proof -
  obtain q where q: "queue_ok 11 q" "\<not> has_extra_limits q" "contents q = []"
    and s: "s = \<lparr>sc_running = False, sc_ready = (q, w), sc_queued = (\<lambda>_. False), sc_refs = (\<lambda>_. 0), sc_state = st,
                            sc_threads = replicate n [], sc_workers = [], sc_log = []\<rparr>"
    using assms(1) ready_queue_created by (auto simp: zst_scheduler_create_def split: if_splits)
  then have "in_queue E s el = 0" for el by (simp add: in_queue_def split: option.split)
  then show ?thesis using q assms(2) by (auto simp: sched_inv_def s token_ok_def tokens_unused_def) (blast+)
qed

section \<open>A scheduler with one element\<close>

text \<open>A run given by the threads that move and what they find.\<close>

fun run_threads :: "sched_env \<Rightarrow> (nat \<times> view) list \<Rightarrow> sched \<Rightarrow> sched option" where
  "run_threads E [] s = Some s"
| "run_threads E ((i, v) # ms) s =
     (if i < length (sc_threads s) then
        (case sc_threads s ! i of [] \<Rightarrow> None
         | ins # rest \<Rightarrow>
             if ready_to_run s ins
             then (case exec E v ins s of (new, s1) \<Rightarrow> run_threads E ms (s1\<lparr>sc_threads := (sc_threads s1)[i := new @ rest]\<rparr>))
             else None)
      else None)"

lemma run_threads_reach:
  "run_threads E ms s = Some s' \<Longrightarrow> sched_reach E s0 s \<Longrightarrow> sched_reach E s0 s'"
proof (induction ms arbitrary: s)
  case (Cons m ms)
  obtain i v where m: "m = (i, v)" by (rule prod.exhaust)
  obtain ins rest new s1 where st: "i < length (sc_threads s)" "sc_threads s ! i = ins # rest" "ready_to_run s ins" "exec E v ins s = (new, s1)"
    "run_threads E ms (s1\<lparr>sc_threads := (sc_threads s1)[i := new @ rest]\<rparr>) = Some s'"
    using Cons.prems(1) by (auto simp: m simp del: exec.simps split: if_splits list.splits prod.splits)
  show ?case using Cons.IH [OF st(5)] sched_reach.step [OF Cons.prems(2) sched_step.execute [OF st(1-4)]] by blast
qed simp

definition one_element :: sched_env where
  "one_element = \<lparr>se_token = (\<lambda>el. if el = 1 then Some 5 else None), se_owner = (\<lambda>t. if t = 5 then Some 1 else None), se_process = (\<lambda>_. True), se_takes = (\<lambda>_. False),
     se_bus = (\<lambda>_. False), se_attached = True, se_mode = ZST_SCHEDULER_SINGLE_THREAD, se_worker_threads = 0\<rparr>"

definition sees :: view where
  "sees = \<lparr>v_elements = [1], v_roots = [1], v_sink_pads = (\<lambda>_. 0), v_src_pad = (\<lambda>_. False), v_pushed = [], v_ret = ZST_OK, v_out = None,
     v_clock_sync = False, v_clock = None, v_now = 0, v_base_time = 0, v_malloc_ok = True\<rparr>"

definition token_world :: world where
  "token_world = \<lparr>malloc_ok = (\<lambda>_. True), attempts = 6, heap = [5 \<mapsto> Buffer ((zero_buffer 0)\<lparr>refcount := 1\<rparr>)], trace = []\<rparr>"

lemma one_element_ok: "env_ok one_element" "tokens_unused one_element token_world"
  by (auto simp: env_ok_def tokens_unused_def one_element_def token_world_def get_buffer_def zero_buffer_def split: if_splits)

definition created :: sched where
  "created = the (zst_scheduler_create True True 2 (\<lambda>_. ZST_STATE_PLAYING) token_world)"

lemma created_facts:
  obtains q where "zst_scheduler_create True True 2 (\<lambda>_. ZST_STATE_PLAYING) token_world = Some created"
    "created = \<lparr>sc_running = False, sc_ready = (q, token_world), sc_queued = (\<lambda>_. False), sc_refs = (\<lambda>_. 0), sc_state = (\<lambda>_. ZST_STATE_PLAYING),
       sc_threads = [[], []], sc_workers = [], sc_log = []\<rparr>"
    "queue_ok 11 q" "contents q = []"
proof -
  let ?c = "\<lparr>qc_mode = ZST_QUEUE_SYNC, qc_max_buffers = 2048, qc_max_bytes = 0, qc_max_duration = 0\<rparr>"
  have "zst_queue_create (Some c) True True \<noteq> None" for c by (simp add: zst_queue_create_def Let_def)
  from this [of ?c] obtain q where q: "zst_queue_create (Some ?c) True True = Some q" by (rule not_None_eq [THEN iffD1, THEN exE])
  have two: "replicate 2 [] = [[], [] :: instr list]" by (simp add: eval_nat_numeral)
  have c: "zst_scheduler_create True True 2 (\<lambda>_. ZST_STATE_PLAYING) token_world =
      Some \<lparr>sc_running = False, sc_ready = (q, token_world), sc_queued = (\<lambda>_. False), sc_refs = (\<lambda>_. 0), sc_state = (\<lambda>_. ZST_STATE_PLAYING),
       sc_threads = [[], []], sc_workers = [], sc_log = []\<rparr>"
    unfolding zst_scheduler_create_def q two by (simp only: if_False HOL.simp_thms option.map)
  then have cr: "created = \<lparr>sc_running = False, sc_ready = (q, token_world), sc_queued = (\<lambda>_. False), sc_refs = (\<lambda>_. 0),
       sc_state = (\<lambda>_. ZST_STATE_PLAYING), sc_threads = [[], []], sc_workers = [], sc_log = []\<rparr>"
    unfolding created_def by (simp only: option.sel)
  show thesis by (rule that [OF c [folded cr] cr]) (use ready_queue_created [OF q] in blast)+
qed

text \<open>The scheduler is run; the first task is about to enter the ready queue.\<close>

lemma about_to_push:
  obtains s where "sched_reach one_element created s" "sc_threads s = [[Push_task 1 5, Spawn], []]" "sc_running s"
    "snd (sc_ready s) = snd (zst_buffer_ref (Some 5) token_world)" "ready s = []" "sc_state s = (\<lambda>_. ZST_STATE_PLAYING)"
proof -
  obtain q where c: "created = \<lparr>sc_running = False, sc_ready = (q, token_world), sc_queued = (\<lambda>_. False), sc_refs = (\<lambda>_. 0),
      sc_state = (\<lambda>_. ZST_STATE_PLAYING), sc_threads = [[], []], sc_workers = [], sc_log = []\<rparr>" "contents q = []"
    using created_facts by blast
  have r: "sched_reach one_element created (created\<lparr>sc_threads := [[Run_sched], []]\<rparr>)"
    using sched_reach.step [OF sched_reach.start sched_step.control [of created Run_sched]] by (simp add: c)
  let ?s = "\<lparr>sc_running = True, sc_ready = (q, snd (zst_buffer_ref (Some 5) token_world)), sc_queued = (\<lambda>_. False)(1 := True),
      sc_refs = (\<lambda>_. 0)(1 := 1), sc_state = (\<lambda>_. ZST_STATE_PLAYING), sc_threads = [[Push_task 1 5, Spawn], []], sc_workers = [],
      sc_log = [Sort_pipeline, Size_all_pools]\<rparr>"
  have "run_threads one_element (replicate 8 (0, sees)) (created\<lparr>sc_threads := [[Run_sched], []]\<rparr>) = Some ?s"
    by (simp add: c ready_to_run_def one_element_def sees_def numeral_eq_Suc)
  from run_threads_reach [OF this r] that [of ?s] c(2) show thesis by simp
qed

section \<open>Properties\<close>

lemma count_le_1_distinct: "(\<And>t. count_list xs t \<le> 1) \<Longrightarrow> distinct xs"
proof (induction xs)
  case (Cons x xs)
  have "count_list xs t \<le> 1" for t using Cons.prems [of t] by (cases "x = t") auto
  moreover have "count_list xs x = 0" using Cons.prems [of x] by simp
  ultimately show ?case using Cons.IH by (simp add: count_list_0_iff)
qed simp

lemma ready_distinct:
  assumes "sched_inv E s" shows "distinct (ready s)"
proof (rule count_le_1_distinct)
  fix t
  show "count_list (ready s) t \<le> 1"
  proof (cases "t \<in> set (ready s)")
    case True
    then obtain el where "se_token E el = Some t" using sched_invD(3) [OF assms] by blast
    moreover have "of_bool (sc_queued s el) = total (owns_flag el) (sc_threads s) + in_queue E s el" using assms by (simp add: sched_inv_def)
    ultimately show ?thesis by (cases "sc_queued s el") (auto simp: in_queue_def)
  qed (simp add: count_list_0_iff)
qed








text \<open>C34: no task is lost or forgotten.  At any time the flag \<open>is_queued\<close> of an element, its counter \<open>sched_task_refs\<close>
  and the references on its token are accounted for by its one place in the ready queue and by what the threads
  still have to give back; an element is in the ready queue at most once, its token is never freed, and when all
  threads are done and the queue is empty, every element is free again.\<close>

theorem tasks_accounted:
  assumes "zst_scheduler_create a b n st w = Some s0" and "env_ok E" and "tokens_unused E w" and "sched_reach E s0 s"
  shows "distinct (ready s) \<and>
    (\<forall>el. of_bool (sc_queued s el) = in_queue E s el + total (owns_flag el) (sc_threads s)) \<and>
    (\<forall>el. sc_refs s el = of_nat (in_queue E s el + total (owns_count el) (sc_threads s))) \<and>
    (\<forall>el t. se_token E el = Some t \<longrightarrow> (\<exists>b. get_buffer (snd (sc_ready s)) t = Some b \<and>
       refcount b = 1 + int (count_list (ready s) t + total (owns_ref t) (sc_threads s)))) \<and>
    (ready s = [] \<and> concat (sc_threads s) = [] \<longrightarrow> (\<forall>el. \<not> sc_queued s el \<and> sc_refs s el = 0))"
proof -
  have inv: "sched_inv E s" using sched_reach_inv [OF assms(4,2) created_inv [OF assms(1,3)]] .
  have flag: "of_bool (sc_queued s el) = in_queue E s el + total (owns_flag el) (sc_threads s)"
    and count: "sc_refs s el = of_nat (in_queue E s el + total (owns_count el) (sc_threads s))" for el
    using inv by (simp_all add: sched_inv_def add.commute)
  have d: "distinct (ready s)" using ready_distinct [OF inv] .
  have idle: "\<not> sc_queued s el \<and> sc_refs s el = 0" if e: "ready s = []" "concat (sc_threads s) = []" for el
  proof -
    have z: "total f (sc_threads s) = 0" for f using e(2) by (auto simp: total_def weight_def)
    have "in_queue E s el = 0" using e(1) by (simp add: in_queue_def split: option.split)
    then show ?thesis using flag [of el] count [of el] z by (cases "sc_queued s el") auto
  qed
  have "\<forall>el t. se_token E el = Some t \<longrightarrow> (\<exists>b. get_buffer (snd (sc_ready s)) t = Some b \<and>
       refcount b = 1 + int (count_list (ready s) t + total (owns_ref t) (sc_threads s)))"
    using sched_invD(4) [OF inv] by (fastforce simp: token_ok_def add.commute)
  with d flag count idle show ?thesis by blast
qed

lemma push_accepted:
  assumes inv: "sched_inv E s" and "env_ok E" and "finite T" "card T \<le> 2048" "\<forall>el t. se_token E el = Some t \<longrightarrow> t \<in> T"
    and i: "i < length (sc_threads s)" "sc_threads s ! i = Push_task el t # rest" and ex: "exec E v (Push_task el t) s = (new, s1)"
  shows "new = [Unref_token t] \<and> ready s1 = ready s @ [t]"
proof -
  have "list_all (well_typed E) (sc_threads s ! i)" using inv i(1) by (simp add: sched_inv_def)
  then have tk: "se_token E el = Some t" using i(2) by simp
  have one: "1 \<le> total (owns_flag el) (sc_threads s)" using total_head [OF i, of "owns_flag el"] by simp
  have "of_bool (sc_queued s el) = total (owns_flag el) (sc_threads s) + in_queue E s el" using inv by (simp add: sched_inv_def)
  with one have "in_queue E s el = 0" by (cases "sc_queued s el") auto
  then have "t \<notin> set (ready s)" using tk by (simp add: in_queue_def count_list_0_iff)
  then have "set (ready s) \<subseteq> T - {t}" using sched_invD(3) [OF inv] assms(5) by blast
  moreover have "t \<in> T" using tk assms(5) by blast
  moreover have "distinct (ready s)" using ready_distinct [OF inv] .
  ultimately have "length (ready s) \<le> card (T - {t})" using assms(3) by (metis card_mono distinct_card finite_Diff)
  then have len: "queue_len (fst (sc_ready s)) < 2048" using assms(3,4) \<open>t \<in> T\<close> by (simp add: card_Diff_singleton)
  have q: "queue_ok 11 (fst (sc_ready s))" "\<not> has_extra_limits (fst (sc_ready s))" using sched_invD(1,2) [OF inv] .
  then have room: "queue_room (fst (sc_ready s))" using len by (simp add: queue_room_def queue_ok_def ring_ok_def)
  obtain r q1 where p: "zst_queue_push (Some t) 0 [] (sc_ready s) = (r, q1)" by (rule prod.exhaust)
  have "get_buffer (snd (sc_ready s)) t \<noteq> None" using sched_invD(4) [OF inv tk] by (auto simp: token_ok_def)
  with push_room [OF q(1) room] p have "r = Done ZST_OK ()" by (metis fst_conv prod.collapse)
  with push_ready [OF inv tk p] p ex show ?thesis by (auto simp del: zst_queue_push.simps)
qed

text \<open>C35: the ready queue of 2048 slots never refuses a task while the elements that have a token are at most 2048: the push
  succeeds at once and the task is last in the queue.\<close>

theorem push_never_refused:
  assumes "zst_scheduler_create a b n st w = Some s0" and "env_ok E" and "tokens_unused E w" and "sched_reach E s0 s"
    and "finite T" "card T \<le> 2048" "\<forall>el t. se_token E el = Some t \<longrightarrow> t \<in> T"
    and "i < length (sc_threads s)" "sc_threads s ! i = Push_task el t # rest" and "exec E v (Push_task el t) s = (new, s1)"
  shows "new = [Unref_token t] \<and> ready s1 = ready s @ [t]"
  using push_accepted [OF sched_reach_inv [OF assms(4,2) created_inv [OF assms(1,3)]] assms(2,5-10)] .

lemma one_element_simps:
  "se_token one_element (Suc 0) = Some 5" "se_token one_element el = Some t \<longleftrightarrow> el = Suc 0 \<and> t = 5" "se_owner one_element 5 = Some (Suc 0)"
  "se_process one_element el" "se_attached one_element" "se_mode one_element = ZST_SCHEDULER_SINGLE_THREAD"
  by (auto simp: one_element_def)

lemma sees_simps: "v_elements sees = [Suc 0]" "v_roots sees = [Suc 0]" "v_sink_pads sees el = 0"
  by (simp_all add: sees_def)

lemma third: "[a, b, c] ! 2 = c" "[a, b, c][2 := d] = [a, b, d]"
  by (simp_all add: numeral_2_eq_2)

lemma created_from:
  "zst_scheduler_create True True 2 (\<lambda>_. ZST_STATE_PLAYING) token_world = Some created"
  by (rule created_facts)

theorem tasks_accounted_witness:
  "\<exists>s. sched_reach one_element created s \<and> sc_queued s 1 \<and> sc_refs s 1 = 1 \<and>
     (\<exists>b. get_buffer (snd (sc_ready s)) 5 = Some b \<and> refcount b = 2)"
proof -
  obtain s where s: "sched_reach one_element created s" "sc_threads s = [[Push_task 1 5, Spawn], []]" "ready s = []"
    by (rule about_to_push)
  from tasks_accounted [OF created_from one_element_ok s(1)] have
    "\<forall>el. of_bool (sc_queued s el) = in_queue one_element s el + total (owns_flag el) (sc_threads s)"
    "\<forall>el. sc_refs s el = of_nat (in_queue one_element s el + total (owns_count el) (sc_threads s))"
    "\<forall>el t. se_token one_element el = Some t \<longrightarrow> (\<exists>b. get_buffer (snd (sc_ready s)) t = Some b \<and>
       refcount b = 1 + int (count_list (ready s) t + total (owns_ref t) (sc_threads s)))" by blast+
  from this(1) [THEN spec, of 1] this(2) [THEN spec, of 1] this(3) [THEN spec, of 1] s
  show ?thesis by (cases "sc_queued s 1") (auto simp: in_queue_def one_element_simps intro!: exI [of _ s])
qed

theorem push_never_refused_witness:
  "\<exists>s new s1. sched_reach one_element created s \<and> exec one_element sees (Push_task 1 5) s = (new, s1) \<and> new = [Unref_token 5] \<and> ready s1 = [5]"
proof -
  obtain s where s: "sched_reach one_element created s" "sc_threads s = [[Push_task 1 5, Spawn], []]" "ready s = []"
    by (rule about_to_push)
  obtain new s1 where e: "exec one_element sees (Push_task 1 5) s = (new, s1)" by (rule prod.exhaust)
  have "new = [Unref_token 5] \<and> ready s1 = ready s @ [5]"
    by (rule push_never_refused [OF created_from one_element_ok s(1), of "{5}" 0 1 5 "[Spawn]" sees])
      (use s e in \<open>auto simp: one_element_simps\<close>)
  with s e show ?thesis by auto
qed



text \<open>Stopping does not wait for the threads that wake the scheduler: one that had seen it running queues its task after the
  queue was drained.  The scheduler is stopped and all threads are idle, but the element still counts a task, and
  whoever waits for its tasks to end, as a removal from the pipeline does, waits for ever.\<close>

lemma stop_leaves_task:
  "\<exists>s. sched_reach one_element created s \<and> \<not> sc_running s \<and> concat (sc_threads s) = [] \<and> ready s = [5] \<and> sc_refs s 1 = 1 \<and> sc_queued s 1"
proof -
  obtain q where c: "created = \<lparr>sc_running = False, sc_ready = (q, token_world), sc_queued = (\<lambda>_. False), sc_refs = (\<lambda>_. 0),
      sc_state = (\<lambda>_. ZST_STATE_PLAYING), sc_threads = [[], []], sc_workers = [], sc_log = []\<rparr>" "contents q = []"
    using created_facts by blast
  note inv = sched_reach_inv [OF _ one_element_ok(1) created_inv [OF created_from one_element_ok(2)]]
  let ?v = "sees\<lparr>v_elements := []\<rparr>"
  let ?run = "created\<lparr>sc_threads := [[Run_sched], []]\<rparr>"
  have r0: "sched_reach one_element created ?run"
    using sched_reach.step [OF sched_reach.start sched_step.control [of created Run_sched]] by (simp add: c)
  let ?a = "created\<lparr>sc_running := True, sc_threads := [[], [], [Worker_loop]], sc_workers := [2], sc_log := [Sort_pipeline, Size_all_pools]\<rparr>"
  have "run_threads one_element [(0, ?v), (0, ?v), (0, ?v), (0, ?v), (0, ?v)] ?run = Some ?a"
    by (simp add: c ready_to_run_def one_element_simps sees_simps third)
  then have ra: "sched_reach one_element created ?a" using r0 by (rule run_threads_reach)
  have "sched_step one_element ?a (?a\<lparr>sc_threads := (sc_threads ?a)[1 := [Wake]]\<rparr>)" by (rule sched_step.wake) simp_all
  then have rb: "sched_reach one_element created (?a\<lparr>sc_threads := [[], [Wake], [Worker_loop]]\<rparr>)"
    using sched_reach.step [OF ra] by simp
  let ?b = "?a\<lparr>sc_threads := [[], [Exchange 1], [Worker_loop]]\<rparr>"
  have "run_threads one_element [(1, sees), (1, sees), (1, sees), (1, sees)] (?a\<lparr>sc_threads := [[], [Wake], [Worker_loop]]\<rparr>) = Some ?b"
    by (simp add: c ready_to_run_def one_element_simps sees_simps third)
  then have rb: "sched_reach one_element created ?b" using rb by (rule run_threads_reach)
  have "sched_step one_element ?b (?b\<lparr>sc_threads := (sc_threads ?b)[0 := [Stop_sched]]\<rparr>)" by (rule sched_step.control) simp_all
  then have rc: "sched_reach one_element created (?a\<lparr>sc_threads := [[Stop_sched], [Exchange 1], [Worker_loop]]\<rparr>)"
    using sched_reach.step [OF rb] by simp
  let ?c = "?a\<lparr>sc_running := False, sc_threads := [[Drain], [Push_task 1 5], []], sc_workers := [], sc_queued := (\<lambda>_. False)(1 := True),
      sc_refs := (\<lambda>_. 0)(1 := 1), sc_ready := (q, snd (zst_buffer_ref (Some 5) token_world))\<rparr>"
  have "run_threads one_element [(0, sees), (2, sees), (0, sees), (1, sees), (1, sees), (1, sees)] (?a\<lparr>sc_threads := [[Stop_sched], [Exchange 1], [Worker_loop]]\<rparr>) = Some ?c"
    by (simp add: c ready_to_run_def one_element_simps third)
  then have rd: "sched_reach one_element created ?c" using rc by (rule run_threads_reach)
  obtain x y where p: "zst_queue_pop 0 [] (sc_ready ?c) = (x, y)" by (rule prod.exhaust)
  have "\<exists>r. x = Done r None \<and> r \<noteq> ZST_OK" "y = sc_ready ?c" using pop_ready [OF inv [OF rd] p] c by auto
  then have "run_threads one_element [(0, sees)] ?c = Some (?c\<lparr>sc_threads := [[], [Push_task 1 5], []]\<rparr>)"
    using p by (auto simp: ready_to_run_def simp del: zst_queue_pop.simps split: zst_result.splits)
  then have re: "sched_reach one_element created (?c\<lparr>sc_threads := [[], [Push_task 1 5], []]\<rparr>)" using rd by (rule run_threads_reach)
  obtain new s1 where e: "exec one_element sees (Push_task 1 5) (?c\<lparr>sc_threads := [[], [Push_task 1 5], []]\<rparr>) = (new, s1)" by (rule prod.exhaust)
  have n: "new = [Unref_token 5]" "ready s1 = [5]"
    using push_accepted [OF inv [OF re] one_element_ok(1), of "{5}" 1 1 5 "[]" sees] e c(2) by (auto simp: one_element_simps)
  obtain z where s1: "s1 = ?c\<lparr>sc_threads := [[], [Push_task 1 5], []], sc_ready := z\<rparr>"
    using e by (auto simp del: zst_queue_push.simps split: prod.splits)
  obtain s2 where "run_threads one_element [(1, sees), (1, sees)] (?c\<lparr>sc_threads := [[], [Push_task 1 5], []]\<rparr>) = Some s2"
      "\<not> sc_running s2" "concat (sc_threads s2) = []" "ready s2 = [5]" "sc_refs s2 1 = 1" "sc_queued s2 1"
    using e n s1 by (auto simp: ready_to_run_def simp del: exec.simps(5))
  with run_threads_reach [OF _ re] show ?thesis by blast
qed

end
