(* ===== verification/Zst_Rtp.thy ===== *)
theory Zst_Rtp
  imports Zst_Property Zst_Caps
begin

text \<open>
  What the RTP elements of SMPTE ST 2110 share: buffers as lists of bytes with their time stamp and EOS flag, network
  byte order, and the fixed header of an RTP packet with the facts about what a receiver reads of it.
\<close>

record av_buffer =
  ab_data :: "u8 list"
  ab_pts :: u64
  ab_eos :: bool

text \<open>What \<open>snprintf\<close> stores: nothing when there is no room at all.\<close>

definition text_out :: "nat \<Rightarrow> string \<Rightarrow> string option" where
  "text_out max_len s = (if max_len = 0 then None else Some (c_snprintf max_len s))"

section \<open>Network byte order\<close>

definition be16 :: "u16 \<Rightarrow> u8 list" where
  "be16 w = [ucast (drop_bit 8 w), ucast w]"

definition be32 :: "u32 \<Rightarrow> u8 list" where
  "be32 w = [ucast (drop_bit 24 w), ucast (drop_bit 16 w), ucast (drop_bit 8 w), ucast w]"

definition get16 :: "u8 list \<Rightarrow> nat \<Rightarrow> u16" where
  "get16 d i = push_bit 8 (ucast (d ! i)) OR ucast (d ! (i + 1))"

definition get32 :: "u8 list \<Rightarrow> nat \<Rightarrow> u32" where
  "get32 d i = push_bit 24 (ucast (d ! i)) OR push_bit 16 (ucast (d ! (i + 1))) OR push_bit 8 (ucast (d ! (i + 2))) OR ucast (d ! (i + 3))"

lemma be_length [simp]: "length (be16 w) = 2" "length (be32 v) = 4"
  by (simp_all add: be16_def be32_def)

lemma get16_be16: "get16 (be16 w @ ys) 0 = w"
  by (simp add: get16_def be16_def) (rule bit_word_eqI, auto simp: bit_simps)

lemma get32_be32: "get32 (be32 w @ ys) 0 = w"
proof (rule bit_word_eqI)
  fix n assume "n < LENGTH(32)"
  then consider "n < 8" | "8 \<le> n" "n < 16" | "16 \<le> n" "n < 24" | "24 \<le> n" "n < 32" by fastforce
  then show "bit (get32 (be32 w @ ys) 0) n = bit w n"
    by cases (auto simp: get32_def be32_def bit_simps)
qed

lemma get_append: "get16 (xs @ ys) (length xs + i) = get16 ys i" "get32 (xs @ ys) (length xs + i) = get32 ys i"
  by (simp_all only: get16_def get32_def add.assoc nth_append_length_plus)

lemma get_after: "length xs = n \<Longrightarrow> get16 (xs @ be16 w @ ys) n = w" "length xs = n \<Longrightarrow> get32 (xs @ be32 v @ ys) n = v"
  using get_append(1) [of xs "be16 w @ ys" 0] get_append(2) [of xs "be32 v @ ys" 0] by (simp_all add: get16_be16 get32_be32)

section \<open>The fixed header\<close>

definition rtp_header :: "bool \<Rightarrow> u8 \<Rightarrow> u16 \<Rightarrow> u32 \<Rightarrow> u32 \<Rightarrow> u8 list" where
  "rtp_header marker pt seq ts ssrc =
     [0x80, (if marker then 0x80 else 0) OR (pt AND 0x7F)] @ be16 seq @ be32 ts @ be32 ssrc"

lemma rtp_header_facts:
  shows rtp_header_length [simp]: "length (rtp_header l pt seq ts ssrc) = 12"
    and rtp_header_first [simp]: "(rtp_header l pt seq ts ssrc @ p) ! 0 = 0x80"
    and rtp_header_marker [simp]: "(rtp_header l pt seq ts ssrc @ p) ! Suc 0 AND 0x80 = (if l then 0x80 else 0)"
    and rtp_header_seq: "get16 (rtp_header l pt seq ts ssrc @ p) 2 = seq"
    and rtp_header_ts: "get32 (rtp_header l pt seq ts ssrc @ p) 4 = ts"
    and rtp_header_ssrc: "get32 (rtp_header l pt seq ts ssrc @ p) 8 = ssrc"
    and rtp_header_pt: "(rtp_header l pt seq ts ssrc @ p) ! Suc 0 AND 0x7F = pt AND 0x7F"
    and rtp_header_drop [simp]: "drop 12 (rtp_header l pt seq ts ssrc @ p) = p"
proof -
  show "length (rtp_header l pt seq ts ssrc) = 12" "(rtp_header l pt seq ts ssrc @ p) ! 0 = 0x80"
    by (simp_all add: rtp_header_def)
  have "(0x80 OR (a AND 0x7F)) AND 0x80 = (0x80 :: u8)" "(a AND 0x7F) AND 0x80 = (0 :: u8)" for a :: u8
    by (simp_all add: and.assoc bit.conj_disj_distrib2)
  then show "(rtp_header l pt seq ts ssrc @ p) ! Suc 0 AND 0x80 = (if l then 0x80 else 0)" by (simp add: rtp_header_def)
  have "(0x80 OR (a AND 0x7F)) AND 0x7F = a AND (0x7F :: u8)" for a by (simp add: and.assoc bit.conj_disj_distrib2)
  then show "(rtp_header l pt seq ts ssrc @ p) ! Suc 0 AND 0x7F = pt AND 0x7F" by (simp add: rtp_header_def and.assoc)
  let ?h = "[0x80, (if l then 0x80 else 0) OR (pt AND 0x7F)] :: u8 list"
  show "get16 (rtp_header l pt seq ts ssrc @ p) 2 = seq"
    using get_after(1) [of ?h 2 seq "be32 ts @ be32 ssrc @ p"] by (simp add: rtp_header_def)
  show "get32 (rtp_header l pt seq ts ssrc @ p) 4 = ts"
    using get_after(2) [of "?h @ be16 seq" 4 ts "be32 ssrc @ p"] by (simp add: rtp_header_def)
  show "get32 (rtp_header l pt seq ts ssrc @ p) 8 = ssrc"
    using get_after(2) [of "?h @ be16 seq @ be32 ts" 8 ssrc p] by (simp add: rtp_header_def)
  show "drop 12 (rtp_header l pt seq ts ssrc @ p) = p" by (simp add: rtp_header_def be16_def be32_def)
qed

end
