(* ===== verification/Zst_St2110_Video.thy ===== *)
theory Zst_St2110_Video
  imports Zst_Rtp "HOL-Library.Monad_Syntax"
begin

text \<open>
  Uncompressed video over RTP (SMPTE ST 2110-20): the payloader of \<open>src/st2110_20_payloader.c\<close> that cuts a frame into
  packets line by line, and the depayloader of \<open>src/st2110_20_depayloader.c\<close> that puts it together again.

  What an element pushes on its source pad is part of
  the result; the results of these pushes are ignored by the code.  Numbers of the C type \<open>int\<close> are integers; they stay
  in range as long as a line has at most 65535 bytes and a frame at most \<open>2\<^sup>3\<^sup>1\<close>.  A result \<open>None\<close> of the payloader is a
  read past the end of the frame, or a loop that does not end.
\<close>

section \<open>The payloader\<close>

record st2110_20_payloader =
  py_width :: int
  py_height :: int
  py_sampling :: string
  py_rtp_pt :: int
  py_ssrc :: u32
  py_seq :: u32
  py_packets :: u64
  py_bytes :: u64

text \<open>Bytes per pixel: from the size of the frame, else from the sampling.\<close>

definition payload_bpp :: "st2110_20_payloader \<Rightarrow> nat \<Rightarrow> int" where
  "payload_bpp s len =
     (let bpp = (if py_sampling s = ''RGB'' \<or> py_sampling s = ''YCbCr-4:4:4'' then 3 else 2)
      in if py_width s > 0 \<and> py_height s > 0 \<and> len > 0
         then (let bpp = int len div (py_width s * py_height s) in if bpp = 0 then 2 else bpp) else bpp)"

definition video_rtp_ts :: "u64 \<Rightarrow> u32" where
  "video_rtp_ts pts = ucast (pts * 90000 div 1000000000)"

definition video_packet :: "st2110_20_payloader \<Rightarrow> u64 \<Rightarrow> bool \<Rightarrow> int \<Rightarrow> int \<Rightarrow> int \<Rightarrow> u8 list \<Rightarrow> u8 list" where
  "video_packet s pts is_last nbytes y x payload =
     [0x80, (of_int (py_rtp_pt s) AND 0x7F) OR (if is_last then 0x80 else 0)] @ be16 (ucast (py_seq s)) @
     be32 (video_rtp_ts pts) @ be32 (py_ssrc s) @ be16 (ucast (drop_bit 16 (py_seq s))) @
     be16 (of_int nbytes) @ be16 (of_int y AND 0x7FFF) @ be16 (of_int x AND 0x7FFF) @ payload"

type_synonym pay_io = "st2110_20_payloader \<times> alloc_script \<times> av_buffer list"

text \<open>One packet with \<open>n\<close> pixels of line \<open>y\<close> from column \<open>x\<close>.\<close>

definition send_pixels :: "av_buffer \<Rightarrow> int \<Rightarrow> int \<Rightarrow> int \<Rightarrow> int \<Rightarrow> pay_io \<Rightarrow> (zst_result \<times> pay_io) option" where
  "send_pixels buf bpp y x n = (\<lambda>(s, m, out).
     (case alloc m of (Some _, m1) \<Rightarrow> Some (ZST_ERROR, (s, m1, out))
      | (None, m1) \<Rightarrow>
          (case alloc m1 of (Some _, m2) \<Rightarrow> Some (ZST_ERROR, (s, m2, out))
           | (None, m2) \<Rightarrow>
               (let bytes_to_send = n * bpp;
                    is_last = (y = py_height s - 1 \<and> x + n = py_width s);
                    src_ptr = nat (y * py_width s * bpp + x * bpp)
                in if length (ab_data buf) < src_ptr + nat bytes_to_send then None
                   else Some (ZST_OK,
                     (s\<lparr>py_seq := py_seq s + 1, py_packets := py_packets s + 1,
                        py_bytes := py_bytes s + of_int (12 + 8 + bytes_to_send)\<rparr>, m2,
                      out @ [\<lparr>ab_data = video_packet s (ab_pts buf) is_last bytes_to_send y x
                                 (take (nat bytes_to_send) (drop src_ptr (ab_data buf))),
                               ab_pts = ab_pts buf, ab_eos = False\<rparr>]))))))"

text \<open>The loop over a line; an iteration that sends no pixel is repeated for ever.\<close>

fun send_line :: "nat \<Rightarrow> av_buffer \<Rightarrow> int \<Rightarrow> int \<Rightarrow> int \<Rightarrow> pay_io \<Rightarrow> (zst_result \<times> pay_io) option" where
  "send_line 0 buf bpp y x io = None"
| "send_line (Suc k) buf bpp y x io =
     (if x < py_width (fst io) then
        (let max_pixels = (1376 - 1376 mod bpp) div bpp; n = min (py_width (fst io) - x) max_pixels
         in do { (r, io1) \<leftarrow> send_pixels buf bpp y x n io;
                 if r = ZST_OK then send_line k buf bpp y (x + n) io1 else Some (r, io1) })
      else Some (ZST_OK, io))"

fun send_lines :: "av_buffer \<Rightarrow> int \<Rightarrow> int list \<Rightarrow> pay_io \<Rightarrow> (zst_result \<times> pay_io) option" where
  "send_lines buf bpp [] io = Some (ZST_OK, io)"
| "send_lines buf bpp (y # ys) io =
     do { (r, io1) \<leftarrow> send_line (Suc (nat (py_width (fst io)))) buf bpp y 0 io;
          if r = ZST_OK then send_lines buf bpp ys io1 else Some (r, io1) }"

text \<open>\<open>linked\<close> is whether the source pad has a peer.\<close>

definition st2110_20_payloader_pad_push ::
    "bool \<Rightarrow> av_buffer \<Rightarrow> st2110_20_payloader \<Rightarrow> alloc_script \<Rightarrow> (zst_result \<times> pay_io) option" where
  "st2110_20_payloader_pad_push linked buf s m =
     (if ab_eos buf then
        (if linked then (case alloc m of (Some _, m1) \<Rightarrow> Some (ZST_OK, (s, m1, []))
                         | (None, m1) \<Rightarrow> Some (ZST_OK, (s, m1, [\<lparr>ab_data = [], ab_pts = 0, ab_eos = True\<rparr>])))
         else Some (ZST_OK, (s, m, [])))
      else send_lines buf (payload_bpp s (length (ab_data buf))) [0..py_height s - 1] (s, m, []))"

definition st2110_20_payloader_open :: "st2110_20_payloader \<Rightarrow> st2110_20_payloader" where
  "st2110_20_payloader_open s = s\<lparr>py_seq := 0, py_packets := 0, py_bytes := 0\<rparr>"

definition zst_st2110_20_payloader_create :: st2110_20_payloader where
  "zst_st2110_20_payloader_create =
     \<lparr>py_width = 1920, py_height = 1080, py_sampling = ''YCbCr-4:2:2'', py_rtp_pt = 96, py_ssrc = 0, py_seq = 0, py_packets = 0, py_bytes = 0\<rparr>"

definition st2110_20_payloader_set_property :: "string \<Rightarrow> string \<Rightarrow> st2110_20_payloader \<Rightarrow> zst_result \<times> st2110_20_payloader" where
  "st2110_20_payloader_set_property name value s =
     (if name = ''width'' then (ZST_OK, s\<lparr>py_width := c_atoi value\<rparr>)
      else if name = ''height'' then (ZST_OK, s\<lparr>py_height := c_atoi value\<rparr>)
      else if name = ''sampling'' then (ZST_OK, s\<lparr>py_sampling := c_strncpy 31 value\<rparr>)
      else if name = ''rtp-pt'' then (ZST_OK, s\<lparr>py_rtp_pt := c_atoi value\<rparr>)
      else (ZST_ERROR, s))"

definition st2110_20_payloader_get_property :: "string \<Rightarrow> nat \<Rightarrow> st2110_20_payloader \<Rightarrow> zst_result \<times> string option" where
  "st2110_20_payloader_get_property name max_len s =
     (if max_len = 0 then (ZST_ERROR, None)
      else if name = ''width'' then (ZST_OK, Some (c_snprintf max_len (print_int (py_width s))))
      else if name = ''height'' then (ZST_OK, Some (c_snprintf max_len (print_int (py_height s))))
      else if name = ''sampling'' then (ZST_OK, Some (c_snprintf max_len (py_sampling s)))
      else if name = ''rtp-pt'' then (ZST_OK, Some (c_snprintf max_len (print_int (py_rtp_pt s))))
      else (ZST_ERROR, None))"

section \<open>The depayloader\<close>

text \<open>A frame under assembly: the size its descriptor announces and what was written into its block of 8 MB.\<close>

record video_frame =
  fr_size :: nat
  fr_data :: "nat \<rightharpoonup> u8"
  fr_pts :: u64
  fr_eos :: bool

definition frame_block :: nat where
  "frame_block = 8 * 1024 * 1024"

record st2110_20_depayloader =
  dp_line_length :: int
  dp_reorder_depth :: int
  dp_reorder_timeout :: int
  dp_frame :: "video_frame option"
  dp_ts :: u32
  dp_max_y :: int
  dp_bpp :: int

record line_header =
  lh_length :: nat
  lh_line :: int
  lh_offset :: int

text \<open>The headers of a packet and where its payload starts; the first argument is the room in the array.\<close>

fun parse_headers :: "nat \<Rightarrow> u8 list \<Rightarrow> nat \<Rightarrow> line_header list \<times> nat" where
  "parse_headers 0 d off = ([], off)"
| "parse_headers (Suc k) d off =
     (if off + 6 \<le> length d then
        (let c_off = get16 d (off + 4);
             h = \<lparr>lh_length = unat (get16 d off), lh_line = uint (get16 d (off + 2) AND 0x7FFF), lh_offset = uint (c_off AND 0x7FFF)\<rparr>
         in if c_off AND 0x8000 \<noteq> 0 then (case parse_headers k d (off + 6) of (hs, o1) \<Rightarrow> (h # hs, o1)) else ([h], off + 6))
      else ([], off))"

definition line_stride :: "st2110_20_depayloader \<Rightarrow> int" where
  "line_stride s = (if dp_line_length s > 0 then dp_line_length s else 1920 * dp_bpp s)"

definition copy_in :: "nat \<Rightarrow> u8 list \<Rightarrow> (nat \<rightharpoonup> u8) \<Rightarrow> (nat \<rightharpoonup> u8)" where
  "copy_in dest xs f = (\<lambda>i. if dest \<le> i \<and> i < dest + length xs then Some (xs ! (i - dest)) else f i)"

text \<open>The segments are stored one after the other; the loop ends at one that the packet does not hold completely.\<close>

fun store_segments :: "line_header list \<Rightarrow> u8 list \<Rightarrow> nat \<Rightarrow> st2110_20_depayloader \<times> video_frame \<Rightarrow> st2110_20_depayloader \<times> video_frame" where
  "store_segments [] d off sf = sf"
| "store_segments (h # hs) d off (s, f) =
     (if length d < off + lh_length h then (s, f)
      else
        (let s1 = (if lh_line h > dp_max_y s then s\<lparr>dp_max_y := lh_line h\<rparr> else s);
             dest_pos = nat (lh_line h * line_stride s1 + lh_offset h * dp_bpp s1);
             f1 = (if dest_pos + lh_length h \<le> fr_size f then f\<lparr>fr_data := copy_in dest_pos (take (lh_length h) (drop off d)) (fr_data f)\<rparr> else f)
         in store_segments hs d (off + lh_length h) (s1, f1)))"

text \<open>The frame as it goes out: only now its size is set.\<close>

definition finish_frame :: "st2110_20_depayloader \<Rightarrow> video_frame \<Rightarrow> video_frame" where
  "finish_frame s f = f\<lparr>fr_size := nat (line_stride s * (dp_max_y s + 1))\<rparr>"

type_synonym depay_io = "st2110_20_depayloader \<times> alloc_script \<times> video_frame list"

text \<open>A frame with another time stamp, or none, is under assembly: it goes out, and a new one is begun.\<close>

definition begin_frame :: "u32 \<Rightarrow> depay_io \<Rightarrow> video_frame option \<times> depay_io" where
  "begin_frame ts = (\<lambda>(s, m, out).
     (let out1 = out @ (case dp_frame s of None \<Rightarrow> [] | Some f \<Rightarrow> [finish_frame s f])
      in case alloc m of (Some _, m1) \<Rightarrow> (None, (s\<lparr>dp_frame := None\<rparr>, m1, out1))
         | (None, m1) \<Rightarrow>
             (case alloc m1 of (Some _, m2) \<Rightarrow> (None, (s\<lparr>dp_frame := None\<rparr>, m2, out1))
              | (None, m2) \<Rightarrow>
                  (let f = \<lparr>fr_size = frame_block, fr_data = Map.empty, fr_pts = ucast ts, fr_eos = False\<rparr>
                   in (Some f, (s\<lparr>dp_frame := Some f, dp_ts := ts, dp_max_y := 0, dp_bpp := 2\<rparr>, m2, out1))))))"

definition st2110_20_depayloader_pad_push ::
    "bool \<Rightarrow> av_buffer \<Rightarrow> st2110_20_depayloader \<Rightarrow> alloc_script \<Rightarrow> zst_result \<times> depay_io" where
  "st2110_20_depayloader_pad_push linked buf s m =
     (if ab_eos buf then
        (if linked then (case alloc m of (Some _, m1) \<Rightarrow> (ZST_OK, (s, m1, []))
                         | (None, m1) \<Rightarrow> (ZST_OK, (s, m1, [\<lparr>fr_size = 0, fr_data = Map.empty, fr_pts = 0, fr_eos = True\<rparr>])))
         else (ZST_OK, (s, m, [])))
      else if length (ab_data buf) < 20 then (ZST_ERROR, (s, m, []))
      else
        (let d = ab_data buf; m_bit = (d ! 1 AND 0x80 \<noteq> 0); ts = get32 d 4;
             (cur, (s1, m1, out)) =
               (case dp_frame s of
                  Some f \<Rightarrow> if dp_ts s = ts then (Some f, (s, m, [])) else begin_frame ts (s, m, [])
                | None \<Rightarrow> begin_frame ts (s, m, []))
         in case cur of None \<Rightarrow> (ZST_ERROR, (s1, m1, out))
            | Some f \<Rightarrow>
                (let (hs, off) = parse_headers 32 d 14; (s2, f1) = store_segments hs d off (s1, f)
                 in if m_bit then (ZST_OK, (s2\<lparr>dp_frame := None\<rparr>, m1, out @ [finish_frame s2 f1]))
                    else (ZST_OK, (s2\<lparr>dp_frame := Some f1\<rparr>, m1, out)))))"

definition zst_st2110_20_depayloader_create :: st2110_20_depayloader where
  "zst_st2110_20_depayloader_create =
     \<lparr>dp_line_length = 0, dp_reorder_depth = 100, dp_reorder_timeout = 100, dp_frame = None, dp_ts = 0, dp_max_y = 0, dp_bpp = 0\<rparr>"

definition st2110_20_depayloader_set_property ::
    "string \<Rightarrow> string \<Rightarrow> st2110_20_depayloader \<Rightarrow> zst_result \<times> st2110_20_depayloader" where
  "st2110_20_depayloader_set_property name value s =
     (if name = ''expected-line-length'' then (ZST_OK, s\<lparr>dp_line_length := c_atoi value\<rparr>)
      else if name = ''reorder-buffer-depth'' then (ZST_OK, s\<lparr>dp_reorder_depth := c_atoi value\<rparr>)
      else if name = ''reorder-timeout-ms'' then (ZST_OK, s\<lparr>dp_reorder_timeout := c_atoi value\<rparr>)
      else (ZST_ERROR, s))"

definition st2110_20_depayloader_get_property :: "string \<Rightarrow> nat \<Rightarrow> st2110_20_depayloader \<Rightarrow> zst_result \<times> string option" where
  "st2110_20_depayloader_get_property name max_len s =
     (if max_len = 0 then (ZST_ERROR, None)
      else if name = ''expected-line-length'' then (ZST_OK, Some (c_snprintf max_len (print_int (dp_line_length s))))
      else if name = ''reorder-buffer-depth'' then (ZST_OK, Some (c_snprintf max_len (print_int (dp_reorder_depth s))))
      else if name = ''reorder-timeout-ms'' then (ZST_OK, Some (c_snprintf max_len (print_int (dp_reorder_timeout s))))
      else (ZST_ERROR, None))"

end
