(* ===== verification/Zst_St2110_Video_Laws.thy ===== *)
theory Zst_St2110_Video_Laws
  imports Zst_St2110_Video
begin

text \<open>
  Facts about the ST 2110-20 elements: what a packet says (\<open>video_packet_facts\<close>), what the payloader sends for a frame
  (\<open>payloader_ok\<close>: packets that \<open>carries\<close> describes, the marker on the last one alone), what the depayloader holds while it
  takes them (\<open>assembling\<close>), and that the two together give the frame back (\<open>video_roundtrip\<close>).
\<close>

section \<open>What a packet says\<close>

lemma uint_15: "0 \<le> i \<Longrightarrow> i < 32768 \<Longrightarrow> uint (of_int i AND 0x7FFF :: u16) = i"
proof -
  assume i: "0 \<le> i" "i < 32768"
  have "(0x7FFF :: u16) = mask 15" by (simp add: mask_eq_exp_minus_1)
  then have "uint (of_int i AND 0x7FFF :: u16) = take_bit 15 (uint (of_int i :: u16))" by (metis take_bit_eq_mask unsigned_take_bit_eq)
  also have "\<dots> = i" using i by (simp add: unsigned_of_int take_bit_int_eq_self)
  finally show ?thesis .
qed

lemma and_7FFF_8000: "(w AND 0x7FFF) AND 0x8000 = (0 :: u16)"
  by (simp add: and.assoc)

lemma video_packet_facts:
  fixes s :: st2110_20_payloader and pts :: u64 and l :: bool and payload :: "u8 list"
  assumes "0 \<le> nb" "nb < 65536" "0 \<le> y" "y < 32768" "0 \<le> x" "x < 32768"
  defines "P \<equiv> video_packet s pts l nb y x payload"
  shows "length P = 20 + length payload" "(P ! 1 AND 0x80 \<noteq> 0) = l" "get32 P 4 = video_rtp_ts pts"
    "parse_headers 32 P 14 = ([\<lparr>lh_length = nat nb, lh_line = y, lh_offset = x\<rparr>], 20)" "drop 20 P = payload"
proof -
  show len: "length P = 20 + length payload" by (simp add: P_def video_packet_def)
  have "((a AND 0x7F) OR 0x80) AND 0x80 = (0x80 :: u8)" "(a AND 0x7F) AND 0x80 = (0 :: u8)" for a :: u8
    by (simp_all add: and.assoc bit.conj_disj_distrib2)
  then show "(P ! 1 AND 0x80 \<noteq> 0) = l" by (simp add: P_def video_packet_def)
  let ?h = "[0x80, (of_int (py_rtp_pt s) AND 0x7F) OR (if l then 0x80 else 0)] :: u8 list"
  let ?a = "?h @ be16 (ucast (py_seq s))"
  let ?b = "?a @ be32 (video_rtp_ts pts) @ be32 (py_ssrc s) @ be16 (ucast (drop_bit 16 (py_seq s)))"
  have P: "P = ?a @ be32 (video_rtp_ts pts) @ be32 (py_ssrc s) @ be16 (ucast (drop_bit 16 (py_seq s))) @
      be16 (of_int nb) @ be16 (of_int y AND 0x7FFF) @ be16 (of_int x AND 0x7FFF) @ payload"
    by (simp add: P_def video_packet_def)
  show "get32 P 4 = video_rtp_ts pts" unfolding P by (rule get_after(2)) simp
  show "drop 20 P = payload" by (simp add: P_def video_packet_def be16_def be32_def)
  have "get16 (?b @ be16 (of_int nb) @ zs) 14 = of_int nb" for zs by (rule get_after(1)) simp
  moreover have "get16 ((?b @ be16 (of_int nb)) @ be16 (of_int y AND 0x7FFF) @ zs) 16 = of_int y AND 0x7FFF" for zs by (rule get_after(1)) simp
  moreover have "get16 ((?b @ be16 (of_int nb) @ be16 (of_int y AND 0x7FFF)) @ be16 (of_int x AND 0x7FFF) @ zs) 18 = of_int x AND 0x7FFF" for zs
    by (rule get_after(1)) simp
  ultimately have g: "get16 P 14 = of_int nb" "get16 P 16 = of_int y AND 0x7FFF" "get16 P 18 = of_int x AND 0x7FFF"
    unfolding P append_assoc by blast+
  have "parse_headers (Suc 31) P 14 = ([\<lparr>lh_length = nat nb, lh_line = y, lh_offset = x\<rparr>], 20)"
    unfolding parse_headers.simps(2) Let_def using len assms(1-6)
    by (simp add: g uint_15 and_7FFF_8000) (simp add: unat_eq_nat_uint unsigned_of_int take_bit_int_eq_self)
  then show "parse_headers 32 P 14 = ([\<lparr>lh_length = nat nb, lh_line = y, lh_offset = x\<rparr>], 20)" by simp
qed

section \<open>What the payloader sends\<close>

text \<open>\<open>carries\<close>: the packet has \<open>n\<close> pixels of line \<open>y\<close> from column \<open>x\<close> of the frame, \<open>b\<close> bytes each.\<close>

definition carries :: "av_buffer \<Rightarrow> int \<Rightarrow> int \<Rightarrow> int \<Rightarrow> int \<Rightarrow> int \<Rightarrow> int \<Rightarrow> av_buffer \<Rightarrow> bool" where
  "carries buf b W H y x n p \<longleftrightarrow> 0 \<le> y \<and> y < H \<and> 0 \<le> x \<and> 0 < n \<and> x + n \<le> W \<and> n * b \<le> 1376 \<and>
     ab_pts p = ab_pts buf \<and> \<not> ab_eos p \<and>
     (\<exists>s. ab_data p = video_packet s (ab_pts buf) (y = H - 1 \<and> x + n = W) (n * b) y x
        (take (nat (n * b)) (drop (nat (y * W * b + x * b)) (ab_data buf))))"

definition set_up :: "int \<Rightarrow> int \<Rightarrow> pay_io \<Rightarrow> bool" where
  "set_up W H io \<longleftrightarrow> py_width (fst io) = W \<and> py_height (fst io) = H \<and> plenty (fst (snd io))"

text \<open>\<open>sends_line\<close>: the packets carry the columns of a line from \<open>x\<close> on, the last one and no other up to the end.\<close>

definition sends_line :: "av_buffer \<Rightarrow> int \<Rightarrow> int \<Rightarrow> int \<Rightarrow> int \<Rightarrow> int \<Rightarrow> av_buffer list \<Rightarrow> bool" where
  "sends_line buf b W H y x ps \<longleftrightarrow>
     (\<forall>j. x \<le> j \<and> j < W \<longrightarrow> (\<exists>p \<in> set ps. \<exists>x1 n. carries buf b W H y x1 n p \<and> x1 \<le> j \<and> j < x1 + n)) \<and>
     (x < W \<longrightarrow> ps \<noteq> [] \<and> (\<exists>x1 n. carries buf b W H y x1 n (last ps) \<and> x1 + n = W) \<and>
        (\<forall>p \<in> set (butlast ps). \<exists>x1 n. carries buf b W H y x1 n p \<and> x1 + n < W))"

lemma send_pixels_ok:
  assumes "set_up W H (s, m, out)" and "0 \<le> y" "y < H" "0 \<le> x" "0 < n" "x + n \<le> W" "0 < b" "n * b \<le> 1376"
    and "W * H * b \<le> int (length (ab_data buf))"
  shows "\<exists>p s1 m1. send_pixels buf b y x n (s, m, out) = Some (ZST_OK, (s1, m1, out @ [p])) \<and> set_up W H (s1, m1, out @ [p]) \<and>
    carries buf b W H y x n p"
proof -
  obtain m1 where m1: "alloc m = (None, m1)" "plenty m1" using assms(1) plenty_alloc [of m] by (auto simp: set_up_def)
  obtain m2 where m2: "alloc m1 = (None, m2)" "plenty m2" using m1(2) plenty_alloc [of m1] by auto
  have "(x + n) * b \<le> W * b" using assms(6,7) by (simp add: mult_right_mono)
  moreover have "(y + 1) * (W * b) \<le> H * (W * b)" using assms(3-7) by (intro mult_right_mono) auto
  ultimately have "y * W * b + x * b + n * b \<le> int (length (ab_data buf))" using assms(9) by (simp add: algebra_simps)
  moreover have "0 \<le> y * W * b + x * b" "0 \<le> n * b" using assms by simp_all
  ultimately have "\<not> length (ab_data buf) < nat (y * W * b + x * b) + nat (n * b)" by linarith
  with assms m1 m2 show ?thesis
    by (auto simp: send_pixels_def Let_def set_up_def carries_def)
qed

lemma sends_line_cons:
  assumes "carries buf b W H y x n p" and "sends_line buf b W H y (x + n) ps" and "x + n = W \<Longrightarrow> ps = []"
  shows "sends_line buf b W H y x (p # ps)"
proof -
  have "x < W" "x + n \<le> W" using assms(1) by (auto simp: carries_def)
  have "\<exists>q \<in> set (p # ps). \<exists>x1 n. carries buf b W H y x1 n q \<and> x1 \<le> j \<and> j < x1 + n" if "x \<le> j" "j < W" for j
    using that assms(1,2) by (cases "j < x + n") (auto simp: sends_line_def)
  moreover have "(\<exists>x1 n. carries buf b W H y x1 n (last (p # ps)) \<and> x1 + n = W) \<and>
      (\<forall>q \<in> set (butlast (p # ps)). \<exists>x1 n. carries buf b W H y x1 n q \<and> x1 + n < W)"
  proof (cases "x + n = W")
    case True
    then show ?thesis using assms(1,3) by auto
  next
    case False
    then have "x + n < W" using \<open>x + n \<le> W\<close> by simp
    then have "\<exists>x1 n. carries buf b W H y x1 n p \<and> x1 + n < W" "ps \<noteq> []"
      "\<exists>x1 n. carries buf b W H y x1 n (last ps) \<and> x1 + n = W" "\<forall>p \<in> set (butlast ps). \<exists>x1 n. carries buf b W H y x1 n p \<and> x1 + n < W"
      using assms(1,2) unfolding sends_line_def by blast+
    then show ?thesis by (simp only: last.simps butlast.simps if_False) simp
  qed
  ultimately show ?thesis by (simp add: sends_line_def)
qed

lemma send_line_ok:
  assumes "set_up W H (s, m, out)" and "0 \<le> y" "y < H" "0 \<le> x" "x \<le> W" "0 < b" "b \<le> 1376"
    and "W * H * b \<le> int (length (ab_data buf))" and "nat (W - x) < k"
  shows "\<exists>ps s1 m1. send_line k buf b y x (s, m, out) = Some (ZST_OK, (s1, m1, out @ ps)) \<and> set_up W H (s1, m1, out @ ps) \<and>
    sends_line buf b W H y x ps \<and> (x = W \<longrightarrow> ps = [])"
  using assms
proof (induction k arbitrary: x s m out)
  case (Suc k)
  show ?case
  proof (cases "x < W")
    case True
    define M where "M = (1376 - 1376 mod b) div b"
    define n where "n = min (W - x) M"
    have "M * b = 1376 - 1376 mod b" unfolding M_def by (simp add: minus_mod_eq_mult_div)
    moreover have "1376 mod b < b" "0 \<le> 1376 mod b" using Suc.prems(6) by simp_all
    ultimately have "0 < M * b" "M * b \<le> 1376" using Suc.prems(7) by linarith+
    moreover have "n * b \<le> M * b" unfolding n_def using Suc.prems(6) by (intro mult_right_mono) auto
    moreover have "0 < M" using \<open>0 < M * b\<close> Suc.prems(6) by (auto simp: zero_less_mult_iff)
    ultimately have "n * b \<le> 1376" "0 < M" using \<open>M * b \<le> 1376\<close> by linarith+
    then have n: "0 < n" "x + n \<le> W" "n * b \<le> 1376" using True unfolding n_def by simp_all
    obtain p s1 m1 where p: "send_pixels buf b y x n (s, m, out) = Some (ZST_OK, (s1, m1, out @ [p]))" "set_up W H (s1, m1, out @ [p])"
      "carries buf b W H y x n p"
      using send_pixels_ok [OF Suc.prems(1-4) n(1,2) Suc.prems(6) n(3) Suc.prems(8)] by blast
    have k: "nat (W - (x + n)) < k" using Suc.prems(9) True n(1) by linarith
    obtain ps s2 m2 where ps: "send_line k buf b y (x + n) (s1, m1, out @ [p]) = Some (ZST_OK, (s2, m2, (out @ [p]) @ ps))"
      "set_up W H (s2, m2, (out @ [p]) @ ps)" "sends_line buf b W H y (x + n) ps" "x + n = W \<longrightarrow> ps = []"
      using Suc.IH [OF p(2) Suc.prems(2,3) _ n(2) Suc.prems(6-8) k] Suc.prems(4) n(1) by auto
    have "send_line (Suc k) buf b y x (s, m, out) = Some (ZST_OK, (s2, m2, out @ (p # ps)))"
      using True Suc.prems(1) p(1) ps(1) by (simp add: set_up_def Let_def flip: M_def n_def)
    moreover have "sends_line buf b W H y x (p # ps)" using sends_line_cons [OF p(3) ps(3)] ps(4) by blast
    ultimately show ?thesis using ps(2) True by (intro exI [of _ "p # ps"]) auto
  next
    case False
    then show ?thesis using Suc.prems by (intro exI [of _ "[]"]) (auto simp: set_up_def sends_line_def)
  qed
qed simp

text \<open>\<open>sends_lines\<close>: the packets carry all lines from \<open>y\<close> on; the last packet ends the frame, and no other does.\<close>

definition sends_lines :: "av_buffer \<Rightarrow> int \<Rightarrow> int \<Rightarrow> int \<Rightarrow> int \<Rightarrow> av_buffer list \<Rightarrow> bool" where
  "sends_lines buf b W H y ps \<longleftrightarrow>
     (\<forall>i j. y \<le> i \<and> i < H \<and> 0 \<le> j \<and> j < W \<longrightarrow> (\<exists>p \<in> set ps. \<exists>x n. carries buf b W H i x n p \<and> x \<le> j \<and> j < x + n)) \<and>
     (y < H \<longrightarrow> ps \<noteq> [] \<and> (\<exists>x n. carries buf b W H (H - 1) x n (last ps) \<and> x + n = W) \<and>
        (\<forall>p \<in> set (butlast ps). \<exists>i x n. carries buf b W H i x n p \<and> \<not> (i = H - 1 \<and> x + n = W)))"

lemma sends_lines_cons:
  assumes "0 < W" "y < H" and "sends_line buf b W H y 0 ps" and "sends_lines buf b W H (y + 1) qs" and "y + 1 = H \<Longrightarrow> qs = []"
  shows "sends_lines buf b W H y (ps @ qs)"
proof -
  have ps: "ps \<noteq> []" "\<exists>x n. carries buf b W H y x n (last ps) \<and> x + n = W"
    "\<forall>p \<in> set (butlast ps). \<exists>x n. carries buf b W H y x n p \<and> x + n < W" using assms(1,3) unfolding sends_line_def by blast+
  have all: "\<exists>p \<in> set (ps @ qs). \<exists>x n. carries buf b W H i x n p \<and> x \<le> j \<and> j < x + n" if "y \<le> i" "i < H" "0 \<le> j" "j < W" for i j
  proof (cases "i = y")
    case True
    then obtain p where "p \<in> set ps" "\<exists>x n. carries buf b W H i x n p \<and> x \<le> j \<and> j < x + n"
      using assms(3) True \<open>0 \<le> j\<close> \<open>j < W\<close> unfolding sends_line_def by blast
    then show ?thesis by auto
  next
    case False
    then have "y + 1 \<le> i" using that by simp
    then show ?thesis using assms(4) that unfolding sends_lines_def by fastforce
  qed
  have ends: "(\<exists>x n. carries buf b W H (H - 1) x n (last (ps @ qs)) \<and> x + n = W) \<and>
      (\<forall>p \<in> set (butlast (ps @ qs)). \<exists>i x n. carries buf b W H i x n p \<and> \<not> (i = H - 1 \<and> x + n = W))"
  proof (cases "y + 1 = H")
    case True
    then have "qs = []" "y = H - 1" using assms(5) by auto
    then show ?thesis using ps by fastforce
  next
    case False
    then have lt: "y + 1 < H" using assms(2) by simp
    then have qs: "qs \<noteq> []" "\<exists>x n. carries buf b W H (H - 1) x n (last qs) \<and> x + n = W"
      "\<forall>p \<in> set (butlast qs). \<exists>i x n. carries buf b W H i x n p \<and> \<not> (i = H - 1 \<and> x + n = W)"
      using assms(4) unfolding sends_lines_def by blast+
    have "\<exists>i x n. carries buf b W H i x n p \<and> \<not> (i = H - 1 \<and> x + n = W)" if "p \<in> set ps" for p
    proof -
      have "p = last ps \<or> p \<in> set (butlast ps)" using that ps(1) by (metis append_butlast_last_id in_set_conv_decomp rotate1.simps(2) set_ConsD set_rotate1)
      then have "\<exists>x n. carries buf b W H y x n p" using ps(2,3) by blast
      then show ?thesis using lt by (metis add.commute less_irrefl diff_add_cancel)
    qed
    then show ?thesis using qs by (auto simp: butlast_append)
  qed
  show ?thesis unfolding sends_lines_def using all ends ps(1) by simp
qed

lemma send_lines_ok:
  assumes "set_up W H (s, m, out)" and "0 \<le> y" "y \<le> H" "0 < W" "0 < b" "b \<le> 1376" and "W * H * b \<le> int (length (ab_data buf))"
  shows "\<exists>ps s1 m1. send_lines buf b [y..H - 1] (s, m, out) = Some (ZST_OK, (s1, m1, out @ ps)) \<and> sends_lines buf b W H y ps \<and> (y = H \<longrightarrow> ps = [])"
  using assms
proof (induction "nat (H - y)" arbitrary: y s m out)
  case 0
  then show ?case by (intro exI [of _ "[]"]) (auto simp: sends_lines_def)
next
  case (Suc k)
  then have y: "y < H" and up: "[y..H - 1] = y # [y + 1..H - 1]" by (auto simp: upto_rec1)
  have k: "k = nat (H - (y + 1))" using Suc.hyps(2) by linarith
  obtain ps s1 m1 where ps: "send_line (Suc (nat W)) buf b y 0 (s, m, out) = Some (ZST_OK, (s1, m1, out @ ps))" "set_up W H (s1, m1, out @ ps)"
    "sends_line buf b W H y 0 ps" using send_line_ok [OF Suc.prems(1,2) y _ _ Suc.prems(5-7), of 0 "Suc (nat W)"] Suc.prems(4) by auto
  obtain qs s2 m2 where qs: "send_lines buf b [y + 1..H - 1] (s1, m1, out @ ps) = Some (ZST_OK, (s2, m2, (out @ ps) @ qs))"
    "sends_lines buf b W H (y + 1) qs" "y + 1 = H \<longrightarrow> qs = []"
    using Suc.hyps(1) [OF _ ps(2) _ _ Suc.prems(4-7), of "y + 1"] k y Suc.prems(2) by auto
  have "py_width s = W" using Suc.prems(1) by (simp add: set_up_def)
  then have "send_lines buf b [y..H - 1] (s, m, out) = Some (ZST_OK, (s2, m2, out @ (ps @ qs)))"
    unfolding up using ps(1) qs(1) by (simp del: send_line.simps)
  moreover have "sends_lines buf b W H y (ps @ qs)" using sends_lines_cons [OF Suc.prems(4) y ps(3) qs(2)] qs(3) by blast
  ultimately show ?case using y by blast
qed

lemma payloader_ok:
  assumes "plenty m" and "0 < py_width s" "0 < py_height s" and "\<not> ab_eos buf"
    and "py_width s * py_height s * b \<le> int (length (ab_data buf))" "int (length (ab_data buf)) < py_width s * py_height s * (b + 1)"
    and "0 < b" "b \<le> 1376"
  shows "\<exists>ps s1 m1. st2110_20_payloader_pad_push linked buf s m = Some (ZST_OK, (s1, m1, ps)) \<and>
    sends_lines buf b (py_width s) (py_height s) 0 ps"
proof -
  let ?W = "py_width s" and ?H = "py_height s"
  have p: "0 < ?W * ?H" using assms(2,3) by simp
  have "int (length (ab_data buf)) div (?W * ?H) = b"
    using int_div_pos_eq [of "int (length (ab_data buf))" "?W * ?H" b "int (length (ab_data buf)) - ?W * ?H * b"] assms(5,6) p
    by (simp add: algebra_simps)
  moreover have "0 < length (ab_data buf)" using assms(5,7) p by (metis less_le_trans mult_pos_pos of_nat_0_less_iff)
  ultimately have "payload_bpp s (length (ab_data buf)) = b" using assms(2,3,7) by (simp add: payload_bpp_def)
  moreover have "set_up ?W ?H (s, m, [])" using assms(1) by (simp add: set_up_def)
  ultimately show ?thesis
    using send_lines_ok [of ?W ?H s m "[]" 0 b buf] assms by (auto simp: st2110_20_payloader_pad_push_def)
qed

section \<open>What the depayloader puts together\<close>

text \<open>The packets one after the other; the results are ignored.\<close>

fun depay_run :: "av_buffer list \<Rightarrow> st2110_20_depayloader \<times> alloc_script \<Rightarrow> depay_io" where
  "depay_run [] (s, m) = (s, m, [])"
| "depay_run (p # ps) (s, m) =
     (case st2110_20_depayloader_pad_push True p s m of (_, (s1, m1, o1)) \<Rightarrow>
        (case depay_run ps (s1, m1) of (s2, m2, o2) \<Rightarrow> (s2, m2, o1 @ o2)))"

text \<open>The frame holds the bytes at the positions \<open>S\<close> as they were sent, and no other.\<close>

definition holds :: "av_buffer \<Rightarrow> nat set \<Rightarrow> video_frame \<Rightarrow> bool" where
  "holds buf S f \<longleftrightarrow> fr_size f = frame_block \<and> fr_pts f = ucast (video_rtp_ts (ab_pts buf)) \<and> \<not> fr_eos f \<and>
     S \<subseteq> {..<length (ab_data buf)} \<and> (\<forall>i. fr_data f i = (if i \<in> S then Some (ab_data buf ! i) else None))"

text \<open>The element while it takes the packets of a frame of \<open>H\<close> lines of \<open>W\<close> pixels.\<close>

definition assembling :: "av_buffer \<Rightarrow> int \<Rightarrow> int \<Rightarrow> nat set \<Rightarrow> st2110_20_depayloader \<Rightarrow> video_frame \<Rightarrow> bool" where
  "assembling buf W H S s f \<longleftrightarrow> holds buf S f \<and> dp_bpp s = 2 \<and> dp_ts s = video_rtp_ts (ab_pts buf) \<and> line_stride s = 2 * W \<and>
     dp_max_y s < H"

definition positions :: "int \<Rightarrow> int \<Rightarrow> int \<Rightarrow> int \<Rightarrow> nat set" where
  "positions W y x n = {nat (y * W * 2 + x * 2) ..< nat (y * W * 2 + x * 2) + nat (n * 2)}"

lemma stride_max_y [simp]: "line_stride (s\<lparr>dp_max_y := a\<rparr>) = line_stride s" "line_stride (s\<lparr>dp_frame := c\<rparr>) = line_stride s"
  by (simp_all add: line_stride_def)

lemma store_carried:
  assumes c: "carries buf 2 W H y x n p" and a: "assembling buf W H S s f" and W: "W \<le> 32768" "H \<le> 32768"
    and sz: "W * H * 2 \<le> int (length (ab_data buf))" "length (ab_data buf) \<le> frame_block"
  shows "length (ab_data p) \<ge> 20" "(ab_data p ! 1 AND 0x80 \<noteq> 0) = (y = H - 1 \<and> x + n = W)" "get32 (ab_data p) 4 = video_rtp_ts (ab_pts buf)"
    and "\<exists>s1 f1. (case parse_headers 32 (ab_data p) 14 of (hs, off) \<Rightarrow> store_segments hs (ab_data p) off (s, f)) = (s1, f1) \<and>
      assembling buf W H (S \<union> positions W y x n) s1 f1 \<and> dp_max_y s1 = max (dp_max_y s) y \<and> dp_line_length s1 = dp_line_length s"
proof -
  let ?pos = "nat (y * W * 2 + x * 2)" and ?k = "nat (n * 2)"
  have r: "0 \<le> y" "y < H" "0 \<le> x" "0 < n" "x + n \<le> W" "n * 2 \<le> 1376" using c by (auto simp: carries_def)
  obtain z where d: "ab_data p = video_packet z (ab_pts buf) (y = H - 1 \<and> x + n = W) (n * 2) y x (take ?k (drop ?pos (ab_data buf)))"
    using c by (auto simp: carries_def)
  have b: "0 \<le> n * 2" "n * 2 < 65536" "0 \<le> y" "y < 32768" "0 \<le> x" "x < 32768" using r W by auto
  note P = video_packet_facts [OF b, of z "ab_pts buf" "y = H - 1 \<and> x + n = W" "take ?k (drop ?pos (ab_data buf))", folded d]
  show "length (ab_data p) \<ge> 20" "(ab_data p ! 1 AND 0x80 \<noteq> 0) = (y = H - 1 \<and> x + n = W)" "get32 (ab_data p) 4 = video_rtp_ts (ab_pts buf)"
    using P(1-3) by simp_all
  have "(y + 1) * (W * 2) \<le> H * (W * 2)" using r by (intro mult_right_mono) auto
  then have "y * W * 2 + x * 2 + n * 2 \<le> int (length (ab_data buf))" using sz(1) r(5) by (simp add: algebra_simps)
  moreover have nn: "0 \<le> y * W * 2 + x * 2" using r by simp
  ultimately have fits: "?pos + ?k \<le> length (ab_data buf)" using r(4) by linarith
  then have len: "length (ab_data p) = 20 + ?k" using P(1) by simp
  let ?s1 = "if y > dp_max_y s then s\<lparr>dp_max_y := y\<rparr> else s"
  let ?f1 = "f\<lparr>fr_data := copy_in ?pos (take ?k (drop ?pos (ab_data buf))) (fr_data f)\<rparr>"
  have st: "line_stride ?s1 = 2 * W" "dp_bpp ?s1 = 2" using a by (simp_all add: assembling_def)
  have dest: "nat (y * line_stride ?s1 + x * dp_bpp ?s1) = ?pos" unfolding st by (simp add: algebra_simps)
  have "?pos + ?k \<le> fr_size f" using fits sz(2) a by (simp add: assembling_def holds_def)
  then have "(case parse_headers 32 (ab_data p) 14 of (hs, off) \<Rightarrow> store_segments hs (ab_data p) off (s, f)) = (?s1, ?f1)"
    unfolding P(4) prod.case store_segments.simps line_header.simps Let_def dest P(5) using len by simp
  moreover have "assembling buf W H (S \<union> positions W y x n) ?s1 ?f1"
  proof -
    have "fr_data ?f1 i = (if i \<in> S \<union> positions W y x n then Some (ab_data buf ! i) else None)" for i
      using a fits by (auto simp: copy_in_def positions_def assembling_def holds_def)
    moreover have "positions W y x n \<subseteq> {..<length (ab_data buf)}" using fits by (auto simp: positions_def)
    ultimately show ?thesis using a r(2) by (auto simp: assembling_def holds_def)
  qed
  ultimately show "\<exists>s1 f1. (case parse_headers 32 (ab_data p) 14 of (hs, off) \<Rightarrow> store_segments hs (ab_data p) off (s, f)) = (s1, f1) \<and>
      assembling buf W H (S \<union> positions W y x n) s1 f1 \<and> dp_max_y s1 = max (dp_max_y s) y \<and> dp_line_length s1 = dp_line_length s"
    by (intro exI [of _ ?s1] exI [of _ ?f1]) auto
qed

text \<open>The element is set up for lines of \<open>W\<close> pixels: it was told the length of a line, or it was told none, and then it takes lines to have 1920 pixels.\<close>

definition lines_fit :: "int \<Rightarrow> st2110_20_depayloader \<Rightarrow> bool" where
  "lines_fit W s \<longleftrightarrow> dp_line_length s = 2 * W \<or> dp_line_length s \<le> 0 \<and> W = 1920"

text \<open>The element before the first packet of a frame, or between two.\<close>

definition waiting :: "av_buffer \<Rightarrow> int \<Rightarrow> int \<Rightarrow> nat set \<Rightarrow> st2110_20_depayloader \<Rightarrow> bool" where
  "waiting buf W H S s \<longleftrightarrow> lines_fit W s \<and>
     (case dp_frame s of None \<Rightarrow> S = {} | Some f \<Rightarrow> assembling buf W H S s f)"

lemma depay_carried:
  assumes c: "carries buf 2 W H y x n p" and w: "waiting buf W H S s" and pl: "plenty m" and W: "W \<le> 32768" "H \<le> 32768"
    and sz: "W * H * 2 \<le> int (length (ab_data buf))" "length (ab_data buf) \<le> frame_block"
  shows "\<exists>s1 m1 f1. plenty m1 \<and> assembling buf W H (S \<union> positions W y x n) s1 f1 \<and> y \<le> dp_max_y s1 \<and>
    st2110_20_depayloader_pad_push True p s m =
      (if y = H - 1 \<and> x + n = W then (ZST_OK, (s1\<lparr>dp_frame := None\<rparr>, m1, [finish_frame s1 f1]))
       else (ZST_OK, (s1\<lparr>dp_frame := Some f1\<rparr>, m1, []))) \<and> lines_fit W s1"
proof -
  let ?ts = "video_rtp_ts (ab_pts buf)"
  have H: "0 < H" "0 < W" using c by (auto simp: carries_def)
  have cur: "\<exists>s0 m0 f0. (case dp_frame s of Some f \<Rightarrow> if dp_ts s = ?ts then (Some f, (s, m, [])) else begin_frame ?ts (s, m, [])
      | None \<Rightarrow> begin_frame ?ts (s, m, [])) = (Some f0, (s0, m0, [])) \<and> plenty m0 \<and> assembling buf W H S s0 f0 \<and> lines_fit W s0"
  proof (cases "dp_frame s")
    case (Some f)
    then show ?thesis using w pl by (auto simp: waiting_def assembling_def)
  next
    case None
    obtain m1 where m1: "alloc m = (None, m1)" "plenty m1" using pl by (rule plenty_alloc)
    obtain m2 where m2: "alloc m1 = (None, m2)" "plenty m2" using m1(2) by (rule plenty_alloc)
    show ?thesis using None w H m1 m2
      by (auto simp: begin_frame_def waiting_def assembling_def holds_def line_stride_def lines_fit_def Let_def)
  qed
  then obtain s0 m0 f0 where 0: "(case dp_frame s of Some f \<Rightarrow> if dp_ts s = ?ts then (Some f, (s, m, [])) else begin_frame ?ts (s, m, [])
      | None \<Rightarrow> begin_frame ?ts (s, m, [])) = (Some f0, (s0, m0, []))" "plenty m0" "assembling buf W H S s0 f0" "lines_fit W s0" by blast
  note st = store_carried [OF c 0(3) W sz]
  obtain s1 f1 where 1: "(case parse_headers 32 (ab_data p) 14 of (hs, off) \<Rightarrow> store_segments hs (ab_data p) off (s0, f0)) = (s1, f1)"
    "assembling buf W H (S \<union> positions W y x n) s1 f1" "dp_max_y s1 = max (dp_max_y s0) y" "dp_line_length s1 = dp_line_length s0" using st(4) by blast
  obtain hs off where h: "parse_headers 32 (ab_data p) 14 = (hs, off)" by (rule prod.exhaust)
  have "\<not> ab_eos p" using c by (simp add: carries_def)
  then have "st2110_20_depayloader_pad_push True p s m =
      (if y = H - 1 \<and> x + n = W then (ZST_OK, (s1\<lparr>dp_frame := None\<rparr>, m0, [finish_frame s1 f1]))
       else (ZST_OK, (s1\<lparr>dp_frame := Some f1\<rparr>, m0, [])))"
    unfolding st2110_20_depayloader_pad_push_def Let_def st(2,3) 0(1) prod.case option.case h using st(1) 1(1) h by simp
  moreover have "lines_fit W s1" using 0(4) 1(4) by (simp add: lines_fit_def)
  ultimately show ?thesis using 0 1 by (intro exI [of _ s1] exI [of _ m0] exI [of _ f1]) auto
qed

lemma carries_unique:
  assumes "carries buf 2 W H y x n p" "carries buf 2 W H y' x' n' p" and "W \<le> 32768" "H \<le> 32768"
  shows "y' = y \<and> x' = x \<and> n' = n"
proof -
  have h: "parse_headers 32 (ab_data p) 14 = ([\<lparr>lh_length = nat (n * 2), lh_line = y, lh_offset = x\<rparr>], 20) \<and> 0 < n"
    if c: "carries buf 2 W H y x n p" for y x n
  proof -
    obtain s where d: "ab_data p = video_packet s (ab_pts buf) (y = H - 1 \<and> x + n = W) (n * 2) y x
        (take (nat (n * 2)) (drop (nat (y * W * 2 + x * 2)) (ab_data buf)))"
      using c by (auto simp: carries_def)
    have "0 \<le> n * 2" "n * 2 < 65536" "0 \<le> y" "y < 32768" "0 \<le> x" "x < 32768" "0 < n"
      using c assms(3,4) by (auto simp: carries_def)
    then show ?thesis unfolding d by (simp add: video_packet_facts(4))
  qed
  show ?thesis using h [OF assms(1)] h [OF assms(2)] by auto
qed

lemma depay_run_ok:
  assumes W: "W \<le> 32768" "H \<le> 32768" and sz: "W * H * 2 \<le> int (length (ab_data buf))" "length (ab_data buf) \<le> frame_block"
  shows "\<forall>p \<in> set ps. \<exists>y x n. carries buf 2 W H y x n p \<and> \<not> (y = H - 1 \<and> x + n = W) \<Longrightarrow> waiting buf W H S s \<Longrightarrow> plenty m \<Longrightarrow>
    \<exists>s1 m1 S1. depay_run ps (s, m) = (s1, m1, []) \<and> waiting buf W H S1 s1 \<and> plenty m1 \<and> S \<subseteq> S1 \<and>
      (\<forall>p \<in> set ps. \<forall>y x n. carries buf 2 W H y x n p \<longrightarrow> positions W y x n \<subseteq> S1)"
proof (induction ps arbitrary: S s m)
  case Nil
  then show ?case by auto
next
  case (Cons p ps)
  obtain y x n where c: "carries buf 2 W H y x n p" "\<not> (y = H - 1 \<and> x + n = W)" using Cons.prems(1) by auto
  obtain s1 m1 f1 where 1: "plenty m1" "assembling buf W H (S \<union> positions W y x n) s1 f1" "lines_fit W s1"
    "st2110_20_depayloader_pad_push True p s m = (ZST_OK, (s1\<lparr>dp_frame := Some f1\<rparr>, m1, []))"
    using depay_carried [OF c(1) Cons.prems(2,3) W sz] c(2) by auto
  have "waiting buf W H (S \<union> positions W y x n) (s1\<lparr>dp_frame := Some f1\<rparr>)" using 1(2,3) by (simp add: waiting_def assembling_def lines_fit_def)
  from Cons.IH [OF _ this 1(1)] Cons.prems(1) obtain s2 m2 S2 where 2: "depay_run ps (s1\<lparr>dp_frame := Some f1\<rparr>, m1) = (s2, m2, [])"
    "waiting buf W H S2 s2" "plenty m2" "S \<union> positions W y x n \<subseteq> S2" "\<forall>p \<in> set ps. \<forall>y x n. carries buf 2 W H y x n p \<longrightarrow> positions W y x n \<subseteq> S2"
    by auto
  have "positions W y' x' n' \<subseteq> S2" if "carries buf 2 W H y' x' n' p" for y' x' n'
    using carries_unique [OF c(1) that W] 2(4) by simp
  with 1(4) 2 show ?case by (intro exI [of _ s2] exI [of _ m2] exI [of _ S2]) auto
qed

lemma depay_run_append: "depay_run (ps @ qs) sm = (case depay_run ps sm of (s1, m1, o1) \<Rightarrow> (case depay_run qs (s1, m1) of (s2, m2, o2) \<Rightarrow> (s2, m2, o1 @ o2)))"
proof (induction ps arbitrary: sm)
  case Nil
  then show ?case by (cases sm) (auto split: prod.split)
next
  case (Cons p ps)
  then show ?case by (cases sm) (auto split: prod.split)
qed

text \<open>Every byte of the frame is in some packet.\<close>

lemma positions_cover:
  assumes "0 < W" and "i < nat (W * H * 2)"
    and all: "\<forall>y j. 0 \<le> y \<and> y < H \<and> 0 \<le> j \<and> j < W \<longrightarrow> (\<exists>p \<in> set ps. \<exists>x n. carries buf 2 W H y x n p \<and> x \<le> j \<and> j < x + n)"
  shows "\<exists>p \<in> set ps. \<exists>y x n. carries buf 2 W H y x n p \<and> i \<in> positions W y x n"
proof -
  define q where "q = int i div 2"
  have "int i < W * H * 2" using assms(2) by linarith
  then have q: "0 \<le> q" "q < W * H" "2 * q \<le> int i" "int i < 2 * q + 2" 
    unfolding q_def by presburger+
  define y where "y = q div W"
  define j where "j = q mod W"
  have yj: "q = y * W + j" "0 \<le> j" "j < W" using assms(1) by (simp_all add: y_def j_def)
  have "0 \<le> y" using q(1) assms(1) by (simp add: y_def pos_imp_zdiv_nonneg_iff)
  moreover have "y < H"
  proof (rule ccontr)
    assume "\<not> y < H"
    then have "H * W \<le> y * W" using assms(1) by (intro mult_right_mono) auto
    with q(2) yj(1,2) show False by (simp add: mult.commute [of W H])
  qed
  ultimately obtain p x n where p: "p \<in> set ps" "carries buf 2 W H y x n p" "x \<le> j" "j < x + n" using all yj by blast
  have "0 \<le> y * W * 2 + x * 2" "0 < n" using p(2) by (auto simp: carries_def)
  moreover have "y * W * 2 + x * 2 \<le> int i" "int i < y * W * 2 + x * 2 + n * 2" using q(3,4) yj(1) p(3,4) by linarith+
  ultimately have "i \<in> positions W y x n" by (auto simp: positions_def)
  with p show ?thesis by blast
qed

text \<open>C36: frames survive the way over the network.  A frame of two bytes per pixel and at most 8 MB (the block of the depayloader) that the payloader
  cut into packets is put together again byte for byte, with the RTP time as its time stamp, in whatever order and however often the packets
  arrive, as long as the packet with the marker comes last; nothing else goes out.  The depayloader must be set up for the width: its
  \<open>expected-line-length\<close> is twice the width, or it is not set and the frame is 1920 pixels wide.\<close>

theorem video_roundtrip:
  assumes "0 < py_width s" "0 < py_height s" "py_width s \<le> 32768" "py_height s \<le> 32768" and "\<not> ab_eos buf"
    and "length (ab_data buf) = nat (py_width s * py_height s * 2)" "length (ab_data buf) \<le> 8388608"
    and "plenty m" "plenty m'" and "lines_fit (py_width s) d" "dp_frame d = None"
  shows "\<exists>ps s1 m1. st2110_20_payloader_pad_push linked buf s m = Some (ZST_OK, (s1, m1, ps)) \<and> ps \<noteq> [] \<and>
    (\<forall>qs. set qs = set (butlast ps) \<longrightarrow>
       (\<exists>d1 m2 f. depay_run (qs @ [last ps]) (d, m') = (d1, m2, [f]) \<and> dp_frame d1 = None \<and>
          map (fr_data f) [0..<fr_size f] = map Some (ab_data buf) \<and> fr_pts f = ucast (video_rtp_ts (ab_pts buf))))"
proof -
  let ?W = "py_width s" and ?H = "py_height s" and ?n = "length (ab_data buf)"
  have len: "int ?n = ?W * ?H * 2" using assms(1,2,6) by simp
  have "0 < ?W * ?H" using assms(1,2) by simp
  then obtain ps s1 m1 where ps: "st2110_20_payloader_pad_push linked buf s m = Some (ZST_OK, (s1, m1, ps))" "sends_lines buf 2 ?W ?H 0 ps"
    using payloader_ok [OF assms(8,1,2,5), of 2 linked] len by (auto simp: algebra_simps)
  have ne: "ps \<noteq> []" and all: "\<forall>y j. 0 \<le> y \<and> y < ?H \<and> 0 \<le> j \<and> j < ?W \<longrightarrow> (\<exists>p \<in> set ps. \<exists>x n. carries buf 2 ?W ?H y x n p \<and> x \<le> j \<and> j < x + n)"
    and body: "\<forall>p \<in> set (butlast ps). \<exists>i x n. carries buf 2 ?W ?H i x n p \<and> \<not> (i = ?H - 1 \<and> x + n = ?W)"
    using ps(2) assms(2) unfolding sends_lines_def by blast+
  obtain x n where last: "carries buf 2 ?W ?H (?H - 1) x n (last ps)" "x + n = ?W" using ps(2) assms(2) unfolding sends_lines_def by blast
  have sz: "?W * ?H * 2 \<le> int ?n" "?n \<le> frame_block" using len assms(7) by (simp_all add: frame_block_def)
  have "\<exists>d1 m2 f. depay_run (qs @ [last ps]) (d, m') = (d1, m2, [f]) \<and> dp_frame d1 = None \<and>
          map (fr_data f) [0..<fr_size f] = map Some (ab_data buf) \<and> fr_pts f = ucast (video_rtp_ts (ab_pts buf))"
    if qs: "set qs = set (butlast ps)" for qs
  proof -
    have "waiting buf ?W ?H {} d" using assms(10,11) by (simp add: waiting_def)
    then obtain d1 m1 S where 1: "depay_run qs (d, m') = (d1, m1, [])" "waiting buf ?W ?H S d1" "plenty m1"
      "\<forall>p \<in> set qs. \<forall>y x n. carries buf 2 ?W ?H y x n p \<longrightarrow> positions ?W y x n \<subseteq> S"
      using depay_run_ok [OF assms(3,4) sz, of qs "{}" d m'] body qs assms(9) by auto
    obtain d2 m2 f where 2: "assembling buf ?W ?H (S \<union> positions ?W (?H - 1) x n) d2 f" "?H - 1 \<le> dp_max_y d2"
      "st2110_20_depayloader_pad_push True (last ps) d1 m1 = (ZST_OK, (d2\<lparr>dp_frame := None\<rparr>, m2, [finish_frame d2 f]))"
      using depay_carried [OF last(1) 1(2,3) assms(3,4) sz] last(2) by auto
    let ?S = "S \<union> positions ?W (?H - 1) x n"
    have "i \<in> ?S" if i: "i < ?n" for i
    proof -
      obtain p y x' n' where p: "p \<in> set ps" "carries buf 2 ?W ?H y x' n' p" "i \<in> positions ?W y x' n'"
        using positions_cover [OF assms(1) i [unfolded assms(6)] all] by blast
      have "p = last ps \<or> p \<in> set qs" using p(1) ne qs by (metis append_butlast_last_id in_set_conv_decomp rotate1.simps(2) set_ConsD set_rotate1)
      then show ?thesis using p(2,3) 1(4) carries_unique [OF last(1) _ assms(3,4)] by blast
    qed
    moreover have "?S \<subseteq> {..<?n}" using 2(1) by (simp add: assembling_def holds_def)
    ultimately have S: "?S = {..<?n}" by blast
    have "dp_max_y d2 = ?H - 1" using 2(1,2) by (simp add: assembling_def)
    then have "fr_size (finish_frame d2 f) = ?n" using 2(1) assms(6) by (simp add: finish_frame_def assembling_def algebra_simps)
    moreover have "fr_data (finish_frame d2 f) i = Some (ab_data buf ! i)" if "i < ?n" for i
      using 2(1) that unfolding assembling_def holds_def S by (simp add: finish_frame_def)
    moreover have "fr_pts (finish_frame d2 f) = ucast (video_rtp_ts (ab_pts buf))" using 2(1) by (simp add: assembling_def holds_def finish_frame_def)
    ultimately show ?thesis using 1(1) 2(3) by (auto simp: depay_run_append intro!: nth_equalityI)
  qed
  with ps(1) ne show ?thesis by blast
qed

lemma video_roundtrip_witness:
  "\<exists>ps s1 m1. st2110_20_payloader_pad_push True \<lparr>ab_data = [1, 2, 3, 4], ab_pts = 0, ab_eos = False\<rparr>
       (zst_st2110_20_payloader_create\<lparr>py_width := 2, py_height := 1\<rparr>) [] = Some (ZST_OK, (s1, m1, ps)) \<and> ps \<noteq> [] \<and>
    (\<forall>qs. set qs = set (butlast ps) \<longrightarrow>
       (\<exists>d1 m2 f. depay_run (qs @ [last ps]) (zst_st2110_20_depayloader_create\<lparr>dp_line_length := 4\<rparr>, []) = (d1, m2, [f]) \<and> dp_frame d1 = None \<and>
          map (fr_data f) [0..<fr_size f] = map Some [1, 2, 3, 4] \<and> fr_pts f = ucast (video_rtp_ts 0)))"
  using video_roundtrip [of "zst_st2110_20_payloader_create\<lparr>py_width := 2, py_height := 1\<rparr>"
      "\<lparr>ab_data = [1, 2, 3, 4], ab_pts = 0, ab_eos = False\<rparr>" "[]" "[]" "zst_st2110_20_depayloader_create\<lparr>dp_line_length := 4\<rparr>" True]
  by (simp add: plenty_def zst_st2110_20_payloader_create_def zst_st2110_20_depayloader_create_def lines_fit_def)

text \<open>What a packet announces is taken as it is: a single packet of 20 bytes with the marker, for line 32767, makes a frame that
  says it is 125829120 bytes long in a block of 8388608.\<close>

lemma depay_announces_too_much:
  "map fr_size (snd (snd (snd (st2110_20_depayloader_pad_push True
      \<lparr>ab_data = [0x80, 0x80, 0, 0, 0, 0, 0, 0, 0, 0, 0, 0, 0, 0, 0, 0, 0x7F, 0xFF, 0, 0], ab_pts = 0, ab_eos = False\<rparr> zst_st2110_20_depayloader_create [])))) =
   [125829120] \<and> frame_block < 125829120"
proof -
  have p: "parse_headers 32 [0x80, 0x80, 0, 0, 0, 0, 0, 0, 0, 0, 0, 0, 0, 0, 0, 0, 0x7F, 0xFF, 0, 0] 14 =
      ([\<lparr>lh_length = 0, lh_line = 32767, lh_offset = 0\<rparr>], 20)" (is "parse_headers 32 ?d 14 = _")
    by code_simp
  show ?thesis
    unfolding st2110_20_depayloader_pad_push_def Let_def av_buffer.select_convs p
    by (simp add: zst_st2110_20_depayloader_create_def begin_frame_def line_stride_def finish_frame_def frame_block_def Let_def)
qed

text \<open>A frame with less than a byte per pixel is sent as if it had two of them: the payloader reads behind its end.\<close>

lemma payloader_reads_behind:
  "st2110_20_payloader_pad_push True \<lparr>ab_data = [1, 2, 3], ab_pts = 0, ab_eos = False\<rparr>
     (zst_st2110_20_payloader_create\<lparr>py_width := 2, py_height := 2\<rparr>) [] = None"
  by code_simp

text \<open>With more than 1376 bytes per pixel no packet takes a pixel: the loop over the line does not end, whatever the fuel.\<close>

lemma payloader_no_end:
  assumes "1376 < bpp" and "plenty m" and "x < py_width s" 
  shows "send_line k buf bpp y x (s, m, out) = None"
  using assms(2,3)
proof (induction k arbitrary: s m out)
  case (Suc k)
  obtain m1 where m1: "alloc m = (None, m1)" "plenty m1" using Suc.prems(1) by (rule plenty_alloc)
  obtain m2 where m2: "alloc m1 = (None, m2)" "plenty m2" using m1(2) by (rule plenty_alloc)
  have "(1376 - 1376 mod bpp) div bpp = 0" using assms(1) by (simp add: mod_pos_pos_trivial)
  then show ?case using Suc.prems m1 m2
    by (auto simp: send_pixels_def Let_def intro!: Suc.IH)
qed simp

end
