(* ===== verification/Zst_St2110_Compressed.thy ===== *)
theory Zst_St2110_Compressed
  imports Zst_Rtp "HOL-Library.Monad_Syntax"
begin

text \<open>
  Compressed video (H.264, H.265) over paced RTP: the payloader of \<open>src/st2110_21_payloader.c\<close>, which finds the NAL
  units of an access unit with \<open>zst_find_start_code\<close> of \<open>src/zst_media_utils.h\<close> and sends each in one packet or in
  fragments, and the depayloader of \<open>src/st2110_21_depayloader.c\<close>.

  What the payloader does to the outside is a list of events: waits of the pacer with their time stamps, and packets
  pushed.  A result \<open>None\<close> is a division by zero, a write through the null pointer of an allocation that is not checked,
  or a loop that does not end.
\<close>

section \<open>Start codes\<close>

text \<open>The position and the size of the first start code; the second argument is the position of the head of the list.\<close>

fun scan_start_code :: "u8 list \<Rightarrow> nat \<Rightarrow> (nat \<times> nat) option" where
  "scan_start_code (a # b # c # ds) i =
     (if a = 0 \<and> b = 0 \<and> c = 1 then Some (i, 3)
      else if a = 0 \<and> b = 0 \<and> c = 0 \<and> (case ds of [] \<Rightarrow> False | d # _ \<Rightarrow> d = 1) then Some (i, 4)
      else scan_start_code (b # c # ds) (i + 1))"
| "scan_start_code _ i = None"

definition zst_find_start_code :: "u8 list \<Rightarrow> nat \<Rightarrow> (nat \<times> nat) option" where
  "zst_find_start_code data offset =
     (if data = [] \<or> length data \<le> offset + 2 then None else scan_start_code (drop offset data) offset)"

definition strip_zeros :: "u8 list \<Rightarrow> u8 list" where
  "strip_zeros xs = rev (dropWhile (\<lambda>x. x = 0) (rev xs))"

section \<open>The payloader\<close>

record st2110_21_payloader =
  cp_mtu :: int
  cp_rtp_pt :: int
  cp_ssrc :: u32
  cp_seq :: u16
  cp_ext_seq_num :: u32
  cp_fps_num :: int
  cp_fps_den :: int
  cp_is_h265 :: bool
  cp_pacer_enabled :: bool

datatype pay_event = Pace u64 | Emit av_buffer

type_synonym nal_io = "st2110_21_payloader \<times> alloc_script \<times> u64 \<times> pay_event list"

definition make_packet ::
    "u8 list \<Rightarrow> u8 list \<Rightarrow> u32 \<Rightarrow> bool \<Rightarrow> u64 \<Rightarrow> st2110_21_payloader \<times> alloc_script \<Rightarrow>
     (av_buffer option \<times> st2110_21_payloader \<times> alloc_script) option" where
  "make_packet hdr payload ts marker pts = (\<lambda>(s, m).
     (case alloc m of (Some _, m1) \<Rightarrow> Some (None, s, m1)
      | (None, m1) \<Rightarrow>
          (case alloc m1 of (Some _, m2) \<Rightarrow> None
           | (None, m2) \<Rightarrow>
               Some (Some \<lparr>ab_data = rtp_header marker (of_int (cp_rtp_pt s)) (cp_seq s) ts (cp_ssrc s) @ hdr @ payload, ab_pts = pts, ab_eos = False\<rparr>,
                 s\<lparr>cp_seq := cp_seq s + 1,
                   cp_ext_seq_num := (if cp_seq s + 1 = 0 then cp_ext_seq_num s + 0x10000 else cp_ext_seq_num s)\<rparr>, m2))))"

text \<open>One packet: made, held back by the pacer, pushed.\<close>

definition send_packet :: "u32 \<Rightarrow> u64 \<Rightarrow> u64 \<Rightarrow> u8 list \<Rightarrow> u8 list \<Rightarrow> bool \<Rightarrow> nal_io \<Rightarrow> nal_io option" where
  "send_packet ts pts interval hdr payload marker = (\<lambda>(s, m, pacing_ts, out).
     do { (pkt, s1, m1) \<leftarrow> make_packet hdr payload ts marker pts (s, m);
          Some (s1, m1, pacing_ts + interval,
            out @ (if cp_pacer_enabled s then [Pace pacing_ts] else []) @ (case pkt of None \<Rightarrow> [] | Some b \<Rightarrow> [Emit b])) })"

text \<open>The fragments of a NAL unit, with at most \<open>k\<close> bytes each.  A loop that does not advance does not end.\<close>

function send_fu :: "u32 \<Rightarrow> u64 \<Rightarrow> u64 \<Rightarrow> u8 list \<Rightarrow> u8 \<Rightarrow> int \<Rightarrow> bool \<Rightarrow> bool \<Rightarrow> u8 list \<Rightarrow> nal_io \<Rightarrow> nal_io option" where
  "send_fu ts pts interval fu_ind nal_type k marker is_first rest io =
     (if rest = [] then Some io
      else if k \<le> 0 then None
      else
        (let chunk = take (nat k) rest; tail = drop (nat k) rest;
             fu = nal_type OR (if is_first then 0x80 else 0) OR (if tail = [] then 0x40 else 0)
         in do { io1 \<leftarrow> send_packet ts pts interval (fu_ind @ [fu]) chunk (marker \<and> tail = []) io;
                 send_fu ts pts interval fu_ind nal_type k marker False tail io1 }))"
  by pat_completeness auto
termination
  by (relation "measure (\<lambda>(ts, pts, interval, fu_ind, nal_type, k, marker, is_first, rest, io). length rest)") auto

declare send_fu.simps [simp del]

definition send_nal :: "u32 \<Rightarrow> u64 \<Rightarrow> u64 \<Rightarrow> u8 list \<Rightarrow> bool \<Rightarrow> nal_io \<Rightarrow> nal_io option" where
  "send_nal ts pts interval nal marker io =
     (let max_payload = cp_mtu (fst io) - 12
      in if int (length nal) \<le> max_payload then send_packet ts pts interval [] nal marker io
         else if nal = [] then None
         else if \<not> cp_is_h265 (fst io) then
           send_fu ts pts interval [(nal ! 0 AND 0xE0) OR 28] (nal ! 0 AND 0x1F) (max_payload - 2) marker True (drop 1 nal) io
         else if length nal < 2 then Some io
         else send_fu ts pts interval [(nal ! 0 AND 0x81) OR push_bit 1 49, nal ! 1] (drop_bit 1 (nal ! 0 AND 0x7E)) (max_payload - 3)
                marker True (drop 2 nal) io)"

fun nal_loop :: "nat \<Rightarrow> u32 \<Rightarrow> u64 \<Rightarrow> u64 \<Rightarrow> u8 list \<Rightarrow> nat \<times> nat \<Rightarrow> nal_io \<Rightarrow> nal_io option" where
  "nal_loop 0 ts pts interval data pc io = None"
| "nal_loop (Suc k) ts pts interval data (pos, code) io =
     (let nal_start = pos + code;
          next = zst_find_start_code data nal_start;
          nal_end = (case next of None \<Rightarrow> length data | Some (p, c) \<Rightarrow> p);
          nal = strip_zeros (take (nal_end - nal_start) (drop nal_start data))
      in do { io1 \<leftarrow> (if nal = [] then Some io else send_nal ts pts interval nal (next = None) io);
              (case next of None \<Rightarrow> Some io1 | Some pc \<Rightarrow> nal_loop k ts pts interval data pc io1) })"

text \<open>How far apart the packets of a frame are sent; \<open>None\<close> is a division by zero.\<close>

definition pacing_interval :: "st2110_21_payloader \<Rightarrow> nat \<Rightarrow> u64 option" where
  "pacing_interval s n =
     (if cp_mtu s = 12 then None
      else
        (let d = cp_mtu s - 12;
             num_packets = (if d > 0 then int n div d else - (int n div (- d))) + 1;
             frame_duration_ns = (if cp_fps_num s > 0 then 1000000000 * of_int (cp_fps_den s) div of_int (cp_fps_num s) else 16666666)
         in if num_packets = 0 then None else Some (frame_duration_ns div of_int num_packets)))"

definition st2110_21_payloader_process :: "av_buffer \<Rightarrow> st2110_21_payloader \<Rightarrow> alloc_script \<Rightarrow> (zst_result \<times> nal_io) option" where
  "st2110_21_payloader_process buf s m =
     do { interval \<leftarrow> pacing_interval s (length (ab_data buf));
          (let data = ab_data buf; pts = ab_pts buf; ts = ucast (pts * 90000 div 1000000000); io = (s, m, pts, [])
           in case zst_find_start_code data 0 of
                None \<Rightarrow> do { io1 \<leftarrow> send_nal ts pts interval data True io; Some (ZST_OK, io1) }
              | Some pc \<Rightarrow> do { io1 \<leftarrow> nal_loop (Suc (length data)) ts pts interval data pc io; Some (ZST_OK, io1) }) }"

definition st2110_21_payloader_set_property :: "string \<Rightarrow> string \<Rightarrow> st2110_21_payloader \<Rightarrow> zst_result \<times> st2110_21_payloader" where
  "st2110_21_payloader_set_property name value s =
     (if name = ''mtu'' then (ZST_OK, s\<lparr>cp_mtu := c_atoi value\<rparr>)
      else if name = ''rtp-pt'' then (ZST_OK, s\<lparr>cp_rtp_pt := c_atoi value\<rparr>)
      else if name = ''fps-num'' then (ZST_OK, s\<lparr>cp_fps_num := c_atoi value\<rparr>)
      else if name = ''fps-den'' then (ZST_OK, s\<lparr>cp_fps_den := c_atoi value\<rparr>)
      else if name = ''pacing'' then (ZST_OK, s\<lparr>cp_pacer_enabled := (value = ''on'')\<rparr>)
      else if name = ''codec'' then (ZST_OK, s\<lparr>cp_is_h265 := (value = ''h265'')\<rparr>)
      else (ZST_ERROR_NOT_IMPLEMENTED, s))"

definition st2110_21_payloader_get_property :: "string \<Rightarrow> nat \<Rightarrow> st2110_21_payloader \<Rightarrow> zst_result \<times> string option" where
  "st2110_21_payloader_get_property name max_len s =
     (if name = ''mtu'' then (ZST_OK, text_out max_len (print_int (cp_mtu s)))
      else if name = ''rtp-pt'' then (ZST_OK, text_out max_len (print_int (cp_rtp_pt s)))
      else if name = ''codec'' then (ZST_OK, text_out max_len (if cp_is_h265 s then ''h265'' else ''h264''))
      else (ZST_ERROR, None))"

definition zst_st2110_21_payloader_create :: st2110_21_payloader where
  "zst_st2110_21_payloader_create =
     \<lparr>cp_mtu = 1200, cp_rtp_pt = 96, cp_ssrc = 0x21102100, cp_seq = 0, cp_ext_seq_num = 0, cp_fps_num = 60, cp_fps_den = 1,
      cp_is_h265 = False, cp_pacer_enabled = True\<rparr>"

section \<open>The depayloader\<close>

record st2110_21_depayloader =
  cd_is_h265 :: bool
  cd_au :: "u8 list"
  cd_capacity :: u64
  cd_pts :: u64

text \<open>The capacity grows to a power of two; a failed \<open>realloc\<close> leaves all as it was.\<close>

definition au_capacity :: "u64 \<Rightarrow> u64" where
  "au_capacity need =
     (let a = need - 1; b = a OR drop_bit 1 a; c = b OR drop_bit 2 b; d = c OR drop_bit 4 c; e = d OR drop_bit 8 d;
          f = e OR drop_bit 16 e; g = f OR drop_bit 32 f; new_cap = g + 1
      in if new_cap < 16384 then 16384 else new_cap)"

definition append_au :: "u8 list \<Rightarrow> st2110_21_depayloader \<times> alloc_script \<Rightarrow> st2110_21_depayloader \<times> alloc_script" where
  "append_au xs = (\<lambda>(s, m).
     (let need = of_nat (length (cd_au s) + length xs)
      in if need > cd_capacity s then
           (case alloc m of (Some _, m1) \<Rightarrow> (s, m1)
            | (None, m1) \<Rightarrow> (s\<lparr>cd_au := cd_au s @ xs, cd_capacity := au_capacity need\<rparr>, m1))
         else (s\<lparr>cd_au := cd_au s @ xs\<rparr>, m)))"

definition start_code :: "u8 list" where
  "start_code = [0, 0, 0, 1]"

definition push_nal :: "u8 list \<Rightarrow> u64 \<Rightarrow> st2110_21_depayloader \<times> alloc_script \<Rightarrow> st2110_21_depayloader \<times> alloc_script" where
  "push_nal payload pts = (\<lambda>(s, m). append_au payload (append_au start_code (s\<lparr>cd_pts := pts\<rparr>, m)))"

definition handle_fu_chunk ::
    "u8 list \<Rightarrow> u8 list \<Rightarrow> bool \<Rightarrow> u64 \<Rightarrow> st2110_21_depayloader \<times> alloc_script \<Rightarrow> st2110_21_depayloader \<times> alloc_script" where
  "handle_fu_chunk payload nal_header is_start pts = (\<lambda>(s, m).
     append_au payload (if is_start then append_au nal_header (append_au start_code (s\<lparr>cd_pts := pts\<rparr>, m)) else (s, m)))"

definition push_au :: "st2110_21_depayloader \<times> alloc_script \<Rightarrow> (st2110_21_depayloader \<times> alloc_script \<times> av_buffer list) option" where
  "push_au = (\<lambda>(s, m).
     (if cd_au s = [] then Some (s, m, [])
      else (case alloc m of (Some _, m1) \<Rightarrow> Some (s, m1, [])
            | (None, m1) \<Rightarrow>
                (case alloc m1 of (Some _, m2) \<Rightarrow> None
                 | (None, m2) \<Rightarrow> Some (s\<lparr>cd_au := []\<rparr>, m2, [\<lparr>ab_data = cd_au s, ab_pts = cd_pts s, ab_eos = False\<rparr>])))))"

text \<open>Where the payload starts, behind the list of sources and the extension of the header.\<close>

definition payload_start :: "u8 list \<Rightarrow> nat option" where
  "payload_start pkt =
     (let off = 12 + unat (pkt ! 0 AND 0x0F) * 4
      in if pkt ! 0 AND 0x10 \<noteq> 0 then
           (if length pkt < off + 4 then None else Some (off + 4 + unat (get16 pkt (off + 2)) * 4))
         else Some off)"

text \<open>What the payload does to the access unit; \<open>None\<close> is the return before the marker is looked at.\<close>

definition take_payload :: "u8 list \<Rightarrow> u64 \<Rightarrow> st2110_21_depayloader \<times> alloc_script \<Rightarrow> (st2110_21_depayloader \<times> alloc_script) option" where
  "take_payload p pts = (\<lambda>(s, m).
     (if \<not> cd_is_h265 s then
        (let nal_type = p ! 0 AND 0x1F
         in if nal_type \<noteq> 28 \<and> nal_type \<noteq> 24 then Some (push_nal p pts (s, m))
            else if nal_type = 28 then
              (if length p < 2 then None
               else Some (handle_fu_chunk (drop 2 p) [(p ! 0 AND 0xE0) OR (p ! 1 AND 0x1F)] (p ! 1 AND 0x80 \<noteq> 0) pts (s, m)))
            else Some (s, m))
      else
        (let nal_type = drop_bit 1 (p ! 0 AND 0x7E)
         in if nal_type \<noteq> 49 \<and> nal_type \<noteq> 48 then Some (push_nal p pts (s, m))
            else if nal_type = 49 then
              (if length p < 3 then None
               else Some (handle_fu_chunk (drop 3 p) [(p ! 0 AND 0x81) OR push_bit 1 (p ! 2 AND 0x3F), p ! 1] (p ! 2 AND 0x80 \<noteq> 0) pts (s, m)))
            else Some (s, m))))"

definition st2110_21_depayloader_process ::
    "av_buffer \<Rightarrow> st2110_21_depayloader \<times> alloc_script \<Rightarrow> (zst_result \<times> st2110_21_depayloader \<times> alloc_script \<times> av_buffer list) option" where
  "st2110_21_depayloader_process buf = (\<lambda>(s, m).
     (let pkt = ab_data buf; nothing = Some (ZST_OK, s, m, [])
      in if length pkt < 12 then nothing
         else (case payload_start pkt of None \<Rightarrow> nothing
               | Some off \<Rightarrow>
                   if length pkt \<le> off then nothing
                   else (case take_payload (drop off pkt) (ab_pts buf) (s, m) of None \<Rightarrow> nothing
                         | Some (s1, m1) \<Rightarrow>
                             if pkt ! 1 AND 0x80 \<noteq> 0 then do { (s2, m2, out) \<leftarrow> push_au (s1, m1); Some (ZST_OK, s2, m2, out) }
                             else Some (ZST_OK, s1, m1, [])))))"

definition st2110_21_depayloader_stop :: "st2110_21_depayloader \<Rightarrow> st2110_21_depayloader" where
  "st2110_21_depayloader_stop s = s\<lparr>cd_au := [], cd_capacity := 0\<rparr>"

definition st2110_21_depayloader_set_property :: "string \<Rightarrow> string \<Rightarrow> st2110_21_depayloader \<Rightarrow> zst_result \<times> st2110_21_depayloader" where
  "st2110_21_depayloader_set_property name value s =
     (if name = ''codec'' then (ZST_OK, s\<lparr>cd_is_h265 := (value = ''h265'')\<rparr>) else (ZST_ERROR_NOT_IMPLEMENTED, s))"

definition st2110_21_depayloader_get_property :: "string \<Rightarrow> nat \<Rightarrow> st2110_21_depayloader \<Rightarrow> zst_result \<times> string option" where
  "st2110_21_depayloader_get_property name max_len s =
     (if name = ''codec'' then (ZST_OK, text_out max_len (if cd_is_h265 s then ''h265'' else ''h264'')) else (ZST_ERROR, None))"

definition zst_st2110_21_depayloader_create :: st2110_21_depayloader where
  "zst_st2110_21_depayloader_create = \<lparr>cd_is_h265 = False, cd_au = [], cd_capacity = 0, cd_pts = 0\<rparr>"

end
