(* ===== verification/Zst_St2110_Compressed_Laws.thy ===== *)
theory Zst_St2110_Compressed_Laws
  imports Zst_St2110_Compressed
begin

text \<open>
  Facts about the elements of \<open>Zst_St2110_Compressed\<close>: how the NAL units of a byte stream are found (\<open>find_behind\<close>), what the payloader
  sends for a unit, whole or in fragments (\<open>receives\<close>: packets from which a depayloader makes the bytes given), and that the two
  elements together give an access unit back (\<open>nal_roundtrip\<close>).
\<close>

section \<open>Finding the NAL units\<close>

text \<open>\<open>nal_ok\<close>: a NAL unit as the standards have it, without a start code inside and not ending in zero, and of a type that is
  neither that of a fragment nor that of an aggregate.\<close>

definition nal_ok :: "bool \<Rightarrow> u8 list \<Rightarrow> bool" where
  "nal_ok h265 n \<longleftrightarrow> n \<noteq> [] \<and> last n \<noteq> 0 \<and> scan_start_code n 0 = None \<and>
     (if h265 then 2 \<le> length n \<and> drop_bit 1 (n ! 0 AND 0x7E) \<notin> {48, 49} else n ! 0 AND 0x1F \<notin> {24, 28})"

definition is_start_code :: "u8 list \<Rightarrow> bool" where
  "is_start_code c \<longleftrightarrow> c = [0, 0, 1] \<or> c = [0, 0, 0, 1]"

definition byte_stream :: "(u8 list \<times> u8 list) list \<Rightarrow> u8 list" where
  "byte_stream cns = concat (map (\<lambda>(c, n). c @ n) cns)"

lemma scan_none_anywhere: "scan_start_code xs i = None \<longleftrightarrow> scan_start_code xs j = None"
proof (induction xs arbitrary: i j)
  case (Cons a xs)
  consider "xs = []" | b where "xs = [b]" | b c ds where "xs = b # c # ds" by (metis list.exhaust)
  then show ?case
  proof cases
    case 3
    then show ?thesis using Cons.IH [of "i + 1" "j + 1"] by simp
  qed simp_all
qed simp

lemma scan_at_code: "is_start_code c \<Longrightarrow> scan_start_code (c @ rest) i = Some (i, length c)"
  by (auto simp: is_start_code_def)

lemma scan_behind_nal:
  "scan_start_code n i = None \<Longrightarrow> n \<noteq> [] \<Longrightarrow> last n \<noteq> 0 \<Longrightarrow> is_start_code c \<Longrightarrow>
   scan_start_code (n @ c @ rest) i = Some (i + length n, length c)"
proof (induction n arbitrary: i)
  case (Cons a n)
  consider "n = []" | b where "n = [b]" | b e ds where "n = b # e # ds" by (metis list.exhaust)
  then show ?case
  proof cases
    case 1
    then have "scan_start_code ((a # n) @ c @ rest) i = scan_start_code (c @ rest) (i + 1)"
      using Cons.prems(3,4) by (auto simp: is_start_code_def)
    then show ?thesis using scan_at_code [OF Cons.prems(4)] 1 by simp
  next
    case 2
    then have "scan_start_code ((a # n) @ c @ rest) i = scan_start_code (n @ c @ rest) (i + 1)"
      using Cons.prems(3,4) by (auto simp: is_start_code_def)
    then show ?thesis using Cons.IH [of "i + 1"] Cons.prems 2 by simp
  next
    case 3
    have "scan_start_code ((a # n) @ c @ rest) i = scan_start_code (n @ c @ rest) (i + 1)"
      using Cons.prems 3 by (cases ds) (auto split: if_splits)
    moreover have "scan_start_code n (i + 1) = None" using Cons.prems(1) 3 by (auto split: if_splits)
    ultimately show ?thesis using Cons.IH [of "i + 1"] Cons.prems 3 by simp
  qed
qed simp

lemma strip_nal [simp]: "n \<noteq> [] \<Longrightarrow> last n \<noteq> 0 \<Longrightarrow> strip_zeros n = n"
  by (cases n rule: rev_cases) (auto simp: strip_zeros_def)

lemma find_behind:
  assumes "nal_ok h n" and "\<forall>(c, n) \<in> set cns. is_start_code c \<and> nal_ok h n" and "pre \<noteq> []"
  shows "zst_find_start_code (pre @ n @ byte_stream cns) (length pre) =
    (case cns of [] \<Rightarrow> None | (c, n') # _ \<Rightarrow> Some (length pre + length n, length c))"
proof -
  have n: "scan_start_code n (length pre) = None" "n \<noteq> []" "last n \<noteq> 0" using assms(1) scan_none_anywhere by (auto simp: nal_ok_def)
  show ?thesis
  proof (cases cns)
    case Nil
    then show ?thesis using n by (simp add: zst_find_start_code_def byte_stream_def)
  next
    case (Cons cn cns')
    obtain c n' where cn: "cn = (c, n')" by force
    have c: "is_start_code c" using assms(2) Cons cn by simp
    then have "length c \<ge> 3" by (auto simp: is_start_code_def)
    then show ?thesis using scan_behind_nal [OF n c, of "n' @ byte_stream cns'"] n(2) assms(3)
      by (simp add: zst_find_start_code_def byte_stream_def Cons cn)
  qed
qed

text \<open>The loop sends the NAL units in order, the last one with the marker.\<close>

fun send_nals :: "u32 \<Rightarrow> u64 \<Rightarrow> u64 \<Rightarrow> u8 list list \<Rightarrow> nal_io \<Rightarrow> nal_io option" where
  "send_nals ts pts interval [] io = Some io"
| "send_nals ts pts interval (n # ns) io = do { io1 \<leftarrow> send_nal ts pts interval n (ns = []) io; send_nals ts pts interval ns io1 }"

lemma send_no_more [simp]: "x \<bind> send_nals ts pts iv [] = x"
  by (cases x) auto

lemma nal_loop_sends:
  "is_start_code c \<Longrightarrow> nal_ok h n \<Longrightarrow> \<forall>(c, n) \<in> set cns. is_start_code c \<and> nal_ok h n \<Longrightarrow> length cns < k \<Longrightarrow>
   nal_loop k ts pts iv (pre @ c @ n @ byte_stream cns) (length pre, length c) io = send_nals ts pts iv (n # map snd cns) io"
proof (induction cns arbitrary: k pre c n io)
  case Nil
  obtain k' where k: "k = Suc k'" using Nil.prems(4) by (cases k) auto
  have "pre @ c \<noteq> []" using Nil.prems(1) by (auto simp: is_start_code_def)
  then have "zst_find_start_code (pre @ c @ n) (length pre + length c) = None"
    using find_behind [OF Nil.prems(2), of "[]" "pre @ c"] by (simp add: byte_stream_def)
  then show ?case using Nil.prems(2) by (simp add: k byte_stream_def nal_ok_def)
next
  case (Cons cn cns)
  obtain k' where k: "k = Suc k'" using Cons.prems(4) by (cases k) auto
  obtain c' n' where cn: "cn = (c', n')" by force
  have "pre @ c \<noteq> []" using Cons.prems(1) by (auto simp: is_start_code_def)
  then have f: "zst_find_start_code (pre @ c @ n @ byte_stream (cn # cns)) (length pre + length c) = Some (length pre + length c + length n, length c')"
    using find_behind [OF Cons.prems(2,3), of "pre @ c"] by (simp add: cn)
  have rec: "nal_loop k' ts pts iv (pre @ c @ n @ byte_stream (cn # cns)) (length pre + length c + length n, length c') io1 =
      send_nals ts pts iv (map snd (cn # cns)) io1" for io1
    using Cons.IH [of c' n' k' "pre @ c @ n" io1] Cons.prems(3,4) k cn by (simp add: byte_stream_def add.assoc)
  show ?case using Cons.prems(2) unfolding k nal_loop.simps Let_def f option.case prod.case rec
    by (cases "send_nal ts pts iv n False io") (simp_all add: nal_ok_def cn)
qed

section \<open>What the depayloader makes of the packets\<close>

definition packets :: "pay_event list \<Rightarrow> av_buffer list" where
  "packets es = concat (map (\<lambda>e. case e of Emit b \<Rightarrow> [b] | Pace _ \<Rightarrow> []) es)"

lemma packets_append [simp]: "packets (xs @ ys) = packets xs @ packets ys"
  by (simp add: packets_def)

lemma packets_simps [simp]: "packets [] = []" "packets (Emit b # es) = b # packets es" "packets (Pace t # es) = packets es"
  by (simp_all add: packets_def)

fun depay_packets :: "av_buffer list \<Rightarrow> st2110_21_depayloader \<times> alloc_script \<Rightarrow> (st2110_21_depayloader \<times> alloc_script \<times> av_buffer list) option" where
  "depay_packets [] (s, m) = Some (s, m, [])"
| "depay_packets (p # ps) sm =
     do { (r, s1, m1, o1) \<leftarrow> st2110_21_depayloader_process p sm;
          (s2, m2, o2) \<leftarrow> depay_packets ps (s1, m1);
          Some (s2, m2, o1 @ o2) }"

text \<open>\<open>receives\<close>: the packets add the bytes \<open>x\<close> to the access unit, which goes out when \<open>mk\<close> is set; \<open>f\<close> is what they do to its
  time stamp.\<close>

definition receives :: "bool \<Rightarrow> (u64 \<Rightarrow> u64) \<Rightarrow> av_buffer list \<Rightarrow> u8 list \<Rightarrow> bool \<Rightarrow> bool" where
  "receives h f ps x mk \<longleftrightarrow> (\<forall>d m. cd_is_h265 d = h \<and> plenty m \<longrightarrow>
     (\<exists>cap m1. plenty m1 \<and> depay_packets ps (d, m) =
        Some (d\<lparr>cd_au := (if mk then [] else cd_au d @ x), cd_capacity := cap, cd_pts := f (cd_pts d)\<rparr>, m1,
              if mk then [\<lparr>ab_data = cd_au d @ x, ab_pts = f (cd_pts d), ab_eos = False\<rparr>] else [])))"

lemma receives_none: "receives h (\<lambda>t. t) [] [] False"
  unfolding receives_def
proof (intro allI impI)
  fix d :: st2110_21_depayloader and m assume "cd_is_h265 d = h \<and> plenty m"
  then show "\<exists>cap m1. plenty m1 \<and> depay_packets [] (d, m) =
      Some (d\<lparr>cd_au := (if False then [] else cd_au d @ []), cd_capacity := cap, cd_pts := cd_pts d\<rparr>, m1,
            if False then [\<lparr>ab_data = cd_au d @ [], ab_pts = cd_pts d, ab_eos = False\<rparr>] else [])"
    by (intro exI [of _ "cd_capacity d"] exI [of _ m]) simp
qed

lemma receivesE:
  assumes "receives h f ps x mk" and "cd_is_h265 d = h" "plenty m"
  obtains cap m1 where "plenty m1" "depay_packets ps (d, m) =
        Some (d\<lparr>cd_au := (if mk then [] else cd_au d @ x), cd_capacity := cap, cd_pts := f (cd_pts d)\<rparr>, m1,
              if mk then [\<lparr>ab_data = cd_au d @ x, ab_pts = f (cd_pts d), ab_eos = False\<rparr>] else [])"
  using assms unfolding receives_def by blast

lemma receives_append:
  assumes "receives h f ps x False" and "receives h g qs y mk"
  shows "receives h (\<lambda>t. g (f t)) (ps @ qs) (x @ y) mk"
  unfolding receives_def
proof (intro allI impI)
  fix d :: st2110_21_depayloader and m assume "cd_is_h265 d = h \<and> plenty m"
  then have d: "cd_is_h265 d = h" "plenty m" by auto
  obtain c1 m1 where 1: "plenty m1" "depay_packets ps (d, m) =
      Some (d\<lparr>cd_au := cd_au d @ x, cd_capacity := c1, cd_pts := f (cd_pts d)\<rparr>, m1, [])"
    by (rule receivesE [OF assms(1) d]) (rule that, simp_all)
  let ?d1 = "d\<lparr>cd_au := cd_au d @ x, cd_capacity := c1, cd_pts := f (cd_pts d)\<rparr>"
  have "cd_is_h265 ?d1 = h" using d(1) by simp
  then obtain c2 m2 where 2: "plenty m2" "depay_packets qs (?d1, m1) =
      Some (?d1\<lparr>cd_au := (if mk then [] else cd_au ?d1 @ y), cd_capacity := c2, cd_pts := g (cd_pts ?d1)\<rparr>, m2,
            if mk then [\<lparr>ab_data = cd_au ?d1 @ y, ab_pts = g (cd_pts ?d1), ab_eos = False\<rparr>] else [])"
    by (rule receivesE [OF assms(2) _ 1(1)])
  have "depay_packets (ps @ qs) sm = do { (s1, m1, o1) \<leftarrow> depay_packets ps sm; (s2, m2, o2) \<leftarrow> depay_packets qs (s1, m1); Some (s2, m2, o1 @ o2) }" for sm
  proof (induction ps arbitrary: sm)
    case Nil
    show ?case by (cases sm) (auto split: bind_splits)
  next
    case (Cons p ps)
    then show ?case by (cases sm) (auto simp: split_def split: bind_splits)
  qed
  then show "\<exists>cap m1. plenty m1 \<and> depay_packets (ps @ qs) (d, m) =
        Some (d\<lparr>cd_au := (if mk then [] else cd_au d @ x @ y), cd_capacity := cap, cd_pts := g (f (cd_pts d))\<rparr>, m1,
              if mk then [\<lparr>ab_data = cd_au d @ x @ y, ab_pts = g (f (cd_pts d)), ab_eos = False\<rparr>] else [])"
    using 1(2) 2 by (intro exI [of _ c2] exI [of _ m2]) (cases d, simp)
qed

lemma append_au_plenty:
  assumes "plenty m"
  obtains cap m1 where "append_au xs (d, m) = (d\<lparr>cd_au := cd_au d @ xs, cd_capacity := cap\<rparr>, m1)" "plenty m1"
proof -
  obtain m1 where "alloc m = (None, m1)" "plenty m1" using assms by (rule plenty_alloc)
  then show ?thesis using that [of "cd_capacity d" m] that [of "au_capacity (of_nat (length (cd_au d) + length xs))" m1] assms
    by (cases "of_nat (length (cd_au d) + length xs) > cd_capacity d") (simp_all add: append_au_def Let_def)
qed

lemma push_nal_plenty:
  assumes "plenty m"
  obtains cap m1 where "push_nal p pts (d, m) = (d\<lparr>cd_au := cd_au d @ start_code @ p, cd_capacity := cap, cd_pts := pts\<rparr>, m1)" "plenty m1"
proof -
  obtain c1 m1 where 1: "append_au start_code (d\<lparr>cd_pts := pts\<rparr>, m) = (d\<lparr>cd_pts := pts, cd_au := cd_au d @ start_code, cd_capacity := c1\<rparr>, m1)" "plenty m1"
    using append_au_plenty [OF assms, of start_code "d\<lparr>cd_pts := pts\<rparr>"] by auto
  obtain c2 m2 where 2: "append_au p (d\<lparr>cd_pts := pts, cd_au := cd_au d @ start_code, cd_capacity := c1\<rparr>, m1) =
      (d\<lparr>cd_pts := pts, cd_au := (cd_au d @ start_code) @ p, cd_capacity := c2\<rparr>, m2)" "plenty m2"
    using append_au_plenty [OF 1(2), of p "d\<lparr>cd_pts := pts, cd_au := cd_au d @ start_code, cd_capacity := c1\<rparr>"] by auto
  show ?thesis using that [of c2 m2] 1 2 by (simp add: push_nal_def)
qed

lemma handle_fu_chunk_plenty:
  assumes "plenty m"
  obtains cap m1 where "handle_fu_chunk p hdr st pts (d, m) =
    (d\<lparr>cd_au := cd_au d @ (if st then start_code @ hdr else []) @ p, cd_capacity := cap, cd_pts := (if st then pts else cd_pts d)\<rparr>, m1)" "plenty m1"
proof (cases st)
  case True
  obtain c1 m1 where 1: "append_au start_code (d\<lparr>cd_pts := pts\<rparr>, m) = (d\<lparr>cd_pts := pts, cd_au := cd_au d @ start_code, cd_capacity := c1\<rparr>, m1)" "plenty m1"
    using append_au_plenty [OF assms, of start_code "d\<lparr>cd_pts := pts\<rparr>"] by auto
  obtain c2 m2 where 2: "append_au hdr (d\<lparr>cd_pts := pts, cd_au := cd_au d @ start_code, cd_capacity := c1\<rparr>, m1) =
      (d\<lparr>cd_pts := pts, cd_au := (cd_au d @ start_code) @ hdr, cd_capacity := c2\<rparr>, m2)" "plenty m2"
    using append_au_plenty [OF 1(2), of hdr "d\<lparr>cd_pts := pts, cd_au := cd_au d @ start_code, cd_capacity := c1\<rparr>"] by auto
  obtain c3 m3 where 3: "append_au p (d\<lparr>cd_pts := pts, cd_au := (cd_au d @ start_code) @ hdr, cd_capacity := c2\<rparr>, m2) =
      (d\<lparr>cd_pts := pts, cd_au := ((cd_au d @ start_code) @ hdr) @ p, cd_capacity := c3\<rparr>, m3)" "plenty m3"
    using append_au_plenty [OF 2(2), of p "d\<lparr>cd_pts := pts, cd_au := (cd_au d @ start_code) @ hdr, cd_capacity := c2\<rparr>"] by auto
  show ?thesis using that [of c3 m3] True 1 2 3 by (simp add: handle_fu_chunk_def)
next
  case False
  obtain c1 m1 where "append_au p (d, m) = (d\<lparr>cd_au := cd_au d @ p, cd_capacity := c1\<rparr>, m1)" "plenty m1"
    using append_au_plenty [OF assms] .
  then show ?thesis using that [of c1 m1] False by (simp add: handle_fu_chunk_def)
qed

text \<open>One packet.\<close>

lemma receives_packet:
  assumes "p \<noteq> []" "x \<noteq> []"
    and take: "\<And>d m. cd_is_h265 d = h \<Longrightarrow> plenty m \<Longrightarrow> \<exists>cap m1. plenty m1 \<and>
      take_payload p pts (d, m) = Some (d\<lparr>cd_au := cd_au d @ x, cd_capacity := cap, cd_pts := f (cd_pts d)\<rparr>, m1)"
  shows "receives h f [\<lparr>ab_data = rtp_header mk pt seq ts ssrc @ p, ab_pts = pts, ab_eos = False\<rparr>] x mk"
  unfolding receives_def
proof (intro allI impI)
  fix d :: st2110_21_depayloader and m assume "cd_is_h265 d = h \<and> plenty m"
  then have d: "cd_is_h265 d = h" "plenty m" by auto
  let ?pkt = "rtp_header mk pt seq ts ssrc @ p"
  obtain cap m1 where t: "plenty m1" "take_payload p pts (d, m) = Some (d\<lparr>cd_au := cd_au d @ x, cd_capacity := cap, cd_pts := f (cd_pts d)\<rparr>, m1)"
    using take [OF d] by blast
  obtain m2 where m2: "alloc m1 = (None, m2)" "plenty m2" using t(1) by (rule plenty_alloc)
  obtain m3 where m3: "alloc m2 = (None, m3)" "plenty m3" using m2(2) by (rule plenty_alloc)
  have "payload_start ?pkt = Some 12" by (simp add: payload_start_def Let_def)
  then show "\<exists>cap m1. plenty m1 \<and> depay_packets [\<lparr>ab_data = ?pkt, ab_pts = pts, ab_eos = False\<rparr>] (d, m) =
        Some (d\<lparr>cd_au := (if mk then [] else cd_au d @ x), cd_capacity := cap, cd_pts := f (cd_pts d)\<rparr>, m1,
              if mk then [\<lparr>ab_data = cd_au d @ x, ab_pts = f (cd_pts d), ab_eos = False\<rparr>] else [])"
    using t m2 m3 assms(1,2)
    by (intro exI [of _ cap] exI [of _ "if mk then m3 else m1"]) (cases d, simp add: st2110_21_depayloader_process_def Let_def push_au_def)
qed

section \<open>NAL units over the wire\<close>

definition ready_to_send :: "bool \<Rightarrow> int \<Rightarrow> nal_io \<Rightarrow> bool" where
  "ready_to_send h mtu io \<longleftrightarrow> cp_is_h265 (fst io) = h \<and> cp_mtu (fst io) = mtu \<and> plenty (fst (snd io))"

lemma send_packet_ok:
  assumes "ready_to_send h mtu (s, m, pace, out)"
  obtains s1 m1 es seq where "send_packet ts pts iv hdr p mk (s, m, pace, out) = Some (s1, m1, pace + iv, out @ es)"
    "ready_to_send h mtu (s1, m1, pace + iv, out @ es)"
    "packets es = [\<lparr>ab_data = rtp_header mk (of_int (cp_rtp_pt s)) seq ts (cp_ssrc s) @ hdr @ p, ab_pts = pts, ab_eos = False\<rparr>]"
proof -
  obtain m1 where m1: "alloc m = (None, m1)" "plenty m1" using assms plenty_alloc [of m] by (auto simp: ready_to_send_def)
  obtain m2 where m2: "alloc m1 = (None, m2)" "plenty m2" using m1(2) by (rule plenty_alloc)
  show ?thesis
    using that [of _ m2 "(if cp_pacer_enabled s then [Pace pace] else []) @
        [Emit \<lparr>ab_data = rtp_header mk (of_int (cp_rtp_pt s)) (cp_seq s) ts (cp_ssrc s) @ hdr @ p, ab_pts = pts, ab_eos = False\<rparr>]" "cp_seq s"]
      assms m1 m2 by (simp add: send_packet_def make_packet_def ready_to_send_def)
qed

text \<open>Headers: what the fragments say about the unit is read back.\<close>

lemma and_FF [simp]: "(n :: u8) AND 0xFF = n"
proof -
  have "(0xFF :: u8) = - 1" by simp
  then show ?thesis by (simp only: and.right_neutral)
qed

lemma shifted_mask:
  fixes n :: u8
  shows "drop_bit k (n AND push_bit k (mask j)) = drop_bit k n AND mask j"
    and "push_bit k (drop_bit k n AND mask j) = n AND push_bit k (mask j)"
proof -
  show "drop_bit k (n AND push_bit k (mask j)) = drop_bit k n AND mask j"
    by (rule bit_word_eqI) (auto simp: bit_simps dest: bit_imp_le_length)
  show "push_bit k (drop_bit k n AND mask j) = n AND push_bit k (mask j)"
    by (rule bit_word_eqI) (auto simp: bit_simps dest: bit_imp_le_length)
qed

lemma fu_bytes_h264:
  fixes n f :: u8
  assumes "f = 0 \<or> f = 0x40 \<or> f = 0x80 \<or> f = 0xC0"
  shows "((n AND 0xE0) OR 28) AND 0x1F = 28" "(((n AND 0xE0) OR 28) AND 0xE0) OR (((n AND 0x1F) OR f) AND 0x1F) = n"
    "((n AND 0x1F) OR f) AND 0x80 = f AND 0x80"
proof -
  have "(n AND 0xE0) OR (n AND 0x1F) = n AND (0xE0 OR 0x1F)" by (simp only: bit.conj_disj_distrib)
  then show "(((n AND 0xE0) OR 28) AND 0xE0) OR (((n AND 0x1F) OR f) AND 0x1F) = n"
    using assms by (auto simp: bit.conj_disj_distrib2 and.assoc)
qed (use assms in \<open>auto simp: bit.conj_disj_distrib2 and.assoc\<close>)

lemma fu_bytes_h265:
  fixes n f :: u8
  assumes "f = 0 \<or> f = 0x40 \<or> f = 0x80 \<or> f = 0xC0"
  shows "drop_bit 1 (((n AND 0x81) OR push_bit 1 49) AND 0x7E) = 49"
    "(((n AND 0x81) OR push_bit 1 49) AND 0x81) OR push_bit 1 ((drop_bit 1 (n AND 0x7E) OR f) AND 0x3F) = n"
    "(drop_bit 1 (n AND 0x7E) OR f) AND 0x80 = f AND 0x80"
proof -
  have m: "(0x7E :: u8) = push_bit 1 (mask 6)" "(0x3F :: u8) = mask 6" by (simp_all add: mask_eq_exp_minus_1)
  have d: "drop_bit 1 (n AND 0x7E) = drop_bit 1 n AND 0x3F" and p: "push_bit 1 (drop_bit 1 n AND 0x3F) = n AND 0x7E"
    unfolding m by (rule shifted_mask)+
  show "drop_bit 1 (((n AND 0x81) OR push_bit 1 49) AND 0x7E) = 49" by (simp add: bit.conj_disj_distrib2 and.assoc)
  have f: "(drop_bit 1 (n AND 0x7E) OR f) AND 0x3F = drop_bit 1 n AND 0x3F"
    unfolding d using assms by (auto simp: bit.conj_disj_distrib2 and.assoc)
  have "((n AND 0x81) OR push_bit 1 49) AND 0x81 = n AND 0x81" by (simp add: bit.conj_disj_distrib2 and.assoc)
  moreover have "(n AND 0x81) OR (n AND 0x7E) = n AND (0x81 OR 0x7E)" by (simp only: bit.conj_disj_distrib)
  ultimately show "(((n AND 0x81) OR push_bit 1 49) AND 0x81) OR push_bit 1 ((drop_bit 1 (n AND 0x7E) OR f) AND 0x3F) = n"
    by (simp only: f p) simp
  show "(drop_bit 1 (n AND 0x7E) OR f) AND 0x80 = f AND 0x80"
    unfolding d using assms by (auto simp: bit.conj_disj_distrib2 and.assoc)
qed

lemma if_false_id [simp]: "If False t = (\<lambda>u. u)"
  by (rule ext) simp

lemma send_fu_ok:
  assumes "0 < k" and frag: "\<And>first end chunk d m. cd_is_h265 d = h \<Longrightarrow>
      take_payload (fu_ind @ [ty OR (if first then 0x80 else 0) OR (if end then 0x40 else 0)] @ chunk) pts (d, m) =
      Some (handle_fu_chunk chunk nhdr first pts (d, m))"
  shows "ready_to_send h mtu (s, m, pace, out) \<Longrightarrow> rest \<noteq> [] \<Longrightarrow>
    \<exists>s1 m1 pace1 es. send_fu ts pts iv fu_ind ty k mk first rest (s, m, pace, out) = Some (s1, m1, pace1, out @ es) \<and>
      ready_to_send h mtu (s1, m1, pace1, out @ es) \<and>
      receives h (\<lambda>t. if first then pts else t) (packets es) ((if first then start_code @ nhdr else []) @ rest) mk"
proof (induction rest arbitrary: first s m pace out rule: length_induct)
  case (1 rest)
  let ?chunk = "take (nat k) rest" and ?tail = "drop (nat k) rest"
  let ?b = "ty OR (if first then 0x80 else 0) OR (if ?tail = [] then 0x40 else 0)"
  have chunk: "?chunk \<noteq> []" using assms(1) 1(3) by simp
  obtain s1 m1 es seq where s1: "send_packet ts pts iv (fu_ind @ [?b]) ?chunk (mk \<and> ?tail = []) (s, m, pace, out) = Some (s1, m1, pace + iv, out @ es)"
    "ready_to_send h mtu (s1, m1, pace + iv, out @ es)"
    "packets es = [\<lparr>ab_data = rtp_header (mk \<and> ?tail = []) (of_int (cp_rtp_pt s)) seq ts (cp_ssrc s) @ (fu_ind @ [?b]) @ ?chunk, ab_pts = pts, ab_eos = False\<rparr>]"
    by (rule send_packet_ok [OF 1(2)])
  have r: "receives h (\<lambda>t. if first then pts else t) (packets es) ((if first then start_code @ nhdr else []) @ ?chunk) (mk \<and> ?tail = [])"
    unfolding s1(3)
  proof (rule receives_packet)
    fix d :: st2110_21_depayloader and m :: alloc_script assume d: "cd_is_h265 d = h" "plenty m"
    show "\<exists>cap m1. plenty m1 \<and> take_payload ((fu_ind @ [?b]) @ ?chunk) pts (d, m) =
        Some (d\<lparr>cd_au := cd_au d @ (if first then start_code @ nhdr else []) @ ?chunk, cd_capacity := cap, cd_pts := (if first then pts else cd_pts d)\<rparr>, m1)"
      unfolding append_assoc frag [OF d(1)]
      by (rule handle_fu_chunk_plenty [OF d(2), of ?chunk nhdr first pts d]) auto
  qed (use chunk in auto)
  have step: "send_fu ts pts iv fu_ind ty k mk first rest (s, m, pace, out) = send_fu ts pts iv fu_ind ty k mk False ?tail (s1, m1, pace + iv, out @ es)"
    using assms(1) 1(3) s1(1) by (subst send_fu.simps) (simp add: Let_def)
  show ?case
  proof (cases "?tail = []")
    case True
    then have "send_fu ts pts iv fu_ind ty k mk False ?tail (s1, m1, pace + iv, out @ es) = Some (s1, m1, pace + iv, out @ es)"
      by (subst send_fu.simps) simp
    moreover have "rest = ?chunk" using True append_take_drop_id [of "nat k" rest] by simp
    ultimately show ?thesis using step s1(2) r True
      by (intro exI [of _ s1] exI [of _ m1] exI [of _ "pace + iv"] exI [of _ es]) simp
  next
    case False
    have "length ?tail < length rest" using assms(1) 1(3) by (simp add: not_le)
    then obtain s2 m2 pace2 es2 where s2: "send_fu ts pts iv fu_ind ty k mk False ?tail (s1, m1, pace + iv, out @ es) = Some (s2, m2, pace2, (out @ es) @ es2)"
      "ready_to_send h mtu (s2, m2, pace2, (out @ es) @ es2)" "receives h (\<lambda>t. t) (packets es2) ?tail mk"
      using 1(1) [rule_format, OF _ s1(2) False, of False] by auto
    have "receives h (\<lambda>t. if first then pts else t) (packets (es @ es2)) (((if first then start_code @ nhdr else []) @ ?chunk) @ ?tail) mk"
      unfolding packets_append by (rule receives_append [OF _ s2(3)]) (use r False in simp)
    then show ?thesis using step s2 by (intro exI [of _ s2] exI [of _ m2] exI [of _ pace2] exI [of _ "es @ es2"]) simp
  qed
qed

lemma take_fragment_h264:
  "\<not> cd_is_h265 d \<Longrightarrow> a AND 0x1F = 28 \<Longrightarrow> take_payload ([a] @ [b] @ chunk) pts (d, m) =
     Some (handle_fu_chunk chunk [(a AND 0xE0) OR (b AND 0x1F)] (b AND 0x80 \<noteq> 0) pts (d, m))"
  by (simp add: take_payload_def Let_def)

lemma take_fragment_h265:
  "cd_is_h265 d \<Longrightarrow> drop_bit 1 (a AND 0x7E) = 49 \<Longrightarrow> take_payload ([a, n2] @ [b] @ chunk) pts (d, m) =
     Some (handle_fu_chunk chunk [(a AND 0x81) OR push_bit 1 (b AND 0x3F), n2] (b AND 0x80 \<noteq> 0) pts (d, m))"
  by (simp add: take_payload_def Let_def)

lemma fragment_flags:
  defines "f \<equiv> \<lambda>(first :: bool) (end :: bool). (if first then 0x80 else 0) OR (if end then 0x40 else 0 :: u8)"
  shows "f first end = 0 \<or> f first end = 0x40 \<or> f first end = 0x80 \<or> f first end = 0xC0" "(f first end AND 0x80 \<noteq> 0) = first"
  by (simp_all add: f_def)

lemma fragment_h264:
  assumes "\<not> cd_is_h265 d"
  shows "take_payload ([(n AND 0xE0) OR 28] @ [(n AND 0x1F) OR (if first then 0x80 else 0) OR (if end then 0x40 else 0)] @ chunk) pts (d, m) =
    Some (handle_fu_chunk chunk [n] first pts (d, m))"
  using take_fragment_h264 [OF assms fu_bytes_h264(1) [OF fragment_flags(1)]]
  by (simp only: fu_bytes_h264(2,3) [OF fragment_flags(1)] fragment_flags(2))

lemma fragment_h265:
  assumes "cd_is_h265 d"
  shows "take_payload ([(n AND 0x81) OR push_bit 1 49, n2] @ [drop_bit 1 (n AND 0x7E) OR (if first then 0x80 else 0) OR (if end then 0x40 else 0)] @ chunk) pts (d, m) =
    Some (handle_fu_chunk chunk [n, n2] first pts (d, m))"
  using take_fragment_h265 [OF assms fu_bytes_h265(1) [OF fragment_flags(1)]]
  by (simp only: fu_bytes_h265(2,3) [OF fragment_flags(1)] fragment_flags(2))

lemma send_nal_ok:
  assumes r: "ready_to_send h mtu (s, m, pace, out)" and n: "nal_ok h n" and mtu: "mtu > 15"
  shows "\<exists>s1 m1 pace1 es. send_nal ts pts iv n mk (s, m, pace, out) = Some (s1, m1, pace1, out @ es) \<and>
    ready_to_send h mtu (s1, m1, pace1, out @ es) \<and> receives h (\<lambda>t. pts) (packets es) (start_code @ n) mk"
proof -
  have cp: "cp_mtu s = mtu" "cp_is_h265 s = h" using r by (auto simp: ready_to_send_def)
  have ne: "n \<noteq> []" using n by (simp add: nal_ok_def)
  consider "int (length n) \<le> mtu - 12" | "\<not> int (length n) \<le> mtu - 12" "\<not> h" | "\<not> int (length n) \<le> mtu - 12" h by blast
  then show ?thesis
  proof cases
    case 1
    obtain s1 m1 es seq where s1: "send_packet ts pts iv [] n mk (s, m, pace, out) = Some (s1, m1, pace + iv, out @ es)"
      "ready_to_send h mtu (s1, m1, pace + iv, out @ es)"
      "packets es = [\<lparr>ab_data = rtp_header mk (of_int (cp_rtp_pt s)) seq ts (cp_ssrc s) @ [] @ n, ab_pts = pts, ab_eos = False\<rparr>]"
      by (rule send_packet_ok [OF r])
    have "receives h (\<lambda>t. pts) (packets es) (start_code @ n) mk" unfolding s1(3) append_Nil
    proof (rule receives_packet)
      fix d :: st2110_21_depayloader and m :: alloc_script assume d: "cd_is_h265 d = h" "plenty m"
      have "take_payload n pts (d, m) = Some (push_nal n pts (d, m))"
        using n d(1) by (auto simp: take_payload_def nal_ok_def Let_def)
      then show "\<exists>cap m1. plenty m1 \<and> take_payload n pts (d, m) =
          Some (d\<lparr>cd_au := cd_au d @ start_code @ n, cd_capacity := cap, cd_pts := pts\<rparr>, m1)"
        using push_nal_plenty [OF d(2), of n pts d] by metis
    qed (use ne in auto)
    then show ?thesis using s1 1 cp by (auto simp: send_nal_def)
  next
    case 2
    have rest: "0 < mtu - 12 - 2" "drop 1 n \<noteq> []" using mtu 2 ne by auto
    have "receives h (\<lambda>t. if True then pts else t) ps ((if True then start_code @ [n ! 0] else []) @ drop 1 n) mk \<Longrightarrow>
        receives h (\<lambda>t. pts) ps (start_code @ n) mk" for ps
      using ne by (simp add: Cons_nth_drop_Suc)
    moreover have "send_nal ts pts iv n mk (s, m, pace, out) =
        send_fu ts pts iv [(n ! 0 AND 0xE0) OR 28] (n ! 0 AND 0x1F) (mtu - 12 - 2) mk True (drop 1 n) (s, m, pace, out)"
      using 2 cp ne by (simp add: send_nal_def)
    ultimately show ?thesis
      using send_fu_ok [OF rest(1) fragment_h264 r rest(2), where first = True and ts = ts and iv = iv and mk = mk and pts = pts] 2(2) by metis
  next
    case 3
    have l: "2 \<le> length n" using n 3(2) by (simp add: nal_ok_def)
    have rest: "0 < mtu - 12 - 3" "drop 2 n \<noteq> []" using mtu 3 by auto
    have "n = [n ! 0, n ! 1] @ drop 2 n" using l by (cases n; cases "tl n") auto
    then have "receives h (\<lambda>t. if True then pts else t) ps ((if True then start_code @ [n ! 0, n ! 1] else []) @ drop 2 n) mk \<Longrightarrow>
        receives h (\<lambda>t. pts) ps (start_code @ n) mk" for ps by simp
    moreover have "send_nal ts pts iv n mk (s, m, pace, out) =
        send_fu ts pts iv [(n ! 0 AND 0x81) OR push_bit 1 49, n ! 1] (drop_bit 1 (n ! 0 AND 0x7E)) (mtu - 12 - 3) mk True (drop 2 n) (s, m, pace, out)"
      using 3 cp l ne by (simp add: send_nal_def)
    ultimately show ?thesis
      using send_fu_ok [OF rest(1) fragment_h265 r rest(2), where first = True and ts = ts and iv = iv and mk = mk and pts = pts] 3(2) by metis
  qed
qed

text \<open>What a receiver is to make of a list of NAL units.\<close>

definition annexb :: "u8 list list \<Rightarrow> u8 list" where
  "annexb ns = concat (map (\<lambda>n. start_code @ n) ns)"

lemma send_nals_ok:
  "ready_to_send h mtu (s, m, pace, out) \<Longrightarrow> \<forall>n \<in> set (n # ns). nal_ok h n \<Longrightarrow> mtu > 15 \<Longrightarrow>
   \<exists>s1 m1 pace1 es. send_nals ts pts iv (n # ns) (s, m, pace, out) = Some (s1, m1, pace1, out @ es) \<and>
     receives h (\<lambda>t. pts) (packets es) (annexb (n # ns)) True"
proof (induction ns arbitrary: n s m pace out)
  case Nil
  then show ?case using send_nal_ok [OF Nil.prems(1) _ Nil.prems(3), of n ts pts iv True] by (auto simp: annexb_def)
next
  case (Cons n' ns)
  obtain s1 m1 pace1 es where 1: "send_nal ts pts iv n False (s, m, pace, out) = Some (s1, m1, pace1, out @ es)"
    "ready_to_send h mtu (s1, m1, pace1, out @ es)" "receives h (\<lambda>t. pts) (packets es) (start_code @ n) False"
    using send_nal_ok [OF Cons.prems(1) _ Cons.prems(3), of n ts pts iv False] Cons.prems(2) by auto
  obtain s2 m2 pace2 es2 where 2: "send_nals ts pts iv (n' # ns) (s1, m1, pace1, out @ es) = Some (s2, m2, pace2, (out @ es) @ es2)"
    "receives h (\<lambda>t. pts) (packets es2) (annexb (n' # ns)) True"
    using Cons.IH [OF 1(2) _ Cons.prems(3), of n'] Cons.prems(2) by auto
  have "receives h (\<lambda>t. pts) (packets (es @ es2)) (annexb (n # n' # ns)) True"
    using receives_append [OF 1(3) 2(2)] by (simp add: annexb_def)
  then show ?case using 1(1) 2(1) by auto
qed

text \<open>C37: an access unit of H.264 or H.265 survives the way over the network.  The payloader finds its NAL units whatever their start
  codes, sends each whole or in fragments, and the depayloader makes of the packets one access unit with the same NAL units, bit for bit,
  each behind a start code of four bytes, and the same time stamp; nothing is left over.\<close>

theorem nal_roundtrip:
  assumes "ab_data buf = byte_stream cns" "cns \<noteq> []" and "\<forall>(c, n) \<in> set cns. is_start_code c \<and> nal_ok (cp_is_h265 s) n"
    and "15 < cp_mtu s" "plenty m" "plenty m'" "cd_is_h265 d = cp_is_h265 s" "cd_au d = []"
  shows "\<exists>s1 m1 pace es d1 m2. st2110_21_payloader_process buf s m = Some (ZST_OK, s1, m1, pace, es) \<and>
    depay_packets (packets es) (d, m') = Some (d1, m2, [\<lparr>ab_data = annexb (map snd cns), ab_pts = ab_pts buf, ab_eos = False\<rparr>]) \<and> cd_au d1 = []"
proof -
  obtain c n cns' where cns: "cns = (c, n) # cns'" using assms(2) by (cases cns) auto
  have c: "is_start_code c" and n: "nal_ok (cp_is_h265 s) n" and rest: "\<forall>(c, n) \<in> set cns'. is_start_code c \<and> nal_ok (cp_is_h265 s) n"
    using assms(3) cns by auto
  have "length cns' \<le> length (byte_stream cns')" using rest by (induction cns') (auto simp: byte_stream_def is_start_code_def)
  then have fuel: "length cns' < Suc (length (ab_data buf))" by (simp add: assms(1) cns byte_stream_def)
  have data: "ab_data buf = [] @ c @ n @ byte_stream cns'" by (simp add: assms(1) cns byte_stream_def)
  have "3 \<le> length c" "n \<noteq> []" using c n by (auto simp: is_start_code_def nal_ok_def)
  then have find: "zst_find_start_code (ab_data buf) 0 = Some (0, length c)"
    using scan_at_code [OF c, of "n @ byte_stream cns'" 0] by (simp add: data zst_find_start_code_def)
  have "0 \<le> int k div (cp_mtu s - 12)" for k using assms(4) by (simp add: pos_imp_zdiv_nonneg_iff)
  then have "int k div (cp_mtu s - 12) + 1 \<noteq> 0" for k by (smt (verit))
  then obtain iv where iv: "pacing_interval s (length (ab_data buf)) = Some iv"
    using assms(4) by (auto simp: pacing_interval_def Let_def)
  let ?ts = "ucast (ab_pts buf * 90000 div 1000000000)"
  have "ready_to_send (cp_is_h265 s) (cp_mtu s) (s, m, ab_pts buf, [])" using assms(5) by (simp add: ready_to_send_def)
  moreover have "\<forall>n \<in> set (n # map snd cns'). nal_ok (cp_is_h265 s) n" using n rest by auto
  ultimately obtain s1 m1 pace es where s1: "send_nals ?ts (ab_pts buf) iv (n # map snd cns') (s, m, ab_pts buf, []) = Some (s1, m1, pace, es)"
    "receives (cp_is_h265 s) (\<lambda>t. ab_pts buf) (packets es) (annexb (n # map snd cns')) True"
    using send_nals_ok [of "cp_is_h265 s" "cp_mtu s" s m "ab_pts buf" "[]" n "map snd cns'" ?ts "ab_pts buf" iv] assms(4)
    by (auto simp del: send_nals.simps)
  have "nal_loop (Suc (length (ab_data buf))) ?ts (ab_pts buf) iv (ab_data buf) (0, length c) (s, m, ab_pts buf, []) = Some (s1, m1, pace, es)"
    using nal_loop_sends [OF c n rest fuel, of ?ts "ab_pts buf" iv "[]" "(s, m, ab_pts buf, [])"] s1(1)
    by (simp add: data del: nal_loop.simps send_nals.simps)
  then have "st2110_21_payloader_process buf s m = Some (ZST_OK, s1, m1, pace, es)"
    by (simp add: st2110_21_payloader_process_def iv find Let_def del: nal_loop.simps)
  moreover obtain cap m2 where "depay_packets (packets es) (d, m') = Some (d\<lparr>cd_au := [], cd_capacity := cap, cd_pts := ab_pts buf\<rparr>, m2,
      [\<lparr>ab_data = annexb (n # map snd cns'), ab_pts = ab_pts buf, ab_eos = False\<rparr>])"
    by (rule receivesE [OF s1(2) assms(7,6)]) (simp add: assms(8) that)
  ultimately show ?thesis unfolding cns by (auto simp del: depay_packets.simps)
qed

theorem nal_roundtrip_witness:
  "\<exists>s1 m1 pace es d1 m2. st2110_21_payloader_process \<lparr>ab_data = [0, 0, 0, 1, 0x67, 5, 0, 0, 1, 0x65, 7, 7, 7, 7, 7, 7, 7], ab_pts = 1000, ab_eos = False\<rparr>
       (zst_st2110_21_payloader_create\<lparr>cp_mtu := 18\<rparr>) [] = Some (ZST_OK, s1, m1, pace, es) \<and>
    depay_packets (packets es) (zst_st2110_21_depayloader_create, []) =
      Some (d1, m2, [\<lparr>ab_data = [0, 0, 0, 1, 0x67, 5, 0, 0, 0, 1, 0x65, 7, 7, 7, 7, 7, 7, 7], ab_pts = 1000, ab_eos = False\<rparr>]) \<and> cd_au d1 = []"
proof -
  let ?b = "\<lparr>ab_data = [0, 0, 0, 1, 0x67, 5, 0, 0, 1, 0x65, 7, 7, 7, 7, 7, 7, 7], ab_pts = 1000, ab_eos = False\<rparr>"
  let ?c = "[([0, 0, 0, 1], [0x67, 5]), ([0, 0, 1], [0x65, 7, 7, 7, 7, 7, 7, 7])] :: (u8 list \<times> u8 list) list"
  let ?s = "zst_st2110_21_payloader_create\<lparr>cp_mtu := 18\<rparr>"
  have h: "\<not> cp_is_h265 ?s" "15 < cp_mtu ?s" "cd_is_h265 zst_st2110_21_depayloader_create = cp_is_h265 ?s"
    "cd_au zst_st2110_21_depayloader_create = []"
    by (simp_all add: zst_st2110_21_payloader_create_def zst_st2110_21_depayloader_create_def)
  have ok: "\<forall>(c, n) \<in> set ?c. is_start_code c \<and> nal_ok (cp_is_h265 ?s) n"
    using h(1) by (simp add: is_start_code_def nal_ok_def)
  have "ab_data ?b = byte_stream ?c" by (simp add: byte_stream_def)
  from nal_roundtrip [OF this _ ok h(2) plenty_Nil plenty_Nil h(3,4)] show ?thesis
    by (simp add: annexb_def start_code_def)
qed

text \<open>A start code with nothing behind it takes the marker with it: the access unit stays in the depayloader until the next one.\<close>

lemma trailing_start_code_no_marker:
  "map_option (\<lambda>(r, s1, m1, pace, es). map (\<lambda>p. (ab_data p ! 1 AND 0x80, drop 12 (ab_data p))) (packets es))
     (st2110_21_payloader_process \<lparr>ab_data = [0, 0, 1, 0x65, 0, 0, 1], ab_pts = 0, ab_eos = False\<rparr> zst_st2110_21_payloader_create []) =
   Some [(0, [0x65])]"
  by code_simp

lemma payloader_mtu_12:
  "cp_mtu s = 12 \<Longrightarrow> st2110_21_payloader_process buf s m = None"
  by (simp add: st2110_21_payloader_process_def pacing_interval_def)

end
