(* ===== verification/Zst_St2110_Audio.thy ===== *)
theory Zst_St2110_Audio
  imports Zst_Rtp "HOL-Library.Monad_Syntax"
begin

text \<open>
  PCM audio and ancillary data over RTP: the elements of \<open>src/st2110_30_payloader.c\<close>, \<open>src/st2110_30_depayloader.c\<close>,
  \<open>src/st2110_40_payloader.c\<close> and \<open>src/st2110_40_depayloader.c\<close>.  A buffer may carry an audio frame, with its number of
  samples and its data.  A result \<open>None\<close> is a division by zero, a write through the null pointer of an allocation that is
  not checked, a read behind the data, or the use of freed memory.
\<close>

record audio_buffer = av_buffer +
  au_frame :: "(u32 \<times> u8 list option) option"

section \<open>The audio payloader\<close>

record st2110_30_payloader =
  ap_channels :: int
  ap_sample_rate :: int
  ap_bit_depth :: int
  ap_rtp_pt :: int
  ap_ssrc :: u32
  ap_seq :: u16

type_synonym audio_io = "st2110_30_payloader \<times> alloc_script \<times> av_buffer list"

text \<open>\<open>audio_open\<close>: the sequence number and the source are drawn at random.\<close>

definition audio_open :: "u32 \<Rightarrow> u32 \<Rightarrow> st2110_30_payloader \<Rightarrow> st2110_30_payloader" where
  "audio_open r1 r2 s = s\<lparr>ap_seq := ucast (r1 AND 0xFFFF), ap_ssrc := 0x21103000 OR (r2 AND 0xFFF)\<rparr>"

definition audio_frame_size :: "st2110_30_payloader \<Rightarrow> int" where
  "audio_frame_size s =
     (let bytes_per_sample = (if ap_bit_depth s div 8 \<le> 0 then 3 else ap_bit_depth s div 8)
      in ap_channels s * bytes_per_sample)"

text \<open>How many bytes are to be sent, and from where.\<close>

definition audio_source :: "int \<Rightarrow> audio_buffer \<Rightarrow> nat \<times> u8 list option" where
  "audio_source frame_size b =
     (case au_frame b of Some (nb_samples, d) \<Rightarrow> (unat (nb_samples * of_int frame_size), d)
      | None \<Rightarrow> (length (ab_data b), Some (ab_data b)))"

definition audio_max_payload :: "int \<Rightarrow> nat" where
  "audio_max_payload frame_size =
     (let max_payload = nat (1400 - 1400 mod frame_size) in if max_payload = 0 then nat frame_size else max_payload)"

definition audio_rtp_ts :: "u64 \<Rightarrow> int \<Rightarrow> u32" where
  "audio_rtp_ts pts rate = ucast (pts * of_int rate div 1000000000)"

definition audio_packet :: "st2110_30_payloader \<Rightarrow> int \<Rightarrow> u64 \<Rightarrow> nat \<Rightarrow> u8 list \<Rightarrow> av_buffer" where
  "audio_packet s frame_size pts offset payload =
     (let sample_offset = of_nat (offset div nat frame_size)
      in \<lparr>ab_data = rtp_header False (of_int (ap_rtp_pt s)) (ap_seq s)
              (audio_rtp_ts pts (ap_sample_rate s) + ucast (sample_offset :: u64)) (ap_ssrc s) @ payload,
          ab_pts = pts + sample_offset * (1000000000 div of_int (ap_sample_rate s)), ab_eos = False\<rparr>)"

text \<open>The loop: all chunks but the last are pushed, the last one is the output.\<close>

function send_audio :: "int \<Rightarrow> nat \<Rightarrow> u8 list option \<Rightarrow> u64 \<Rightarrow> nat \<Rightarrow> audio_io \<Rightarrow> (audio_io \<times> av_buffer option) option" where
  "send_audio frame_size in_size in_data pts offset (s, m, out) =
     (if in_size \<le> offset then Some ((s, m, out), None)
      else
        (let chunk = min (in_size - offset) (audio_max_payload frame_size)
         in if chunk = 0 then None
            else (case alloc m of (Some _, m1) \<Rightarrow> Some ((s, m1, out), None)
                  | (None, m1) \<Rightarrow>
                      (case alloc m1 of (Some _, m2) \<Rightarrow> None
                       | (None, m2) \<Rightarrow>
                           if ap_sample_rate s = 0 \<or> (case in_data of None \<Rightarrow> False | Some d \<Rightarrow> length d < offset + chunk) then None
                           else
                             (let payload = (case in_data of Some d \<Rightarrow> take chunk (drop offset d) | None \<Rightarrow> replicate chunk 0);
                                  rtp = audio_packet s frame_size pts offset payload; s1 = s\<lparr>ap_seq := ap_seq s + 1\<rparr>
                              in if in_size \<le> offset + chunk then Some ((s1, m2, out), Some rtp)
                                 else send_audio frame_size in_size in_data pts (offset + chunk) (s1, m2, out @ [rtp]))))))"
  by pat_completeness auto
termination
  by (relation "measure (\<lambda>(fs, n, d, pts, off, io). n - off)") auto

declare send_audio.simps [simp del]

definition st2110_30_payloader_process ::
    "audio_buffer \<Rightarrow> st2110_30_payloader \<Rightarrow> alloc_script \<Rightarrow> (zst_result \<times> audio_io \<times> av_buffer option) option" where
  "st2110_30_payloader_process b s m =
     (if ab_eos b then Some (ZST_OK, (s, m, []), Some (av_buffer.truncate b))
      else if audio_frame_size s \<le> 0 then Some (ZST_ERROR, (s, m, []), None)
      else (case audio_source (audio_frame_size s) b of (in_size, in_data) \<Rightarrow>
              do { (io, out) \<leftarrow> send_audio (audio_frame_size s) in_size in_data (ab_pts b) 0 (s, m, []); Some (ZST_OK, io, out) }))"

definition st2110_30_payloader_set_property :: "string \<Rightarrow> string \<Rightarrow> st2110_30_payloader \<Rightarrow> zst_result \<times> st2110_30_payloader" where
  "st2110_30_payloader_set_property name value s =
     (if name = ''channels'' then (ZST_OK, s\<lparr>ap_channels := c_atoi value\<rparr>)
      else if name = ''sample-rate'' then (ZST_OK, s\<lparr>ap_sample_rate := c_atoi value\<rparr>)
      else if name = ''bit-depth'' then (ZST_OK, s\<lparr>ap_bit_depth := c_atoi value\<rparr>)
      else if name = ''rtp-pt'' then (ZST_OK, s\<lparr>ap_rtp_pt := c_atoi value\<rparr>)
      else (ZST_ERROR, s))"

definition st2110_30_payloader_get_property :: "string \<Rightarrow> nat \<Rightarrow> st2110_30_payloader \<Rightarrow> zst_result \<times> string option" where
  "st2110_30_payloader_get_property name max_len s =
     (if name = ''channels'' then (ZST_OK, text_out max_len (print_int (ap_channels s)))
      else if name = ''sample-rate'' then (ZST_OK, text_out max_len (print_int (ap_sample_rate s)))
      else if name = ''bit-depth'' then (ZST_OK, text_out max_len (print_int (ap_bit_depth s)))
      else if name = ''rtp-pt'' then (ZST_OK, text_out max_len (print_int (ap_rtp_pt s)))
      else (ZST_ERROR, None))"

definition zst_st2110_30_payloader_create :: st2110_30_payloader where
  "zst_st2110_30_payloader_create =
     \<lparr>ap_channels = 2, ap_sample_rate = 48000, ap_bit_depth = 24, ap_rtp_pt = 97, ap_ssrc = 0, ap_seq = 0\<rparr>"

section \<open>The audio depayloader\<close>

record st2110_30_depayloader =
  ad_channels :: int
  ad_sample_rate :: int

definition st2110_30_depayloader_process ::
    "av_buffer \<Rightarrow> st2110_30_depayloader \<Rightarrow> alloc_script \<Rightarrow> (zst_result \<times> alloc_script \<times> audio_buffer option) option" where
  "st2110_30_depayloader_process b s m =
     (if ab_eos b then Some (ZST_OK, m, Some (av_buffer.extend b \<lparr>au_frame = None\<rparr>))
      else if length (ab_data b) \<le> 12 then Some (ZST_OK, m, None)
      else
        (case alloc m of (Some _, m1) \<Rightarrow> Some (ZST_ERROR, m1, None)
         | (None, m1) \<Rightarrow>
             (case alloc m1 of (Some _, m2) \<Rightarrow> None
              | (None, m2) \<Rightarrow>
                  (case alloc m2 of (Some _, m3) \<Rightarrow> None
                   | (None, m3) \<Rightarrow>
                       if ad_channels s = 0 then None
                       else
                         (let payload = drop 12 (ab_data b); rtp_ts = get32 (ab_data b) 4;
                              pts = (if ad_sample_rate s > 0 then ucast rtp_ts * 1000000000 div of_int (ad_sample_rate s) else ab_pts b);
                              n = ucast (of_nat (length payload) div of_int (ad_channels s * 3) :: u64) :: u32;
                              nb_samples = (if n = 0 then 1 else n)
                          in Some (ZST_OK, m3,
                               Some \<lparr>ab_data = payload, ab_pts = pts, ab_eos = False, au_frame = Some (nb_samples, Some payload)\<rparr>))))))"

definition st2110_30_depayloader_set_property :: "string \<Rightarrow> string \<Rightarrow> st2110_30_depayloader \<Rightarrow> zst_result \<times> st2110_30_depayloader" where
  "st2110_30_depayloader_set_property name value s =
     (if name = ''expected-channels'' then (ZST_OK, s\<lparr>ad_channels := c_atoi value\<rparr>)
      else if name = ''expected-sample-rate'' then (ZST_OK, s\<lparr>ad_sample_rate := c_atoi value\<rparr>)
      else (ZST_ERROR, s))"

definition st2110_30_depayloader_get_property :: "string \<Rightarrow> nat \<Rightarrow> st2110_30_depayloader \<Rightarrow> zst_result \<times> string option" where
  "st2110_30_depayloader_get_property name max_len s =
     (if name = ''expected-channels'' then (ZST_OK, text_out max_len (print_int (ad_channels s)))
      else if name = ''expected-sample-rate'' then (ZST_OK, text_out max_len (print_int (ad_sample_rate s)))
      else (ZST_ERROR, None))"

definition zst_st2110_30_depayloader_create :: st2110_30_depayloader where
  "zst_st2110_30_depayloader_create = \<lparr>ad_channels = 2, ad_sample_rate = 48000\<rparr>"

section \<open>Ancillary data\<close>

text \<open>The text of \<open>aux-data-type\<close> is allocated; \<open>Freed\<close> is a pointer to memory that was given back.\<close>

datatype heap_text = Null_text | Text string | Freed

record st2110_40_payloader =
  an_aux_data_type :: heap_text
  an_sampling_frequency :: int
  an_ssrc :: u32
  an_seq :: u16

definition anc_open :: "u32 \<Rightarrow> u32 \<Rightarrow> st2110_40_payloader \<Rightarrow> st2110_40_payloader" where
  "anc_open r1 r2 s = s\<lparr>an_seq := ucast (r1 AND 0xFFFF), an_ssrc := 0x21104000 OR (r2 AND 0xFFF)\<rparr>"

definition st2110_40_payloader_process ::
    "av_buffer \<Rightarrow> st2110_40_payloader \<Rightarrow> alloc_script \<Rightarrow> (zst_result \<times> st2110_40_payloader \<times> alloc_script \<times> av_buffer option) option" where
  "st2110_40_payloader_process b s m =
     (if ab_eos b then Some (ZST_OK, s, m, Some b)
      else
        (case alloc m of (Some _, m1) \<Rightarrow> Some (ZST_ERROR, s, m1, None)
         | (None, m1) \<Rightarrow>
             (case alloc m1 of (Some _, m2) \<Rightarrow> None
              | (None, m2) \<Rightarrow>
                  Some (ZST_OK, s\<lparr>an_seq := an_seq s + 1\<rparr>, m2,
                    Some \<lparr>ab_data = rtp_header False 97 (an_seq s) (ucast (ab_pts b * 90000 div 1000000000)) (an_ssrc s) @ ab_data b,
                          ab_pts = ab_pts b, ab_eos = False\<rparr>))))"

text \<open>Freeing the text; a pointer that was freed before may not be freed again.\<close>

definition free_text :: "heap_text \<Rightarrow> unit option" where
  "free_text t = (if t = Freed then None else Some ())"

definition st2110_40_payloader_set_property ::
    "string \<Rightarrow> string \<Rightarrow> st2110_40_payloader \<times> alloc_script \<Rightarrow> (zst_result \<times> st2110_40_payloader \<times> alloc_script) option" where
  "st2110_40_payloader_set_property name value = (\<lambda>(s, m).
     (if name = ''aux-data-type'' then
        do { _ \<leftarrow> free_text (an_aux_data_type s);
             (case alloc m of (Some _, m1) \<Rightarrow> Some (ZST_OK, s\<lparr>an_aux_data_type := Null_text\<rparr>, m1)
              | (None, m1) \<Rightarrow> Some (ZST_OK, s\<lparr>an_aux_data_type := Text value\<rparr>, m1)) }
      else if name = ''sampling-frequency'' then Some (ZST_OK, s\<lparr>an_sampling_frequency := c_atoi value\<rparr>, m)
      else Some (ZST_ERROR, s, m)))"

definition st2110_40_payloader_get_property :: "string \<Rightarrow> nat \<Rightarrow> st2110_40_payloader \<Rightarrow> (zst_result \<times> string option) option" where
  "st2110_40_payloader_get_property name max_len s =
     (if name = ''aux-data-type'' then
        (case an_aux_data_type s of Freed \<Rightarrow> None | Text t \<Rightarrow> Some (ZST_OK, text_out max_len t)
         | Null_text \<Rightarrow> Some (ZST_OK, text_out max_len ''''))
      else if name = ''sampling-frequency'' then Some (ZST_OK, text_out max_len (print_int (an_sampling_frequency s)))
      else Some (ZST_ERROR, None))"

definition st2110_40_payloader_close :: "st2110_40_payloader \<Rightarrow> st2110_40_payloader option" where
  "st2110_40_payloader_close s =
     do { _ \<leftarrow> free_text (an_aux_data_type s);
          Some (if an_aux_data_type s = Null_text then s else s\<lparr>an_aux_data_type := Freed\<rparr>) }"

definition zst_st2110_40_payloader_create :: st2110_40_payloader where
  "zst_st2110_40_payloader_create =
     \<lparr>an_aux_data_type = Text ''cea608'', an_sampling_frequency = 48000, an_ssrc = 0, an_seq = 0\<rparr>"

definition st2110_40_depayloader_process :: "av_buffer \<Rightarrow> alloc_script \<Rightarrow> (zst_result \<times> alloc_script \<times> av_buffer option) option" where
  "st2110_40_depayloader_process b m =
     (if ab_eos b then Some (ZST_OK, m, Some b)
      else if length (ab_data b) \<le> 12 then Some (ZST_OK, m, None)
      else
        (case alloc m of (Some _, m1) \<Rightarrow> Some (ZST_ERROR, m1, None)
         | (None, m1) \<Rightarrow>
             (case alloc m1 of (Some _, m2) \<Rightarrow> None
              | (None, m2) \<Rightarrow> Some (ZST_OK, m2, Some \<lparr>ab_data = drop 12 (ab_data b), ab_pts = ab_pts b, ab_eos = False\<rparr>))))"

end
