(* ===== verification/Zst_St2110_Audio_Laws.thy ===== *)
theory Zst_St2110_Audio_Laws
  imports Zst_St2110_Audio
begin

text \<open>
  Facts about the elements of \<open>Zst_St2110_Audio\<close>: samples and ancillary data come out of the depayloaders as they went into the payloaders.
\<close>

section \<open>Audio\<close>

text \<open>The packets in the order in which they leave the element: those pushed, and the output.\<close>

definition sent_packets :: "audio_io \<times> av_buffer option \<Rightarrow> av_buffer list" where
  "sent_packets r = snd (snd (fst r)) @ (case snd r of None \<Rightarrow> [] | Some p \<Rightarrow> [p])"

text \<open>The packet number \<open>i\<close> of those that carry \<open>x\<close>.\<close>

definition nth_audio_packet :: "st2110_30_payloader \<Rightarrow> int \<Rightarrow> u64 \<Rightarrow> u8 list \<Rightarrow> nat \<Rightarrow> av_buffer" where
  "nth_audio_packet s fs pts x i =
     (let k = audio_max_payload fs in audio_packet (s\<lparr>ap_seq := ap_seq s + of_nat i\<rparr>) fs pts (i * k) (take k (drop (i * k) x)))"

lemma audio_max_payload_pos: "0 < fs \<Longrightarrow> 0 < audio_max_payload fs"
  by (simp add: audio_max_payload_def Let_def)

lemma audio_max_payload_dvd: "0 < fs \<Longrightarrow> nat fs dvd audio_max_payload fs"
proof -
  assume fs: "0 < fs"
  have "fs dvd 1400 - 1400 mod fs" by (simp add: minus_mod_eq_mult_div)
  moreover have "0 \<le> 1400 - 1400 mod fs" using fs by (simp add: zmod_le_nonneg_dividend)
  ultimately show ?thesis using fs by (simp add: audio_max_payload_def Let_def nat_dvd_iff)
qed

lemma audio_packet_payload [simp]: "drop 12 (ab_data (audio_packet s fs pts off p)) = p"
  by (simp add: audio_packet_def Let_def)

lemma send_audio_step:
  assumes "alloc m = (None, m1)" "alloc m1 = (None, m2)" "ap_sample_rate s \<noteq> 0" "c = min (n - off) (audio_max_payload fs)" "c \<noteq> 0"
    and "off + c \<le> length d"
  shows "send_audio fs n (Some d) pts off (s, m, out) =
    (let p = audio_packet s fs pts off (take c (drop off d))
     in if n \<le> off + c then Some ((s\<lparr>ap_seq := ap_seq s + 1\<rparr>, m2, out), Some p)
        else send_audio fs n (Some d) pts (off + c) (s\<lparr>ap_seq := ap_seq s + 1\<rparr>, m2, out @ [p]))"
  using assms(1-3,5,6) unfolding assms(4) by (subst send_audio.simps) (simp add: Let_def)

lemma send_audio_ok:
  assumes fs: "0 < fs" and k: "k = audio_max_payload fs" and n: "n \<le> length d"
  shows "ap_sample_rate s \<noteq> 0 \<Longrightarrow> plenty m \<Longrightarrow> i * k < n \<Longrightarrow>
    \<exists>r. send_audio fs n (Some d) pts (i * k) (s\<lparr>ap_seq := ap_seq s + of_nat i\<rparr>, m, map (nth_audio_packet s fs pts (take n d)) [0..<i]) = Some r \<and> snd r \<noteq> None \<and>
      (\<exists>j. i < j \<and> sent_packets r = map (nth_audio_packet s fs pts (take n d)) [0..<j] \<and> (j - 1) * k < n \<and> n \<le> j * k)"
proof (induction "n - i * k" arbitrary: i m rule: less_induct)
  case less
  let ?x = "take n d" and ?s = "s\<lparr>ap_seq := ap_seq s + of_nat i\<rparr>"
  have kpos: "0 < k" using audio_max_payload_pos [OF fs] k by simp
  obtain m1 where m1: "alloc m = (None, m1)" "plenty m1" using less.prems(2) by (rule plenty_alloc)
  obtain m2 where m2: "alloc m1 = (None, m2)" "plenty m2" using m1(2) by (rule plenty_alloc)
  let ?c = "min (n - i * k) k"
  have pay: "take ?c (drop (i * k) d) = take k (drop (i * k) ?x)" by (simp add: drop_take min.commute)
  have pkt: "audio_packet ?s fs pts (i * k) (take ?c (drop (i * k) d)) = nth_audio_packet s fs pts ?x i"
    unfolding pay by (simp add: nth_audio_packet_def k Let_def)
  have c: "?c \<noteq> 0" "i * k + ?c \<le> length d" using less.prems(3) kpos n by auto
  have s1: "?s\<lparr>ap_seq := ap_seq ?s + 1\<rparr> = s\<lparr>ap_seq := ap_seq s + of_nat (Suc i)\<rparr>" by (simp add: ac_simps)
  have step: "send_audio fs n (Some d) pts (i * k) (?s, m, map (nth_audio_packet s fs pts ?x) [0..<i]) =
      (if n \<le> i * k + ?c then Some ((s\<lparr>ap_seq := ap_seq s + of_nat (Suc i)\<rparr>, m2, map (nth_audio_packet s fs pts ?x) [0..<i]), Some (nth_audio_packet s fs pts ?x i))
       else send_audio fs n (Some d) pts (i * k + ?c) (s\<lparr>ap_seq := ap_seq s + of_nat (Suc i)\<rparr>, m2, map (nth_audio_packet s fs pts ?x) [0..<Suc i]))"
    using send_audio_step [OF m1(1) m2(1), of ?s ?c n "i * k" fs d pts "map (nth_audio_packet s fs pts ?x) [0..<i]"] less.prems(1) c
    unfolding pkt Let_def s1 by (simp add: k del: of_nat_Suc)
  show ?case
  proof (cases "n \<le> i * k + ?c")
    case True
    then show ?thesis using step less.prems(3) by (auto simp: sent_packets_def intro!: exI [of _ "Suc i"])
  next
    case False
    then have c: "?c = k" and lt: "Suc i * k < n" by auto
    have "n - Suc i * k < n - i * k" using lt kpos by auto
    from less.hyps [OF this less.prems(1) m2(2) lt] obtain r j where r: "send_audio fs n (Some d) pts (Suc i * k)
        (s\<lparr>ap_seq := ap_seq s + of_nat (Suc i)\<rparr>, m2, map (nth_audio_packet s fs pts ?x) [0..<Suc i]) = Some r" "snd r \<noteq> None"
      "Suc i < j" "sent_packets r = map (nth_audio_packet s fs pts ?x) [0..<j]" "(j - 1) * k < n" "n \<le> j * k" by blast
    have "Suc i * k = i * k + ?c" using c by simp
    then have "send_audio fs n (Some d) pts (i * k) (?s, m, map (nth_audio_packet s fs pts ?x) [0..<i]) = Some r"
      using step False r(1) by (simp only: if_False)
    then show ?thesis using r(2-6) by (intro exI [of _ r] conjI exI [of _ j]) auto
  qed
qed

lemma chunks_concat: "0 < k \<Longrightarrow> length x \<le> j * k \<Longrightarrow> concat (map (\<lambda>i. take k (drop (i * k) x)) [0..<j]) = x"
proof -
  assume "0 < k" "length x \<le> j * k"
  have "concat (map (\<lambda>i. take k (drop (i * k) x)) [0..<j]) = take (j * k) x" for j
  proof (induction j)
    case (Suc j)
    then show ?case using take_add [of "j * k" k x] by (simp add: add.commute)
  qed simp
  then show ?thesis using \<open>length x \<le> j * k\<close> by simp
qed

text \<open>What the depayloader makes of packets.\<close>

fun depay_audio :: "st2110_30_depayloader \<Rightarrow> av_buffer list \<Rightarrow> alloc_script \<Rightarrow> audio_buffer list option" where
  "depay_audio s [] m = Some []"
| "depay_audio s (p # ps) m =
     do { (r, m1, f) \<leftarrow> st2110_30_depayloader_process p s m;
          fs \<leftarrow> depay_audio s ps m1;
          Some ((case f of None \<Rightarrow> [] | Some b \<Rightarrow> [b]) @ fs) }"

lemma depay_audio_packet:
  assumes "plenty m" "ad_channels s \<noteq> 0" and "p = audio_packet t fs pts off x" "x \<noteq> []"
  obtains f m1 where "st2110_30_depayloader_process p s m = Some (ZST_OK, m1, Some f)" "plenty m1" "ab_data f = x"
proof -
  obtain m1 where m1: "alloc m = (None, m1)" "plenty m1" using assms(1) by (rule plenty_alloc)
  obtain m2 where m2: "alloc m1 = (None, m2)" "plenty m2" using m1(2) by (rule plenty_alloc)
  obtain m3 where m3: "alloc m2 = (None, m3)" "plenty m3" using m2(2) by (rule plenty_alloc)
  have "\<not> ab_eos p" "\<not> length (ab_data p) \<le> 12" "drop 12 (ab_data p) = x" using assms(3,4) by (simp_all add: audio_packet_def Let_def)
  then show ?thesis using that m1 m2 m3 assms(2) by (simp add: st2110_30_depayloader_process_def Let_def)
qed

lemma depay_audio_packets:
  "plenty m \<Longrightarrow> ad_channels s \<noteq> 0 \<Longrightarrow> \<forall>i \<in> set is. (\<exists>t fs pts off. g i = audio_packet t fs pts off (x i)) \<and> x i \<noteq> [] \<Longrightarrow>
   \<exists>fs. depay_audio s (map g is) m = Some fs \<and> map ab_data fs = map x is"
proof (induction "is" arbitrary: m)
  case (Cons i "is")
  obtain t fs pts off where g: "g i = audio_packet t fs pts off (x i)" "x i \<noteq> []" using Cons.prems(3) by auto
  obtain f m1 where 1: "st2110_30_depayloader_process (g i) s m = Some (ZST_OK, m1, Some f)" "plenty m1" "ab_data f = x i"
    by (rule depay_audio_packet [OF Cons.prems(1,2) g])
  with Cons.IH [OF 1(2) Cons.prems(2)] Cons.prems(3) show ?case by auto
qed simp

text \<open>C38: PCM audio survives the way over the network.  The payloader sends the bytes of a buffer, or of the audio frame it carries, in
  packets of whole sample frames with consecutive sequence numbers; the RTP time of a packet is that of the buffer plus the sample
  frames before it; and what the depayloader makes of the packets is, put together, what was to be sent.\<close>

theorem audio_roundtrip:
  assumes "\<not> ab_eos b" "audio_frame_size s = fs" "0 < fs" "ap_sample_rate s \<noteq> 0" and "audio_source fs b = (n, Some d)" "0 < n" "n \<le> length d"
    and "plenty m" "plenty m'" "ad_channels t \<noteq> 0"
  shows "\<exists>io p ps. st2110_30_payloader_process b s m = Some (ZST_OK, io, Some p) \<and> ps = snd (snd io) @ [p] \<and>
    (\<exists>k. nat fs dvd k \<and> (\<forall>i < length ps. get16 (ab_data (ps ! i)) 2 = ap_seq s + of_nat i \<and>
       get32 (ab_data (ps ! i)) 4 = audio_rtp_ts (ab_pts b) (ap_sample_rate s) + of_nat (i * k div nat fs) \<and>
       drop 12 (ab_data (ps ! i)) = take k (drop (i * k) (take n d)))) \<and>
    (\<exists>frames. depay_audio t ps m' = Some frames \<and> concat (map ab_data frames) = take n d)"
proof -
  let ?k = "audio_max_payload fs" and ?x = "take n d" and ?g = "nth_audio_packet s fs (ab_pts b) (take n d)"
  have k: "0 < ?k" using audio_max_payload_pos [OF assms(3)] .
  have "\<exists>r. send_audio fs n (Some d) (ab_pts b) 0 (s, m, []) = Some r \<and> snd r \<noteq> None \<and>
      (\<exists>j. 0 < j \<and> sent_packets r = map ?g [0..<j] \<and> (j - 1) * ?k < n \<and> n \<le> j * ?k)"
    using send_audio_ok [OF assms(3) refl assms(7,4,8), of 0 "ab_pts b"] assms(6) by simp
  then obtain r j where r: "send_audio fs n (Some d) (ab_pts b) 0 (s, m, []) = Some r" "snd r \<noteq> None" "0 < j" "sent_packets r = map ?g [0..<j]"
    "(j - 1) * ?k < n" "n \<le> j * ?k" by blast
  obtain io p where io: "r = (io, Some p)" using r(2) by (cases r) auto
  have proc: "st2110_30_payloader_process b s m = Some (ZST_OK, io, Some p)"
    using assms(1-3,5) r(1) io by (simp add: st2110_30_payloader_process_def)
  let ?ps = "snd (snd io) @ [p]"
  have ps: "?ps = map ?g [0..<j]" using r(4) io by (simp add: sent_packets_def)
  have "ucast (of_nat x :: u64) = (of_nat x :: u32)" for x by (rule bit_word_eqI) (simp add: bit_simps)
  then have pkt: "get16 (ab_data (?g i)) 2 = ap_seq s + of_nat i"
    "get32 (ab_data (?g i)) 4 = audio_rtp_ts (ab_pts b) (ap_sample_rate s) + of_nat (i * ?k div nat fs)"
    "drop 12 (ab_data (?g i)) = take ?k (drop (i * ?k) ?x)" for i
    by (simp_all add: nth_audio_packet_def audio_packet_def Let_def rtp_header_seq rtp_header_ts)
  have "take ?k (drop (i * ?k) ?x) \<noteq> []" if "i < j" for i
  proof -
    have "i * ?k \<le> (j - 1) * ?k" using that by (intro mult_le_mono1) simp
    then have "i * ?k < n" using r(5) by linarith
    then show ?thesis using k assms(7) by simp
  qed
  then have "\<forall>i \<in> set [0..<j]. (\<exists>t fs pts off. ?g i = audio_packet t fs pts off (take ?k (drop (i * ?k) ?x))) \<and> take ?k (drop (i * ?k) ?x) \<noteq> []"
    unfolding nth_audio_packet_def Let_def by auto
  from depay_audio_packets [OF assms(9,10) this] obtain frames where "depay_audio t ?ps m' = Some frames"
    "map ab_data frames = map (\<lambda>i. take ?k (drop (i * ?k) ?x)) [0..<j]" unfolding ps by blast
  moreover have "concat (map (\<lambda>i. take ?k (drop (i * ?k) ?x)) [0..<j]) = ?x" using chunks_concat [OF k, of ?x j] r(6) assms(7) by simp
  moreover have "\<forall>i < length ?ps. get16 (ab_data (?ps ! i)) 2 = ap_seq s + of_nat i \<and>
       get32 (ab_data (?ps ! i)) 4 = audio_rtp_ts (ab_pts b) (ap_sample_rate s) + of_nat (i * ?k div nat fs) \<and>
       drop 12 (ab_data (?ps ! i)) = take ?k (drop (i * ?k) ?x)"
    unfolding ps by (simp add: pkt)
  ultimately show ?thesis using proc audio_max_payload_dvd [OF assms(3)] by metis
qed

theorem audio_roundtrip_witness:
  "\<exists>io p ps. st2110_30_payloader_process \<lparr>ab_data = [1, 2, 3, 4, 5, 6, 7, 8], ab_pts = 0, ab_eos = False, au_frame = None\<rparr>
       (zst_st2110_30_payloader_create\<lparr>ap_bit_depth := 16\<rparr>) [] = Some (ZST_OK, io, Some p) \<and> ps = snd (snd io) @ [p] \<and>
    (\<exists>k. nat 4 dvd k \<and> (\<forall>i < length ps. get16 (ab_data (ps ! i)) 2 = of_nat i \<and>
       get32 (ab_data (ps ! i)) 4 = audio_rtp_ts 0 48000 + of_nat (i * k div nat 4) \<and>
       drop 12 (ab_data (ps ! i)) = take k (drop (i * k) (take 8 [1, 2, 3, 4, 5, 6, 7, 8])))) \<and>
    (\<exists>frames. depay_audio zst_st2110_30_depayloader_create ps [] = Some frames \<and> concat (map ab_data frames) = [1, 2, 3, 4, 5, 6, 7, 8])"
proof -
  let ?b = "\<lparr>ab_data = [1, 2, 3, 4, 5, 6, 7, 8], ab_pts = 0, ab_eos = False, au_frame = None\<rparr> :: audio_buffer"
  let ?s = "zst_st2110_30_payloader_create\<lparr>ap_bit_depth := 16\<rparr>"
  have h: "audio_frame_size ?s = 4" "ap_sample_rate ?s = 48000" "ap_seq ?s = 0" "audio_source 4 ?b = (8, Some (ab_data ?b))"
    "ad_channels zst_st2110_30_depayloader_create \<noteq> 0"
    by (simp_all add: audio_frame_size_def zst_st2110_30_payloader_create_def audio_source_def zst_st2110_30_depayloader_create_def)
  show ?thesis using audio_roundtrip [of ?b ?s 4 8 "ab_data ?b" "[]" "[]" zst_st2110_30_depayloader_create] h by simp
qed

section \<open>Ancillary data\<close>

lemma ancillary_roundtrip:
  assumes "\<not> ab_eos b" "ab_data b \<noteq> []" "plenty m" "plenty m'"
  shows "\<exists>s1 m1 p m2 f. st2110_40_payloader_process b s m = Some (ZST_OK, s1, m1, Some p) \<and>
    st2110_40_depayloader_process p m' = Some (ZST_OK, m2, Some f) \<and> ab_data f = ab_data b \<and> ab_pts f = ab_pts b"
proof -
  obtain m1 where m1: "alloc m = (None, m1)" "plenty m1" using assms(3) by (rule plenty_alloc)
  obtain m2 where m2: "alloc m1 = (None, m2)" "plenty m2" using m1(2) by (rule plenty_alloc)
  obtain m3 where m3: "alloc m' = (None, m3)" "plenty m3" using assms(4) by (rule plenty_alloc)
  obtain m4 where m4: "alloc m3 = (None, m4)" "plenty m4" using m3(2) by (rule plenty_alloc)
  show ?thesis using assms(1,2) m1 m2 m3 m4 by (auto simp: st2110_40_payloader_process_def st2110_40_depayloader_process_def)
qed

text \<open>The text of \<open>aux-data-type\<close> is freed on close and the pointer kept: reading the property, setting it, and closing once more all use
  freed memory.\<close>

lemma anc_close_dangles:
  assumes "an_aux_data_type s = Text t"
  shows "\<exists>s1. st2110_40_payloader_close s = Some s1 \<and> st2110_40_payloader_close s1 = None \<and>
    st2110_40_payloader_get_property ''aux-data-type'' n s1 = None \<and> st2110_40_payloader_set_property ''aux-data-type'' v (s1, m) = None"
  using assms by (simp add: st2110_40_payloader_close_def st2110_40_payloader_get_property_def st2110_40_payloader_set_property_def free_text_def)

end
