(* ===== verification/Zst_Rtp_Payload.thy ===== *)
theory Zst_Rtp_Payload
  imports Zst_St2110_Compressed
begin

text \<open>
  The generic RTP elements: the payloader of \<open>src/rtp_payloader.c\<close>, which cuts access units of H.264, H.265 and AAC and
  blocks of PCM into packets, and the depayloader of \<open>src/rtp_depayloader.c\<close>, which parses packets, watches the sequence
  numbers, and puts access units together again.

  \<open>ans\<close> is what is linked to the source pad: \<open>None\<close> is no peer, \<open>Some f\<close> a peer that answers a push by \<open>f\<close>.  The packets
  pushed are collected in the state.  A result \<open>None\<close> is a loop that does not end.  The clock rate of the depayloader is
  never zero: it is created with 90000, and \<open>set_property\<close> refuses rates that are not positive.
\<close>

section \<open>Text\<close>

definition lower :: "char \<Rightarrow> char" where
  "lower c = (let n = of_char c :: nat in if 65 \<le> n \<and> n \<le> 90 then char_of (n + 32) else c)"

definition strcasecmp_eq :: "string \<Rightarrow> string \<Rightarrow> bool" where
  "strcasecmp_eq a b \<longleftrightarrow> map lower a = map lower b"

text \<open>The value of a digit in bases up to 16.\<close>

definition digit_value :: "char \<Rightarrow> nat option" where
  "digit_value c =
     (let n = of_char (lower c) :: nat
      in if 48 \<le> n \<and> n \<le> 57 then Some (n - 48) else if 97 \<le> n \<and> n \<le> 102 then Some (n - 87) else None)"

fun scan_base :: "nat \<Rightarrow> nat \<Rightarrow> string \<Rightarrow> nat" where
  "scan_base b acc [] = acc"
| "scan_base b acc (c # cs) =
     (case digit_value c of None \<Rightarrow> acc | Some v \<Rightarrow> if v < b then scan_base b (acc * b + v) cs else acc)"

text \<open>\<open>strtoul(value, NULL, 0)\<close>: the base is read off the prefix, and the result saturates at 64 bits.\<close>

definition c_strtoul0 :: "string \<Rightarrow> u64" where
  "c_strtoul0 s =
     (let t = dropWhile is_space s;
          neg = (t \<noteq> [] \<and> hd t = CHR ''-'');
          u = (if t \<noteq> [] \<and> (hd t = CHR ''-'' \<or> hd t = CHR ''+'') then tl t else t);
          hex = (case u of z # x # d # _ \<Rightarrow> z = CHR ''0'' \<and> lower x = CHR ''x'' \<and> digit_value d \<noteq> None | _ \<Rightarrow> False);
          n = (if hex then scan_base 16 0 (drop 2 u) else if u \<noteq> [] \<and> hd u = CHR ''0'' then scan_base 8 0 u else scan_base 10 0 u)
      in if n > 2 ^ 64 - 1 then - 1 else if neg then - of_nat n else of_nat n)"

section \<open>The payloader\<close>

datatype rtp_payloader_codec =
    RTP_PAYLOADER_CODEC_H264 | RTP_PAYLOADER_CODEC_H265 | RTP_PAYLOADER_CODEC_AAC | RTP_PAYLOADER_CODEC_PCM

text \<open>\<open>rp_pool\<close> is whether there is a pool of packet buffers; every acquisition may fail, as the script of allocations says.\<close>

record rtp_payloader =
  rp_codec :: rtp_payloader_codec
  rp_payload_type :: u8
  rp_ssrc :: u32
  rp_seq :: u16
  rp_clock_rate :: u32
  rp_mtu :: int
  rp_channels :: int
  rp_sample_size :: int
  rp_packets :: u64
  rp_bytes :: u64
  rp_ext_seq_num :: u32
  rp_st2110_mode :: bool
  rp_ext_seq :: bool
  rp_strict_mtu :: bool
  rp_pool :: bool

definition rtp_payloader_codec_to_string :: "rtp_payloader_codec \<Rightarrow> string" where
  "rtp_payloader_codec_to_string c =
     (case c of RTP_PAYLOADER_CODEC_H264 \<Rightarrow> ''h264'' | RTP_PAYLOADER_CODEC_H265 \<Rightarrow> ''h265''
      | RTP_PAYLOADER_CODEC_AAC \<Rightarrow> ''aac'' | RTP_PAYLOADER_CODEC_PCM \<Rightarrow> ''pcm'')"

definition rtp_payloader_parse_codec :: "string \<Rightarrow> rtp_payloader_codec option" where
  "rtp_payloader_parse_codec v =
     (if list_ex (strcasecmp_eq v) [''h264'', ''avc''] then Some RTP_PAYLOADER_CODEC_H264
      else if list_ex (strcasecmp_eq v) [''h265'', ''hevc'', ''hvc1''] then Some RTP_PAYLOADER_CODEC_H265
      else if list_ex (strcasecmp_eq v) [''aac'', ''mpeg4-generic''] then Some RTP_PAYLOADER_CODEC_AAC
      else if list_ex (strcasecmp_eq v) [''pcm'', ''l16'', ''raw-audio''] then Some RTP_PAYLOADER_CODEC_PCM
      else None)"

definition rtp_payloader_pts_to_rtp_ts :: "u64 \<Rightarrow> u32 \<Rightarrow> u32" where
  "rtp_payloader_pts_to_rtp_ts pts_ns clock_rate = ucast (pts_ns * ucast clock_rate div 1000000000)"

type_synonym rtp_io = "rtp_payloader \<times> alloc_script \<times> av_buffer list"

definition rtp_payloader_make_packet ::
    "u8 list \<Rightarrow> u8 list \<Rightarrow> u32 \<Rightarrow> bool \<Rightarrow> u64 \<Rightarrow> rtp_payloader \<times> alloc_script \<Rightarrow> av_buffer option \<times> rtp_payloader \<times> alloc_script" where
  "rtp_payloader_make_packet header payload rtp_ts marker pts = (\<lambda>(s, m).
     (let packet_len = length payload + length header + 12;
          pooled = (if rp_pool s then (case alloc m of (r, m1) \<Rightarrow> (r = None, m1)) else (False, m));
          fresh = (if fst pooled then (True, snd pooled)
                   else (case alloc (snd pooled) of (Some _, m1) \<Rightarrow> (False, m1)
                         | (None, m1) \<Rightarrow> (case alloc m1 of (r, m2) \<Rightarrow> (r = None, m2))))
      in if length payload + length header > 65507 then (None, s, m)
         else if rp_strict_mtu s \<and> 0 \<le> rp_mtu s \<and> int packet_len > rp_mtu s then (None, s, m)
         else if \<not> fst fresh then (None, s, snd fresh)
         else (Some \<lparr>ab_data = rtp_header marker (rp_payload_type s) (rp_seq s) rtp_ts (rp_ssrc s) @ header @ payload, ab_pts = pts, ab_eos = False\<rparr>,
               s\<lparr>rp_seq := rp_seq s + 1, rp_ext_seq_num := (if rp_seq s + 1 = 0 then rp_ext_seq_num s + 0x10000 else rp_ext_seq_num s),
                 rp_packets := rp_packets s + 1, rp_bytes := rp_bytes s + of_nat packet_len\<rparr>, snd fresh)))"

definition rtp_payloader_push_packet ::
    "(av_buffer \<Rightarrow> zst_result) option \<Rightarrow> u8 list \<Rightarrow> u8 list \<Rightarrow> u32 \<Rightarrow> bool \<Rightarrow> u64 \<Rightarrow> rtp_io \<Rightarrow> zst_result \<times> rtp_io" where
  "rtp_payloader_push_packet ans header payload rtp_ts marker pts = (\<lambda>(s, m, out).
     (case rtp_payloader_make_packet header payload rtp_ts marker pts (s, m) of
        (None, s1, m1) \<Rightarrow> (ZST_ERROR, (s1, m1, out))
      | (Some p, s1, m1) \<Rightarrow> (case ans of None \<Rightarrow> (ZST_OK, (s1, m1, out)) | Some f \<Rightarrow> (f p, (s1, m1, out @ [p])))))"

text \<open>The fragments of a NAL unit; the last result that is not \<open>ZST_OK\<close> is kept.\<close>

function rtp_send_fu ::
    "(av_buffer \<Rightarrow> zst_result) option \<Rightarrow> u32 \<Rightarrow> u64 \<Rightarrow> u8 list \<Rightarrow> u8 \<Rightarrow> int \<Rightarrow> bool \<Rightarrow> bool \<Rightarrow> u8 list \<Rightarrow> zst_result \<times> rtp_io \<Rightarrow> (zst_result \<times> rtp_io) option" where
  "rtp_send_fu ans ts pts fu_ind nal_type k marker is_first rest (ret, io) =
     (if rest = [] then Some (ret, io)
      else if k \<le> 0 then None
      else
        (let chunk = take (nat k) rest; tail = drop (nat k) rest;
             fu = nal_type OR (if is_first then 0x80 else 0) OR (if tail = [] then 0x40 else 0);
             (one, io1) = rtp_payloader_push_packet ans (fu_ind @ [fu]) chunk ts (marker \<and> tail = []) pts io
         in rtp_send_fu ans ts pts fu_ind nal_type k marker False tail (if one = ZST_OK then ret else one, io1)))"
  by pat_completeness auto
termination
  by (relation "measure (\<lambda>(ans, ts, pts, fu_ind, nal_type, k, marker, is_first, rest, io). length rest)") auto

declare rtp_send_fu.simps [simp del]

definition rtp_payloader_send_h264_nal ::
    "(av_buffer \<Rightarrow> zst_result) option \<Rightarrow> u32 \<Rightarrow> u64 \<Rightarrow> u8 list \<Rightarrow> bool \<Rightarrow> rtp_io \<Rightarrow> (zst_result \<times> rtp_io) option" where
  "rtp_payloader_send_h264_nal ans ts pts nal marker io =
     (let max_payload = rp_mtu (fst io) - 12
      in if nal = [] then Some (ZST_ERROR, io)
         else if max_payload < 1 then Some (ZST_ERROR, io)
         else if int (length nal) \<le> max_payload then Some (rtp_payloader_push_packet ans [] nal ts marker pts io)
         else rtp_send_fu ans ts pts [(nal ! 0 AND 0xE0) OR 28] (nal ! 0 AND 0x1F) (max_payload - 2) marker True (drop 1 nal) (ZST_OK, io))"

definition rtp_payloader_send_h265_nal ::
    "(av_buffer \<Rightarrow> zst_result) option \<Rightarrow> u32 \<Rightarrow> u64 \<Rightarrow> u8 list \<Rightarrow> bool \<Rightarrow> rtp_io \<Rightarrow> (zst_result \<times> rtp_io) option" where
  "rtp_payloader_send_h265_nal ans ts pts nal marker io =
     (let max_payload = rp_mtu (fst io) - 12
      in if length nal < 2 then Some (ZST_ERROR, io)
         else if max_payload < 1 then Some (ZST_ERROR, io)
         else if int (length nal) \<le> max_payload then Some (rtp_payloader_push_packet ans [] nal ts marker pts io)
         else rtp_send_fu ans ts pts [(nal ! 0 AND 0x81) OR push_bit 1 49, nal ! 1] (drop_bit 1 (nal ! 0) AND 0x3F) (max_payload - 3)
                marker True (drop 2 nal) (ZST_OK, io))"

text \<open>The loop over the NAL units, the same for both codecs.\<close>

fun rtp_nal_loop ::
    "(u8 list \<Rightarrow> bool \<Rightarrow> rtp_io \<Rightarrow> (zst_result \<times> rtp_io) option) \<Rightarrow> nat \<Rightarrow> u8 list \<Rightarrow> nat \<times> nat \<Rightarrow> zst_result \<times> rtp_io \<Rightarrow> (zst_result \<times> rtp_io) option" where
  "rtp_nal_loop send 0 data pc r = None"
| "rtp_nal_loop send (Suc k) data (pos, code) (ret, io) =
     (let nal_start = pos + code;
          next = zst_find_start_code data nal_start;
          nal_end = (case next of None \<Rightarrow> length data | Some (p, c) \<Rightarrow> p);
          nal = strip_zeros (take (nal_end - nal_start) (drop nal_start data))
      in do { (ret1, io1) \<leftarrow> (if nal = [] then Some (ret, io)
                 else do { (one, io1) \<leftarrow> send nal (next = None) io; Some (if one = ZST_OK then ret else one, io1) });
              (case next of None \<Rightarrow> Some (ret1, io1) | Some pc \<Rightarrow> rtp_nal_loop send k data pc (ret1, io1)) })"

definition rtp_payloader_packetize_h26x ::
    "(av_buffer \<Rightarrow> zst_result) option \<Rightarrow> bool \<Rightarrow> u8 list \<Rightarrow> u64 \<Rightarrow> rtp_io \<Rightarrow> (zst_result \<times> rtp_io) option" where
  "rtp_payloader_packetize_h26x ans h265 data pts io =
     (let ts = rtp_payloader_pts_to_rtp_ts pts 90000;
          send = (if h265 then rtp_payloader_send_h265_nal ans ts pts else rtp_payloader_send_h264_nal ans ts pts)
      in if data = [] then Some (ZST_ERROR, io)
         else (case zst_find_start_code data 0 of None \<Rightarrow> send data True io
               | Some pc \<Rightarrow> rtp_nal_loop send (Suc (length data)) data pc (ZST_OK, io)))"

definition rtp_payloader_packetize_aac ::
    "(av_buffer \<Rightarrow> zst_result) option \<Rightarrow> u8 list \<Rightarrow> u64 \<Rightarrow> rtp_io \<Rightarrow> zst_result \<times> rtp_io" where
  "rtp_payloader_packetize_aac ans data pts io =
     (let size = length data; s = fst io
      in if data = [] \<or> size > 0x1FFF then (ZST_ERROR, io)
         else if int size + 4 > rp_mtu s then (ZST_ERROR, io)
         else rtp_payloader_push_packet ans ([0, 16] @ be16 (push_bit 3 (of_nat size))) data
                (rtp_payloader_pts_to_rtp_ts pts (rp_clock_rate s)) True pts io)"

function rtp_pcm_loop ::
    "(av_buffer \<Rightarrow> zst_result) option \<Rightarrow> u8 list \<Rightarrow> u32 \<Rightarrow> u64 \<Rightarrow> nat \<Rightarrow> zst_result \<times> rtp_io \<Rightarrow> (zst_result \<times> rtp_io) option" where
  "rtp_pcm_loop ans data base_ts pts off (ret, io) =
     (let s = fst io; bytes_per_sample_frame = (if rp_channels s * rp_sample_size s \<le> 0 then 1 else rp_channels s * rp_sample_size s);
          chunk = min (int (length data) - int off) (rp_mtu s)
      in if length data \<le> off then Some (ret, io)
         else if chunk \<le> 0 then None
         else
           (let n = nat chunk;
                (one, io1) = rtp_payloader_push_packet ans [] (take n (drop off data)) (base_ts + of_int (int off div bytes_per_sample_frame))
                   (length data \<le> off + n) pts io
            in rtp_pcm_loop ans data base_ts pts (off + n) (if one = ZST_OK then ret else one, io1)))"
  by pat_completeness auto
termination
  by (relation "measure (\<lambda>(ans, data, base_ts, pts, off, r). length data - off)") auto

declare rtp_pcm_loop.simps [simp del]

definition rtp_payloader_packetize_pcm ::
    "(av_buffer \<Rightarrow> zst_result) option \<Rightarrow> u8 list \<Rightarrow> u64 \<Rightarrow> rtp_io \<Rightarrow> (zst_result \<times> rtp_io) option" where
  "rtp_payloader_packetize_pcm ans data pts io =
     (if data = [] then Some (ZST_ERROR, io)
      else rtp_pcm_loop ans data (rtp_payloader_pts_to_rtp_ts pts (rp_clock_rate (fst io))) pts 0 (ZST_OK, io))"

definition rtp_payloader_pad_push ::
    "(av_buffer \<Rightarrow> zst_result) option \<Rightarrow> av_buffer \<Rightarrow> rtp_payloader \<times> alloc_script \<Rightarrow> (zst_result \<times> rtp_io) option" where
  "rtp_payloader_pad_push ans buf = (\<lambda>(s, m).
     (let data = ab_data buf; pts = ab_pts buf; io = (s, m, [])
      in if ab_eos buf \<or> data = [] then Some (ZST_OK, io)
         else if length data > 2 ^ 31 - 1 then Some (ZST_ERROR, io)
         else (case rp_codec s of
                 RTP_PAYLOADER_CODEC_H264 \<Rightarrow> rtp_payloader_packetize_h26x ans False data pts io
               | RTP_PAYLOADER_CODEC_H265 \<Rightarrow> rtp_payloader_packetize_h26x ans True data pts io
               | RTP_PAYLOADER_CODEC_AAC \<Rightarrow> Some (rtp_payloader_packetize_aac ans data pts io)
               | RTP_PAYLOADER_CODEC_PCM \<Rightarrow> rtp_payloader_packetize_pcm ans data pts io)))"

definition rtp_payloader_open :: "bool \<Rightarrow> rtp_payloader \<Rightarrow> rtp_payloader" where
  "rtp_payloader_open pool_ok s = s\<lparr>rp_seq := 0x7000, rp_packets := 0, rp_bytes := 0, rp_pool := rp_pool s \<or> pool_ok\<rparr>"

definition rtp_payloader_close :: "rtp_payloader \<Rightarrow> rtp_payloader" where
  "rtp_payloader_close s = s\<lparr>rp_pool := False\<rparr>"

definition is_on :: "string \<Rightarrow> bool" where
  "is_on v \<longleftrightarrow> strcasecmp_eq v ''on'' \<or> strcasecmp_eq v ''true'' \<or> v = ''1''"

definition rtp_payloader_set_property :: "string \<Rightarrow> string \<Rightarrow> rtp_payloader \<Rightarrow> zst_result \<times> rtp_payloader" where
  "rtp_payloader_set_property name value s =
     (if name \<in> {''codec'', ''media'', ''encoding''} then
        (case rtp_payloader_parse_codec value of None \<Rightarrow> (ZST_ERROR, s)
         | Some c \<Rightarrow> (ZST_OK, s\<lparr>rp_codec := c,
               rp_clock_rate := (if c = RTP_PAYLOADER_CODEC_H264 \<or> c = RTP_PAYLOADER_CODEC_H265 then 90000
                                 else if rp_clock_rate s = 90000 then 48000 else rp_clock_rate s)\<rparr>))
      else if name \<in> {''payload-type'', ''pt'', ''video-payload-type'', ''audio-payload-type''} then
        (let pt = c_atoi value in if pt < 0 \<or> pt > 127 then (ZST_ERROR, s) else (ZST_OK, s\<lparr>rp_payload_type := of_int pt\<rparr>))
      else if name \<in> {''ssrc'', ''video-ssrc'', ''audio-ssrc''} then (ZST_OK, s\<lparr>rp_ssrc := ucast (c_strtoul0 value)\<rparr>)
      else if name \<in> {''clock-rate'', ''sample-rate'', ''audio-clock-rate''} then
        (let rate = c_atoi value in if rate \<le> 0 then (ZST_ERROR, s) else (ZST_OK, s\<lparr>rp_clock_rate := of_int rate\<rparr>))
      else if name = ''mtu'' then
        (let mtu = c_atoi value in if mtu < 4 \<or> mtu > 65507 then (ZST_ERROR, s) else (ZST_OK, s\<lparr>rp_mtu := mtu\<rparr>))
      else if name = ''channels'' then
        (let channels = c_atoi value in if channels \<le> 0 then (ZST_ERROR, s) else (ZST_OK, s\<lparr>rp_channels := channels\<rparr>))
      else if name \<in> {''sample-size'', ''bytes-per-sample''} then
        (let n = c_atoi value in if n \<le> 0 then (ZST_ERROR, s) else (ZST_OK, s\<lparr>rp_sample_size := n\<rparr>))
      else if name \<in> {''seq'', ''sequence'', ''sequence-number''} then (ZST_OK, s\<lparr>rp_seq := ucast (c_strtoul0 value AND 0xFFFF)\<rparr>)
      else if name = ''st2110-mode'' then (ZST_OK, s\<lparr>rp_st2110_mode := is_on value\<rparr>)
      else if name = ''ext-seq'' then (ZST_OK, s\<lparr>rp_ext_seq := is_on value\<rparr>)
      else if name = ''strict-mtu'' then (ZST_OK, s\<lparr>rp_strict_mtu := is_on value\<rparr>)
      else (ZST_ERROR, s))"

definition rtp_payloader_get_property :: "string \<Rightarrow> nat \<Rightarrow> rtp_payloader \<Rightarrow> zst_result \<times> string option" where
  "rtp_payloader_get_property name max_len s =
     (let text = (\<lambda>t. (ZST_OK, Some (c_snprintf max_len t))); number = (\<lambda>n. (ZST_OK, Some (c_snprintf max_len (print_nat n))))
      in if max_len = 0 then (ZST_ERROR, None)
         else if name \<in> {''codec'', ''media'', ''encoding''} then text (rtp_payloader_codec_to_string (rp_codec s))
         else if name \<in> {''payload-type'', ''pt'', ''video-payload-type'', ''audio-payload-type''} then number (unat (rp_payload_type s))
         else if name \<in> {''ssrc'', ''video-ssrc'', ''audio-ssrc''} then number (unat (rp_ssrc s))
         else if name \<in> {''clock-rate'', ''sample-rate'', ''audio-clock-rate''} then number (unat (rp_clock_rate s))
         else if name = ''mtu'' then text (print_int (rp_mtu s))
         else if name = ''channels'' then text (print_int (rp_channels s))
         else if name \<in> {''sample-size'', ''bytes-per-sample''} then text (print_int (rp_sample_size s))
         else if name \<in> {''seq'', ''sequence'', ''sequence-number''} then number (unat (rp_seq s))
         else if name \<in> {''packets'', ''total-packets''} then number (unat (rp_packets s))
         else if name \<in> {''bytes'', ''total-bytes''} then number (unat (rp_bytes s))
         else if name = ''st2110-mode'' then text (if rp_st2110_mode s then ''on'' else ''off'')
         else if name = ''ext-seq'' then text (if rp_ext_seq s then ''true'' else ''false'')
         else if name = ''strict-mtu'' then text (if rp_strict_mtu s then ''true'' else ''false'')
         else (ZST_ERROR, None))"

definition zst_rtp_payloader_create :: rtp_payloader where
  "zst_rtp_payloader_create =
     \<lparr>rp_codec = RTP_PAYLOADER_CODEC_H264, rp_payload_type = 96, rp_ssrc = 0x53545250, rp_seq = 0x7000, rp_clock_rate = 90000,
      rp_mtu = 1200, rp_channels = 2, rp_sample_size = 2, rp_packets = 0, rp_bytes = 0, rp_ext_seq_num = 0, rp_st2110_mode = False,
      rp_ext_seq = True, rp_strict_mtu = True, rp_pool = False\<rparr>"

end
