(* ===== verification/Zst_Rtp_Depayload.thy ===== *)
theory Zst_Rtp_Depayload
  imports Zst_Rtp_Payload
begin

text \<open>The generic RTP depayloader of \<open>src/rtp_depayloader.c\<close>; see \<open>Zst_Rtp_Payload\<close> for the conventions.\<close>

datatype rtp_depayloader_codec =
    RTP_DEPAYLOADER_CODEC_H264 | RTP_DEPAYLOADER_CODEC_H265 | RTP_DEPAYLOADER_CODEC_AAC | RTP_DEPAYLOADER_CODEC_PCM

record rtp_depayloader =
  rd_codec :: rtp_depayloader_codec
  rd_payload_type :: u8
  rd_clock_rate :: u32
  rd_channels :: int
  rd_sample_size :: int
  rd_expected_ssrc :: u32
  rd_filter_ssrc :: bool
  rd_have_seq :: bool
  rd_next_seq :: u16
  rd_au :: "u8 list"
  rd_au_cap :: u64
  rd_au_ts :: u32
  rd_au_pts :: u64
  rd_au_active :: bool
  rd_h264_discontinuity_pending :: bool
  rd_packets :: u64
  rd_bytes :: u64
  rd_out_buffers :: u64
  rd_out_bytes :: u64
  rd_in_packets :: u64
  rd_parse_errors :: u64
  rd_dropped_packets :: u64

record rtp_packet_view =
  rv_payload :: "u8 list"
  rv_payload_type :: u8
  rv_marker :: bool
  rv_seq :: u16
  rv_timestamp :: u32
  rv_ssrc :: u32

text \<open>What goes out; \<open>ro_drop\<close> is the flag \<open>ZST_BUFFER_FLAG_DROP\<close>.\<close>

record rtp_out = av_buffer +
  ro_duration :: u64
  ro_drop :: bool

type_synonym rd_io = "rtp_depayloader \<times> alloc_script \<times> rtp_out list"

definition rtp_depayloader_codec_to_string :: "rtp_depayloader_codec \<Rightarrow> string" where
  "rtp_depayloader_codec_to_string c =
     (case c of RTP_DEPAYLOADER_CODEC_H264 \<Rightarrow> ''h264'' | RTP_DEPAYLOADER_CODEC_H265 \<Rightarrow> ''h265''
      | RTP_DEPAYLOADER_CODEC_AAC \<Rightarrow> ''aac'' | RTP_DEPAYLOADER_CODEC_PCM \<Rightarrow> ''pcm'')"

definition rtp_depayloader_parse_codec :: "string \<Rightarrow> rtp_depayloader_codec option" where
  "rtp_depayloader_parse_codec v =
     (if list_ex (strcasecmp_eq v) [''h264'', ''avc''] then Some RTP_DEPAYLOADER_CODEC_H264
      else if list_ex (strcasecmp_eq v) [''h265'', ''hevc'', ''hvc1''] then Some RTP_DEPAYLOADER_CODEC_H265
      else if list_ex (strcasecmp_eq v) [''aac'', ''mpeg4-generic''] then Some RTP_DEPAYLOADER_CODEC_AAC
      else if list_ex (strcasecmp_eq v) [''pcm'', ''l16'', ''raw-audio''] then Some RTP_DEPAYLOADER_CODEC_PCM
      else None)"

definition rtp_depayloader_ts_to_pts :: "u32 \<Rightarrow> u32 \<Rightarrow> u64" where
  "rtp_depayloader_ts_to_pts ts clock_rate = (if clock_rate = 0 then 0 else ucast ts * 1000000000 div ucast clock_rate)"

definition rtp_depayloader_reset_au :: "rtp_depayloader \<Rightarrow> rtp_depayloader" where
  "rtp_depayloader_reset_au s = s\<lparr>rd_au := [], rd_au_cap := 0, rd_au_ts := 0, rd_au_pts := 0, rd_au_active := False\<rparr>"

definition rtp_depayloader_begin_au :: "u32 \<Rightarrow> rtp_depayloader \<Rightarrow> rtp_depayloader" where
  "rtp_depayloader_begin_au ts s =
     (if rd_au_active s \<and> rd_au_ts s = ts then s
      else (rtp_depayloader_reset_au s)\<lparr>rd_au_ts := ts, rd_au_pts := rtp_depayloader_ts_to_pts ts (rd_clock_rate s), rd_au_active := True\<rparr>)"

definition rtp_depayloader_au_cap :: "u64 \<Rightarrow> u64" where
  "rtp_depayloader_au_cap need =
     (if need > (- 1) div 2 then need
      else (let a = need - 1; b = a OR drop_bit 1 a; c = b OR drop_bit 2 b; d = c OR drop_bit 4 c; e = d OR drop_bit 8 d;
                f = e OR drop_bit 16 e; g = f OR drop_bit 32 f; cap = g + 1
            in if cap < 256 then 256 else cap))"

definition rtp_depayloader_reserve_au :: "nat \<Rightarrow> rtp_depayloader \<times> alloc_script \<Rightarrow> bool \<times> rtp_depayloader \<times> alloc_script" where
  "rtp_depayloader_reserve_au extra = (\<lambda>(s, m).
     (let need = of_nat (length (rd_au s) + extra)
      in if need \<le> rd_au_cap s then (True, s, m)
         else (case alloc m of (Some _, m1) \<Rightarrow> (False, s, m1)
               | (None, m1) \<Rightarrow> (True, s\<lparr>rd_au_cap := rtp_depayloader_au_cap need\<rparr>, m1))))"

definition rtp_depayloader_append_au :: "u8 list \<Rightarrow> rtp_depayloader \<times> alloc_script \<Rightarrow> bool \<times> rtp_depayloader \<times> alloc_script" where
  "rtp_depayloader_append_au xs sm =
     (if xs = [] then (True, sm)
      else (case rtp_depayloader_reserve_au (length xs) sm of
              (ok, s1, m1) \<Rightarrow> if ok then (True, s1\<lparr>rd_au := rd_au s1 @ xs\<rparr>, m1) else (False, s1, m1)))"

text \<open>Two pieces one after the other, the second only when there was memory for the first.\<close>

definition append_both :: "u8 list \<Rightarrow> u8 list \<Rightarrow> rtp_depayloader \<times> alloc_script \<Rightarrow> bool \<times> rtp_depayloader \<times> alloc_script" where
  "append_both xs ys sm =
     (case rtp_depayloader_append_au xs sm of (ok, sm1) \<Rightarrow> if ok then rtp_depayloader_append_au ys sm1 else (False, sm1))"

definition rtp_depayloader_push_bytes ::
    "(rtp_out \<Rightarrow> zst_result) option \<Rightarrow> u8 list \<Rightarrow> u64 \<Rightarrow> u64 \<Rightarrow> bool \<Rightarrow> rd_io \<Rightarrow> zst_result \<times> rd_io" where
  "rtp_depayloader_push_bytes ans data pts duration dropped = (\<lambda>(s, m, out).
     (if data = [] then (ZST_ERROR, (s, m, out))
      else (case alloc m of (Some _, m1) \<Rightarrow> (ZST_ERROR, (s, m1, out))
            | (None, m1) \<Rightarrow>
                (let b = \<lparr>ab_data = data, ab_pts = pts, ab_eos = False, ro_duration = duration, ro_drop = dropped\<rparr>;
                     s1 = s\<lparr>rd_out_buffers := rd_out_buffers s + 1, rd_out_bytes := rd_out_bytes s + of_nat (length data)\<rparr>
                 in case ans of None \<Rightarrow> (ZST_OK, (s1, m1, out)) | Some f \<Rightarrow> (f b, (s1, m1, out @ [b]))))))"

definition rtp_depayloader_push_au :: "(rtp_out \<Rightarrow> zst_result) option \<Rightarrow> rd_io \<Rightarrow> zst_result \<times> rd_io" where
  "rtp_depayloader_push_au ans = (\<lambda>(s, m, out).
     (if \<not> rd_au_active s \<or> rd_au s = [] then (ZST_OK, (rtp_depayloader_reset_au s, m, out))
      else
        (let dropped = (rd_codec s = RTP_DEPAYLOADER_CODEC_H264 \<and> rd_h264_discontinuity_pending s)
         in rtp_depayloader_push_bytes ans (rd_au s) (rd_au_pts s) 0 dropped
              (s\<lparr>rd_au := [], rd_au_cap := 0, rd_au_active := False,
                 rd_h264_discontinuity_pending := (rd_h264_discontinuity_pending s \<and> \<not> dropped)\<rparr>, m, out))))"

definition rtp_depayloader_parse_rtp :: "u8 list \<Rightarrow> rtp_packet_view option" where
  "rtp_depayloader_parse_rtp p =
     (let hlen = 12 + unat (p ! 0 AND 0x0F) * 4;
          ext = (if p ! 0 AND 0x10 \<noteq> 0 then (if length p < hlen + 4 then None else Some (hlen + 4 + unat (get16 p (hlen + 2)) * 4)) else Some hlen)
      in if length p < 12 \<or> length p > 65535 then None
         else if p ! 0 AND 0xC0 \<noteq> 0x80 then None
         else if length p < hlen then None
         else (case ext of None \<Rightarrow> None
               | Some h \<Rightarrow>
                   if length p < h then None
                   else Some \<lparr>rv_payload = drop h p, rv_payload_type = p ! 1 AND 0x7F, rv_marker = (p ! 1 AND 0x80 \<noteq> 0),
                              rv_seq = get16 p 2, rv_timestamp = get32 p 4, rv_ssrc = get32 p 8\<rparr>))"

text \<open>What follows bytes that were to be appended: on failure the access unit is given up, otherwise the marker pushes it.\<close>

definition after_append :: "(rtp_out \<Rightarrow> zst_result) option \<Rightarrow> bool \<Rightarrow> rtp_out list \<Rightarrow> bool \<times> rtp_depayloader \<times> alloc_script \<Rightarrow> zst_result \<times> rd_io" where
  "after_append ans marker out = (\<lambda>(ok, s, m).
     (if \<not> ok then (ZST_ERROR, (rtp_depayloader_reset_au s, m, out))
      else if marker then rtp_depayloader_push_au ans (s, m, out) else (ZST_OK, (s, m, out))))"

definition start_code4 :: "u8 list" where
  "start_code4 = [0, 0, 0, 1]"

text \<open>The NAL units of an aggregation packet; the Boolean is false when memory ran out.\<close>

function append_aggregate :: "u8 list \<Rightarrow> nat \<Rightarrow> rtp_depayloader \<times> alloc_script \<Rightarrow> bool \<times> rtp_depayloader \<times> alloc_script" where
  "append_aggregate p off sm =
     (if length p < off + 2 then (True, sm)
      else
        (let nal_len = unat (get16 p off)
         in if nal_len = 0 \<or> length p < off + 2 + nal_len then (True, sm)
            else (case append_both start_code4 (take nal_len (drop (off + 2) p)) sm of
                    (ok, sm1) \<Rightarrow> if ok then append_aggregate p (off + 2 + nal_len) sm1 else (False, sm1))))"
  by pat_completeness auto
termination
  by (relation "measure (\<lambda>(p, off, sm). length p - off)") auto

declare append_aggregate.simps [simp del]

definition depay_whole_nal :: "(rtp_out \<Rightarrow> zst_result) option \<Rightarrow> rtp_packet_view \<Rightarrow> rd_io \<Rightarrow> zst_result \<times> rd_io" where
  "depay_whole_nal ans rtp = (\<lambda>(s, m, out).
     after_append ans (rv_marker rtp) out (append_both start_code4 (rv_payload rtp) (rtp_depayloader_begin_au (rv_timestamp rtp) s, m)))"

definition depay_aggregate :: "(rtp_out \<Rightarrow> zst_result) option \<Rightarrow> nat \<Rightarrow> rtp_packet_view \<Rightarrow> rd_io \<Rightarrow> zst_result \<times> rd_io" where
  "depay_aggregate ans off rtp = (\<lambda>(s, m, out).
     after_append ans (rv_marker rtp) out (append_aggregate (rv_payload rtp) off (rtp_depayloader_begin_au (rv_timestamp rtp) s, m)))"

definition depay_fragment :: "(rtp_out \<Rightarrow> zst_result) option \<Rightarrow> bool \<Rightarrow> u8 list \<Rightarrow> u8 list \<Rightarrow> rtp_packet_view \<Rightarrow> rd_io \<Rightarrow> zst_result \<times> rd_io" where
  "depay_fragment ans start nal_header frag rtp = (\<lambda>(s, m, out).
     (if start then
        (case append_both start_code4 nal_header (rtp_depayloader_begin_au (rv_timestamp rtp) s, m) of
           (ok, s1, m1) \<Rightarrow> if ok then after_append ans (rv_marker rtp) out (rtp_depayloader_append_au frag (s1, m1))
                          else (ZST_ERROR, (rtp_depayloader_reset_au s1, m1, out)))
      else if \<not> rd_au_active s \<or> rd_au_ts s \<noteq> rv_timestamp rtp then
        (ZST_OK, (s\<lparr>rd_dropped_packets := rd_dropped_packets s + 1\<rparr>, m, out))
      else after_append ans (rv_marker rtp) out (rtp_depayloader_append_au frag (s, m))))"

definition rtp_depayloader_depay_h264 :: "(rtp_out \<Rightarrow> zst_result) option \<Rightarrow> rtp_packet_view \<Rightarrow> rd_io \<Rightarrow> zst_result \<times> rd_io" where
  "rtp_depayloader_depay_h264 ans rtp io =
     (let p = rv_payload rtp
      in if p = [] then (ZST_ERROR, io)
         else
           (let nal_type = p ! 0 AND 0x1F
            in if 1 \<le> nal_type \<and> nal_type \<le> 23 then depay_whole_nal ans rtp io
               else if nal_type = 24 then depay_aggregate ans 1 rtp io
               else if nal_type = 28 then
                 (if length p < 2 then (ZST_ERROR, io)
                  else depay_fragment ans (p ! 1 AND 0x80 \<noteq> 0) [(p ! 0 AND 0xE0) OR (p ! 1 AND 0x1F)] (drop 2 p) rtp io)
               else depay_whole_nal ans rtp io))"

definition rtp_depayloader_depay_h265 :: "(rtp_out \<Rightarrow> zst_result) option \<Rightarrow> rtp_packet_view \<Rightarrow> rd_io \<Rightarrow> zst_result \<times> rd_io" where
  "rtp_depayloader_depay_h265 ans rtp io =
     (let p = rv_payload rtp
      in if length p < 2 then (ZST_ERROR, io)
         else
           (let nal_type = drop_bit 1 (p ! 0) AND 0x3F
            in if nal_type \<noteq> 48 \<and> nal_type \<noteq> 49 then depay_whole_nal ans rtp io
               else if nal_type = 48 then depay_aggregate ans 2 rtp io
               else if length p < 3 then (ZST_ERROR, io)
               else depay_fragment ans (p ! 2 AND 0x80 \<noteq> 0) [(p ! 0 AND 0x81) OR push_bit 1 (p ! 2 AND 0x3F), p ! 1] (drop 3 p) rtp io))"

text \<open>The access units of an AAC packet, \<open>n\<close> of them left, the next one number \<open>i\<close> with its data at \<open>cursor\<close>.\<close>

fun aac_units ::
    "(rtp_out \<Rightarrow> zst_result) option \<Rightarrow> u8 list \<Rightarrow> u64 \<Rightarrow> nat \<Rightarrow> nat \<Rightarrow> nat \<Rightarrow> zst_result \<times> rd_io \<Rightarrow> zst_result \<times> rd_io" where
  "aac_units ans p base_pts i cursor 0 r = r"
| "aac_units ans p base_pts i cursor (Suc n) (ret, (s, m, out)) =
     (let au_size = unat (drop_bit 3 (get16 p (2 + i * 2)))
      in if au_size = 0 \<or> length p < cursor + au_size then
           (if ret = ZST_OK then ZST_ERROR else ret, (s\<lparr>rd_dropped_packets := rd_dropped_packets s + 1\<rparr>, m, out))
         else (case alloc m of (Some _, m1) \<Rightarrow> (ZST_ERROR, (s, m1, out))
               | (None, m1) \<Rightarrow>
                   (let pts = base_pts + (of_nat i * 1024 * 1000000000) div ucast (rd_clock_rate s);
                        duration = 1024 * 1000000000 div ucast (rd_clock_rate s);
                        (one, io1) = rtp_depayloader_push_bytes ans (take au_size (drop cursor p)) pts duration False (s, m1, out)
                    in aac_units ans p base_pts (Suc i) (cursor + au_size) n (if one = ZST_OK then ret else one, io1))))"

definition rtp_depayloader_depay_aac :: "(rtp_out \<Rightarrow> zst_result) option \<Rightarrow> rtp_packet_view \<Rightarrow> rd_io \<Rightarrow> zst_result \<times> rd_io" where
  "rtp_depayloader_depay_aac ans rtp io =
     (let p = rv_payload rtp
      in if length p < 4 then (ZST_ERROR, io)
         else
           (let au_bits = unat (get16 p 0); au_header_bytes = (au_bits + 7) div 8
            in if au_bits = 0 \<or> au_bits mod 16 \<noteq> 0 \<or> length p < 2 + au_header_bytes then (ZST_ERROR, io)
               else aac_units ans p (rtp_depayloader_ts_to_pts (rv_timestamp rtp) (rd_clock_rate (fst io))) 0 (2 + au_header_bytes)
                      (au_bits div 16) (ZST_OK, io)))"

definition rtp_depayloader_depay_pcm :: "(rtp_out \<Rightarrow> zst_result) option \<Rightarrow> rtp_packet_view \<Rightarrow> rd_io \<Rightarrow> zst_result \<times> rd_io" where
  "rtp_depayloader_depay_pcm ans rtp = (\<lambda>(s, m, out).
     (if rv_payload rtp = [] then (ZST_ERROR, (s, m, out))
      else
        (case rtp_depayloader_append_au (rv_payload rtp) (rtp_depayloader_begin_au (rv_timestamp rtp) s, m) of
           (ok, s1, m1) \<Rightarrow>
             if \<not> ok then (ZST_ERROR, (rtp_depayloader_reset_au s1, m1, out))
             else if rv_marker rtp then
               (let bytes_per_frame = rd_channels s1 * rd_sample_size s1;
                    duration = (if bytes_per_frame > 0 \<and> rd_clock_rate s1 > 0
                                then of_nat (length (rd_au s1) div nat bytes_per_frame) * 1000000000 div ucast (rd_clock_rate s1) else 0)
                in rtp_depayloader_push_bytes ans (rd_au s1) (rd_au_pts s1) duration False
                     (s1\<lparr>rd_au := [], rd_au_cap := 0, rd_au_active := False\<rparr>, m1, out))
             else (ZST_OK, (s1, m1, out)))))"

text \<open>A gap in the sequence numbers gives up the access unit.\<close>

definition rtp_watch_seq :: "u16 \<Rightarrow> rtp_depayloader \<Rightarrow> rtp_depayloader" where
  "rtp_watch_seq seq s =
     (let s1 = (if rd_have_seq s \<and> seq \<noteq> rd_next_seq s then
                  (let s0 = rtp_depayloader_reset_au (s\<lparr>rd_dropped_packets := rd_dropped_packets s + 1\<rparr>)
                   in if rd_codec s = RTP_DEPAYLOADER_CODEC_H264 then s0\<lparr>rd_h264_discontinuity_pending := True\<rparr> else s0)
                else s)
      in s1\<lparr>rd_have_seq := True, rd_next_seq := seq + 1\<rparr>)"

definition rtp_depayloader_pad_push ::
    "(rtp_out \<Rightarrow> zst_result) option \<Rightarrow> av_buffer \<Rightarrow> rtp_depayloader \<times> alloc_script \<Rightarrow> zst_result \<times> rd_io" where
  "rtp_depayloader_pad_push ans buf = (\<lambda>(s, m).
     (if ab_eos buf then rtp_depayloader_push_au ans (s, m, [])
      else
        (let s0 = s\<lparr>rd_in_packets := rd_in_packets s + 1\<rparr>
         in case rtp_depayloader_parse_rtp (ab_data buf) of
              None \<Rightarrow> (ZST_OK, (s0\<lparr>rd_parse_errors := rd_parse_errors s + 1, rd_dropped_packets := rd_dropped_packets s + 1\<rparr>, m, []))
            | Some rtp \<Rightarrow>
                (let s1 = s0\<lparr>rd_packets := rd_packets s + 1, rd_bytes := rd_bytes s + of_nat (length (ab_data buf))\<rparr>
                 in if rv_payload_type rtp \<noteq> rd_payload_type s \<or> rd_filter_ssrc s \<and> rv_ssrc rtp \<noteq> rd_expected_ssrc s then
                      (ZST_OK, (s1\<lparr>rd_dropped_packets := rd_dropped_packets s + 1\<rparr>, m, []))
                    else
                      (let io = (rtp_watch_seq (rv_seq rtp) s1, m, [])
                       in case rd_codec s of
                            RTP_DEPAYLOADER_CODEC_H264 \<Rightarrow> rtp_depayloader_depay_h264 ans rtp io
                          | RTP_DEPAYLOADER_CODEC_H265 \<Rightarrow> rtp_depayloader_depay_h265 ans rtp io
                          | RTP_DEPAYLOADER_CODEC_AAC \<Rightarrow> rtp_depayloader_depay_aac ans rtp io
                          | RTP_DEPAYLOADER_CODEC_PCM \<Rightarrow> rtp_depayloader_depay_pcm ans rtp io)))))"

definition rtp_depayloader_open :: "rtp_depayloader \<Rightarrow> rtp_depayloader" where
  "rtp_depayloader_open s = (rtp_depayloader_reset_au s)\<lparr>rd_have_seq := False, rd_h264_discontinuity_pending := False, rd_next_seq := 0,
     rd_packets := 0, rd_bytes := 0, rd_out_buffers := 0, rd_out_bytes := 0, rd_dropped_packets := 0\<rparr>"

definition rtp_depayloader_close :: "rtp_depayloader \<Rightarrow> rtp_depayloader" where
  "rtp_depayloader_close s = (rtp_depayloader_reset_au s)\<lparr>rd_have_seq := False\<rparr>"

definition rtp_depayloader_set_property :: "string \<Rightarrow> string \<Rightarrow> rtp_depayloader \<Rightarrow> zst_result \<times> rtp_depayloader" where
  "rtp_depayloader_set_property name value s =
     (if name \<in> {''codec'', ''media'', ''encoding''} then
        (case rtp_depayloader_parse_codec value of None \<Rightarrow> (ZST_ERROR, s)
         | Some c \<Rightarrow> (ZST_OK, rtp_depayloader_reset_au (s\<lparr>rd_codec := c,
               rd_clock_rate := (if c = RTP_DEPAYLOADER_CODEC_H264 \<or> c = RTP_DEPAYLOADER_CODEC_H265 then 90000
                                 else if rd_clock_rate s = 90000 then 48000 else rd_clock_rate s)\<rparr>)))
      else if name \<in> {''payload-type'', ''pt'', ''video-payload-type'', ''audio-payload-type''} then
        (let pt = c_atoi value in if pt < 0 \<or> pt > 127 then (ZST_ERROR, s) else (ZST_OK, s\<lparr>rd_payload_type := of_int pt\<rparr>))
      else if name \<in> {''ssrc'', ''video-ssrc'', ''audio-ssrc''} then
        (let ssrc = ucast (c_strtoul0 value) in (ZST_OK, s\<lparr>rd_expected_ssrc := ssrc, rd_filter_ssrc := (ssrc \<noteq> 0)\<rparr>))
      else if name \<in> {''clock-rate'', ''sample-rate'', ''audio-clock-rate''} then
        (let rate = c_atoi value in if rate \<le> 0 then (ZST_ERROR, s) else (ZST_OK, s\<lparr>rd_clock_rate := of_int rate\<rparr>))
      else if name = ''channels'' then
        (let channels = c_atoi value in if channels \<le> 0 then (ZST_ERROR, s) else (ZST_OK, s\<lparr>rd_channels := channels\<rparr>))
      else if name \<in> {''sample-size'', ''bytes-per-sample''} then
        (let n = c_atoi value in if n \<le> 0 then (ZST_ERROR, s) else (ZST_OK, s\<lparr>rd_sample_size := n\<rparr>))
      else (ZST_ERROR, s))"

definition rtp_depayloader_get_property :: "string \<Rightarrow> nat \<Rightarrow> rtp_depayloader \<Rightarrow> zst_result \<times> string option" where
  "rtp_depayloader_get_property name max_len s =
     (let text = (\<lambda>t. (ZST_OK, Some (c_snprintf max_len t))); number = (\<lambda>n. (ZST_OK, Some (c_snprintf max_len (print_nat n))))
      in if max_len = 0 then (ZST_ERROR, None)
         else if name \<in> {''codec'', ''media'', ''encoding''} then text (rtp_depayloader_codec_to_string (rd_codec s))
         else if name \<in> {''payload-type'', ''pt'', ''video-payload-type'', ''audio-payload-type''} then number (unat (rd_payload_type s))
         else if name \<in> {''ssrc'', ''video-ssrc'', ''audio-ssrc''} then number (unat (rd_expected_ssrc s))
         else if name \<in> {''clock-rate'', ''sample-rate'', ''audio-clock-rate''} then number (unat (rd_clock_rate s))
         else if name = ''channels'' then text (print_int (rd_channels s))
         else if name \<in> {''sample-size'', ''bytes-per-sample''} then text (print_int (rd_sample_size s))
         else if name \<in> {''packets'', ''total-packets''} then number (unat (rd_packets s))
         else if name \<in> {''bytes'', ''total-bytes''} then number (unat (rd_bytes s))
         else if name \<in> {''out-buffers'', ''buffers''} then number (unat (rd_out_buffers s))
         else if name = ''out-bytes'' then number (unat (rd_out_bytes s))
         else if name \<in> {''dropped-packets'', ''drops''} then number (unat (rd_dropped_packets s))
         else if name = ''in-packets'' then number (unat (rd_in_packets s))
         else if name = ''parse-errors'' then number (unat (rd_parse_errors s))
         else (ZST_ERROR, None))"

definition zst_rtp_depayloader_create :: rtp_depayloader where
  "zst_rtp_depayloader_create =
     \<lparr>rd_codec = RTP_DEPAYLOADER_CODEC_H264, rd_payload_type = 96, rd_clock_rate = 90000, rd_channels = 2, rd_sample_size = 2,
      rd_expected_ssrc = 0, rd_filter_ssrc = False, rd_have_seq = False, rd_next_seq = 0, rd_au = [], rd_au_cap = 0, rd_au_ts = 0,
      rd_au_pts = 0, rd_au_active = False, rd_h264_discontinuity_pending = False, rd_packets = 0, rd_bytes = 0, rd_out_buffers = 0,
      rd_out_bytes = 0, rd_in_packets = 0, rd_parse_errors = 0, rd_dropped_packets = 0\<rparr>"

end
