(* ===== verification/Zst_Rtp_Laws.thy ===== *)
theory Zst_Rtp_Laws
  imports Zst_Rtp_Depayload Zst_St2110_Compressed_Laws "HOL-Library.Sublist"
begin

text \<open>
  Facts about the generic RTP pair for H.264 and H.265: what a payload adds to an access unit (\<open>contribution\<close>), what the payloader sends for
  one (\<open>sends\<close>, \<open>unit_items\<close>), what the depayloader does with a packet in step (\<open>push_in_sync\<close>) and after a gap (\<open>push_out_of_sync\<close>),
  and from these the two together on whole streams, without loss (\<open>rtp_roundtrip\<close>) and with it (\<open>rtp_loss_safe\<close>).  \<open>lossy\<close> is the network.
\<close>

section \<open>What a payload adds to an access unit\<close>

text \<open>\<open>h\<close> is whether the codec is H.265.\<close>

definition is_fragment :: "bool \<Rightarrow> u8 list \<Rightarrow> bool" where
  "is_fragment h p \<longleftrightarrow> (if h then drop_bit 1 (p ! 0) AND 0x3F = 49 else p ! 0 AND 0x1F = 28)"

definition fragment_starts :: "bool \<Rightarrow> u8 list \<Rightarrow> bool" where
  "fragment_starts h p \<longleftrightarrow> (if h then p ! 2 else p ! 1) AND 0x80 \<noteq> 0"

definition fragment_header :: "bool \<Rightarrow> u8 list \<Rightarrow> u8 list" where
  "fragment_header h p =
     (if h then [(p ! 0 AND 0x81) OR push_bit 1 (p ! 2 AND 0x3F), p ! 1] else [(p ! 0 AND 0xE0) OR (p ! 1 AND 0x1F)])"

definition contribution :: "bool \<Rightarrow> u8 list \<Rightarrow> u8 list" where
  "contribution h p =
     (if is_fragment h p then (if fragment_starts h p then start_code4 @ fragment_header h p else []) @ drop (if h then 3 else 2) p
      else start_code4 @ p)"

definition opens :: "bool \<Rightarrow> u8 list \<Rightarrow> bool" where
  "opens h p \<longleftrightarrow> \<not> is_fragment h p \<or> fragment_starts h p"

definition payload_ok :: "bool \<Rightarrow> u8 list \<Rightarrow> bool" where
  "payload_ok h p \<longleftrightarrow>
     (if h then 2 \<le> length p \<and> drop_bit 1 (p ! 0) AND 0x3F \<noteq> 48 else p \<noteq> [] \<and> p ! 0 AND 0x1F \<noteq> 24) \<and>
     (is_fragment h p \<longrightarrow> (if h then 4 else 3) \<le> length p) \<and> length p \<le> 65495"

lemma contribution_nonempty: "payload_ok h p \<Longrightarrow> contribution h p \<noteq> []"
  by (auto simp: payload_ok_def contribution_def start_code4_def)

lemma drop_bit_type: "drop_bit 1 (n AND 0x7E) = drop_bit 1 n AND (0x3F :: u8)"
proof -
  have "(0x7E :: u8) = push_bit 1 (mask 6)" "(0x3F :: u8) = mask 6" by (simp_all add: mask_eq_exp_minus_1)
  then show ?thesis by (simp only: shifted_mask)
qed

text \<open>The fragments of a unit.\<close>

definition fu_flags :: "bool \<Rightarrow> bool \<Rightarrow> u8" where
  "fu_flags st en = (if st then 0x80 else 0) OR (if en then 0x40 else 0)"

lemma fu_flags_cases: "fu_flags st en = 0 \<or> fu_flags st en = 0x40 \<or> fu_flags st en = 0x80 \<or> fu_flags st en = 0xC0"
  and fu_flags_start: "(fu_flags st en AND 0x80 \<noteq> 0) = st"
  by (cases st; cases en; simp add: fu_flags_def)+

lemma fragment_h264_payload:
  fixes n :: u8 and st en :: bool
  assumes "chunk \<noteq> []" "length chunk \<le> 65493"
  defines "p \<equiv> [(n AND 0xE0) OR 28] @ [(n AND 0x1F) OR fu_flags st en] @ chunk"
  shows "payload_ok False p" "opens False p = st" "contribution False p = (if st then start_code4 @ [n] else []) @ chunk"
proof -
  note B = fu_bytes_h264 [where n = n and f = "fu_flags st en", OF fu_flags_cases]
  have t: "p ! 0 = (n AND 0xE0) OR 28" "p ! 1 = (n AND 0x1F) OR fu_flags st en" "drop 2 p = chunk" by (simp_all add: p_def)
  have f: "is_fragment False p" unfolding is_fragment_def t using B(1) by (simp only: if_False)
  have s: "fragment_starts False p = st" unfolding fragment_starts_def t if_False B(3) fu_flags_start ..
  have h: "fragment_header False p = [n]" unfolding fragment_header_def t if_False B(2) ..
  show "opens False p = st" using f s by (simp add: opens_def)
  show "contribution False p = (if st then start_code4 @ [n] else []) @ chunk" using f s h t(3) by (simp add: contribution_def)
  have "p ! 0 AND 0x1F \<noteq> 24" unfolding t B(1) by simp
  moreover have "3 \<le> length p" "length p \<le> 65495" using assms(1,2) by (simp_all add: p_def Suc_le_eq)
  ultimately show "payload_ok False p" by (auto simp: payload_ok_def p_def)
qed

lemma fragment_h265_payload:
  fixes n n2 :: u8 and st en :: bool
  assumes "chunk \<noteq> []" "length chunk \<le> 65492"
  defines "p \<equiv> [(n AND 0x81) OR push_bit 1 49, n2] @ [(drop_bit 1 n AND 0x3F) OR fu_flags st en] @ chunk"
  shows "payload_ok True p" "opens True p = st" "contribution True p = (if st then start_code4 @ [n, n2] else []) @ chunk"
proof -
  note B = fu_bytes_h265 [where n = n and f = "fu_flags st en", OF fu_flags_cases, unfolded drop_bit_type]
  have t: "p ! 0 = (n AND 0x81) OR push_bit 1 49" "p ! 1 = n2" "p ! 2 = (drop_bit 1 n AND 0x3F) OR fu_flags st en" "drop 3 p = chunk"
    by (simp_all add: p_def)
  have f: "is_fragment True p" unfolding is_fragment_def t using B(1) by (simp only: if_True)
  have s: "fragment_starts True p = st" unfolding fragment_starts_def t if_True B(3) fu_flags_start ..
  have h: "fragment_header True p = [n, n2]" unfolding fragment_header_def t if_True B(2) ..
  show "opens True p = st" using f s by (simp add: opens_def)
  show "contribution True p = (if st then start_code4 @ [n, n2] else []) @ chunk" using f s h t(4) by (simp add: contribution_def)
  have "drop_bit 1 (p ! 0) AND 0x3F \<noteq> 48" unfolding t B(1) by simp
  moreover have "4 \<le> length p" "length p \<le> 65495" using assms(1,2) by (simp_all add: p_def Suc_le_eq)
  ultimately show "payload_ok True p" by (auto simp: payload_ok_def)
qed

lemma whole_nal_payload:
  assumes "nal_ok h n" "length n \<le> 65495"
  shows "payload_ok h n" "opens h n" "contribution h n = start_code4 @ n"
proof -
  have "\<not> is_fragment h n" using assms by (cases h) (auto simp: nal_ok_def is_fragment_def drop_bit_type)
  then show "payload_ok h n" "opens h n" "contribution h n = start_code4 @ n"
    using assms by (auto simp: nal_ok_def payload_ok_def opens_def contribution_def drop_bit_type)
qed

section \<open>What the payloader sends\<close>

text \<open>Payloads with their markers, sent one after the other.\<close>

definition rtp_packet :: "rtp_payloader \<Rightarrow> u16 \<Rightarrow> u32 \<Rightarrow> u64 \<Rightarrow> u8 list \<Rightarrow> bool \<Rightarrow> av_buffer" where
  "rtp_packet s seq ts pts p mk =
     \<lparr>ab_data = rtp_header mk (rp_payload_type s) seq ts (rp_ssrc s) @ p, ab_pts = pts, ab_eos = False\<rparr>"

fun rtp_packets :: "rtp_payloader \<Rightarrow> u32 \<Rightarrow> u64 \<Rightarrow> (u8 list \<times> bool) list \<Rightarrow> u16 \<Rightarrow> av_buffer list" where
  "rtp_packets s ts pts [] seq = []"
| "rtp_packets s ts pts ((p, mk) # its) seq = rtp_packet s seq ts pts p mk # rtp_packets s ts pts its (seq + 1)"

definition same_stream :: "rtp_payloader \<Rightarrow> rtp_payloader \<Rightarrow> bool" where
  "same_stream s t \<longleftrightarrow> rp_codec t = rp_codec s \<and> rp_payload_type t = rp_payload_type s \<and> rp_ssrc t = rp_ssrc s \<and> rp_mtu t = rp_mtu s \<and>
     rp_clock_rate t = rp_clock_rate s \<and> rp_strict_mtu t = rp_strict_mtu s \<and> rp_channels t = rp_channels s \<and> rp_sample_size t = rp_sample_size s"

lemma same_stream_trans: "same_stream s t \<Longrightarrow> same_stream t u \<Longrightarrow> same_stream s u"
  by (simp add: same_stream_def)

lemma same_stream_refl [simp]: "same_stream s s"
  by (simp add: same_stream_def)

lemma rtp_packets_same: "same_stream s t \<Longrightarrow> rtp_packets t ts pts its seq = rtp_packets s ts pts its seq"
  by (induction its arbitrary: seq) (auto simp: same_stream_def rtp_packet_def)

lemma rtp_packets_append: "rtp_packets s ts pts (xs @ ys) seq = rtp_packets s ts pts xs seq @ rtp_packets s ts pts ys (seq + of_nat (length xs))"
  by (induction xs arbitrary: seq) (auto simp: ac_simps)

text \<open>\<open>sends\<close>: from one state to the next the packets \<open>its\<close> went out.\<close>

definition sends :: "u32 \<Rightarrow> u64 \<Rightarrow> (u8 list \<times> bool) list \<Rightarrow> rtp_io \<Rightarrow> rtp_io \<Rightarrow> bool" where
  "sends ts pts its io io1 \<longleftrightarrow>
     (case (io, io1) of ((s, m, out), (s1, m1, out1)) \<Rightarrow>
        same_stream s s1 \<and> plenty m1 \<and> rp_seq s1 = rp_seq s + of_nat (length its) \<and> out1 = out @ rtp_packets s ts pts its (rp_seq s))"

lemma sends_none: "plenty (fst (snd io)) \<Longrightarrow> sends ts pts [] io io"
  by (cases io) (simp add: sends_def)

lemma sends_trans:
  assumes "sends ts pts xs io io1" and "sends ts pts ys io1 io2"
  shows "sends ts pts (xs @ ys) io io2"
proof -
  obtain s m out s1 m1 out1 s2 m2 out2 where io: "io = (s, m, out)" "io1 = (s1, m1, out1)" "io2 = (s2, m2, out2)"
    by (metis prod_cases3)
  have "same_stream s s1" using assms(1) by (simp add: sends_def io)
  then show ?thesis using assms by (auto simp: sends_def io rtp_packets_append rtp_packets_same ac_simps elim: same_stream_trans)
qed

definition rtp_ready :: "rtp_io \<Rightarrow> bool" where
  "rtp_ready io \<longleftrightarrow> plenty (fst (snd io)) \<and> 15 < rp_mtu (fst io) \<and> rp_mtu (fst io) \<le> 65507"

lemma sends_ready: "rtp_ready io \<Longrightarrow> sends ts pts its io io1 \<Longrightarrow> rtp_ready io1 \<and> rp_mtu (fst io1) = rp_mtu (fst io)"
  by (cases io; cases io1) (auto simp: rtp_ready_def sends_def same_stream_def)

lemma push_packet_ok:
  assumes "rtp_ready io" and "int (length hdr + length p) \<le> rp_mtu (fst io) - 12"
  obtains r io1 where "rtp_payloader_push_packet (Some f) hdr p ts mk pts io = (r, io1)" "sends ts pts [(hdr @ p, mk)] io io1"
    "(\<forall>b. f b = ZST_OK) \<longrightarrow> r = ZST_OK"
proof -
  obtain s m out where io: "io = (s, m, out)" by (metis prod_cases3)
  have pl: "plenty m" "15 < rp_mtu s" "rp_mtu s \<le> 65507" "int (length hdr + length p) \<le> rp_mtu s - 12" using assms by (simp_all add: io rtp_ready_def)
  obtain m1 where m1: "alloc m = (None, m1)" "plenty m1" using pl(1) by (rule plenty_alloc)
  obtain m2 where m2: "alloc m1 = (None, m2)" "plenty m2" using m1(2) by (rule plenty_alloc)
  have len: "\<not> length p + length hdr > 65507" "\<not> int (length p + length hdr + 12) > rp_mtu s" using pl by auto
  show ?thesis
    using that m1 m2 len
    by (cases "rp_pool s") (simp_all add: io rtp_payloader_push_packet_def rtp_payloader_make_packet_def Let_def sends_def same_stream_def rtp_packet_def)
qed

text \<open>The items of a unit: together they make \<open>x\<close>, the first one opens it when \<open>st\<close> is set, and the last one alone has the marker, when \<open>mk\<close> is set.\<close>

definition unit_items :: "bool \<Rightarrow> bool \<Rightarrow> u8 list \<Rightarrow> bool \<Rightarrow> (u8 list \<times> bool) list \<Rightarrow> bool" where
  "unit_items h st x mk its \<longleftrightarrow> its \<noteq> [] \<and> (\<forall>(p, k) \<in> set its. payload_ok h p) \<and> concat (map (contribution h \<circ> fst) its) = x \<and>
     (st \<longrightarrow> opens h (fst (hd its))) \<and> map snd its = replicate (length its - 1) False @ [mk]"

lemma unit_items_append:
  assumes "unit_items h st x False xs" and "unit_items h st' y mk ys"
  shows "unit_items h st (x @ y) mk (xs @ ys)"
proof -
  have "replicate (length xs - 1) False @ [False] = replicate (length xs) False"
    using assms(1) by (cases xs) (auto simp: unit_items_def replicate_append_same)
  moreover have "length (xs @ ys) - 1 = length xs + (length ys - 1)" using assms(2) by (cases ys) (auto simp: unit_items_def)
  ultimately show ?thesis using assms by (auto simp: unit_items_def replicate_add simp del: append_assoc simp flip: append_assoc)
qed

lemma rtp_send_fu_ok:
  assumes k: "0 < k" and frag: "\<And>st en chunk. chunk \<noteq> [] \<Longrightarrow> length chunk \<le> nat k \<Longrightarrow>
      payload_ok h (fu_ind @ [ty OR fu_flags st en] @ chunk) \<and> opens h (fu_ind @ [ty OR fu_flags st en] @ chunk) = st \<and>
      contribution h (fu_ind @ [ty OR fu_flags st en] @ chunk) = (if st then start_code4 @ nhdr else []) @ chunk"
  shows "rtp_ready io \<Longrightarrow> int (length fu_ind) + 1 + k \<le> rp_mtu (fst io) - 12 \<Longrightarrow> rest \<noteq> [] \<Longrightarrow>
    \<exists>ret1 io1 its. rtp_send_fu (Some f) ts pts fu_ind ty k mk st rest (ret, io) = Some (ret1, io1) \<and> sends ts pts its io io1 \<and>
      unit_items h st ((if st then start_code4 @ nhdr else []) @ rest) mk its \<and> ((\<forall>b. f b = ZST_OK) \<longrightarrow> ret1 = ret)"
proof (induction rest arbitrary: st io ret rule: length_induct)
  case (1 rest)
  let ?chunk = "take (nat k) rest" and ?tail = "drop (nat k) rest"
  let ?b = "ty OR fu_flags st (?tail = [])"
  have chunk: "?chunk \<noteq> []" "length ?chunk \<le> nat k" using k 1(4) by simp_all
  have "int (length (fu_ind @ [?b]) + length ?chunk) \<le> rp_mtu (fst io) - 12" using 1(3) chunk(2) k by simp
  then obtain r io1 where p: "rtp_payloader_push_packet (Some f) (fu_ind @ [?b]) ?chunk ts (mk \<and> ?tail = []) pts io = (r, io1)"
    "sends ts pts [((fu_ind @ [?b]) @ ?chunk, mk \<and> ?tail = [])] io io1" "(\<forall>b. f b = ZST_OK) \<longrightarrow> r = ZST_OK"
    by (rule push_packet_ok [OF 1(2)])
  have u: "unit_items h st ((if st then start_code4 @ nhdr else []) @ ?chunk) (mk \<and> ?tail = []) [((fu_ind @ [?b]) @ ?chunk, mk \<and> ?tail = [])]"
    using frag [OF chunk, of st "?tail = []"] by (cases st) (simp_all add: unit_items_def)
  let ?ret = "if r = ZST_OK then ret else r"
  have step: "rtp_send_fu (Some f) ts pts fu_ind ty k mk st rest (ret, io) = rtp_send_fu (Some f) ts pts fu_ind ty k mk False ?tail (?ret, io1)"
    using k 1(4) p(1) by (subst rtp_send_fu.simps) (simp add: Let_def fu_flags_def)
  show ?case
  proof (cases "?tail = []")
    case True
    then have "rtp_send_fu (Some f) ts pts fu_ind ty k mk False ?tail (?ret, io1) = Some (?ret, io1)"
      by (subst rtp_send_fu.simps) simp
    moreover have "rest = ?chunk" using True append_take_drop_id [of "nat k" rest] by simp
    ultimately show ?thesis using step p(2,3) u True by auto
  next
    case False
    have lt: "length ?tail < length rest" using k 1(4) by (simp add: not_le)
    have r1: "rtp_ready io1" "rp_mtu (fst io1) = rp_mtu (fst io)" using sends_ready [OF 1(2) p(2)] by auto
    have "\<exists>ret2 io2 its. rtp_send_fu (Some f) ts pts fu_ind ty k mk False ?tail (?ret, io1) = Some (ret2, io2) \<and> sends ts pts its io1 io2 \<and>
        unit_items h False ?tail mk its \<and> ((\<forall>b. f b = ZST_OK) \<longrightarrow> ret2 = ?ret)"
      using 1(1) [rule_format, OF lt r1(1) _ False, of False ?ret] 1(3) r1(2) by simp
    then obtain ret2 io2 its where s2: "rtp_send_fu (Some f) ts pts fu_ind ty k mk False ?tail (?ret, io1) = Some (ret2, io2)"
      "sends ts pts its io1 io2" "unit_items h False ?tail mk its" "(\<forall>b. f b = ZST_OK) \<longrightarrow> ret2 = ?ret" by blast
    have mf: "(mk \<and> ?tail = []) = False" using False by simp
    have "unit_items h st (((if st then start_code4 @ nhdr else []) @ ?chunk) @ ?tail) mk ([((fu_ind @ [?b]) @ ?chunk, mk \<and> ?tail = [])] @ its)"
      by (rule unit_items_append [OF u [unfolded mf] s2(3), folded mf])
    then have "unit_items h st ((if st then start_code4 @ nhdr else []) @ rest) mk ([((fu_ind @ [?b]) @ ?chunk, mk \<and> ?tail = [])] @ its)"
      by (simp only: append_assoc append_take_drop_id)
    moreover have "(\<forall>b. f b = ZST_OK) \<longrightarrow> ret2 = ret" using s2(4) p(3) by simp
    ultimately show ?thesis using step s2(1) sends_trans [OF p(2) s2(2)] by metis
  qed
qed

text \<open>The two functions that send a unit, as one.\<close>

definition rtp_send_nal :: "bool \<Rightarrow> (av_buffer \<Rightarrow> zst_result) option \<Rightarrow> u32 \<Rightarrow> u64 \<Rightarrow> u8 list \<Rightarrow> bool \<Rightarrow> rtp_io \<Rightarrow> (zst_result \<times> rtp_io) option" where
  "rtp_send_nal h ans ts pts = (if h then rtp_payloader_send_h265_nal ans ts pts else rtp_payloader_send_h264_nal ans ts pts)"

lemma rtp_send_nal_ok:
  assumes io: "rtp_ready io" and n: "nal_ok h n"
  shows "\<exists>r io1 its. rtp_send_nal h (Some f) ts pts n mk io = Some (r, io1) \<and> sends ts pts its io io1 \<and>
    unit_items h True (start_code4 @ n) mk its \<and> ((\<forall>b. f b = ZST_OK) \<longrightarrow> r = ZST_OK)"
proof -
  let ?max = "rp_mtu (fst io) - 12"
  have mtu: "3 < ?max" "?max \<le> 65495" using io by (auto simp: rtp_ready_def)
  have ne: "n \<noteq> []" "h \<Longrightarrow> 2 \<le> length n" using n by (auto simp: nal_ok_def)
  consider "int (length n) \<le> ?max" | "\<not> int (length n) \<le> ?max" "\<not> h" | "\<not> int (length n) \<le> ?max" h by blast
  then show ?thesis
  proof cases
    case 1
    have "int (length [] + length n) \<le> ?max" using 1 by simp
    then obtain r io1 where p: "rtp_payloader_push_packet (Some f) [] n ts mk pts io = (r, io1)" "sends ts pts [([] @ n, mk)] io io1"
      "(\<forall>b. f b = ZST_OK) \<longrightarrow> r = ZST_OK" by (rule push_packet_ok [OF io])
    have "unit_items h True (start_code4 @ n) mk [(n, mk)]" using whole_nal_payload [OF n] 1 mtu by (simp add: unit_items_def)
    moreover have "sends ts pts [(n, mk)] io io1" using p(2) by simp
    moreover have "rtp_send_nal h (Some f) ts pts n mk io = Some (r, io1)" using p(1) 1 mtu ne
      by (cases h) (simp_all add: rtp_send_nal_def rtp_payloader_send_h264_nal_def rtp_payloader_send_h265_nal_def Let_def)
    ultimately show ?thesis using p(3) by blast
  next
    case 2
    have frag: "payload_ok False ([(n ! 0 AND 0xE0) OR 28] @ [(n ! 0 AND 0x1F) OR fu_flags st en] @ chunk) \<and>
        opens False ([(n ! 0 AND 0xE0) OR 28] @ [(n ! 0 AND 0x1F) OR fu_flags st en] @ chunk) = st \<and>
        contribution False ([(n ! 0 AND 0xE0) OR 28] @ [(n ! 0 AND 0x1F) OR fu_flags st en] @ chunk) = (if st then start_code4 @ [n ! 0] else []) @ chunk"
      if "chunk \<noteq> []" "length chunk \<le> nat (?max - 2)" for st en chunk
      using fragment_h264_payload [OF that(1), of "n ! 0" st en] that(2) mtu by auto
    have pre: "0 < ?max - 2" "int (length [(n ! 0 AND 0xE0) OR 28]) + 1 + (?max - 2) \<le> ?max" "drop 1 n \<noteq> []" using mtu 2 by auto
    have "start_code4 @ n = (if True then start_code4 @ [n ! 0] else []) @ drop 1 n" using ne(1) by (simp add: Cons_nth_drop_Suc)
    moreover have "rtp_send_nal h (Some f) ts pts n mk io =
        rtp_send_fu (Some f) ts pts [(n ! 0 AND 0xE0) OR 28] (n ! 0 AND 0x1F) (?max - 2) mk True (drop 1 n) (ZST_OK, io)"
      using 2 mtu ne by (simp add: rtp_send_nal_def rtp_payloader_send_h264_nal_def Let_def)
    ultimately show ?thesis
      using rtp_send_fu_ok [OF pre(1) frag io pre(2,3), of f ts pts mk True ZST_OK] 2(2) by (metis (full_types))
  next
    case 3
    have frag: "payload_ok True ([(n ! 0 AND 0x81) OR push_bit 1 49, n ! 1] @ [(drop_bit 1 (n ! 0) AND 0x3F) OR fu_flags st en] @ chunk) \<and>
        opens True ([(n ! 0 AND 0x81) OR push_bit 1 49, n ! 1] @ [(drop_bit 1 (n ! 0) AND 0x3F) OR fu_flags st en] @ chunk) = st \<and>
        contribution True ([(n ! 0 AND 0x81) OR push_bit 1 49, n ! 1] @ [(drop_bit 1 (n ! 0) AND 0x3F) OR fu_flags st en] @ chunk) =
          (if st then start_code4 @ [n ! 0, n ! 1] else []) @ chunk"
      if "chunk \<noteq> []" "length chunk \<le> nat (?max - 3)" for st en chunk
      using fragment_h265_payload [OF that(1), of "n ! 0" "n ! 1" st en] that(2) mtu by auto
    have l: "2 \<le> length n" using ne(2) 3(2) .
    have pre: "0 < ?max - 3" "int (length [(n ! 0 AND 0x81) OR push_bit 1 49, n ! 1]) + 1 + (?max - 3) \<le> ?max" "drop 2 n \<noteq> []" using mtu 3 by auto
    have "n = [n ! 0, n ! 1] @ drop 2 n" using l by (cases n; cases "tl n") auto
    then have "start_code4 @ n = (if True then start_code4 @ [n ! 0, n ! 1] else []) @ drop 2 n" by simp
    moreover have "rtp_send_nal h (Some f) ts pts n mk io =
        rtp_send_fu (Some f) ts pts [(n ! 0 AND 0x81) OR push_bit 1 49, n ! 1] (drop_bit 1 (n ! 0) AND 0x3F) (?max - 3) mk True (drop 2 n) (ZST_OK, io)"
      using 3 mtu l by (simp add: rtp_send_nal_def rtp_payloader_send_h265_nal_def Let_def)
    ultimately show ?thesis
      using rtp_send_fu_ok [OF pre(1) frag io pre(2,3), of f ts pts mk True ZST_OK] 3(2) by (metis (full_types))
  qed
qed

fun rtp_send_nals :: "bool \<Rightarrow> (av_buffer \<Rightarrow> zst_result) option \<Rightarrow> u32 \<Rightarrow> u64 \<Rightarrow> u8 list list \<Rightarrow> zst_result \<times> rtp_io \<Rightarrow> (zst_result \<times> rtp_io) option" where
  "rtp_send_nals h ans ts pts [] r = Some r"
| "rtp_send_nals h ans ts pts (n # ns) (ret, io) =
     do { (one, io1) \<leftarrow> rtp_send_nal h ans ts pts n (ns = []) io; rtp_send_nals h ans ts pts ns (if one = ZST_OK then ret else one, io1) }"

lemma rtp_send_nals_ok:
  "rtp_ready io \<Longrightarrow> \<forall>n \<in> set (n # ns). nal_ok h n \<Longrightarrow>
   \<exists>r io1 its. rtp_send_nals h (Some f) ts pts (n # ns) (ret, io) = Some (r, io1) \<and> sends ts pts its io io1 \<and>
     unit_items h True (annexb (n # ns)) True its \<and> ((\<forall>b. f b = ZST_OK) \<longrightarrow> r = ret)"
proof (induction ns arbitrary: n io ret)
  case Nil
  have "nal_ok h n" using Nil.prems(2) by simp
  from rtp_send_nal_ok [OF Nil.prems(1) this, of f ts pts True] obtain r io1 its where
    1: "rtp_send_nal h (Some f) ts pts n True io = Some (r, io1)" "sends ts pts its io io1" "unit_items h True (start_code4 @ n) True its"
    "(\<forall>b. f b = ZST_OK) \<longrightarrow> r = ZST_OK" by blast
  then show ?case by (auto simp: annexb_def start_code4_def start_code_def)
next
  case (Cons n' ns)
  have "nal_ok h n" using Cons.prems(2) by simp
  from rtp_send_nal_ok [OF Cons.prems(1) this, of f ts pts False] obtain r io1 its where
    1: "rtp_send_nal h (Some f) ts pts n False io = Some (r, io1)" "sends ts pts its io io1" "unit_items h True (start_code4 @ n) False its"
    "(\<forall>b. f b = ZST_OK) \<longrightarrow> r = ZST_OK" by blast
  have "rtp_ready io1" using sends_ready [OF Cons.prems(1) 1(2)] by simp
  moreover have "\<forall>n \<in> set (n' # ns). nal_ok h n" using Cons.prems(2) by simp
  ultimately obtain r2 io2 its2 where
    2: "rtp_send_nals h (Some f) ts pts (n' # ns) (if r = ZST_OK then ret else r, io1) = Some (r2, io2)" "sends ts pts its2 io1 io2"
    "unit_items h True (annexb (n' # ns)) True its2" "(\<forall>b. f b = ZST_OK) \<longrightarrow> r2 = (if r = ZST_OK then ret else r)"
    using Cons.IH [of io1 n' "if r = ZST_OK then ret else r"] by blast
  have "start_code4 @ n @ annexb (n' # ns) = annexb (n # n' # ns)" by (simp add: annexb_def start_code4_def start_code_def)
  then have "unit_items h True (annexb (n # n' # ns)) True (its @ its2)" using unit_items_append [OF 1(3) 2(3)] by simp
  moreover have "sends ts pts (its @ its2) io io2" by (rule sends_trans [OF 1(2) 2(2)])
  moreover have "rtp_send_nals h (Some f) ts pts (n # n' # ns) (ret, io) = Some (r2, io2)" using 1(1) 2(1) by (simp del: rtp_send_nals.simps(2) add: rtp_send_nals.simps(2) [of h "Some f" ts pts n])
  moreover have "(\<forall>b. f b = ZST_OK) \<longrightarrow> r2 = ret" using 1(4) 2(4) by simp
  ultimately show ?case by blast
qed

lemma rtp_nal_loop_sends:
  "is_start_code c \<Longrightarrow> nal_ok h n \<Longrightarrow> \<forall>(c, n) \<in> set cns. is_start_code c \<and> nal_ok h n \<Longrightarrow> length cns < k \<Longrightarrow>
   rtp_nal_loop (rtp_send_nal h ans ts pts) k (pre @ c @ n @ byte_stream cns) (length pre, length c) (ret, io) =
     rtp_send_nals h ans ts pts (n # map snd cns) (ret, io)"
proof (induction cns arbitrary: k pre c n io ret)
  case Nil
  obtain k' where k: "k = Suc k'" using Nil.prems(4) by (cases k) auto
  have "pre @ c \<noteq> []" using Nil.prems(1) by (auto simp: is_start_code_def)
  then have "zst_find_start_code (pre @ c @ n) (length pre + length c) = None"
    using find_behind [OF Nil.prems(2), of "[]" "pre @ c"] by (simp add: byte_stream_def)
  then show ?case using Nil.prems(2)
    by (cases "rtp_send_nal h ans ts pts n True io") (auto simp: k byte_stream_def nal_ok_def)
next
  case (Cons cn cns)
  obtain k' where k: "k = Suc k'" using Cons.prems(4) by (cases k) auto
  obtain c' n' where cn: "cn = (c', n')" by force
  have "pre @ c \<noteq> []" using Cons.prems(1) by (auto simp: is_start_code_def)
  then have f: "zst_find_start_code (pre @ c @ n @ byte_stream (cn # cns)) (length pre + length c) = Some (length pre + length c + length n, length c')"
    using find_behind [OF Cons.prems(2,3), of "pre @ c"] by (simp add: cn)
  have rec: "rtp_nal_loop (rtp_send_nal h ans ts pts) k' (pre @ c @ n @ byte_stream (cn # cns)) (length pre + length c + length n, length c') (ret1, io1) =
      rtp_send_nals h ans ts pts (map snd (cn # cns)) (ret1, io1)" for ret1 io1
    using Cons.IH [of c' n' k' "pre @ c @ n" ret1 io1] Cons.prems(3,4) k cn by (simp add: byte_stream_def add.assoc)
  have split: "(case x of (ret1, io1) \<Rightarrow> rtp_nal_loop (rtp_send_nal h ans ts pts) k' (pre @ c @ n @ byte_stream (cn # cns))
      (length pre + length c + length n, length c') (ret1, io1)) = rtp_send_nals h ans ts pts (map snd (cn # cns)) x" for x
    by (cases x) (simp only: prod.case rec)
  show ?case using Cons.prems(2) unfolding k rtp_nal_loop.simps Let_def f option.case prod.case rec
    by (cases "rtp_send_nal h ans ts pts n False io") (auto simp: nal_ok_def cn)
qed

text \<open>A whole access unit.\<close>

lemma rtp_packetize_ok:
  assumes data: "data = byte_stream cns" "cns \<noteq> []" and ok: "\<forall>(c, n) \<in> set cns. is_start_code c \<and> nal_ok h n" and io: "rtp_ready io"
  shows "\<exists>r io1 its. rtp_payloader_packetize_h26x (Some f) h data pts io = Some (r, io1) \<and>
    sends (rtp_payloader_pts_to_rtp_ts pts 90000) pts its io io1 \<and> unit_items h True (annexb (map snd cns)) True its \<and>
    ((\<forall>b. f b = ZST_OK) \<longrightarrow> r = ZST_OK)"
proof -
  obtain c n cns' where cns: "cns = (c, n) # cns'" using data(2) by (cases cns) auto
  have c: "is_start_code c" and n: "nal_ok h n" and rest: "\<forall>(c, n) \<in> set cns'. is_start_code c \<and> nal_ok h n" using ok cns by auto
  have "length cns' \<le> length (byte_stream cns')" using rest by (induction cns') (auto simp: byte_stream_def is_start_code_def)
  then have fuel: "length cns' < Suc (length data)" by (simp add: data(1) cns byte_stream_def)
  have d: "data = [] @ c @ n @ byte_stream cns'" by (simp add: data(1) cns byte_stream_def)
  have l: "3 \<le> length c" "n \<noteq> []" using c n by (auto simp: is_start_code_def nal_ok_def)
  then have find: "zst_find_start_code data 0 = Some (0, length c)"
    using scan_at_code [OF c, of "n @ byte_stream cns'" 0] by (simp add: d zst_find_start_code_def)
  let ?ts = "rtp_payloader_pts_to_rtp_ts pts 90000"
  have "\<forall>n \<in> set (n # map snd cns'). nal_ok h n" using n rest by auto
  from rtp_send_nals_ok [OF io this, of f ?ts pts ZST_OK] obtain r io1 its where
    1: "rtp_send_nals h (Some f) ?ts pts (n # map snd cns') (ZST_OK, io) = Some (r, io1)" "sends ?ts pts its io io1"
    "unit_items h True (annexb (n # map snd cns')) True its" "(\<forall>b. f b = ZST_OK) \<longrightarrow> r = ZST_OK" by blast
  have "rtp_nal_loop (rtp_send_nal h (Some f) ?ts pts) (Suc (length data)) data (0, length c) (ZST_OK, io) = Some (r, io1)"
    using rtp_nal_loop_sends [OF c n rest fuel, of "Some f" ?ts pts "[]" ZST_OK io] 1(1)
    by (simp add: d del: rtp_nal_loop.simps rtp_send_nals.simps)
  then have "rtp_payloader_packetize_h26x (Some f) h data pts io = Some (r, io1)"
    using l(2) d find by (simp add: rtp_payloader_packetize_h26x_def rtp_send_nal_def Let_def del: rtp_nal_loop.simps)
  with 1 show ?thesis by (auto simp: cns)
qed

section \<open>What the depayloader does with a packet\<close>

definition rd_keeps :: "rtp_depayloader \<Rightarrow> rtp_depayloader \<Rightarrow> bool" where
  "rd_keeps d e \<longleftrightarrow> rd_codec e = rd_codec d \<and> rd_payload_type e = rd_payload_type d \<and> rd_clock_rate e = rd_clock_rate d \<and>
     rd_filter_ssrc e = rd_filter_ssrc d \<and> rd_expected_ssrc e = rd_expected_ssrc d \<and> rd_have_seq e = rd_have_seq d \<and> rd_next_seq e = rd_next_seq d"

lemma rd_keeps_refl [simp]: "rd_keeps d d"
  by (simp add: rd_keeps_def)

lemma rd_keeps_trans: "rd_keeps d e \<Longrightarrow> rd_keeps e f \<Longrightarrow> rd_keeps d f"
  by (simp add: rd_keeps_def)

lemma append_plenty:
  assumes "plenty m"
  obtains cap m1 where "rtp_depayloader_append_au xs (d, m) = (True, d\<lparr>rd_au := rd_au d @ xs, rd_au_cap := cap\<rparr>, m1)" "plenty m1"
proof (cases "xs = [] \<or> of_nat (length (rd_au d) + length xs) \<le> rd_au_cap d")
  case True
  then show ?thesis using that [of "rd_au_cap d" m] assms
    by (cases d) (auto simp: rtp_depayloader_append_au_def rtp_depayloader_reserve_au_def Let_def)
next
  case False
  obtain m1 where "alloc m = (None, m1)" "plenty m1" using assms by (rule plenty_alloc)
  then show ?thesis using that [of "rtp_depayloader_au_cap (of_nat (length (rd_au d) + length xs))" m1] False
    by (cases d) (simp add: rtp_depayloader_append_au_def rtp_depayloader_reserve_au_def Let_def)
qed

lemma append_both_plenty:
  assumes "plenty m"
  obtains cap m1 where "append_both xs ys (d, m) = (True, d\<lparr>rd_au := rd_au d @ xs @ ys, rd_au_cap := cap\<rparr>, m1)" "plenty m1"
proof -
  obtain c1 m1 where 1: "rtp_depayloader_append_au xs (d, m) = (True, d\<lparr>rd_au := rd_au d @ xs, rd_au_cap := c1\<rparr>, m1)" "plenty m1"
    using assms by (rule append_plenty)
  obtain c2 m2 where 2: "rtp_depayloader_append_au ys (d\<lparr>rd_au := rd_au d @ xs, rd_au_cap := c1\<rparr>, m1) =
      (True, (d\<lparr>rd_au := rd_au d @ xs, rd_au_cap := c1\<rparr>)\<lparr>rd_au := rd_au (d\<lparr>rd_au := rd_au d @ xs, rd_au_cap := c1\<rparr>) @ ys, rd_au_cap := c2\<rparr>, m2)" "plenty m2"
    using 1(2) by (rule append_plenty)
  show ?thesis using that [of c2 m2] 1(1) 2 by (simp add: append_both_def)
qed

text \<open>What an active access unit with something in it becomes at the end of a packet.\<close>

lemma after_append_plenty:
  assumes "plenty m" "rd_au_active d" "rd_au d \<noteq> []"
  obtains r d1 m1 where "after_append (Some g) mk [] (True, d, m) = (r, (d1, m1,
      if mk then [\<lparr>ab_data = rd_au d, ab_pts = rd_au_pts d, ab_eos = False, ro_duration = 0,
                   ro_drop = (rd_codec d = RTP_DEPAYLOADER_CODEC_H264 \<and> rd_h264_discontinuity_pending d)\<rparr>] else []))"
    "plenty m1" "rd_keeps d d1" "if mk then \<not> rd_au_active d1 else d1 = d"
    "rd_h264_discontinuity_pending d1 = (rd_h264_discontinuity_pending d \<and> \<not> (mk \<and> rd_codec d = RTP_DEPAYLOADER_CODEC_H264))"
proof (cases mk)
  case True
  obtain m1 where "alloc m = (None, m1)" "plenty m1" using assms(1) by (rule plenty_alloc)
  then show ?thesis using that True assms(2,3)
    by (auto simp: after_append_def rtp_depayloader_push_au_def rtp_depayloader_push_bytes_def Let_def rd_keeps_def)
next
  case False
  then show ?thesis using that assms by (simp add: after_append_def)
qed

section \<open>Reading a packet\<close>

lemma parse_rtp_packet:
  assumes "length p \<le> 65495"
  shows "rtp_depayloader_parse_rtp (ab_data (rtp_packet s seq ts pts p mk)) =
    Some \<lparr>rv_payload = p, rv_payload_type = rp_payload_type s AND 0x7F, rv_marker = mk, rv_seq = seq, rv_timestamp = ts, rv_ssrc = rp_ssrc s\<rparr>"
  using assms by (simp add: rtp_depayloader_parse_rtp_def rtp_packet_def rtp_header_seq rtp_header_ts rtp_header_ssrc rtp_header_pt Let_def)

definition depay_h26x :: "bool \<Rightarrow> (rtp_out \<Rightarrow> zst_result) option \<Rightarrow> rtp_packet_view \<Rightarrow> rd_io \<Rightarrow> zst_result \<times> rd_io" where
  "depay_h26x h = (if h then rtp_depayloader_depay_h265 else rtp_depayloader_depay_h264)"

lemma depay_dispatch:
  assumes "payload_ok h (rv_payload v)"
  shows "depay_h26x h ans v io =
    (if is_fragment h (rv_payload v)
     then depay_fragment ans (fragment_starts h (rv_payload v)) (fragment_header h (rv_payload v)) (drop (if h then 3 else 2) (rv_payload v)) v io
     else depay_whole_nal ans v io)"
proof (cases h)
  case True
  then show ?thesis using assms
    by (auto simp: depay_h26x_def rtp_depayloader_depay_h265_def Let_def is_fragment_def payload_ok_def fragment_starts_def fragment_header_def)
next
  case False
  then show ?thesis using assms
    by (auto simp: depay_h26x_def rtp_depayloader_depay_h264_def Let_def is_fragment_def payload_ok_def fragment_starts_def fragment_header_def)
qed

text \<open>The access unit after the first \<open>x\<close> of it came in without a gap.\<close>

definition au_holds :: "rtp_depayloader \<Rightarrow> u8 list \<Rightarrow> u32 \<Rightarrow> bool" where
  "au_holds d x ts \<longleftrightarrow> (if x = [] then \<not> rd_au_active d
     else rd_au_active d \<and> rd_au d = x \<and> rd_au_ts d = ts \<and> rd_au_pts d = rtp_depayloader_ts_to_pts ts (rd_clock_rate d))"

lemma begin_au_holds:
  assumes "au_holds d x ts"
  shows "rd_au (rtp_depayloader_begin_au ts d) = x \<and> rd_au_active (rtp_depayloader_begin_au ts d) \<and> rd_au_ts (rtp_depayloader_begin_au ts d) = ts \<and>
    rd_au_pts (rtp_depayloader_begin_au ts d) = rtp_depayloader_ts_to_pts ts (rd_clock_rate d) \<and> rd_keeps d (rtp_depayloader_begin_au ts d) \<and>
    rd_h264_discontinuity_pending (rtp_depayloader_begin_au ts d) = rd_h264_discontinuity_pending d"
  using assms by (auto simp: au_holds_def rtp_depayloader_begin_au_def rtp_depayloader_reset_au_def rd_keeps_def split: if_splits)

text \<open>A packet in sequence adds what it carries, and the marker sends the unit out.\<close>

lemma depay_in_sync:
  assumes p: "payload_ok h p" "rv_payload v = p" "rv_timestamp v = ts" "rv_marker v = mk" and d: "au_holds d x ts" "x = [] \<Longrightarrow> opens h p" and m: "plenty m"
  defines "y \<equiv> x @ contribution h p"
  obtains r d1 m1 where "depay_h26x h (Some g) v (d, m, []) = (r, (d1, m1,
      if mk then [\<lparr>ab_data = y, ab_pts = rtp_depayloader_ts_to_pts ts (rd_clock_rate d), ab_eos = False, ro_duration = 0,
                   ro_drop = (rd_codec d = RTP_DEPAYLOADER_CODEC_H264 \<and> rd_h264_discontinuity_pending d)\<rparr>] else []))"
    "plenty m1" "rd_keeps d d1" "au_holds d1 (if mk then [] else y) ts"
    "rd_h264_discontinuity_pending d1 = (rd_h264_discontinuity_pending d \<and> \<not> (mk \<and> rd_codec d = RTP_DEPAYLOADER_CODEC_H264))"
proof -
  have y: "y \<noteq> []" using contribution_nonempty [OF p(1)] by (simp add: y_def)
  let ?n = "drop (if h then 3 else 2) p"
  have "\<exists>e m1. depay_h26x h (Some g) v (d, m, []) = after_append (Some g) mk [] (True, e, m1) \<and> plenty m1 \<and> rd_keeps d e \<and>
      rd_au e = y \<and> rd_au_active e \<and> rd_au_ts e = ts \<and> rd_au_pts e = rtp_depayloader_ts_to_pts ts (rd_clock_rate d) \<and>
      rd_h264_discontinuity_pending e = rd_h264_discontinuity_pending d"
  proof (cases "is_fragment h p \<and> \<not> fragment_starts h p")
    case True
    then have "x \<noteq> []" using d(2) by (auto simp: opens_def)
    then have a: "rd_au_active d" "rd_au d = x" "rd_au_ts d = ts" "rd_au_pts d = rtp_depayloader_ts_to_pts ts (rd_clock_rate d)"
      using d(1) by (auto simp: au_holds_def)
    obtain cap m1 where 1: "rtp_depayloader_append_au ?n (d, m) = (True, d\<lparr>rd_au := rd_au d @ ?n, rd_au_cap := cap\<rparr>, m1)" "plenty m1"
      using m by (rule append_plenty)
    have "depay_h26x h (Some g) v (d, m, []) = after_append (Some g) mk [] (True, d\<lparr>rd_au := rd_au d @ ?n, rd_au_cap := cap\<rparr>, m1)"
      unfolding depay_dispatch [OF p(1) [folded p(2)]] p(2) using True a p(3,4) 1(1) by (simp add: depay_fragment_def)
    then show ?thesis using 1(2) a True by (intro exI [of _ "d\<lparr>rd_au := rd_au d @ ?n, rd_au_cap := cap\<rparr>"] exI [of _ m1])
        (simp add: y_def contribution_def rd_keeps_def)
  next
    case False
    let ?b = "rtp_depayloader_begin_au ts d"
    note b = begin_au_holds [OF d(1)]
    show ?thesis
    proof (cases "is_fragment h p")
      case True
      then have st: "fragment_starts h p" using False by simp
      let ?h = "fragment_header h p"
      obtain c1 m1 where 1: "append_both start_code4 ?h (?b, m) = (True, ?b\<lparr>rd_au := rd_au ?b @ start_code4 @ ?h, rd_au_cap := c1\<rparr>, m1)" "plenty m1"
        using m by (rule append_both_plenty)
      let ?e = "?b\<lparr>rd_au := rd_au ?b @ start_code4 @ ?h, rd_au_cap := c1\<rparr>"
      obtain c2 m2 where 2: "rtp_depayloader_append_au ?n (?e, m1) = (True, ?e\<lparr>rd_au := rd_au ?e @ ?n, rd_au_cap := c2\<rparr>, m2)" "plenty m2"
        using 1(2) by (rule append_plenty)
      have "depay_h26x h (Some g) v (d, m, []) = after_append (Some g) mk [] (True, ?e\<lparr>rd_au := rd_au ?e @ ?n, rd_au_cap := c2\<rparr>, m2)"
        unfolding depay_dispatch [OF p(1) [folded p(2)]] p(2) using True st p(3,4) 1(1) 2(1) by (simp add: depay_fragment_def)
      then show ?thesis using 2(2) b True st by (intro exI [of _ "?e\<lparr>rd_au := rd_au ?e @ ?n, rd_au_cap := c2\<rparr>"] exI [of _ m2])
          (simp add: y_def contribution_def rd_keeps_def)
    next
      case nofrag: False
      obtain c1 m1 where 1: "append_both start_code4 p (?b, m) = (True, ?b\<lparr>rd_au := rd_au ?b @ start_code4 @ p, rd_au_cap := c1\<rparr>, m1)" "plenty m1"
        using m by (rule append_both_plenty)
      have "depay_h26x h (Some g) v (d, m, []) = after_append (Some g) mk [] (True, ?b\<lparr>rd_au := rd_au ?b @ start_code4 @ p, rd_au_cap := c1\<rparr>, m1)"
        unfolding depay_dispatch [OF p(1) [folded p(2)]] p(2) using nofrag p(2,3,4) 1(1) by (simp add: depay_whole_nal_def)
      then show ?thesis using 1(2) b nofrag by (intro exI [of _ "?b\<lparr>rd_au := rd_au ?b @ start_code4 @ p, rd_au_cap := c1\<rparr>"] exI [of _ m1])
          (simp add: y_def contribution_def rd_keeps_def)
    qed
  qed
  then obtain e m1 where e: "depay_h26x h (Some g) v (d, m, []) = after_append (Some g) mk [] (True, e, m1)" "plenty m1" "rd_keeps d e"
      "rd_au e = y" "rd_au_active e" "rd_au_ts e = ts" "rd_au_pts e = rtp_depayloader_ts_to_pts ts (rd_clock_rate d)"
      "rd_h264_discontinuity_pending e = rd_h264_discontinuity_pending d" by blast
  have c: "rd_codec e = rd_codec d" "rd_clock_rate e = rd_clock_rate d" using e(3) by (auto simp: rd_keeps_def)
  have ne: "rd_au e \<noteq> []" using e(4) y by simp
  obtain r d1 m2 where f: "after_append (Some g) mk [] (True, e, m1) = (r, (d1, m2,
      if mk then [\<lparr>ab_data = rd_au e, ab_pts = rd_au_pts e, ab_eos = False, ro_duration = 0,
                   ro_drop = (rd_codec e = RTP_DEPAYLOADER_CODEC_H264 \<and> rd_h264_discontinuity_pending e)\<rparr>] else []))"
    "plenty m2" "rd_keeps e d1" "if mk then \<not> rd_au_active d1 else d1 = e"
    "rd_h264_discontinuity_pending d1 = (rd_h264_discontinuity_pending e \<and> \<not> (mk \<and> rd_codec e = RTP_DEPAYLOADER_CODEC_H264))"
    by (rule after_append_plenty [OF e(2,5) ne])
  have "au_holds d1 (if mk then [] else y) ts" using f(4) e(4-7) y c by (auto simp: au_holds_def)
  then show ?thesis using that [of r d1 m2] e(1) f rd_keeps_trans [OF e(3) f(3)] unfolding e(4,7,8) c by metis
qed

text \<open>A packet after a gap.  It may end an access unit, which is then marked as incomplete.\<close>

lemma depay_out_of_sync:
  assumes p: "payload_ok False p" "rv_payload v = p" "rv_marker v = mk" and m: "plenty m"
    and d: "rd_codec d = RTP_DEPAYLOADER_CODEC_H264" "rd_h264_discontinuity_pending d"
  obtains r d1 m1 out where "depay_h26x False (Some g) v (d, m, []) = (r, (d1, m1, out))" "plenty m1" "rd_keeps d d1"
    "out = [] \<and> rd_h264_discontinuity_pending d1 \<or>
     mk \<and> (\<exists>b. out = [b] \<and> ro_drop b) \<and> \<not> rd_h264_discontinuity_pending d1 \<and> \<not> rd_au_active d1"
proof -
  let ?n = "drop 2 p" and ?ts = "rv_timestamp v"
  let ?b = "rtp_depayloader_begin_au ?ts d"
  have b: "rd_au_active ?b" "rd_keeps d ?b" "rd_h264_discontinuity_pending ?b"
    using d(2) by (auto simp: rtp_depayloader_begin_au_def rtp_depayloader_reset_au_def rd_keeps_def)
  consider "is_fragment False p \<and> \<not> fragment_starts False p \<and> (\<not> rd_au_active d \<or> rd_au_ts d \<noteq> ?ts)"
    | e m1 where "depay_h26x False (Some g) v (d, m, []) = after_append (Some g) mk [] (True, e, m1)" "plenty m1" "rd_keeps d e"
      "rd_au e \<noteq> []" "rd_au_active e" "rd_h264_discontinuity_pending e"
  proof (cases "is_fragment False p \<and> \<not> fragment_starts False p")
    case True
    obtain cap m1 where 1: "rtp_depayloader_append_au ?n (d, m) = (True, d\<lparr>rd_au := rd_au d @ ?n, rd_au_cap := cap\<rparr>, m1)" "plenty m1"
      using m by (rule append_plenty)
    have "?n \<noteq> []" using p(1) True by (auto simp: payload_ok_def)
    moreover have "depay_h26x False (Some g) v (d, m, []) = after_append (Some g) mk [] (True, d\<lparr>rd_au := rd_au d @ ?n, rd_au_cap := cap\<rparr>, m1)"
      if "rd_au_active d" "rd_au_ts d = ?ts"
      unfolding depay_dispatch [OF p(1) [folded p(2)]] p(2) using True that p(3) 1(1) by (simp add: depay_fragment_def)
    ultimately show thesis using that(1) that(2) [of "d\<lparr>rd_au := rd_au d @ ?n, rd_au_cap := cap\<rparr>" m1] 1(2) d(2) True
      by (auto simp: rd_keeps_def)
  next
    case False
    show thesis
    proof (cases "is_fragment False p")
      case True
      then have st: "fragment_starts False p" using False by simp
      let ?h = "fragment_header False p"
      obtain c1 m1 where 1: "append_both start_code4 ?h (?b, m) = (True, ?b\<lparr>rd_au := rd_au ?b @ start_code4 @ ?h, rd_au_cap := c1\<rparr>, m1)" "plenty m1"
        using m by (rule append_both_plenty)
      let ?e = "?b\<lparr>rd_au := rd_au ?b @ start_code4 @ ?h, rd_au_cap := c1\<rparr>"
      obtain c2 m2 where 2: "rtp_depayloader_append_au ?n (?e, m1) = (True, ?e\<lparr>rd_au := rd_au ?e @ ?n, rd_au_cap := c2\<rparr>, m2)" "plenty m2"
        using 1(2) by (rule append_plenty)
      have "depay_h26x False (Some g) v (d, m, []) = after_append (Some g) mk [] (True, ?e\<lparr>rd_au := rd_au ?e @ ?n, rd_au_cap := c2\<rparr>, m2)"
        unfolding depay_dispatch [OF p(1) [folded p(2)]] p(2) using True st p(3) 1(1) 2(1) by (simp add: depay_fragment_def)
      then show thesis by (rule that(2)) (use 2(2) b in \<open>auto simp: rd_keeps_def start_code4_def\<close>)
    next
      case nofrag: False
      obtain c1 m1 where 1: "append_both start_code4 p (?b, m) = (True, ?b\<lparr>rd_au := rd_au ?b @ start_code4 @ p, rd_au_cap := c1\<rparr>, m1)" "plenty m1"
        using m by (rule append_both_plenty)
      have "depay_h26x False (Some g) v (d, m, []) = after_append (Some g) mk [] (True, ?b\<lparr>rd_au := rd_au ?b @ start_code4 @ p, rd_au_cap := c1\<rparr>, m1)"
        unfolding depay_dispatch [OF p(1) [folded p(2)]] p(2) using nofrag p(2,3) 1(1) by (simp add: depay_whole_nal_def)
      then show thesis by (rule that(2)) (use 1(2) b in \<open>auto simp: rd_keeps_def start_code4_def\<close>)
    qed
  qed
  then show thesis
  proof cases
    case 1
    then have "depay_h26x False (Some g) v (d, m, []) = (ZST_OK, (d\<lparr>rd_dropped_packets := rd_dropped_packets d + 1\<rparr>, m, []))"
      unfolding depay_dispatch [OF p(1) [folded p(2)]] p(2) by (simp add: depay_fragment_def)
    then show thesis by (rule that) (use m d(2) in \<open>auto simp: rd_keeps_def\<close>)
  next
    case (2 e m1)
    have c: "rd_codec e = RTP_DEPAYLOADER_CODEC_H264" using 2(3) d(1) by (simp add: rd_keeps_def)
    obtain r d1 m2 where f: "after_append (Some g) mk [] (True, e, m1) = (r, (d1, m2,
        if mk then [\<lparr>ab_data = rd_au e, ab_pts = rd_au_pts e, ab_eos = False, ro_duration = 0,
                     ro_drop = (rd_codec e = RTP_DEPAYLOADER_CODEC_H264 \<and> rd_h264_discontinuity_pending e)\<rparr>] else []))"
      "plenty m2" "rd_keeps e d1" "if mk then \<not> rd_au_active d1 else d1 = e"
      "rd_h264_discontinuity_pending d1 = (rd_h264_discontinuity_pending e \<and> \<not> (mk \<and> rd_codec e = RTP_DEPAYLOADER_CODEC_H264))"
      by (rule after_append_plenty [OF 2(2,5,4)])
    show thesis by (rule that [OF 2(1) [unfolded f(1)] f(2) rd_keeps_trans [OF 2(3) f(3)]]) (use f(4,5) 2(6) c in auto)
  qed
qed

section \<open>Streams of packets\<close>

text \<open>What is sent, packet by packet: the RTP time, the time stamp of the buffer, the payload and the marker.\<close>

type_synonym flat_item = "u32 \<times> u64 \<times> u8 list \<times> bool"

fun flat_packets :: "rtp_payloader \<Rightarrow> flat_item list \<Rightarrow> u16 \<Rightarrow> av_buffer list" where
  "flat_packets s [] seq = []"
| "flat_packets s ((ts, pts, p, mk) # its) seq = rtp_packet s seq ts pts p mk # flat_packets s its (seq + 1)"

text \<open>\<open>cur\<close> is the RTP time of an access unit that was begun.\<close>

fun flat_ok :: "bool \<Rightarrow> u32 option \<Rightarrow> flat_item list \<Rightarrow> bool" where
  "flat_ok h cur [] = True"
| "flat_ok h cur ((ts, pts, p, mk) # its) =
     (payload_ok h p \<and> (case cur of None \<Rightarrow> opens h p | Some t \<Rightarrow> t = ts) \<and> flat_ok h (if mk then None else Some ts) its)"

text \<open>The access units of a stream, the first of which has \<open>x\<close> already; and those after the first.\<close>

fun units :: "bool \<Rightarrow> u8 list \<Rightarrow> flat_item list \<Rightarrow> (u8 list \<times> u32) list" where
  "units h x [] = []"
| "units h x ((ts, pts, p, mk) # its) =
     (let y = x @ contribution h p in if mk then (y, ts) # units h [] its else units h y its)"

fun units_after :: "bool \<Rightarrow> flat_item list \<Rightarrow> (u8 list \<times> u32) list" where
  "units_after h [] = []"
| "units_after h ((ts, pts, p, mk) # its) = (if mk then units h [] its else units_after h its)"

lemma units_after_subseq: "subseq (units_after h its) (units h x its)"
  by (induction h x its rule: units.induct) (auto simp: Let_def)

fun depay_rtp :: "(rtp_out \<Rightarrow> zst_result) option \<Rightarrow> av_buffer list \<Rightarrow> rtp_depayloader \<times> alloc_script \<Rightarrow> rd_io" where
  "depay_rtp ans [] (d, m) = (d, m, [])"
| "depay_rtp ans (b # bs) dm =
     (case rtp_depayloader_pad_push ans b dm of (r, (d1, m1, o1)) \<Rightarrow>
        (case depay_rtp ans bs (d1, m1) of (d2, m2, o2) \<Rightarrow> (d2, m2, o1 @ o2)))"

definition rd_fits :: "bool \<Rightarrow> rtp_payloader \<Rightarrow> rtp_depayloader \<Rightarrow> bool" where
  "rd_fits h s d \<longleftrightarrow> rd_codec d = (if h then RTP_DEPAYLOADER_CODEC_H265 else RTP_DEPAYLOADER_CODEC_H264) \<and>
     rd_payload_type d = rp_payload_type s AND 0x7F \<and> (rd_filter_ssrc d \<longrightarrow> rd_expected_ssrc d = rp_ssrc s)"

lemma rd_fits_keeps: "rd_fits h s d \<Longrightarrow> rd_keeps d e \<Longrightarrow> rd_fits h s e"
  by (simp add: rd_fits_def rd_keeps_def)

text \<open>The state in which the codec finds the depayloader.\<close>

definition counted :: "u16 \<Rightarrow> av_buffer \<Rightarrow> rtp_depayloader \<Rightarrow> rtp_depayloader" where
  "counted seq b d = rtp_watch_seq seq (d\<lparr>rd_in_packets := rd_in_packets d + 1, rd_packets := rd_packets d + 1,
     rd_bytes := rd_bytes d + of_nat (length (ab_data b))\<rparr>)"

lemma pad_push_video:
  assumes "rd_fits h s d" "length p \<le> 65495"
  shows "rtp_depayloader_pad_push ans (rtp_packet s seq ts pts p mk) (d, m) =
    depay_h26x h ans \<lparr>rv_payload = p, rv_payload_type = rp_payload_type s AND 0x7F, rv_marker = mk, rv_seq = seq, rv_timestamp = ts, rv_ssrc = rp_ssrc s\<rparr>
      (counted seq (rtp_packet s seq ts pts p mk) d, m, [])"
proof -
  have "\<not> ab_eos (rtp_packet s seq ts pts p mk)" by (simp add: rtp_packet_def)
  then show ?thesis using assms(1) parse_rtp_packet [OF assms(2), of s seq ts pts mk]
    by (auto simp: rtp_depayloader_pad_push_def rd_fits_def depay_h26x_def counted_def Let_def)
qed

lemma counted_facts:
  shows "rd_codec (counted seq b d) = rd_codec d" "rd_clock_rate (counted seq b d) = rd_clock_rate d" "rd_fits h s d \<Longrightarrow> rd_fits h s (counted seq b d)"
    "rd_have_seq (counted seq b d)" "rd_next_seq (counted seq b d) = seq + 1"
    "rd_have_seq d \<longrightarrow> rd_next_seq d = seq \<Longrightarrow> au_holds (counted seq b d) x ts = au_holds d x ts"
    "rd_have_seq d \<longrightarrow> rd_next_seq d = seq \<Longrightarrow> rd_h264_discontinuity_pending (counted seq b d) = rd_h264_discontinuity_pending d"
    "rd_codec d = RTP_DEPAYLOADER_CODEC_H264 \<Longrightarrow> rd_have_seq d \<Longrightarrow> seq \<noteq> rd_next_seq d \<Longrightarrow> rd_h264_discontinuity_pending (counted seq b d)"
  by (auto simp: counted_def rtp_watch_seq_def Let_def rtp_depayloader_reset_au_def rd_fits_def au_holds_def)

definition unit_out :: "u32 \<Rightarrow> u8 list \<times> u32 \<Rightarrow> rtp_out" where
  "unit_out rate = (\<lambda>(y, ts). \<lparr>ab_data = y, ab_pts = rtp_depayloader_ts_to_pts ts rate, ab_eos = False, ro_duration = 0, ro_drop = False\<rparr>)"

text \<open>The access unit that is being received has \<open>x\<close> already.\<close>

definition begun :: "u8 list \<Rightarrow> u32 \<Rightarrow> u32 option" where
  "begun x t = (if x = [] then None else Some t)"

lemma au_holds_begun: "begun x t = begun x' t' \<Longrightarrow> x = x' \<Longrightarrow> au_holds d x t = au_holds d x' t'"
  by (auto simp: begun_def au_holds_def split: if_splits)

lemma payload_ok_length: "payload_ok h p \<Longrightarrow> length p \<le> 65495"
  by (simp add: payload_ok_def)

text \<open>One packet of a stream, in sequence.\<close>

lemma push_in_sync:
  assumes ok: "flat_ok h (begun x t) ((ts, pts, p, mk) # its)" and d: "rd_fits h s d" "au_holds d x t" "rd_have_seq d \<longrightarrow> rd_next_seq d = seq"
      "\<not> rd_h264_discontinuity_pending d" and m: "plenty m"
  defines "y \<equiv> x @ contribution h p"
  obtains r d1 m1 where
    "rtp_depayloader_pad_push (Some g) (rtp_packet s seq ts pts p mk) (d, m) = (r, (d1, m1, if mk then [unit_out (rd_clock_rate d) (y, ts)] else []))"
    "plenty m1" "rd_fits h s d1" "rd_clock_rate d1 = rd_clock_rate d" "rd_have_seq d1" "rd_next_seq d1 = seq + 1"
    "\<not> rd_h264_discontinuity_pending d1" "au_holds d1 (if mk then [] else y) ts" "flat_ok h (begun (if mk then [] else y) ts) its"
proof -
  have p: "payload_ok h p" and o: "x = [] \<Longrightarrow> opens h p" and t: "x \<noteq> [] \<Longrightarrow> t = ts" and its: "flat_ok h (if mk then None else Some ts) its"
    using ok by (auto simp: begun_def)
  let ?v = "\<lparr>rv_payload = p, rv_payload_type = rp_payload_type s AND 0x7F, rv_marker = mk, rv_seq = seq, rv_timestamp = ts, rv_ssrc = rp_ssrc s\<rparr>"
  let ?c = "counted seq (rtp_packet s seq ts pts p mk) d"
  have c: "rd_fits h s ?c" "rd_clock_rate ?c = rd_clock_rate d" "rd_have_seq ?c" "rd_next_seq ?c = seq + 1" "\<not> rd_h264_discontinuity_pending ?c"
    using counted_facts(2,3,4,5,7) d(1,3,4) by auto
  have a: "au_holds ?c x ts" using counted_facts(6) [OF d(3)] d(2) t by (auto simp: au_holds_def split: if_splits)
  have y: "y \<noteq> []" using contribution_nonempty [OF p] by (simp add: y_def)
  obtain r d1 m1 where e: "depay_h26x h (Some g) ?v (?c, m, []) = (r, (d1, m1,
      if mk then [\<lparr>ab_data = x @ contribution h p, ab_pts = rtp_depayloader_ts_to_pts ts (rd_clock_rate ?c), ab_eos = False, ro_duration = 0,
                   ro_drop = (rd_codec ?c = RTP_DEPAYLOADER_CODEC_H264 \<and> rd_h264_discontinuity_pending ?c)\<rparr>] else []))"
    "plenty m1" "rd_keeps ?c d1" "au_holds d1 (if mk then [] else x @ contribution h p) ts"
    "rd_h264_discontinuity_pending d1 = (rd_h264_discontinuity_pending ?c \<and> \<not> (mk \<and> rd_codec ?c = RTP_DEPAYLOADER_CODEC_H264))"
    by (rule depay_in_sync [of h p ?v ts mk ?c x m g]) (use p a o m in simp_all)
  have "rtp_depayloader_pad_push (Some g) (rtp_packet s seq ts pts p mk) (d, m) = (r, (d1, m1, if mk then [unit_out (rd_clock_rate d) (y, ts)] else []))"
    unfolding pad_push_video [OF d(1) payload_ok_length [OF p]] e(1) using c(5) by (cases mk) (simp_all add: unit_out_def y_def counted_facts(2))
  moreover have "begun (if mk then [] else y) ts = (if mk then None else Some ts)" using y by (simp add: begun_def)
  ultimately show ?thesis
    by (intro that [of r d1 m1]) (use e(2,4,5) c rd_fits_keeps [OF c(1) e(3)] e(3) its in \<open>auto simp: y_def rd_keeps_def\<close>)
qed

lemma depay_rtp_lossless:
  "flat_ok h (begun x t) its \<Longrightarrow> rd_fits h s d \<Longrightarrow> au_holds d x t \<Longrightarrow> rd_have_seq d \<longrightarrow> rd_next_seq d = seq \<Longrightarrow>
   \<not> rd_h264_discontinuity_pending d \<Longrightarrow> plenty m \<Longrightarrow>
   \<exists>d1 m1. depay_rtp (Some g) (flat_packets s its seq) (d, m) = (d1, m1, map (unit_out (rd_clock_rate d)) (units h x its))"
proof (induction its arbitrary: x t d m seq)
  case (Cons it its)
  obtain ts pts p mk where it: "it = (ts, pts, p, mk)" by (metis prod_cases4)
  from Cons.prems obtain r d1 m1 where
    1: "rtp_depayloader_pad_push (Some g) (rtp_packet s seq ts pts p mk) (d, m) =
        (r, (d1, m1, if mk then [unit_out (rd_clock_rate d) (x @ contribution h p, ts)] else []))"
      "plenty m1" "rd_fits h s d1" "rd_clock_rate d1 = rd_clock_rate d" "rd_have_seq d1" "rd_next_seq d1 = seq + 1"
      "\<not> rd_h264_discontinuity_pending d1" "au_holds d1 (if mk then [] else x @ contribution h p) ts"
      "flat_ok h (begun (if mk then [] else x @ contribution h p) ts) its"
    unfolding it by (rule push_in_sync)
  obtain d2 m2 where "depay_rtp (Some g) (flat_packets s its (seq + 1)) (d1, m1) =
      (d2, m2, map (unit_out (rd_clock_rate d)) (units h (if mk then [] else x @ contribution h p) its))"
    using Cons.IH [OF 1(9,3,8) _ 1(7,2), of "seq + 1"] 1(4,6) by auto
  then show ?case using 1(1) by (simp add: it Let_def)
qed simp

section \<open>Loss\<close>

text \<open>\<open>lossy g\<close>: packets are lost, never as many as there are sequence numbers in a row; \<open>g\<close> of them were lost just before.\<close>

inductive lossy :: "nat \<Rightarrow> 'a list \<Rightarrow> 'a list \<Rightarrow> bool" where
  lossy_end: "lossy g [] []"
| lossy_keep: "lossy 0 ps qs \<Longrightarrow> lossy g (p # ps) (p # qs)"
| lossy_lose: "Suc g < 65536 \<Longrightarrow> lossy (Suc g) ps qs \<Longrightarrow> lossy g (p # ps) qs"

inductive_cases lossy_NilE: "lossy g [] qs"
inductive_cases lossy_ConsE: "lossy g (p # ps) qs"

text \<open>A packet when the unit it belongs to is not whole any more.\<close>

lemma push_out_of_sync:
  assumes p: "payload_ok False p" and d: "rd_fits False s d" and gap: "rd_have_seq d"
      "seq \<noteq> rd_next_seq d \<or> rd_h264_discontinuity_pending d" and m: "plenty m"
  obtains r d1 m1 out where
    "rtp_depayloader_pad_push (Some g) (rtp_packet s seq ts pts p mk) (d, m) = (r, (d1, m1, out))"
    "plenty m1" "rd_fits False s d1" "rd_clock_rate d1 = rd_clock_rate d" "rd_have_seq d1" "rd_next_seq d1 = seq + 1"
    "filter (\<lambda>b. \<not> ro_drop b) out = []" "rd_h264_discontinuity_pending d1 \<or> mk \<and> \<not> rd_h264_discontinuity_pending d1 \<and> \<not> rd_au_active d1"
proof -
  let ?v = "\<lparr>rv_payload = p, rv_payload_type = rp_payload_type s AND 0x7F, rv_marker = mk, rv_seq = seq, rv_timestamp = ts, rv_ssrc = rp_ssrc s\<rparr>"
  let ?c = "counted seq (rtp_packet s seq ts pts p mk) d"
  have h: "rd_codec d = RTP_DEPAYLOADER_CODEC_H264" using d by (simp add: rd_fits_def)
  have pe: "rd_h264_discontinuity_pending ?c"
    by (cases "seq = rd_next_seq d") (use gap counted_facts(7) [of d seq] counted_facts(8) [OF h gap(1), of seq] in auto)
  have c: "rd_codec ?c = RTP_DEPAYLOADER_CODEC_H264" using h counted_facts(1) by simp
  obtain r d1 m1 out where e: "depay_h26x False (Some g) ?v (?c, m, []) = (r, (d1, m1, out))" "plenty m1" "rd_keeps ?c d1"
    "out = [] \<and> rd_h264_discontinuity_pending d1 \<or>
     mk \<and> (\<exists>b. out = [b] \<and> ro_drop b) \<and> \<not> rd_h264_discontinuity_pending d1 \<and> \<not> rd_au_active d1"
    by (rule depay_out_of_sync [of p ?v mk m ?c g]) (use p m c pe in simp_all)
  have "rtp_depayloader_pad_push (Some g) (rtp_packet s seq ts pts p mk) (d, m) = (r, (d1, m1, out))"
    unfolding pad_push_video [OF d payload_ok_length [OF p]] e(1) ..
  then show ?thesis
    by (rule that [OF _ e(2) rd_fits_keeps [OF counted_facts(3) [OF d] e(3)]])
      (use e(3,4) counted_facts(2,4,5) in \<open>auto simp: rd_keeps_def\<close>)
qed

lemma units_after_step: "subseq (units_after h its) (units_after h (it # its))"
  by (cases it) (auto intro: units_after_subseq)

lemma of_nat_gap: "0 < g \<Longrightarrow> g < 65536 \<Longrightarrow> (q :: u16) + of_nat g \<noteq> q"
proof -
  assume g: "0 < g" "g < 65536"
  have "(of_nat g :: u16) \<noteq> 0"
  proof
    assume "(of_nat g :: u16) = 0"
    then have "unat (of_nat g :: u16) = 0" by simp
    then show False using g by (simp add: unat_of_nat take_bit_nat_eq_self)
  qed
  then show ?thesis by simp
qed

text \<open>What a receiver that lost packets of a stream hands on without the mark: units that were sent, in order.  The receiver is either in
  step, or it lost the \<open>g\<close> packets before or waits for the end of a unit that is not whole.\<close>

lemma depay_rtp_lossy:
  "lossy g ps qs \<Longrightarrow> ps = flat_packets s its seq \<Longrightarrow> flat_ok False cur its \<Longrightarrow> rd_fits False s d \<Longrightarrow> rd_have_seq d \<Longrightarrow> plenty m \<Longrightarrow>
   (if g = 0 \<and> \<not> rd_h264_discontinuity_pending d then cur = begun x t \<and> au_holds d x t \<and> rd_next_seq d = seq \<and> want = units False x its
    else seq = rd_next_seq d + of_nat g \<and> g < 65536 \<and> want = units_after False its) \<Longrightarrow>
   \<exists>d1 m1 out. depay_rtp (Some f) qs (d, m) = (d1, m1, out) \<and>
     subseq (filter (\<lambda>b. \<not> ro_drop b) out) (map (unit_out (rd_clock_rate d)) want)"
proof (induction g ps qs arbitrary: its seq cur d m x t want rule: lossy.induct)
  case (lossy_end g)
  then show ?case by auto
next
  case (lossy_keep ps qs g p0)
  obtain ts pts p mk its' where its: "its = (ts, pts, p, mk) # its'" and ps: "p0 = rtp_packet s seq ts pts p mk" "ps = flat_packets s its' (seq + 1)"
    using lossy_keep.prems(1) by (cases its) auto
  note ok = lossy_keep.prems(2) [unfolded its]
  show ?case
  proof (cases "g = 0 \<and> \<not> rd_h264_discontinuity_pending d")
    case True
    then have a: "cur = begun x t" "au_holds d x t" "rd_next_seq d = seq" "want = units False x its" using lossy_keep.prems(6) by auto
    let ?y = "x @ contribution False p"
    obtain r d1 m1 where
      1: "rtp_depayloader_pad_push (Some f) p0 (d, m) = (r, (d1, m1, if mk then [unit_out (rd_clock_rate d) (?y, ts)] else []))"
        "plenty m1" "rd_fits False s d1" "rd_clock_rate d1 = rd_clock_rate d" "rd_have_seq d1" "rd_next_seq d1 = seq + 1"
        "\<not> rd_h264_discontinuity_pending d1" "au_holds d1 (if mk then [] else ?y) ts" "flat_ok False (begun (if mk then [] else ?y) ts) its'"
      unfolding ps by (rule push_in_sync [OF ok [unfolded a(1)] lossy_keep.prems(3) a(2) _ _ lossy_keep.prems(5), of seq f]) (use a(3) True in auto)
    obtain d2 m2 out where 2: "depay_rtp (Some f) qs (d1, m1) = (d2, m2, out)"
      "subseq (filter (\<lambda>b. \<not> ro_drop b) out) (map (unit_out (rd_clock_rate d1)) (units False (if mk then [] else ?y) its'))"
      using lossy_keep.IH [OF ps(2) 1(9,3,5,2), of "if mk then [] else ?y" ts "units False (if mk then [] else ?y) its'"] 1(6,7,8)
      by auto
    show ?thesis using 1(1,4) 2 a(4) by (auto simp: its Let_def unit_out_def)
  next
    case False
    then have a: "seq = rd_next_seq d + of_nat g" "g < 65536" "want = units_after False its" using lossy_keep.prems(6) by auto
    have p: "payload_ok False p" using ok by simp
    have gap: "seq \<noteq> rd_next_seq d \<or> rd_h264_discontinuity_pending d"
      using False a(1) of_nat_gap [OF _ a(2), of "rd_next_seq d"] by auto
    obtain r d1 m1 o1 where
      1: "rtp_depayloader_pad_push (Some f) p0 (d, m) = (r, (d1, m1, o1))"
        "plenty m1" "rd_fits False s d1" "rd_clock_rate d1 = rd_clock_rate d" "rd_have_seq d1" "rd_next_seq d1 = seq + 1"
        "filter (\<lambda>b. \<not> ro_drop b) o1 = []" "rd_h264_discontinuity_pending d1 \<or> mk \<and> \<not> rd_h264_discontinuity_pending d1 \<and> \<not> rd_au_active d1"
      unfolding ps by (rule push_out_of_sync [OF p lossy_keep.prems(3,4) gap lossy_keep.prems(5)])
    let ?cur = "if mk then None else Some ts" and ?want = "if rd_h264_discontinuity_pending d1 then units_after False its' else units False [] its'"
    have "flat_ok False ?cur its'" using ok by simp
    moreover have "if (0 :: nat) = 0 \<and> \<not> rd_h264_discontinuity_pending d1
      then ?cur = begun [] 0 \<and> au_holds d1 [] 0 \<and> rd_next_seq d1 = seq + 1 \<and> ?want = units False [] its'
      else seq + 1 = rd_next_seq d1 + of_nat 0 \<and> 0 < (65536 :: nat) \<and> ?want = units_after False its'"
      using 1(6,8) by (auto simp: begun_def au_holds_def)
    ultimately obtain d2 m2 out where 2: "depay_rtp (Some f) qs (d1, m1) = (d2, m2, out)"
      "subseq (filter (\<lambda>b. \<not> ro_drop b) out) (map (unit_out (rd_clock_rate d1)) ?want)"
      using lossy_keep.IH [OF ps(2) _ 1(3,5,2), of ?cur "[]" 0 ?want] by blast
    have "subseq ?want want" using 1(8) units_after_subseq by (auto simp: a(3) its)
    then have "subseq (filter (\<lambda>b. \<not> ro_drop b) out) (map (unit_out (rd_clock_rate d)) want)"
      using 2(2) unfolding 1(4) by (meson subseq_map subseq_order.order_trans)
    then show ?thesis using 1(1,7) 2(1) by simp
  qed
next
  case (lossy_lose g ps qs p0)
  obtain ts pts p mk its' where its: "its = (ts, pts, p, mk) # its'" and ps: "ps = flat_packets s its' (seq + 1)"
    using lossy_lose.prems(1) by (cases its) auto
  have ok: "flat_ok False (if mk then None else Some ts) its'" using lossy_lose.prems(2) by (simp add: its)
  have "seq = rd_next_seq d + of_nat g" using lossy_lose.prems(6) by (auto split: if_splits)
  then have "seq + 1 = rd_next_seq d + of_nat (Suc g)" by (simp add: ac_simps)
  then obtain d1 m1 out where 1: "depay_rtp (Some f) qs (d, m) = (d1, m1, out)"
      "subseq (filter (\<lambda>b. \<not> ro_drop b) out) (map (unit_out (rd_clock_rate d)) (units_after False its'))"
    using lossy_lose.IH [OF ps ok lossy_lose.prems(3,4,5), of "[]" 0 "units_after False its'"] lossy_lose.hyps(1) by auto
  have "subseq (units_after False its') want"
    using lossy_lose.prems(6) units_after_step units_after_subseq [of False its x]
    by (auto simp: its intro: subseq_order.order_trans split: if_splits) (meson subseq_order.order_trans units_after_subseq)+
  then show ?case using 1 by (meson subseq_map subseq_order.order_trans)
qed

section \<open>Streams of access units\<close>

fun rtp_pay :: "(av_buffer \<Rightarrow> zst_result) option \<Rightarrow> av_buffer list \<Rightarrow> rtp_payloader \<times> alloc_script \<Rightarrow> rtp_io option" where
  "rtp_pay ans [] (s, m) = Some (s, m, [])"
| "rtp_pay ans (b # bs) sm =
     do { (r, (s1, m1, o1)) \<leftarrow> rtp_payloader_pad_push ans b sm; (s2, m2, o2) \<leftarrow> rtp_pay ans bs (s1, m1); Some (s2, m2, o1 @ o2) }"

text \<open>An access unit as it comes from an encoder: NAL units, each with its start code, and a time stamp.\<close>

type_synonym access_unit = "(u8 list \<times> u8 list) list \<times> u64"

definition access_unit_ok :: "bool \<Rightarrow> access_unit \<Rightarrow> bool" where
  "access_unit_ok h = (\<lambda>(cns, pts). cns \<noteq> [] \<and> (\<forall>(c, n) \<in> set cns. is_start_code c \<and> nal_ok h n) \<and> length (byte_stream cns) < 2 ^ 31)"

definition encoded :: "access_unit \<Rightarrow> av_buffer" where
  "encoded = (\<lambda>(cns, pts). \<lparr>ab_data = byte_stream cns, ab_pts = pts, ab_eos = False\<rparr>)"

text \<open>The access unit as it should come out: the time stamp is what the clock of 90 kHz and 32 bits leaves of it.\<close>

definition rtp_time :: "u64 \<Rightarrow> u64" where
  "rtp_time pts = rtp_depayloader_ts_to_pts (rtp_payloader_pts_to_rtp_ts pts 90000) 90000"

definition received :: "access_unit \<Rightarrow> rtp_out" where
  "received = (\<lambda>(cns, pts). \<lparr>ab_data = annexb (map snd cns), ab_pts = rtp_time pts, ab_eos = False, ro_duration = 0, ro_drop = False\<rparr>)"

lemma flat_unit:
  "its \<noteq> [] \<Longrightarrow> \<forall>(p, k) \<in> set its. payload_ok h p \<Longrightarrow> map snd its = replicate (length its - 1) False @ [True] \<Longrightarrow>
   (y = [] \<longrightarrow> opens h (fst (hd its))) \<Longrightarrow> flat_ok h None rest \<Longrightarrow>
   flat_ok h (begun y ts) (map (\<lambda>it. (ts, pts, it)) its @ rest) \<and>
   units h y (map (\<lambda>it. (ts, pts, it)) its @ rest) = (y @ concat (map (contribution h \<circ> fst) its), ts) # units h [] rest"
proof (induction its arbitrary: y)
  case (Cons it its)
  obtain p mk where it: "it = (p, mk)" by force
  have p: "payload_ok h p" using Cons.prems(2) it by simp
  have b: "case begun y ts of None \<Rightarrow> opens h p | Some t \<Rightarrow> t = ts" using Cons.prems(4) it by (simp add: begun_def)
  show ?case
  proof (cases its)
    case Nil
    then show ?thesis using Cons.prems(3,5) it p b by simp
  next
    case (Cons it2 its2)
    then have mk: "\<not> mk" "map snd its = replicate (length its - 1) False @ [True]" using Cons.prems(3) it by auto
    let ?y = "y @ contribution h p"
    have ne: "?y \<noteq> []" using contribution_nonempty [OF p] by simp
    have "flat_ok h (begun ?y ts) (map (\<lambda>it. (ts, pts, it)) its @ rest) \<and>
        units h ?y (map (\<lambda>it. (ts, pts, it)) its @ rest) = (?y @ concat (map (contribution h \<circ> fst) its), ts) # units h [] rest"
      by (rule Cons.IH [OF _ _ mk(2) _ Cons.prems(5)]) (use Cons.prems(2) ne Cons in auto)
    moreover have "begun ?y ts = Some ts" using ne by (simp add: begun_def)
    ultimately show ?thesis using it mk(1) p b by (simp add: o_def)
  qed
qed simp

lemma flat_packets_append: "flat_packets s (xs @ ys) seq = flat_packets s xs seq @ flat_packets s ys (seq + of_nat (length xs))"
  by (induction s xs seq rule: flat_packets.induct) (auto simp: ac_simps)

lemma flat_packets_unit: "flat_packets s (map (\<lambda>it. (ts, pts, it)) its) seq = rtp_packets s ts pts its seq"
  by (induction s ts pts its seq rule: rtp_packets.induct) auto

lemma flat_packets_same: "same_stream s t \<Longrightarrow> flat_packets t its seq = flat_packets s its seq"
  by (induction s its seq rule: flat_packets.induct) (auto simp: same_stream_def rtp_packet_def)

definition video_codec :: "bool \<Rightarrow> rtp_payloader_codec" where
  "video_codec h = (if h then RTP_PAYLOADER_CODEC_H265 else RTP_PAYLOADER_CODEC_H264)"

lemma rtp_pay_ok:
  "\<forall>au \<in> set aus. access_unit_ok h au \<Longrightarrow> rp_codec s = video_codec h \<Longrightarrow> 15 < rp_mtu s \<Longrightarrow> rp_mtu s \<le> 65507 \<Longrightarrow> plenty m \<Longrightarrow>
   \<exists>s1 m1 its. rtp_pay (Some f) (map encoded aus) (s, m) = Some (s1, m1, flat_packets s its (rp_seq s)) \<and> flat_ok h None its \<and>
     units h [] its = map (\<lambda>(cns, pts). (annexb (map snd cns), rtp_payloader_pts_to_rtp_ts pts 90000)) aus"
proof (induction aus arbitrary: s m)
  case Nil
  show ?case by (intro exI [of _ s] exI [of _ m] exI [of _ "[]"]) simp
next
  case (Cons au aus)
  obtain cns pts where au: "au = (cns, pts)" by force
  let ?ts = "rtp_payloader_pts_to_rtp_ts pts 90000"
  have a: "cns \<noteq> []" "\<forall>(c, n) \<in> set cns. is_start_code c \<and> nal_ok h n" "length (byte_stream cns) < 2 ^ 31"
    using Cons.prems(1) by (auto simp: au access_unit_ok_def)
  have ready: "rtp_ready (s, m, [])" using Cons.prems by (simp add: rtp_ready_def)
  obtain r io1 its where
    p: "rtp_payloader_packetize_h26x (Some f) h (byte_stream cns) pts (s, m, []) = Some (r, io1)"
      "sends ?ts pts its (s, m, []) io1" "unit_items h True (annexb (map snd cns)) True its"
    using rtp_packetize_ok [OF refl a(1,2) ready, of f pts] by blast
  obtain s1 m1 o1 where io1: "io1 = (s1, m1, o1)" by (metis prod_cases3)
  have 1: "rtp_payloader_packetize_h26x (Some f) h (byte_stream cns) pts (s, m, []) = Some (r, (s1, m1, o1))"
      "sends ?ts pts its (s, m, []) (s1, m1, o1)" "unit_items h True (annexb (map snd cns)) True its"
    using p io1 by simp_all
  have "byte_stream cns \<noteq> []" using a(1,2) by (cases cns) (auto simp: byte_stream_def nal_ok_def)
  then have push: "rtp_payloader_pad_push (Some f) (encoded au) (s, m) = Some (r, (s1, m1, o1))"
    using 1(1) Cons.prems(2) a(3) by (cases h) (simp_all add: rtp_payloader_pad_push_def encoded_def au video_codec_def Let_def)
  have s1: "same_stream s s1" "plenty m1" "rp_seq s1 = rp_seq s + of_nat (length its)" "o1 = rtp_packets s ?ts pts its (rp_seq s)"
    using 1(2) by (auto simp: sends_def)
  obtain s2 m2 its2 where
    2: "rtp_pay (Some f) (map encoded aus) (s1, m1) = Some (s2, m2, flat_packets s1 its2 (rp_seq s1))" "flat_ok h None its2"
      "units h [] its2 = map (\<lambda>(cns, pts). (annexb (map snd cns), rtp_payloader_pts_to_rtp_ts pts 90000)) aus"
    using Cons.IH [of s1 m1] Cons.prems s1(1,2) by (auto simp: same_stream_def)
  let ?its = "map (\<lambda>it. (?ts, pts, it)) its @ its2"
  have u: "its \<noteq> []" "\<forall>(p, k) \<in> set its. payload_ok h p" "map snd its = replicate (length its - 1) False @ [True]"
    "opens h (fst (hd its))" "concat (map (contribution h \<circ> fst) its) = annexb (map snd cns)"
    using 1(3) by (auto simp: unit_items_def)
  have "flat_ok h None ?its" "units h [] ?its = (annexb (map snd cns), ?ts) # units h [] its2"
    using flat_unit [OF u(1,2,3) _ 2(2), of "[]" ?ts pts] u(4,5) by (auto simp: begun_def)
  moreover have "rtp_pay (Some f) (map encoded (au # aus)) (s, m) = Some (s2, m2, flat_packets s ?its (rp_seq s))"
    using push 2(1) s1(3,4) by (simp add: flat_packets_append flat_packets_unit flat_packets_same [OF s1(1)])
  ultimately show ?case using 2(3) by (intro exI [of _ s2] exI [of _ m2] exI [of _ ?its]) (simp add: au)
qed

lemma units_received: "map (unit_out 90000) (map (\<lambda>(cns, pts). (annexb (map snd cns), rtp_payloader_pts_to_rtp_ts pts 90000)) aus) = map received aus"
  by (auto simp: unit_out_def received_def rtp_time_def)

text \<open>The receiver of a stream: for the same codec, payload type and SSRC as the sender, at 90 kHz, between two access units.\<close>

definition listens :: "bool \<Rightarrow> rtp_payloader \<Rightarrow> rtp_depayloader \<Rightarrow> bool" where
  "listens h s d \<longleftrightarrow> rd_fits h s d \<and> rd_clock_rate d = 90000 \<and> \<not> rd_au_active d \<and> \<not> rd_h264_discontinuity_pending d"

text \<open>What \<open>rtp_time\<close> leaves of a time stamp: less than a tick of the clock is lost, up to 47721 seconds.\<close>

lemma rtp_time_close:
  assumes "unat pts < 47721000000000"
  shows "unat (rtp_time pts) \<le> unat pts \<and> unat pts < unat (rtp_time pts) + 11113"
proof -
  define n where "n = unat pts"
  have n: "n < 47721000000000" using assms by (simp add: n_def)
  let ?t = "n * 90000 div 1000000000"
  have t: "?t < 2 ^ 32" using n by simp
  have m: "unat (pts * 90000) = n * 90000" using n by (simp add: unat_mult_lem [THEN iffD1] n_def)
  have a: "rtp_payloader_pts_to_rtp_ts pts 90000 = of_nat ?t"
  proof -
    have "unat (pts * 90000 div 1000000000) = ?t" using m by (simp add: unat_div)
    then show ?thesis
      using t by (simp add: word_unat_eq_iff rtp_payloader_pts_to_rtp_ts_def unsigned_ucast_eq unsigned_take_bit_eq unat_of_nat take_bit_nat_eq_self)
  qed
  have u: "unat (ucast (of_nat ?t :: u32) :: u64) = ?t" using t by (simp add: unsigned_ucast_eq unsigned_take_bit_eq unat_of_nat take_bit_nat_eq_self)
  have "?t * 1000000000 < 2 ^ 64" using t by simp
  then have "unat ((ucast (of_nat ?t :: u32) :: u64) * 1000000000) = ?t * 1000000000"
    using u unat_mult_lem [of "ucast (of_nat ?t :: u32) :: u64" 1000000000] by simp
  then have "unat (rtp_time pts) = ?t * 1000000000 div 90000"
    by (simp add: rtp_time_def a rtp_depayloader_ts_to_pts_def unat_div)
  moreover have "?t * 1000000000 \<le> n * 90000" "n * 90000 < 1000000000 + ?t * 1000000000" using dividend_less_div_times [of 1000000000 "n * 90000"] by simp_all
  moreover have "(k div 90000) * 90000 \<le> k" "k < 90000 + (k div 90000) * 90000" for k :: nat using dividend_less_div_times [of 90000 k] by simp_all
  note this [of "?t * 1000000000"]
  ultimately show ?thesis unfolding n_def [symmetric] by linarith
qed

text \<open>C39: video survives the way over the network.  A stream of access units of H.264 or H.265 comes out of the depayloader as
  it went into the payloader, unit by unit and in order: the same NAL units, bit for bit, whether they were sent whole or in fragments, each behind
  a start code of four bytes, with the time stamp the clock of 90 kHz leaves and not marked as incomplete; nothing else comes out.\<close>

theorem rtp_roundtrip:
  assumes "\<forall>au \<in> set aus. access_unit_ok h au" and "rp_codec s = video_codec h" "15 < rp_mtu s" "rp_mtu s \<le> 65507" and "plenty m" "plenty m'"
    and "listens h s d" "rd_have_seq d \<longrightarrow> rd_next_seq d = rp_seq s"
  shows "\<exists>s1 m1 ps d1 m2. rtp_pay (Some f) (map encoded aus) (s, m) = Some (s1, m1, ps) \<and>
    depay_rtp (Some g) ps (d, m') = (d1, m2, map received aus)"
proof -
  obtain s1 m1 its where p: "rtp_pay (Some f) (map encoded aus) (s, m) = Some (s1, m1, flat_packets s its (rp_seq s))" "flat_ok h None its"
    "units h [] its = map (\<lambda>(cns, pts). (annexb (map snd cns), rtp_payloader_pts_to_rtp_ts pts 90000)) aus"
    using rtp_pay_ok [OF assms(1-5), of f] by blast
  have d: "rd_fits h s d" "rd_clock_rate d = 90000" "au_holds d [] 0" "\<not> rd_h264_discontinuity_pending d" "flat_ok h (begun [] 0) its"
    using assms(7) p(2) by (auto simp: listens_def au_holds_def begun_def)
  obtain d1 m2 where "depay_rtp (Some g) (flat_packets s its (rp_seq s)) (d, m') = (d1, m2, map (unit_out (rd_clock_rate d)) (units h [] its))"
    using depay_rtp_lossless [OF d(5,1,3) assms(8) d(4) assms(6), of g] by blast
  then show ?thesis using p(1) unfolding p(3) d(2) units_received by blast
qed

text \<open>C40: loss does not corrupt H.264.  Whichever packets of a stream are lost (at most 65535 in a row, for the sequence number has
  16 bits) on the way to a receiver that was in step, every access unit that comes out without the mark \<open>ZST_BUFFER_FLAG_DROP\<close> is one
  that went in, complete and in its order: no unit is spliced from two, misses a fragment, or comes twice.\<close>

theorem rtp_loss_safe:
  assumes "\<forall>au \<in> set aus. access_unit_ok False au" and "rp_codec s = video_codec False" "15 < rp_mtu s" "rp_mtu s \<le> 65507" and "plenty m" "plenty m'"
    and "listens False s d" "rd_have_seq d" "rd_next_seq d = rp_seq s"
  shows "\<exists>s1 m1 ps. rtp_pay (Some f) (map encoded aus) (s, m) = Some (s1, m1, ps) \<and>
    (\<forall>qs. lossy 0 ps qs \<longrightarrow> (\<exists>d1 m2 out. depay_rtp (Some g) qs (d, m') = (d1, m2, out) \<and>
       subseq (filter (\<lambda>b. \<not> ro_drop b) out) (map received aus)))"
proof -
  obtain s1 m1 its where p: "rtp_pay (Some f) (map encoded aus) (s, m) = Some (s1, m1, flat_packets s its (rp_seq s))" "flat_ok False None its"
    "units False [] its = map (\<lambda>(cns, pts). (annexb (map snd cns), rtp_payloader_pts_to_rtp_ts pts 90000)) aus"
    using rtp_pay_ok [OF assms(1-5), of f] by blast
  have d: "rd_fits False s d" "rd_clock_rate d = 90000" "au_holds d [] 0" "\<not> rd_h264_discontinuity_pending d" "flat_ok False (begun [] 0) its"
    using assms(7) p(2) by (auto simp: listens_def au_holds_def begun_def)
  have "\<exists>d1 m2 out. depay_rtp (Some g) qs (d, m') = (d1, m2, out) \<and> subseq (filter (\<lambda>b. \<not> ro_drop b) out) (map received aus)"
    if "lossy 0 (flat_packets s its (rp_seq s)) qs" for qs
    using depay_rtp_lossy [OF that refl d(5,1) assms(8,6), of "[]" 0 "units False [] its" g] d(3,4) assms(9)
    unfolding p(3) d(2) units_received by auto
  then show ?thesis using p(1) by blast
qed

definition demo_units :: "access_unit list" where
  "demo_units = [([([0, 0, 0, 1], [0x67, 5]), ([0, 0, 1], [0x65, 7, 7, 7, 7, 7, 7, 7])], 1000000), ([([0, 0, 1], [0x41, 3])], 2000000)]"

definition demo_sender :: rtp_payloader where
  "demo_sender = rtp_payloader_open False (zst_rtp_payloader_create\<lparr>rp_mtu := 18\<rparr>)"

definition demo_receiver :: rtp_depayloader where
  "demo_receiver = rtp_depayloader_open zst_rtp_depayloader_create"

lemma demo_stream:
  "\<forall>au \<in> set demo_units. access_unit_ok False au" "rp_codec demo_sender = video_codec False" "15 < rp_mtu demo_sender" "rp_mtu demo_sender \<le> 65507"
  "listens False demo_sender demo_receiver" "rd_have_seq demo_receiver \<longrightarrow> rd_next_seq demo_receiver = rp_seq demo_sender"
  by (auto simp: demo_units_def access_unit_ok_def is_start_code_def nal_ok_def byte_stream_def demo_sender_def rtp_payloader_open_def
      zst_rtp_payloader_create_def video_codec_def listens_def rd_fits_def demo_receiver_def rtp_depayloader_open_def rtp_depayloader_reset_au_def
      zst_rtp_depayloader_create_def)

theorem rtp_roundtrip_witness:
  "\<exists>s1 m1 ps d1 m2. rtp_pay (Some (\<lambda>_. ZST_OK)) (map encoded demo_units) (demo_sender, []) = Some (s1, m1, ps) \<and>
    map ab_data (snd (snd (depay_rtp (Some (\<lambda>_. ZST_OK)) ps (demo_receiver, [])))) =
      [[0, 0, 0, 1, 0x67, 5, 0, 0, 0, 1, 0x65, 7, 7, 7, 7, 7, 7, 7], [0, 0, 0, 1, 0x41, 3]]"
proof -
  have r: "map ab_data (map received demo_units) = [[0, 0, 0, 1, 0x67, 5, 0, 0, 0, 1, 0x65, 7, 7, 7, 7, 7, 7, 7], [0, 0, 0, 1, 0x41, 3]]"
    by (simp add: received_def demo_units_def annexb_def start_code_def)
  from rtp_roundtrip [OF demo_stream(1-4) plenty_Nil plenty_Nil demo_stream(5,6), of "\<lambda>_. ZST_OK" "\<lambda>_. ZST_OK"] obtain s1 m1 ps d1 m2 where
    "rtp_pay (Some (\<lambda>_. ZST_OK)) (map encoded demo_units) (demo_sender, []) = Some (s1, m1, ps)"
    "depay_rtp (Some (\<lambda>_. ZST_OK)) ps (demo_receiver, []) = (d1, m2, map received demo_units)" by blast
  with r show ?thesis by (metis snd_conv)
qed

text \<open>The first packet is lost.\<close>

theorem rtp_loss_safe_witness:
  "\<exists>s1 m1 p ps d1 m2 out. rtp_pay (Some (\<lambda>_. ZST_OK)) (map encoded demo_units) (demo_sender, []) = Some (s1, m1, p # ps) \<and>
    depay_rtp (Some (\<lambda>_. ZST_OK)) ps (demo_receiver\<lparr>rd_have_seq := True, rd_next_seq := 0x7000\<rparr>, []) = (d1, m2, out) \<and>
    subseq (filter (\<lambda>b. \<not> ro_drop b) out) (map received demo_units)"
proof -
  let ?d = "demo_receiver\<lparr>rd_have_seq := True, rd_next_seq := 0x7000\<rparr>"
  have d: "listens False demo_sender ?d" "rd_have_seq ?d" "rd_next_seq ?d = rp_seq demo_sender"
    using demo_stream(5) by (auto simp: listens_def rd_fits_def demo_sender_def rtp_payloader_open_def)
  from rtp_loss_safe [OF demo_stream(1-4) plenty_Nil plenty_Nil d, of "\<lambda>_. ZST_OK" "\<lambda>_. ZST_OK"] obtain s1 m1 ps where
    ps: "rtp_pay (Some (\<lambda>_. ZST_OK)) (map encoded demo_units) (demo_sender, []) = Some (s1, m1, ps)"
    "\<And>qs. lossy 0 ps qs \<Longrightarrow> \<exists>d1 m2 out. depay_rtp (Some (\<lambda>_. ZST_OK)) qs (?d, []) = (d1, m2, out) \<and>
      subseq (filter (\<lambda>b. \<not> ro_drop b) out) (map received demo_units)" by blast
  obtain s2 m2 its where i: "rtp_pay (Some (\<lambda>_. ZST_OK)) (map encoded demo_units) (demo_sender, []) = Some (s2, m2, flat_packets demo_sender its (rp_seq demo_sender))"
    "units False [] its = map (\<lambda>(cns, pts). (annexb (map snd cns), rtp_payloader_pts_to_rtp_ts pts 90000)) demo_units"
    using rtp_pay_ok [OF demo_stream(1-4) plenty_Nil] by blast
  then have "its \<noteq> []" by (auto simp: demo_units_def)
  then obtain p qs where p: "ps = p # qs" using ps(1) i(1) by (cases ps; cases its) auto
  have same: "lossy g xs xs" for g and xs :: "av_buffer list" by (induction xs arbitrary: g) (auto intro: lossy.intros)
  have "lossy 0 ps qs" unfolding p by (rule lossy_lose) (simp_all add: same)
  then show ?thesis using ps p by blast
qed

section \<open>Where it goes wrong\<close>

text \<open>An \<open>mtu\<close> of 13 or 14, which \<open>rtp_payloader_set_property\<close> accepts, leaves no room in a fragment: the loop over them does not end.\<close>

lemma rtp_small_mtu_no_end:
  assumes "rp_mtu (fst io) \<in> {13, 14}" and "2 < length n"
  shows "rtp_payloader_send_h264_nal ans ts pts n mk io = None"
proof -
  have "rtp_send_fu ans ts pts ind ty k mk True (drop 1 n) (ZST_OK, io) = None" if "k \<le> 0" for ind ty k
    using assms(2) that by (subst rtp_send_fu.simps) auto
  moreover have "n \<noteq> []" using assms(2) by auto
  ultimately show ?thesis using assms by (auto simp: rtp_payloader_send_h264_nal_def Let_def)
qed

text \<open>Audio samples are cut into pieces of \<open>mtu\<close> bytes, and with the header the packet is larger than that: with \<open>strict-mtu\<close>, which is the
  default, every full piece is refused.\<close>

lemma pcm_full_piece_refused:
  assumes "rp_strict_mtu s" "0 \<le> rp_mtu s" "length p = nat (rp_mtu s)"
  shows "fst (rtp_payloader_push_packet ans [] p ts mk pts (s, m, out)) = ZST_ERROR"
  using assms by (auto simp: rtp_payloader_push_packet_def rtp_payloader_make_packet_def Let_def)

text \<open>A receiver that is just opened and comes in at the last packet of an access unit hands on what is in it as if it were all.\<close>

lemma rtp_late_joiner_unmarked:
  assumes "payload_ok h p" "opens h p" "listens h s d" "\<not> rd_have_seq d" "plenty m"
  shows "\<exists>r d1 m1. rtp_depayloader_pad_push (Some g) (rtp_packet s seq ts pts p True) (d, m) = (r, (d1, m1, [unit_out 90000 (contribution h p, ts)]))"
proof -
  have ok: "flat_ok h (begun [] ts) [(ts, pts, p, True)]" using assms(1,2) by (simp add: begun_def)
  have a: "au_holds d [] ts" "rd_fits h s d" "rd_clock_rate d = 90000" "\<not> rd_h264_discontinuity_pending d"
    using assms(3) by (auto simp: listens_def au_holds_def)
  obtain r d1 m1 where "rtp_depayloader_pad_push (Some g) (rtp_packet s seq ts pts p True) (d, m) =
      (r, (d1, m1, if True then [unit_out (rd_clock_rate d) ([] @ contribution h p, ts)] else []))"
    using push_in_sync [OF ok a(2,1) _ a(4) assms(5), of seq g] assms(4) by blast
  then show ?thesis using a(3) by auto
qed

text \<open>So does a receiver of H.265 after a gap: only for H.264 is the access unit marked.\<close>

lemma rtp_h265_gap_unmarked:
  assumes "payload_ok True p" "opens True p" "rd_fits True s d" "rd_clock_rate d = 90000" "rd_have_seq d" "seq \<noteq> rd_next_seq d" "plenty m"
  shows "\<exists>r d1 m1. rtp_depayloader_pad_push (Some g) (rtp_packet s seq ts pts p True) (d, m) = (r, (d1, m1, [unit_out 90000 (contribution True p, ts)]))"
proof -
  let ?c = "counted seq (rtp_packet s seq ts pts p True) d"
  let ?v = "\<lparr>rv_payload = p, rv_payload_type = rp_payload_type s AND 0x7F, rv_marker = True, rv_seq = seq, rv_timestamp = ts, rv_ssrc = rp_ssrc s\<rparr>"
  have c: "rd_clock_rate ?c = 90000" "rd_codec ?c = RTP_DEPAYLOADER_CODEC_H265" "au_holds ?c [] ts"
    using assms(3-6) by (auto simp: counted_def rtp_watch_seq_def Let_def rtp_depayloader_reset_au_def rd_fits_def au_holds_def)
  obtain r d1 m1 where "depay_h26x True (Some g) ?v (?c, m, []) = (r, (d1, m1,
      if True then [\<lparr>ab_data = [] @ contribution True p, ab_pts = rtp_depayloader_ts_to_pts ts (rd_clock_rate ?c), ab_eos = False, ro_duration = 0,
                   ro_drop = (rd_codec ?c = RTP_DEPAYLOADER_CODEC_H264 \<and> rd_h264_discontinuity_pending ?c)\<rparr>] else []))"
    by (rule depay_in_sync [of True p ?v ts True ?c "[]" m g]) (use assms c(3) in simp_all)
  then show ?thesis unfolding pad_push_video [OF assms(3) payload_ok_length [OF assms(1)]] using c by (simp add: unit_out_def)
qed

end
