(* ===== verification/Spec2Isabelle.thy ===== *)
theory Spec2Isabelle
  imports Zst_Queue Zst_Bus Zst_Property Zst_Pacer Zst_Pipeline_Laws Zst_Scheduler_Laws Zst_St2110_Video_Laws
    Zst_St2110_Compressed_Laws Zst_St2110_Audio_Laws Zst_Rtp_Laws
begin

text \<open>
  \<^bold>\<open>zstreamer: a verification of the core of the media streaming library\<close>

  zstreamer is a C library for media pipelines.  Elements process buffers and are joined by pads; a
  pad carries the capabilities the two sides agreed on; buffers come from pools and pass between
  threads through bounded queues; an application follows the pipeline through a bus of events.  Upon
  this core stand the elements: sources, sinks, codecs, containers and network protocols, among
  them the professional media transport of SMPTE ST 2110.

  \<^bold>\<open>Theories and what they model\<close>

  \<^item> \<open>Zst_Prelude\<close>: fixed-width integers, result codes, C strings in arrays, shared facts.
  \<^item> \<open>Zst_Buffer\<close>: the heap, the CPU allocator of \<open>src/zst_allocator.c\<close>, creation and reference
    counting of buffers of \<open>src/zst_buffer.c\<close>.
  \<^item> \<open>Zst_Buffer_Pool\<close>: \<open>src/zst_buffer_pool.c\<close> and \<open>zst_buffer_unref\<close>, which recycles through a pool.
    Shown: no operation leaks or hands a buffer out twice, and the counters of the pool are right.
  \<^item> \<open>Zst_Fifo\<close>: the contract of a first-in first-out channel as a locale, with what follows for whole
    runs; interpreted for the ring queue and for the bus.
  \<^item> \<open>Zst_Queue\<close>: the bounded ring queue of \<open>src/zst_queue.c\<close> with its wrapping sequence numbers.
  \<^item> \<open>Zst_Caps\<close>: capabilities of \<open>src/zst_caps.c\<close>, their intersection and fixation, on which the
    negotiation of formats rests; the key/value store of a structure is a locale with its laws.
  \<^item> \<open>Zst_Bus\<close>: events, the bus and its dispatch thread of \<open>src/zst_bus.c\<close>, and the in-band events of
    \<open>src/zst_pad_event.c\<close>.  The dispatch thread is interleaved step by step with threads that post and flush.  Shown: no
    event leaks; events come out in order; the dispatch thread delivers each once until a flush, and ends after it.
  \<^item> \<open>Zst_Text\<close>: \<open>atoi\<close> and the conversion \<open>%d\<close>, with which properties are read and written.
  \<^item> \<open>Zst_Redundancy\<close>: seamless protection switching (ST 2022-7) of
    \<open>src/st2110_redundancy_demux.c\<close> and \<open>src/st2110_redundancy_mux.c\<close>.
  \<^item> \<open>Zst_Property\<close>: the typed setters and getters of properties of \<open>src/zst_element.c\<close>: reading and
    printing of numbers, the check against the descriptor of the element.  The locale
    \<open>text_properties\<close> states what an element's textual setter and getter promise; it is interpreted
    for the demultiplexer and the multiplexer of \<open>Zst_Redundancy\<close>.
  \<^item> \<open>Zst_Pacer\<close>: the timestamp pacer of \<open>src/zst_timestamp_pacer.c\<close>.
  \<^item> \<open>Zst_Element\<close>: the state machine of \<open>src/zst_element.c\<close> and the children of a bin of
    \<open>src/zst_bin.c\<close>.  Shown: a change of state of a whole tree happens completely or is rolled back,
    the hooks run in the documented order, the recursion returns.  The locales \<open>state_setter\<close> and
    \<open>tracing_setter\<close> state what a bin relies on when it sets the state of a child; both are
    interpreted on the setter of a tree itself.
  \<^item> \<open>Zst_Pad\<close>: pads, templates, ghost pads, probes, links, negotiation, queries, events, segments and
    the push of a buffer of \<open>src/zst_pad.c\<close>, over a graph of pads with the references they hold.
  \<^item> \<open>Zst_Pad_Links\<close>: what holds of that graph: links are mutual and keep both ends alive, a successful
    negotiation gives both sides the same caps, which keep what either side set, a segment keeps exactly the buffers that overlap it,
    the decision of quality of service is exact.
  \<^item> \<open>Zst_Graph\<close>, \<open>Zst_Graph_Walks\<close>: the walks of \<open>src/zst_pipeline.c\<close> over elements and links:
    topological sort, ranks, and the count of elements of a type downstream.  Shown: the sort
    rearranges and, without cycles, orders along the links; ranks rise along links and do not wrap; the
    count is that of the elements reachable.
  \<^item> \<open>Zst_Pipeline\<close>, \<open>Zst_Pipeline_Laws\<close>: the rest of \<open>src/zst_pipeline.c\<close>: the array of elements, the
    clock, the sizes of pools, the states, and reconfiguration while running.  Shown: a change of state
    is complete or taken back over the whole pipeline, which uses the locale \<open>state_setter\<close> once more;
    pools are large enough for the queues behind them; a reconfiguration ends in a sorted pipeline; an
    element added while running joins or leaves.
  \<^item> \<open>Zst_Scheduler\<close>, \<open>Zst_Scheduler_Laws\<close>: \<open>src/zst_scheduler.c\<close>.  A thread is the list of instructions it
    still has to execute, one per access to shared memory, call of the ready queue (that of \<open>Zst_Queue\<close>) or
    callback; the steps interleave any number of workers, the application and callers of
    \<open>zst_scheduler_wake\<close>.  Shown by an invariant on who owns an element's flag, counter and token: no
    two calls of \<open>process\<close> of one element that the scheduler makes overlap, no task is lost, the ready queue does not
    overflow; and that a stop can leave a task behind (\<open>stop_leaves_task\<close>).  A push runs \<open>process\<close> of the next element in
    the thread that pushes, without the flag; that too is an instruction, and such calls may overlap.
  \<^item> \<open>Zst_St2110_Video\<close>, \<open>Zst_St2110_Video_Laws\<close>: uncompressed video over RTP of
    \<open>src/st2110_20_payloader.c\<close> and \<open>src/st2110_20_depayloader.c\<close>.  Shown: a frame cut into packets is put
    together again, whatever the order in which the packets arrive.
  \<^item> \<open>Zst_Rtp\<close>: network byte order and the RTP header, as all RTP elements here use them.
  \<^item> \<open>Zst_St2110_Compressed\<close>, \<open>Zst_St2110_Compressed_Laws\<close>: paced H.264 and H.265 of \<open>src/st2110_21_payloader.c\<close> and
    \<open>src/st2110_21_depayloader.c\<close>, with the search for start codes of \<open>src/zst_media_utils.h\<close>.  Shown: an access unit
    survives its way in whole and fragmented NAL units.
  \<^item> \<open>Zst_St2110_Audio\<close>, \<open>Zst_St2110_Audio_Laws\<close>: PCM audio and ancillary data of \<open>src/st2110_30_payloader.c\<close>,
    \<open>src/st2110_30_depayloader.c\<close>, \<open>src/st2110_40_payloader.c\<close> and \<open>src/st2110_40_depayloader.c\<close>.  Shown: audio
    survives, in packets of whole sample frames with the RTP time of the first.
  \<^item> \<open>Zst_Rtp_Payload\<close>, \<open>Zst_Rtp_Depayload\<close>, \<open>Zst_Rtp_Laws\<close>: the generic elements of \<open>src/rtp_payloader.c\<close> and
    \<open>src/rtp_depayloader.c\<close> for H.264, H.265, AAC and PCM.  Shown: a stream of access units survives; of a stream of H.264
    that lost packets only complete access units come out unmarked.

  \<^bold>\<open>Conventions\<close>

  A pointer is an address option; \<open>None\<close> is \<open>NULL\<close>.  Where a component works on one object only, the
  object is a record passed by value, and calls with a \<open>NULL\<close> receiver, which all return an error at
  once, have no counterpart.  Whether an allocation succeeds is data: a function of its number in
  \<open>Zst_Buffer\<close>, a script consumed from the front in \<open>Zst_Caps\<close> and \<open>Zst_Bus\<close>; theorems that need
  memory say so by name.  An operation that holds a mutex is one step; where it waits, what other
  threads did until it woke up is an argument, a list with one entry per wake-up, and the result says
  whether it is still waiting when the list is used up.  Counters of waiting threads and condition
  signals, which only decide who wakes up, are not in the state.  Unsigned arithmetic wraps at its
  width; signed differences are read in two's complement.  Callbacks and clock readings are arguments.
  An operation on the graph of pads returns an option: \<open>None\<close> is the use of a pad that was freed, or a
  recursion that exhausted its fuel; theorems that say an operation returns exclude both.  The hooks of
  an element may fail at any call, as an argument says, and a trace of the calls is part of the result.
  The scheduler is a step relation over interleaved threads, in which the calls of the ready queue are single
  steps; the dispatch thread of the bus takes turns with others as a list says.  Threads that reconfigure a pipeline are numbers, and a thread that waits for another is given the list
  of what happened before each of its polls.  An element is in the array of a pipeline at most once, as
  the theorems on sorting assume.

  \<^bold>\<open>Bounds\<close>

  The flush of the ring queue drains with a fuel of one more than the number of its slots, which is
  shown to be enough; the loop of the pacer terminates by a measure, under the assumption that a sleep
  lasts as long as asked; the dispatch thread of the bus runs as many steps as it is given, and how many it needs to
  deliver or to end is part of its theorem.  The loop over the NAL units of a buffer has a fuel of one more than the
  bytes of the buffer, which is enough as each start code has three; the theorems on fragments need room for a byte of payload in a packet.  A change of state recurses with
  a fuel of three per level of the tree of elements, which is shown to be enough.  Events and segments
  travel through at most as many pads as the depth limit of the code allows; the fuel of a push bounds
  the length of the chain of ghost pads.  The walks over a pipeline nest at most one deeper than it has
  elements, and a change of its state at most three deep; both are shown to be enough.

  \<^bold>\<open>Not modelled\<close>

  Device, GPU and codec elements and the allocators for their memory call libraries that are not part
  of the repository.  The network elements are mostly socket input and output.  Of ST 2110, the formats of part 22 and
  forward error correction are left out, and of the RTP elements the caps of their pads.  Of bins, the functions
  that push through ghost pads and the counting of end-of-stream are left out; of elements, the pads
  added while running and seeking.  Of the pipeline, its
  destruction and the wait for tasks of the scheduler are left out; of the scheduler, its destruction, and
  elements that leave while their tasks are in flight.
  The list of components in the manifest names each part with the reason.
\<close>

end
